(* ===== verification/Prelude.thy ===== *)
theory Prelude
  imports Main "HOL-Library.AList"
begin

text \<open>
  Shared vocabulary of the development: Python dictionaries as association lists in
  insertion order, Python exceptions as values, reachability of a step relation, and
  the two interfaces (locales) every stateful component uses: an invariant of a
  transition system and the contract of a reentrant lock.
\<close>

section \<open>Collections of facts\<close>

named_theorems dict_simps \<open>evaluation and lookup rules for dictionaries\<close>
named_theorems lock_simps \<open>definitions of lock operations and their results\<close>

section \<open>Python dictionaries\<close>

text \<open>
  A \<^verbatim>\<open>dict\<close> keeps its insertion order and its keys are distinct: \<open>d[k] = v\<close> replaces the
  value in place or appends, \<open>del d[k]\<close> and \<open>d.pop(k, None)\<close> remove the entry. The key
  set is \<open>dkeys\<close>; truth of a \<^verbatim>\<open>dict\<close> is its being nonempty.
\<close>

type_synonym ('k, 'v) dict = "('k \<times> 'v) list"

definition dget :: "('k, 'v) dict \<Rightarrow> 'k \<Rightarrow> 'v option" where
  "dget d k = map_of d k"

definition dset :: "('k, 'v) dict \<Rightarrow> 'k \<Rightarrow> 'v \<Rightarrow> ('k, 'v) dict" where
  "dset d k v = AList.update k v d"

definition ddel :: "('k, 'v) dict \<Rightarrow> 'k \<Rightarrow> ('k, 'v) dict" where
  "ddel d k = AList.delete k d"

definition dhas :: "('k, 'v) dict \<Rightarrow> 'k \<Rightarrow> bool" where
  "dhas d k = (dget d k \<noteq> None)"

definition dkeys :: "('k, 'v) dict \<Rightarrow> 'k list" where
  "dkeys d = map fst d"

definition dvals :: "('k, 'v) dict \<Rightarrow> 'v list" where
  "dvals d = map snd d"

definition dgetd :: "('k, 'v) dict \<Rightarrow> 'k \<Rightarrow> 'v \<Rightarrow> 'v" where
  "dgetd d k v = (case dget d k of None \<Rightarrow> v | Some w \<Rightarrow> w)"

definition dict_ok :: "('k, 'v) dict \<Rightarrow> bool" where
  "dict_ok d = distinct (map fst d)"

lemma dget_Nil [simp, dict_simps]: "dget [] k = None"
  by (simp add: dget_def)

lemma dget_Cons [dict_simps]: "dget ((a, b) # d) k = (if k = a then Some b else dget d k)"
  by (simp add: dget_def)

lemma dget_dset [simp, dict_simps]: "dget (dset d k v) j = (if j = k then Some v else dget d j)"
  by (simp add: dget_def dset_def update_conv')

lemma dget_ddel [simp, dict_simps]: "dget (ddel d k) j = (if j = k then None else dget d j)"
  by (simp add: dget_def ddel_def delete_conv')

lemma dhas_simps [simp, dict_simps]:
  "dhas [] k = False" "dhas (dset d k v) j = (j = k \<or> dhas d j)"
  "dhas (ddel d k) j = (j \<noteq> k \<and> dhas d j)"
  by (auto simp: dhas_def)

lemma dhas_Cons [dict_simps]: "dhas ((a, b) # d) k = (k = a \<or> dhas d k)"
  by (simp add: dhas_def dget_Cons)

lemma dset_Nil [simp, dict_simps]: "dset [] k v = [(k, v)]"
  by (simp add: dset_def)

lemma dset_Cons [dict_simps]:
  "dset ((a, b) # d) k v = (if a = k then (k, v) # d else (a, b) # dset d k v)"
  by (simp add: dset_def)

lemma ddel_Nil [simp, dict_simps]: "ddel [] k = []"
  by (simp add: ddel_def)

lemma ddel_Cons [dict_simps]: "ddel ((a, b) # d) k = (if a = k then ddel d k else (a, b) # ddel d k)"
  by (simp add: ddel_def delete_simps)

lemma dset_ne_Nil [simp]: "dset d k v \<noteq> []"
  by (cases d) (auto simp: dset_Cons split: if_splits)

lemma dict_ok_simps [simp]:
  "dict_ok []" "dict_ok d \<Longrightarrow> dict_ok (dset d k v)" "dict_ok d \<Longrightarrow> dict_ok (ddel d k)"
  by (auto simp: dict_ok_def dset_def ddel_def distinct_update distinct_delete)

lemma dhas_keys: "dhas d k = (k \<in> set (dkeys d))"
  by (auto simp: dhas_def dget_def dkeys_def map_of_eq_None_iff)

lemma dkeys_dset [simp]: "set (dkeys (dset d k v)) = insert k (set (dkeys d))"
  by (auto simp flip: dhas_keys)

lemma dkeys_ddel [simp]: "set (dkeys (ddel d k)) = set (dkeys d) - {k}"
  by (auto simp flip: dhas_keys)

lemma dget_None_all: "(\<forall>k. dget d k = None) = (d = [])"
  by (cases d) (auto simp: dget_Cons)

lemma dhas_None_all: "(\<forall>k. \<not> dhas d k) = (d = [])"
  by (simp add: dhas_def dget_None_all)

lemma dvals_dget: "dict_ok d \<Longrightarrow> (v \<in> set (dvals d)) = (\<exists>k. dget d k = Some v)"
  by (force simp: dvals_def dget_def dict_ok_def map_of_eq_Some_iff)

lemma ddel_absent: "\<not> dhas d k \<Longrightarrow> ddel d k = d"
  by (simp add: dhas_keys dkeys_def ddel_def)

lemma dset_absent: "\<not> dhas d k \<Longrightarrow> dset d k v = d @ [(k, v)]"
  by (induction d) (auto simp: dict_simps dhas_Cons)

lemma ddel_dset_absent: "\<not> dhas d k \<Longrightarrow> ddel (dset d k v) k = d"
  by (induction d) (auto simp: dict_simps dhas_Cons split: if_splits)

lemma ddel_dset_same [simp]: "ddel (dset d k v) k = ddel d k"
  by (induction d) (auto simp: dict_simps)

lemma dset_dset_same: "dset (dset d k v) k w = dset d k w"
  by (induction d) (auto simp: dict_simps)

lemma dset_same: "dget d k = Some v \<Longrightarrow> dset d k v = d"
  by (induction d) (auto simp: dict_simps split: if_splits)

section \<open>Exceptions\<close>

datatype pyerror =
    RuntimeError string | KeyError | ValueError string | TypeError string
  | AttributeError | IndexError | NotImplementedError string | IOError string
  | EOFError | UnicodeError

text \<open>Code that may raise: the exception is \<open>Inl\<close>, the value \<open>Inr\<close>.\<close>

definition bind_sum :: "'e + 'a \<Rightarrow> ('a \<Rightarrow> 'e + 'b) \<Rightarrow> 'e + 'b" where
  "bind_sum x f = (case x of Inl e \<Rightarrow> Inl e | Inr v \<Rightarrow> f v)"

definition raise_if :: "bool \<Rightarrow> 'e \<Rightarrow> 'e + 'a \<Rightarrow> 'e + 'a" where
  "raise_if b e k = (if b then Inl e else k)"

definition andthen :: "'e + 'a \<Rightarrow> 'e + 'b \<Rightarrow> 'e + 'b" where
  "andthen a b = (case a of Inl e \<Rightarrow> Inl e | Inr _ \<Rightarrow> b)"

fun each :: "('a \<Rightarrow> 'e + 'b) \<Rightarrow> 'a list \<Rightarrow> 'e + 'b list" where
  "each f [] = Inr []"
| "each f (x # xs) = bind_sum (f x) (\<lambda>y. bind_sum (each f xs) (\<lambda>ys. Inr (y # ys)))"

named_theorems err_simps \<open>when a computation that may raise returns or raises\<close>

lemma bind_sum_iff [err_simps]:
  "(bind_sum x f = Inr v) = (\<exists>y. x = Inr y \<and> f y = Inr v)"
  "(bind_sum x f = Inl e) = (x = Inl e \<or> (\<exists>y. x = Inr y \<and> f y = Inl e))"
  by (cases x; simp add: bind_sum_def)+

lemma raise_if_iff [err_simps]:
  "(raise_if b e k = Inr v) = (\<not> b \<and> k = Inr v)"
  "(raise_if b e k = Inl d) = (if b then e = d else k = Inl d)"
  by (simp_all add: raise_if_def)

lemma andthen_iff [err_simps]:
  "(andthen a b = Inr v) = ((\<exists>y. a = Inr y) \<and> b = Inr v)"
  "(andthen a b = Inl e) = (a = Inl e \<or> (\<exists>y. a = Inr y) \<and> b = Inl e)"
  by (cases a; simp add: andthen_def)+

lemma bind_sum_simps:
  "bind_sum (Inl e) f = Inl e" "bind_sum (Inr v) f = f v"
  "raise_if True e k = Inl e" "raise_if False e k = k"
  "andthen (Inl e) b = Inl e" "andthen (Inr w) b = b"
  by (simp_all add: bind_sum_def raise_if_def andthen_def)

lemma each_iff [err_simps]: "(each f xs = Inr ys) = list_all2 (\<lambda>x y. f x = Inr y) xs ys"
  by (induction xs arbitrary: ys) (auto simp: bind_sum_iff list_all2_Cons1)

lemma each_error: "each f xs = Inl e \<Longrightarrow> \<exists>x \<in> set xs. f x = Inl e"
  by (induction xs) (auto simp: bind_sum_iff)

text \<open>Computations that may raise, in order; \<^verbatim>\<open>finally\<close> keeps the first error unless its own code raises.\<close>

definition and_then :: "('e + 'a) \<times> 'p \<Rightarrow> ('a \<Rightarrow> 'p \<Rightarrow> ('e + 'b) \<times> 'p) \<Rightarrow> ('e + 'b) \<times> 'p" where
  "and_then x k = (case x of (Inl e, p) \<Rightarrow> (Inl e, p) | (Inr v, p) \<Rightarrow> k v p)"

definition and_finally :: "('e + 'a) \<times> 'p \<Rightarrow> ('p \<Rightarrow> ('e + 'b) \<times> 'p) \<Rightarrow> ('e + 'a) \<times> 'p" where
  "and_finally x f = (case f (snd x) of (Inl e, p) \<Rightarrow> (Inl e, p) | (Inr _, p) \<Rightarrow> (fst x, p))"

text \<open>\<^verbatim>\<open>except BaseException: f(); raise\<close>\<close>

definition on_error :: "('e + 'a) \<times> 'p \<Rightarrow> ('p \<Rightarrow> ('e + 'b) \<times> 'p) \<Rightarrow> ('e + 'a) \<times> 'p" where
  "on_error x f = (case x of (Inr v, p) \<Rightarrow> (Inr v, p) | (Inl e, p) \<Rightarrow> and_finally (Inl e, p) f)"

lemma and_then_simps [simp]: "and_then (Inl e, p) k = (Inl e, p)" "and_then (Inr v, p) k = k v p"
  by (simp_all add: and_then_def)

lemma on_error_simps [simp]: "on_error (Inr v, p) f = (Inr v, p)" "on_error (Inl e, p) f = and_finally (Inl e, p) f"
  by (simp_all add: on_error_def)

lemma and_finally_simps [simp]: "f p = (Inr u, q) \<Longrightarrow> and_finally (r, p) f = (r, q)"
  "f p = (Inl e, q) \<Longrightarrow> and_finally (r, p) f = (Inl e, q)"
  by (simp_all add: and_finally_def)

section \<open>Reachable states and invariants\<close>

type_synonym tid = nat

inductive reach :: "('s \<Rightarrow> bool) \<Rightarrow> ('s \<Rightarrow> 's \<Rightarrow> bool) \<Rightarrow> 's \<Rightarrow> bool"
  for init :: "'s \<Rightarrow> bool" and step :: "'s \<Rightarrow> 's \<Rightarrow> bool" where
  reach_init: "init s \<Longrightarrow> reach init step s"
| reach_step: "reach init step s \<Longrightarrow> step s t \<Longrightarrow> reach init step t"

text \<open>The contract of a transition system and what it keeps of its invariant.\<close>

locale invariant_system =
  fixes init :: "'s \<Rightarrow> bool" and step :: "'s \<Rightarrow> 's \<Rightarrow> bool" and inv :: "'s \<Rightarrow> bool"
  assumes inv_init: "init s \<Longrightarrow> inv s"
    and inv_step: "inv s \<Longrightarrow> step s t \<Longrightarrow> inv t"
begin

lemma reach_inv: "reach init step s \<Longrightarrow> inv s"
  by (induction rule: reach.induct) (blast intro: inv_init inv_step)+

end

section \<open>The contract of a reentrant lock\<close>

text \<open>
  A lock is observed by the number of times each thread holds it. Acquiring never blocks
  here: it says whether the lock was granted. The operations of a lock may do more than
  the contract says (share with readers, refuse in more cases); what the contract
  promises is enough for mutual exclusion and for balanced use.
\<close>

datatype lock_op = Acquire tid | Release tid

fun lock_run :: "(tid \<Rightarrow> 's \<Rightarrow> bool \<times> 's) \<Rightarrow> (tid \<Rightarrow> 's \<Rightarrow> 's option) \<Rightarrow> lock_op list \<Rightarrow> 's \<Rightarrow> 's option"
where
  "lock_run acq rel [] s = Some s"
| "lock_run acq rel (Acquire t # xs) s =
     (case acq t s of (True, s') \<Rightarrow> lock_run acq rel xs s' | (False, _) \<Rightarrow> None)"
| "lock_run acq rel (Release t # xs) s =
     (case rel t s of Some s' \<Rightarrow> lock_run acq rel xs s' | None \<Rightarrow> None)"

locale reentrant_lock =
  fixes acq :: "tid \<Rightarrow> 's \<Rightarrow> bool \<times> 's"
    and rel :: "tid \<Rightarrow> 's \<Rightarrow> 's option"
    and holds :: "'s \<Rightarrow> tid \<Rightarrow> nat"
    and inv :: "'s \<Rightarrow> bool"
  assumes exclusive: "inv s \<Longrightarrow> 0 < holds s t \<Longrightarrow> 0 < holds s u \<Longrightarrow> t = u"
    and acq_granted: "inv s \<Longrightarrow> acq t s = (True, s') \<Longrightarrow>
        inv s' \<and> holds s' = (holds s)(t := Suc (holds s t))"
    and acq_refused: "inv s \<Longrightarrow> acq t s = (False, s') \<Longrightarrow> inv s' \<and> holds s' = holds s"
    and acq_again: "inv s \<Longrightarrow> 0 < holds s t \<Longrightarrow> fst (acq t s)"
    and rel_held: "inv s \<Longrightarrow> 0 < holds s t \<Longrightarrow>
        \<exists>s'. rel t s = Some s' \<and> inv s' \<and> holds s' = (holds s)(t := holds s t - 1)"
begin

lemma granted_others_free:
  assumes "inv s" "acq t s = (True, s')" "u \<noteq> t"
  shows "holds s u = 0"
proof -
  from acq_granted [OF assms(1,2)]
  have i: "inv s'" and h: "holds s' = (holds s)(t := Suc (holds s t))" by auto
  have "0 < holds s' t" by (simp add: h)
  with exclusive [OF i, of t u] assms(3) have "holds s' u = 0" by auto
  with h assms(3) show ?thesis by simp
qed

lemma held_elsewhere_refused: "inv s \<Longrightarrow> 0 < holds s u \<Longrightarrow> u \<noteq> t \<Longrightarrow> \<not> fst (acq t s)"
  using granted_others_free [of s t _ u] by (cases "acq t s") fastforce

lemma reacquire:
  assumes "inv s" "0 < holds s t"
  obtains s' where "acq t s = (True, s')" "inv s'" "holds s' = (holds s)(t := Suc (holds s t))"
  using acq_again [OF assms] acq_granted [OF assms(1), of t] by (cases "acq t s") auto

lemma run_inv:
  "inv s \<Longrightarrow> lock_run acq rel (replicate n (Acquire t)) s = Some s' \<Longrightarrow>
   inv s' \<and> holds s' = (holds s)(t := holds s t + n)"
proof (induction n arbitrary: s)
  case 0
  then show ?case by simp
next
  case (Suc n)
  from Suc.prems(2) obtain s1 where a: "acq t s = (True, s1)"
    and r: "lock_run acq rel (replicate n (Acquire t)) s1 = Some s'"
    by (auto split: prod.splits bool.splits)
  from acq_granted [OF Suc.prems(1) a] Suc.IH [OF _ r] show ?case by auto
qed

lemma release_all:
  "inv s \<Longrightarrow> n \<le> holds s t \<Longrightarrow>
   \<exists>s'. lock_run acq rel (replicate n (Release t)) s = Some s' \<and> inv s' \<and>
        holds s' = (holds s)(t := holds s t - n)"
proof (induction n arbitrary: s)
  case 0
  then show ?case by simp
next
  case (Suc n)
  then have "0 < holds s t" by simp
  with rel_held [OF Suc.prems(1)] obtain s1 where r: "rel t s = Some s1" and i: "inv s1"
    and h: "holds s1 = (holds s)(t := holds s t - 1)" by blast
  from h Suc.prems(2) have "n \<le> holds s1 t" by simp
  with Suc.IH [OF i] obtain s' where
    "lock_run acq rel (replicate n (Release t)) s1 = Some s'" "inv s'"
    "holds s' = (holds s1)(t := holds s1 t - n)" by blast
  with r h show ?case by (auto simp: fun_eq_iff)
qed

lemma acquire_again:
  "inv s \<Longrightarrow> 0 < holds s t \<Longrightarrow>
   \<exists>s'. lock_run acq rel (replicate n (Acquire t)) s = Some s' \<and> inv s' \<and>
        holds s' = (holds s)(t := holds s t + n)"
proof (induction n arbitrary: s)
  case 0
  then show ?case by simp
next
  case (Suc n)
  from reacquire [OF Suc.prems] obtain s1 where a: "acq t s = (True, s1)" and i: "inv s1"
    and h: "holds s1 = (holds s)(t := Suc (holds s t))" by blast
  then have "0 < holds s1 t" by simp
  with Suc.IH [OF i] obtain s' where "lock_run acq rel (replicate n (Acquire t)) s1 = Some s'"
    "inv s'" "holds s' = (holds s1)(t := holds s1 t + n)" by blast
  with a h show ?case by (auto simp: fun_eq_iff)
qed

lemma lock_run_append:
  "lock_run acq rel (xs @ ys) s =
   (case lock_run acq rel xs s of Some s' \<Rightarrow> lock_run acq rel ys s' | None \<Rightarrow> None)"
  by (induction acq rel xs s rule: lock_run.induct)
    (auto split: prod.splits bool.splits option.splits)

lemma balanced:
  assumes "inv s" "acq t s = (True, s1)"
  shows "\<exists>s'. lock_run acq rel (replicate (Suc n) (Acquire t) @ replicate (Suc n) (Release t)) s
               = Some s' \<and> inv s' \<and> holds s' = holds s"
proof -
  from acq_granted [OF assms] have i: "inv s1" and h: "holds s1 = (holds s)(t := Suc (holds s t))"
    by auto
  from acquire_again [OF i, of t n] h obtain s2 where
    a: "lock_run acq rel (replicate n (Acquire t)) s1 = Some s2" and i2: "inv s2"
    and h2: "holds s2 = (holds s)(t := Suc (holds s t) + n)" by auto
  from release_all [OF i2, of "Suc n" t] h2 obtain s3 where
    "lock_run acq rel (replicate (Suc n) (Release t)) s2 = Some s3" "inv s3"
    "holds s3 = (holds s2)(t := holds s2 t - Suc n)" by (auto simp: fun_eq_iff)
  moreover have "lock_run acq rel (replicate (Suc n) (Acquire t)) s = Some s2"
    using assms(2) a by simp
  ultimately show ?thesis by (simp only: lock_run_append h2) (auto simp: fun_eq_iff)
qed

lemma mutual_exclusion_run:
  assumes i: "inv s" and r: "lock_run acq rel (replicate n (Acquire t) @ [Acquire u]) s = Some s'"
    and n: "0 < n"
  shows "t = u"
proof -
  from r obtain s1 where r1: "lock_run acq rel (replicate n (Acquire t)) s = Some s1"
    and r2: "lock_run acq rel [Acquire u] s1 = Some s'"
    by (auto simp: lock_run_append split: option.splits)
  from run_inv [OF i r1] n have "inv s1" "0 < holds s1 t" by auto
  with held_elsewhere_refused [of s1 t u] r2 show "t = u"
    by (auto split: prod.splits bool.splits)
qed

end

text \<open>A lock that refuses a release by a thread that does not hold it.\<close>

locale owned_lock = reentrant_lock +
  assumes rel_unheld: "inv s \<Longrightarrow> holds s t = 0 \<Longrightarrow> rel t s = None"
begin

lemma rel_iff: "inv s \<Longrightarrow> (rel t s \<noteq> None) = (0 < holds s t)"
  using rel_held [of s t] rel_unheld [of s t] by (cases "holds s t") auto

lemma no_foreign_release:
  "inv s \<Longrightarrow> 0 < holds s t \<Longrightarrow> u \<noteq> t \<Longrightarrow> rel u s = None"
  using exclusive [of s t u] rel_unheld [of s u] by (cases "holds s u") auto

end

section \<open>threading.RLock\<close>

text \<open>The reentrant lock of the standard library: free, or an owner with its count.\<close>

type_synonym rlock = "(tid \<times> int) option"

definition rl_try :: "tid \<Rightarrow> rlock \<Rightarrow> bool \<times> rlock" where
  "rl_try me l = (case l of None \<Rightarrow> (True, Some (me, 1))
     | Some (t, n) \<Rightarrow> if t = me then (True, Some (t, n + 1)) else (False, l))"

definition rl_release :: "tid \<Rightarrow> rlock \<Rightarrow> rlock option" where
  "rl_release me l = (case l of None \<Rightarrow> None
     | Some (t, n) \<Rightarrow> if t \<noteq> me then None else Some (if n - 1 = 0 then None else Some (t, n - 1)))"

definition rl_holds :: "rlock \<Rightarrow> tid \<Rightarrow> nat" where
  "rl_holds l t = (case l of None \<Rightarrow> 0 | Some (u, n) \<Rightarrow> if u = t then nat n else 0)"

definition rl_ok :: "rlock \<Rightarrow> bool" where
  "rl_ok l = (case l of None \<Rightarrow> True | Some (_, n) \<Rightarrow> 1 \<le> n)"

lemmas rl_defs [lock_simps] = rl_try_def rl_release_def rl_holds_def rl_ok_def

interpretation rlk: owned_lock rl_try rl_release rl_holds rl_ok
  by unfold_locales
    (auto simp: rl_defs fun_eq_iff Suc_nat_eq_nat_zadd1 nat_diff_distrib split: option.splits if_splits)

end
