(* ===== verification/Monitor.thy ===== *)
theory Monitor
  imports Prelude
begin

text \<open>
  Objects guarded by a \<^verbatim>\<open>threading.Condition\<close>: the mutex is released only in \<^verbatim>\<open>wait\<close>, so a call
  is a sequence of atomic segments. The system keeps the object, one program counter per
  thread and the set of threads asleep in \<^verbatim>\<open>wait\<close> that no \<^verbatim>\<open>notify_all\<close> has reached. A
  sleeping thread may still run (a time-out, a spurious wake-up): a step never looks at the
  set, it only maintains it.
\<close>

record ('l, 'p) monitor =
  mon_obj :: 'l
  mon_pc :: "tid \<Rightarrow> 'p"
  mon_asleep :: "tid set"

definition mon_settle ::
  "('p \<Rightarrow> bool) \<Rightarrow> tid \<Rightarrow> 'p \<Rightarrow> bool \<Rightarrow> 'l \<Rightarrow> ('l, 'p) monitor \<Rightarrow> ('l, 'p) monitor" where
  "mon_settle blocked t p notify l m =
     m\<lparr>mon_obj := l, mon_pc := (mon_pc m)(t := p),
       mon_asleep := ((if notify then {} else mon_asleep m) - {t}) \<union> (if blocked p then {t} else {})\<rparr>"

text \<open>\<open>seg t p l p' n l'\<close>: thread \<open>t\<close> at \<open>p\<close> runs a segment on \<open>l\<close>, ends at \<open>p'\<close>, leaves \<open>l'\<close> and
  notifies if \<open>n\<close>.\<close>

type_synonym ('l, 'p) segment = "tid \<Rightarrow> 'p \<Rightarrow> 'l \<Rightarrow> 'p \<Rightarrow> bool \<Rightarrow> 'l \<Rightarrow> bool"

inductive mon_step ::
  "('l, 'p) segment \<Rightarrow> ('p \<Rightarrow> bool) \<Rightarrow> ('l, 'p) monitor \<Rightarrow> ('l, 'p) monitor \<Rightarrow> bool"
  for seg :: "('l, 'p) segment" and blocked :: "'p \<Rightarrow> bool" where
  mon_step: "seg t (mon_pc m t) (mon_obj m) p n l \<Longrightarrow>
     mon_step seg blocked m (mon_settle blocked t p n l m)"

inductive_cases mon_stepE: "mon_step seg blocked m m'"

definition mon_init :: "'l \<Rightarrow> 'p \<Rightarrow> ('l, 'p) monitor \<Rightarrow> bool" where
  "mon_init l p m \<longleftrightarrow> m = \<lparr>mon_obj = l, mon_pc = (\<lambda>_. p), mon_asleep = {}\<rparr>"

text \<open>What a segment owes: the invariant of the object and the counters, no sleep by a thread that
  could go on, and a notification whenever it lets another blocked thread go on.\<close>

definition seg_ok ::
  "('p \<Rightarrow> bool) \<Rightarrow> ('p \<Rightarrow> tid \<Rightarrow> 'l \<Rightarrow> bool) \<Rightarrow> ((tid \<Rightarrow> 'p) \<Rightarrow> 'l \<Rightarrow> bool) \<Rightarrow>
   (tid \<Rightarrow> 'p) \<Rightarrow> 'l \<Rightarrow> tid \<Rightarrow> 'p \<Rightarrow> bool \<Rightarrow> 'l \<Rightarrow> bool" where
  "seg_ok blocked enabled minv pc l t p n l' \<longleftrightarrow>
     minv (pc(t := p)) l' \<and> (blocked p \<longrightarrow> \<not> enabled p t l') \<and>
     (\<not> n \<longrightarrow> (\<forall>u. u \<noteq> t \<longrightarrow> blocked (pc u) \<longrightarrow> enabled (pc u) u l' \<longrightarrow> enabled (pc u) u l))"

locale monitor_system =
  fixes seg :: "('l, 'p) segment" and blocked :: "'p \<Rightarrow> bool"
    and enabled :: "'p \<Rightarrow> tid \<Rightarrow> 'l \<Rightarrow> bool" and minv :: "(tid \<Rightarrow> 'p) \<Rightarrow> 'l \<Rightarrow> bool"
    and new :: 'l and outside :: 'p
  assumes new_inv: "minv (\<lambda>_. outside) new"
    and seg_ok: "minv pc l \<Longrightarrow> seg t (pc t) l p n l' \<Longrightarrow> seg_ok blocked enabled minv pc l t p n l'"
begin

lemma settle_inv:
  assumes "minv (mon_pc m) (mon_obj m) \<and>
      (\<forall>t \<in> mon_asleep m. blocked (mon_pc m t) \<and> \<not> enabled (mon_pc m t) t (mon_obj m))"
    and "seg_ok blocked enabled minv (mon_pc m) (mon_obj m) t p n l"
  shows "minv (mon_pc (mon_settle blocked t p n l m)) (mon_obj (mon_settle blocked t p n l m)) \<and>
      (\<forall>u \<in> mon_asleep (mon_settle blocked t p n l m).
         blocked (mon_pc (mon_settle blocked t p n l m) u) \<and>
         \<not> enabled (mon_pc (mon_settle blocked t p n l m) u) u (mon_obj (mon_settle blocked t p n l m)))"
  using assms by (auto simp: mon_settle_def seg_ok_def split: if_splits)

sublocale sys: invariant_system "mon_init new outside" "mon_step seg blocked"
  "\<lambda>m. minv (mon_pc m) (mon_obj m) \<and>
     (\<forall>t \<in> mon_asleep m. blocked (mon_pc m t) \<and> \<not> enabled (mon_pc m t) t (mon_obj m))"
proof unfold_locales
  fix m m'
  assume inv: "minv (mon_pc m) (mon_obj m) \<and>
     (\<forall>t \<in> mon_asleep m. blocked (mon_pc m t) \<and> \<not> enabled (mon_pc m t) t (mon_obj m))"
    and "mon_step seg blocked m m'"
  then obtain t p n l where m': "m' = mon_settle blocked t p n l m"
    and s: "seg t (mon_pc m t) (mon_obj m) p n l" by (auto elim: mon_stepE)
  from settle_inv [OF inv] seg_ok [of "mon_pc m" "mon_obj m" t p n l] s inv
  show "minv (mon_pc m') (mon_obj m') \<and>
     (\<forall>t \<in> mon_asleep m'. blocked (mon_pc m' t) \<and> \<not> enabled (mon_pc m' t) t (mon_obj m'))"
    unfolding m' by blast
qed (auto simp: mon_init_def new_inv)

lemma reach_minv:
  "reach (mon_init new outside) (mon_step seg blocked) m \<Longrightarrow> minv (mon_pc m) (mon_obj m)"
  using sys.reach_inv by blast

lemma no_lost_wakeup:
  "reach (mon_init new outside) (mon_step seg blocked) m \<Longrightarrow> t \<in> mon_asleep m \<Longrightarrow>
   blocked (mon_pc m t) \<and> \<not> enabled (mon_pc m t) t (mon_obj m)"
  using sys.reach_inv by blast

lemma enabled_awake:
  "reach (mon_init new outside) (mon_step seg blocked) m \<Longrightarrow>
   enabled (mon_pc m t) t (mon_obj m) \<Longrightarrow> t \<notin> mon_asleep m"
  using no_lost_wakeup by blast

end

end
