(* ===== verification/Moresynchro.thy ===== *)
theory Moresynchro
  imports Monitor
begin

text \<open>
  \<^verbatim>\<open>sonicprobe/libs/moresynchro.py\<close>: the readers-writer lock \<^verbatim>\<open>RWLock\<close> and the symbolic
  lock \<^verbatim>\<open>ListLock\<close>. Every method of \<^verbatim>\<open>RWLock\<close> runs under the mutex of its condition variable
  and gives it up only in \<^verbatim>\<open>wait\<close>, so a call is a sequence of atomic segments: the entry
  segment (up to the first \<^verbatim>\<open>wait\<close> or the return) and one loop iteration per wake-up. The
  definitions are these segments; \<open>rw_step\<close> interleaves the segments of any number of
  threads, with wake-ups by \<^verbatim>\<open>notify_all\<close>, by time-out and spurious ones, and with
  exceptions raised out of \<^verbatim>\<open>wait\<close>.
\<close>

section \<open>RWLock: state and segments\<close>

record rwlock =
  rw_readers :: "(tid, int) dict"
  rw_wcount :: int
  rw_writer :: "tid option"
  rw_pending :: "tid list"

definition rw_new :: rwlock where
  "rw_new = \<lparr>rw_readers = [], rw_wcount = 0, rw_writer = None, rw_pending = []\<rparr>"

text \<open>\<^verbatim>\<open>True\<close>, \<^verbatim>\<open>None\<close> and \<^verbatim>\<open>False\<close> of the acquire methods; a segment ends by returning or in
  \<^verbatim>\<open>wait\<close>. The argument \<open>expired\<close> says that a timeout was given and has run out.\<close>

datatype rw_result = Granted | TimedOut | WouldDeadlock
datatype rw_out = Return rw_result | Wait

definition wait_or_timeout :: "bool \<Rightarrow> rw_out" where
  "wait_or_timeout expired = (if expired then Return TimedOut else Wait)"

definition read_loop :: "tid \<Rightarrow> bool \<Rightarrow> rwlock \<Rightarrow> rw_out \<times> rwlock" where
  "read_loop me expired l =
     (if rw_writer l = None then
        if rw_pending l \<noteq> [] then
          if dhas (rw_readers l) me
          then (Return Granted,
                l\<lparr>rw_readers := dset (rw_readers l) me (dgetd (rw_readers l) me 0 + 1)\<rparr>)
          else (wait_or_timeout expired, l)
        else (Return Granted,
              l\<lparr>rw_readers := dset (rw_readers l) me (dgetd (rw_readers l) me 0 + 1)\<rparr>)
      else (wait_or_timeout expired, l))"

definition acquire_read :: "tid \<Rightarrow> bool \<Rightarrow> rwlock \<Rightarrow> rw_out \<times> rwlock" where
  "acquire_read me expired l =
     (if rw_writer l = Some me then (Return Granted, l\<lparr>rw_wcount := rw_wcount l + 1\<rparr>)
      else read_loop me expired l)"

text \<open>The \<^verbatim>\<open>finally\<close> clause of \<^verbatim>\<open>acquire_write\<close>; the flag is \<^verbatim>\<open>notify_all\<close>.\<close>

definition write_finally :: "tid \<Rightarrow> rwlock \<Rightarrow> bool \<times> rwlock" where
  "write_finally me l =
     (if me \<in> set (rw_pending l) then (True, l\<lparr>rw_pending := remove1 me (rw_pending l)\<rparr>)
      else (False, l))"

definition write_loop :: "tid \<Rightarrow> bool \<Rightarrow> rwlock \<Rightarrow> rw_out \<times> bool \<times> rwlock" where
  "write_loop me expired l =
     (if rw_readers l = [] \<and> rw_writer l = None \<and> rw_pending l \<noteq> [] \<and> hd (rw_pending l) = me
      then (Return Granted, write_finally me
              (l\<lparr>rw_writer := Some me, rw_wcount := 1, rw_pending := tl (rw_pending l)\<rparr>))
      else if expired then (Return TimedOut, write_finally me l)
      else (Wait, False, l))"

definition acquire_write :: "tid \<Rightarrow> bool \<Rightarrow> rwlock \<Rightarrow> rw_out \<times> bool \<times> rwlock" where
  "acquire_write me expired l =
     (if rw_writer l = Some me
      then (Return Granted, write_finally me (l\<lparr>rw_wcount := rw_wcount l + 1\<rparr>))
      else if dhas (rw_readers l) me then (Return WouldDeadlock, write_finally me l)
      else write_loop me expired (l\<lparr>rw_pending := rw_pending l @ [me]\<rparr>))"

definition rw_release :: "tid \<Rightarrow> rwlock \<Rightarrow> pyerror + (bool \<times> rwlock)" where
  "rw_release me l =
     (if rw_writer l = Some me then
        (let n = rw_wcount l - 1 in
         if n = 0 then Inr (True, l\<lparr>rw_wcount := n, rw_writer := None\<rparr>)
         else Inr (False, l\<lparr>rw_wcount := n\<rparr>))
      else if dhas (rw_readers l) me then
        (let n = dgetd (rw_readers l) me 0 - 1 in
         if n = 0
         then (let r = ddel (rw_readers l) me in Inr (r = [], l\<lparr>rw_readers := r\<rparr>))
         else Inr (False, l\<lparr>rw_readers := dset (rw_readers l) me n\<rparr>))
      else Inl (RuntimeError ''release unlocked lock''))"

lemmas rw_defs [lock_simps] = read_loop_def acquire_read_def write_finally_def write_loop_def
  acquire_write_def rw_release_def wait_or_timeout_def dgetd_def Let_def

section \<open>RWLock: well-formed states\<close>

definition rw_ok :: "rwlock \<Rightarrow> bool" where
  "rw_ok l \<longleftrightarrow> dict_ok (rw_readers l) \<and> (\<forall>t n. dget (rw_readers l) t = Some n \<longrightarrow> 1 \<le> n) \<and>
     distinct (rw_pending l) \<and>
     (case rw_writer l of None \<Rightarrow> rw_wcount l = 0 | Some w \<Rightarrow> rw_readers l = [] \<and> 1 \<le> rw_wcount l)"

lemma rw_ok_new: "rw_ok rw_new"
  by (simp add: rw_ok_def rw_new_def)

lemma rw_writer_readers: "rw_ok l \<Longrightarrow> rw_writer l = Some w \<Longrightarrow> rw_readers l = [] \<and> 1 \<le> rw_wcount l"
  by (simp add: rw_ok_def)

lemma read_loop_ok: "rw_ok l \<Longrightarrow> read_loop me ex l = (out, l') \<Longrightarrow> rw_ok l'"
  by (fastforce simp: rw_ok_def read_loop_def dgetd_def split: if_splits option.splits)

lemma acquire_read_ok: "rw_ok l \<Longrightarrow> acquire_read me ex l = (out, l') \<Longrightarrow> rw_ok l'"
  by (auto simp: acquire_read_def split: if_splits dest: read_loop_ok)
     (simp add: rw_ok_def)

lemma write_finally_ok: "rw_ok l \<Longrightarrow> write_finally me l = (n, l') \<Longrightarrow> rw_ok l'"
  by (auto simp: rw_ok_def write_finally_def split: if_splits option.splits)

lemma write_loop_ok: "rw_ok l \<Longrightarrow> write_loop me ex l = (out, n, l') \<Longrightarrow> rw_ok l'"
  by (auto simp: write_loop_def split: if_splits dest: write_finally_ok)
     (erule write_finally_ok [rotated], simp add: rw_ok_def distinct_tl)

lemma acquire_write_ok:
  "rw_ok l \<Longrightarrow> me \<notin> set (rw_pending l) \<Longrightarrow> acquire_write me ex l = (out, n, l') \<Longrightarrow> rw_ok l'"
  unfolding acquire_write_def
  by (auto split: if_splits elim!: write_finally_ok [rotated] write_loop_ok [rotated])
     (simp_all add: rw_ok_def split: option.splits)

lemma rw_release_ok: "rw_ok l \<Longrightarrow> rw_release me l = Inr (n, l') \<Longrightarrow> rw_ok l'"
  by (auto simp: rw_ok_def rw_release_def dgetd_def dhas_def Let_def split: if_splits option.splits)
     (metis add.commute add.left_neutral less_add_one order_le_less zle_diff1_eq)+

section \<open>RWLock: threads and steps\<close>

text \<open>
  A thread is outside the lock's methods, blocked in the \<^verbatim>\<open>wait\<close> of \<^verbatim>\<open>acquire_read\<close> or in
  that of \<^verbatim>\<open>acquire_write\<close>.
\<close>

datatype rw_pc = Outside | InRead | InWrite

definition rw_after :: "rw_pc \<Rightarrow> rw_out \<Rightarrow> rw_pc" where
  "rw_after blocked out = (if out = Wait then blocked else Outside)"

inductive rw_seg :: "tid \<Rightarrow> rw_pc \<Rightarrow> rwlock \<Rightarrow> rw_pc \<Rightarrow> bool \<Rightarrow> rwlock \<Rightarrow> bool" where
  call_read: "acquire_read t ex l = (out, l') \<Longrightarrow> rw_seg t Outside l (rw_after InRead out) False l'"
| call_write: "acquire_write t ex l = (out, n, l') \<Longrightarrow>
     rw_seg t Outside l (rw_after InWrite out) n l'"
| resume_read: "read_loop t ex l = (out, l') \<Longrightarrow> rw_seg t InRead l (rw_after InRead out) False l'"
| resume_write: "write_loop t ex l = (out, n, l') \<Longrightarrow>
     rw_seg t InWrite l (rw_after InWrite out) n l'"
| raise_read: "rw_seg t InRead l Outside False l"
| raise_write: "write_finally t l = (n, l') \<Longrightarrow> rw_seg t InWrite l Outside n l'"
| release: "rw_release t l = Inr (n, l') \<Longrightarrow> rw_seg t Outside l Outside n l'"

definition rw_blocked :: "rw_pc \<Rightarrow> bool" where
  "rw_blocked p \<longleftrightarrow> p \<noteq> Outside"

definition rw_step :: "(rwlock, rw_pc) monitor \<Rightarrow> (rwlock, rw_pc) monitor \<Rightarrow> bool" where
  "rw_step = mon_step rw_seg rw_blocked"

definition rw_init :: "(rwlock, rw_pc) monitor \<Rightarrow> bool" where
  "rw_init = mon_init rw_new Outside"

text \<open>What a blocked thread would get if it ran its loop now.\<close>

definition rw_enabled :: "rw_pc \<Rightarrow> tid \<Rightarrow> rwlock \<Rightarrow> bool" where
  "rw_enabled pc t l = (case pc of Outside \<Rightarrow> False
     | InRead \<Rightarrow> fst (read_loop t False l) = Return Granted
     | InWrite \<Rightarrow> fst (write_loop t False l) = Return Granted)"

definition rw_minv :: "(tid \<Rightarrow> rw_pc) \<Rightarrow> rwlock \<Rightarrow> bool" where
  "rw_minv pc l \<longleftrightarrow> rw_ok l \<and> (\<forall>t. t \<in> set (rw_pending l) \<longleftrightarrow> pc t = InWrite) \<and>
     (\<forall>t. pc t \<noteq> Outside \<longrightarrow> \<not> dhas (rw_readers l) t \<and> rw_writer l \<noteq> Some t)"

abbreviation rw_seg_ok where
  "rw_seg_ok \<equiv> seg_ok rw_blocked rw_enabled rw_minv"

lemma rw_enabled_read:
  "rw_enabled InRead t l =
   (rw_writer l = None \<and> (rw_pending l = [] \<or> dhas (rw_readers l) t))"
  by (auto simp: rw_enabled_def read_loop_def wait_or_timeout_def)

lemma rw_enabled_write:
  "rw_enabled InWrite t l =
   (rw_readers l = [] \<and> rw_writer l = None \<and> rw_pending l \<noteq> [] \<and> hd (rw_pending l) = t)"
  by (auto simp: rw_enabled_def write_loop_def)

lemma rw_enabled_Outside: "rw_enabled Outside t l = False"
  by (simp add: rw_enabled_def)

lemmas rw_enabled_simps [lock_simps] = rw_enabled_read rw_enabled_write rw_enabled_Outside

text \<open>
  What a segment may change: the lock stays well formed, the writer queue follows the program
  counters, a blocked thread holds nothing, and either the segment notifies or it enables no
  other blocked thread.
\<close>

lemma rw_segI:
  assumes "rw_minv pc k" "rw_ok l" "b \<noteq> Outside"
    and q: "\<And>u. u \<in> set (rw_pending l) \<longleftrightarrow>
              (if u = t then out = Wait \<and> b = InWrite else u \<in> set (rw_pending k))"
    and h: "\<And>u. u \<noteq> t \<or> out = Wait \<Longrightarrow> dhas (rw_readers l) u \<Longrightarrow>
              u \<noteq> t \<and> dhas (rw_readers k) u"
    and w: "\<And>u. u \<noteq> t \<or> out = Wait \<Longrightarrow> rw_writer l = Some u \<Longrightarrow>
              u \<noteq> t \<and> rw_writer k = Some u"
    and e: "\<And>u. u \<noteq> t \<Longrightarrow> \<not> n \<Longrightarrow> pc u \<noteq> Outside \<Longrightarrow> rw_enabled (pc u) u l \<Longrightarrow>
              rw_enabled (pc u) u k"
    and e': "out = Wait \<Longrightarrow> \<not> rw_enabled b t l"
  shows "rw_seg_ok pc k t (rw_after b out) n l"
proof -
  let ?pc = "pc(t := rw_after b out)"
  have "\<forall>u. u \<in> set (rw_pending l) \<longleftrightarrow> ?pc u = InWrite"
    using assms(1) q by (auto simp: rw_after_def rw_minv_def assms(3))
  moreover have "\<forall>u. ?pc u \<noteq> Outside \<longrightarrow> \<not> dhas (rw_readers l) u \<and> rw_writer l \<noteq> Some u"
    using assms(1) h w by (auto simp: rw_after_def rw_minv_def)
  ultimately show ?thesis using assms(2) e e'
    by (auto simp: seg_ok_def rw_minv_def rw_after_def rw_blocked_def)
qed

lemma rw_minv_ok: "rw_minv pc k \<Longrightarrow> rw_ok k"
  by (simp add: rw_minv_def)

lemma rw_minv_pending: "rw_minv pc k \<Longrightarrow> t \<in> set (rw_pending k) \<longleftrightarrow> pc t = InWrite"
  by (simp add: rw_minv_def)

lemma rw_minv_blocked:
  "rw_minv pc k \<Longrightarrow> pc t \<noteq> Outside \<Longrightarrow> \<not> dhas (rw_readers k) t \<and> rw_writer k \<noteq> Some t"
  by (simp add: rw_minv_def)

lemma read_loop_frame:
  assumes "read_loop t ex l = (out, l')"
  shows "rw_pending l' = rw_pending l" "rw_writer l' = rw_writer l"
    and "out = Wait \<Longrightarrow> l' = l \<and> \<not> rw_enabled InRead t l"
    and "u \<noteq> t \<Longrightarrow> dhas (rw_readers l') u = dhas (rw_readers l) u"
    and "rw_readers l \<noteq> [] \<Longrightarrow> rw_readers l' \<noteq> []"
  using assms by (auto simp: lock_simps split: if_splits)

lemma read_loop_inv:
  assumes "rw_minv pc k" "read_loop t ex k = (out, l)" "pc t \<noteq> InWrite"
    "rw_writer k \<noteq> Some t"
  shows "rw_seg_ok pc k t (rw_after InRead out) False l"
proof (rule rw_segI [OF assms(1)])
  note f = read_loop_frame [OF assms(2)]
  show "rw_ok l" using read_loop_ok [OF rw_minv_ok [OF assms(1)] assms(2)] .
  show "\<not> rw_enabled InRead t l" if "out = Wait"
    using f(3) that by blast
  show "rw_enabled (pc u) u k"
    if "u \<noteq> t" "pc u \<noteq> Outside" "rw_enabled (pc u) u l" for u
    using that f(1,2,5) f(4) [OF that(1)] by (cases "pc u") (auto simp: rw_enabled_simps)
  show "u \<noteq> t \<and> dhas (rw_readers k) u"
    if "u \<noteq> t \<or> out = Wait" "dhas (rw_readers l) u" for u
  proof (cases "u = t")
    case True
    with that f(3) have "out = Wait" "l = k" "\<not> rw_enabled InRead t l" by auto
    with that True assms(2) rw_writer_readers [OF rw_minv_ok [OF assms(1)]] show ?thesis
      by (auto simp: lock_simps split: if_splits)
  qed (use that f(4) in auto)
  show "u \<noteq> t \<and> rw_writer k = Some u" if "rw_writer l = Some u" for u
    using that f(2) assms(4) by auto
qed (use assms(3) read_loop_frame(1) [OF assms(2)] rw_minv_pending [OF assms(1)] in auto)

lemma acquire_read_inv:
  assumes "rw_minv pc k" "acquire_read t ex k = (out, l)" "pc t = Outside"
  shows "rw_seg_ok pc k t (rw_after InRead out) False l"
proof (cases "rw_writer k = Some t")
  case True
  then have out: "out = Return Granted" "l = k\<lparr>rw_wcount := rw_wcount k + 1\<rparr>"
    using assms(2) by (auto simp: acquire_read_def)
  show ?thesis
  proof (rule rw_segI [OF assms(1)])
    show "rw_ok l" using acquire_read_ok [OF rw_minv_ok [OF assms(1)] assms(2)] .
    show "rw_enabled (pc u) u k"
      if "pc u \<noteq> Outside" "rw_enabled (pc u) u l" for u
      using that out by (cases "pc u") (auto simp: lock_simps)
  qed (use assms out True rw_minv_pending [OF assms(1)] in auto)
next
  case False
  with assms show ?thesis by (auto simp: acquire_read_def intro: read_loop_inv)
qed


lemma write_finally_frame:
  assumes "write_finally t l = (n, l')" "distinct (rw_pending l)"
  shows "rw_readers l' = rw_readers l" "rw_writer l' = rw_writer l"
    and "set (rw_pending l') = set (rw_pending l) - {t}"
    and "\<not> n \<Longrightarrow> l' = l"
  using assms by (auto simp: write_finally_def split: if_splits)

text \<open>One iteration of the write loop by a thread that is in the queue.\<close>

lemma write_loop_inv:
  assumes inv: "rw_minv pc k" and loop: "write_loop t ex l0 = (out, n, l)" and ok: "rw_ok l0"
    and l0: "rw_readers l0 = rw_readers k" "rw_writer l0 = rw_writer k"
      "\<And>u. u \<noteq> t \<Longrightarrow> (u \<in> set (rw_pending l0)) = (u \<in> set (rw_pending k))"
      "t \<in> set (rw_pending l0)"
      "\<And>u. u \<noteq> t \<Longrightarrow> pc u \<noteq> Outside \<Longrightarrow> rw_enabled (pc u) u l0 \<Longrightarrow>
         rw_enabled (pc u) u k"
    and t: "\<not> dhas (rw_readers k) t" "rw_writer k \<noteq> Some t"
  shows "rw_seg_ok pc k t (rw_after InWrite out) n l"
proof -
  let ?g = "l0\<lparr>rw_writer := Some t, rw_wcount := 1, rw_pending := tl (rw_pending l0)\<rparr>"
  have d: "distinct (rw_pending l0)" using ok by (simp add: rw_ok_def)
  have okl: "rw_ok l" using write_loop_ok [OF ok loop] .
  consider (grant) "out = Return Granted" "write_finally t ?g = (n, l)"
      "rw_readers l0 = []" "rw_writer l0 = None" "rw_pending l0 = t # tl (rw_pending l0)"
    | (expired) "out = Return TimedOut" "write_finally t l0 = (n, l)"
    | (wait) "out = Wait" "\<not> n" "l = l0" "\<not> rw_enabled InWrite t l0"
    using loop by (auto simp: write_loop_def rw_enabled_write split: if_splits)
  then show ?thesis
  proof cases
    case grant
    then have nt: "t \<notin> set (tl (rw_pending l0))" using d by (metis distinct.simps(2))
    with grant(2) have l: "l = ?g" "\<not> n" by (auto simp: write_finally_def)
    have ps: "set (rw_pending l0) = insert t (set (tl (rw_pending l0)))"
      by (subst grant(5)) simp
    show ?thesis
    proof (rule rw_segI [OF inv okl])
      show "u \<in> set (rw_pending l) \<longleftrightarrow> (if u = t then out = Wait \<and> InWrite = InWrite
              else u \<in> set (rw_pending k))" for u
        using nt ps l0(3) [of u] grant(1) by (auto simp: l)
      show "rw_enabled (pc u) u k"
        if "pc u \<noteq> Outside" "rw_enabled (pc u) u l" for u
        using that by (cases "pc u") (auto simp: l lock_simps)
    qed (use grant l l0 in auto)
  next
    case expired
    note f = write_finally_frame [OF expired(2) d]
    show ?thesis
    proof (rule rw_segI [OF inv okl])
      show "u \<in> set (rw_pending l) \<longleftrightarrow> (if u = t then out = Wait \<and> InWrite = InWrite
              else u \<in> set (rw_pending k))" for u
        using f(3) l0(3) [of u] expired(1) by auto
      show "rw_enabled (pc u) u k" if "\<not> n" for u
        using f(3,4) that l0(4) by auto
    qed (use expired f l0 t in auto)
  next
    case wait
    show ?thesis
    proof (rule rw_segI [OF inv okl])
      show "u \<in> set (rw_pending l) \<longleftrightarrow> (if u = t then out = Wait \<and> InWrite = InWrite
              else u \<in> set (rw_pending k))" for u
        using l0(3,4) wait by auto
    qed (use wait l0 t in auto)
  qed
qed

lemma resume_write_inv:
  assumes "rw_minv pc k" "pc t = InWrite" "write_loop t ex k = (out, n, l)"
  shows "rw_seg_ok pc k t (rw_after InWrite out) n l"
  using assms(2,3) rw_minv_pending [OF assms(1), of t] rw_minv_blocked [OF assms(1), of t]
  by (intro write_loop_inv [OF assms(1,3) rw_minv_ok [OF assms(1)]]) auto

lemma same_lock_inv:
  assumes inv: "rw_minv pc k" and pc: "pc t \<noteq> InWrite" and ok: "rw_ok l"
    and l: "rw_pending l = rw_pending k"
      "\<And>u. u \<noteq> t \<Longrightarrow> dhas (rw_readers l) u \<Longrightarrow> dhas (rw_readers k) u"
      "\<And>u. u \<noteq> t \<Longrightarrow> rw_writer l = Some u \<Longrightarrow> rw_writer k = Some u"
      "\<And>u. u \<noteq> t \<Longrightarrow> \<not> n \<Longrightarrow> pc u \<noteq> Outside \<Longrightarrow> rw_enabled (pc u) u l \<Longrightarrow>
         rw_enabled (pc u) u k"
    and b: "b \<noteq> Outside"
  shows "rw_seg_ok pc k t (rw_after b (Return r)) n l"
  by (rule rw_segI [OF inv ok b])
    (use assms rw_minv_pending [OF inv] in auto)

lemma acquire_write_inv:
  assumes inv: "rw_minv pc k" and pc: "pc t = Outside"
    and acq: "acquire_write t ex k = (out, n, l)"
  shows "rw_seg_ok pc k t (rw_after InWrite out) n l"
proof -
  let ?l = k
  have nt: "t \<notin> set (rw_pending ?l)" using rw_minv_pending [OF inv] pc by auto
  have okl: "rw_ok l" using acquire_write_ok [OF rw_minv_ok [OF inv] nt acq] .
  consider (again) "rw_writer ?l = Some t" | (reader) "rw_writer ?l \<noteq> Some t" "dhas (rw_readers ?l) t"
    | (fresh) "rw_writer ?l \<noteq> Some t" "\<not> dhas (rw_readers ?l) t" by blast
  then show ?thesis
  proof cases
    case again
    then have l: "out = Return Granted" "l = ?l\<lparr>rw_wcount := rw_wcount ?l + 1\<rparr>"
      using acq nt by (auto simp: acquire_write_def write_finally_def)
    have "rw_seg_ok pc k t (rw_after InWrite (Return Granted)) n l"
    proof (rule same_lock_inv [OF inv _ okl])
      show "rw_enabled (pc u) u ?l"
        if "pc u \<noteq> Outside" "rw_enabled (pc u) u l" for u
        using that l by (cases "pc u") (auto simp: lock_simps)
    qed (use pc l in auto)
    then show ?thesis by (simp add: l(1))
  next
    case reader
    then have l: "out = Return WouldDeadlock" "l = ?l"
      using acq nt by (auto simp: acquire_write_def write_finally_def)
    show ?thesis unfolding l(1)
      by (rule same_lock_inv [OF inv _ okl]) (use pc l in auto)
  next
    case fresh
    let ?queued = "?l\<lparr>rw_pending := rw_pending ?l @ [t]\<rparr>"
    have loop: "write_loop t ex ?queued = (out, n, l)" using acq fresh by (simp add: acquire_write_def)
    have ok0: "rw_ok ?queued" using rw_minv_ok [OF inv] nt by (simp add: rw_ok_def split: option.splits)
    have en: "rw_enabled (pc u) u ?l"
      if "u \<noteq> t" "pc u \<noteq> Outside" "rw_enabled (pc u) u ?queued" for u
      using that rw_minv_pending [OF inv, of u]
      by (cases "pc u"; cases "rw_pending ?l") (auto simp: rw_enabled_simps)
    show ?thesis
      by (rule write_loop_inv [OF inv loop ok0 _ _ _ _ en]) (use fresh in auto)
  qed
qed

lemma raise_write_inv:
  assumes "rw_minv pc k" "pc t = InWrite" "write_finally t k = (n, l)"
  shows "rw_seg_ok pc k t (rw_after InWrite (Return r)) n l"
proof -
  have d: "distinct (rw_pending k)" using rw_minv_ok [OF assms(1)] by (simp add: rw_ok_def)
  note f = write_finally_frame [OF assms(3) d]
  show ?thesis
    by (rule rw_segI [OF assms(1) write_finally_ok [OF rw_minv_ok [OF assms(1)] assms(3)]])
      (use f rw_minv_pending [OF assms(1)] in auto)
qed

lemma release_inv:
  assumes inv: "rw_minv pc k" and pc: "pc t = Outside"
    and rel: "rw_release t k = Inr (n, l)"
  shows "rw_seg_ok pc k t (rw_after InRead (Return r)) n l"
proof (rule same_lock_inv [OF inv _ rw_release_ok [OF rw_minv_ok [OF inv] rel]])
  note w = rw_writer_readers [OF rw_minv_ok [OF inv]]
  show "rw_enabled (pc u) u k"
    if "u \<noteq> t" "\<not> n" "pc u \<noteq> Outside" "rw_enabled (pc u) u l" for u
    using that rel w
    by (cases "pc u") (auto simp: rw_release_def rw_enabled_simps Let_def split: if_splits)
qed (use pc rel in \<open>auto simp: rw_release_def Let_def split: if_splits\<close>)

lemma rw_seg_good: "rw_seg t p k p' n l \<Longrightarrow> p = pc t \<Longrightarrow> rw_minv pc k \<Longrightarrow> rw_seg_ok pc k t p' n l"
proof (induction rule: rw_seg.induct)
  case (resume_read t ex l out l')
  then show ?case using rw_minv_blocked [of pc l t] by (auto intro: read_loop_inv)
next
  case (raise_read t l)
  then have "rw_seg_ok pc l t (rw_after InRead (Return TimedOut)) False l"
    by (intro same_lock_inv rw_minv_ok) auto
  then show ?case by (simp add: rw_after_def)
next
  case (raise_write t l n l')
  then have "rw_seg_ok pc l t (rw_after InWrite (Return TimedOut)) n l'"
    by (intro raise_write_inv) auto
  then show ?case by (simp add: rw_after_def)
next
  case (release t l n l')
  then have "rw_seg_ok pc l t (rw_after InRead (Return TimedOut)) n l'"
    by (intro release_inv) auto
  then show ?case by (simp add: rw_after_def)
qed (auto intro: acquire_read_inv acquire_write_inv resume_write_inv)

interpretation rwl: monitor_system rw_seg rw_blocked rw_enabled rw_minv rw_new Outside
  rewrites "mon_step rw_seg rw_blocked = rw_step" and "mon_init rw_new Outside = rw_init"
proof -
  show "monitor_system rw_seg rw_blocked rw_enabled rw_minv rw_new Outside"
    by unfold_locales (auto simp: rw_minv_def rw_ok_new intro: rw_seg_good, simp_all add: rw_new_def)
qed (simp_all add: rw_step_def rw_init_def)

section \<open>RWLock: the write side as a reentrant lock\<close>

text \<open>
  With nobody queued, \<^verbatim>\<open>acquire_write(0)\<close> never waits: it is granted, times out or reports a
  deadlock, and leaves the lock as it was unless it is granted.
\<close>

definition try_acquire_write :: "tid \<Rightarrow> rwlock \<Rightarrow> bool \<times> rwlock" where
  "try_acquire_write t l =
     (case acquire_write t True l of (out, _, l') \<Rightarrow> (out = Return Granted, l'))"

definition try_release_rw :: "tid \<Rightarrow> rwlock \<Rightarrow> rwlock option" where
  "try_release_rw t l = (case rw_release t l of Inl _ \<Rightarrow> None | Inr (_, l') \<Rightarrow> Some l')"

definition write_holds :: "rwlock \<Rightarrow> tid \<Rightarrow> nat" where
  "write_holds l t = (if rw_writer l = Some t then nat (rw_wcount l) else 0)"

definition rw_quiet :: "rwlock \<Rightarrow> bool" where
  "rw_quiet l \<longleftrightarrow> rw_ok l \<and> rw_pending l = []"

lemma try_acquire_write_cases:
  assumes "rw_quiet l"
  shows "try_acquire_write t l =
    (if rw_writer l = Some t then (True, l\<lparr>rw_wcount := rw_wcount l + 1\<rparr>)
     else if rw_writer l = None \<and> rw_readers l = []
     then (True, l\<lparr>rw_writer := Some t, rw_wcount := 1\<rparr>)
     else (False, l))"
  using assms
  by (auto simp: try_acquire_write_def acquire_write_def write_loop_def write_finally_def
      rw_quiet_def)

interpretation rww: reentrant_lock try_acquire_write try_release_rw write_holds rw_quiet
proof unfold_locales
  fix l l' t u
  assume q: "rw_quiet l"
  show "0 < write_holds l t \<Longrightarrow> 0 < write_holds l u \<Longrightarrow> t = u"
    by (auto simp: write_holds_def split: if_splits)
  show "try_acquire_write t l = (True, l') \<Longrightarrow>
        rw_quiet l' \<and> write_holds l' = (write_holds l)(t := Suc (write_holds l t))"
    using q unfolding try_acquire_write_cases [OF q]
    by (auto simp: rw_quiet_def rw_ok_def write_holds_def fun_eq_iff nat_add_distrib
        split: if_splits option.splits)
  show "try_acquire_write t l = (False, l') \<Longrightarrow> rw_quiet l' \<and> write_holds l' = write_holds l"
    using q by (auto simp: try_acquire_write_cases [OF q] split: if_splits)
  show "0 < write_holds l t \<Longrightarrow> fst (try_acquire_write t l)"
    by (auto simp: try_acquire_write_cases [OF q] write_holds_def split: if_splits)
  show "0 < write_holds l t \<Longrightarrow> \<exists>s'. try_release_rw t l = Some s' \<and> rw_quiet s' \<and>
        write_holds s' = (write_holds l)(t := write_holds l t - 1)"
    using q
    by (auto simp: try_release_rw_def rw_release_def write_holds_def rw_quiet_def rw_ok_def
        fun_eq_iff nat_diff_distrib Let_def split: if_splits)
qed

section \<open>ListLock\<close>

type_synonym 'e list_lock = "('e, tid \<times> int) dict"

definition ll_try_acquire :: "'e \<Rightarrow> tid \<Rightarrow> 'e list_lock \<Rightarrow> bool \<times> 'e list_lock" where
  "ll_try_acquire elt me locked =
     (case dget locked elt of
        None \<Rightarrow> (True, dset locked elt (me, 1))
      | Some (owner, n) \<Rightarrow>
          if owner = me then (True, dset locked elt (owner, n + 1)) else (False, locked))"

definition ll_release :: "'e \<Rightarrow> tid \<Rightarrow> 'e list_lock \<Rightarrow> pyerror + 'e list_lock" where
  "ll_release elt me locked =
     (case dget locked elt of
        None \<Rightarrow> Inl (RuntimeError ''release unlocked lock'')
      | Some (owner, n) \<Rightarrow>
          if owner \<noteq> me then Inl (RuntimeError ''release unowned lock'')
          else (let l = dset locked elt (owner, n - 1) in
                if n - 1 = 0 then Inr (ddel l elt) else Inr l))"

definition ll_ok :: "'e list_lock \<Rightarrow> bool" where
  "ll_ok l \<longleftrightarrow> (\<forall>e t n. dget l e = Some (t, n) \<longrightarrow> 1 \<le> n)"

definition ll_holds :: "'e \<Rightarrow> 'e list_lock \<Rightarrow> tid \<Rightarrow> nat" where
  "ll_holds e l t = (case dget l e of None \<Rightarrow> 0 | Some (u, n) \<Rightarrow> if u = t then nat n else 0)"

definition ll_release_opt :: "'e \<Rightarrow> tid \<Rightarrow> 'e list_lock \<Rightarrow> 'e list_lock option" where
  "ll_release_opt e t l = (case ll_release e t l of Inl _ \<Rightarrow> None | Inr l' \<Rightarrow> Some l')"

lemmas ll_defs [lock_simps] = ll_try_acquire_def ll_release_def ll_release_opt_def
  ll_holds_def

lemma ll_ok_upd [simp]:
  "ll_ok l \<Longrightarrow> 1 \<le> n \<Longrightarrow> ll_ok (dset l e (t, n))" "ll_ok l \<Longrightarrow> ll_ok (ddel l e)"
  by (auto simp: ll_ok_def)

interpretation ll: owned_lock "ll_try_acquire e" "ll_release_opt e" "ll_holds e" ll_ok
  for e :: 'e
proof unfold_locales
  fix l l' :: "'e list_lock" and t u
  assume ok: "ll_ok l"
  have pos: "case dget l e of None \<Rightarrow> True | Some (v, n) \<Rightarrow> 1 \<le> n"
    using ok by (auto simp: ll_ok_def split: option.splits)
  show "0 < ll_holds e l t \<Longrightarrow> 0 < ll_holds e l u \<Longrightarrow> t = u"
    by (auto simp: ll_holds_def split: option.splits if_splits)
  show "ll_try_acquire e t l = (True, l') \<Longrightarrow>
        ll_ok l' \<and> ll_holds e l' = (ll_holds e l)(t := Suc (ll_holds e l t))"
    using ok pos
    by (cases "dget l e") (auto simp: ll_defs fun_eq_iff Suc_nat_eq_nat_zadd1 split: if_splits)
  show "ll_try_acquire e t l = (False, l') \<Longrightarrow> ll_ok l' \<and> ll_holds e l' = ll_holds e l"
    using ok by (auto simp: ll_try_acquire_def split: option.splits if_splits)
  show "0 < ll_holds e l t \<Longrightarrow> fst (ll_try_acquire e t l)"
    by (auto simp: ll_defs split: option.splits if_splits)
  show "0 < ll_holds e l t \<Longrightarrow> \<exists>s'. ll_release_opt e t l = Some s' \<and> ll_ok s' \<and>
        ll_holds e s' = (ll_holds e l)(t := ll_holds e l t - 1)"
    using ok pos
    by (cases "dget l e")
      (auto simp: ll_defs fun_eq_iff Let_def nat_diff_distrib split: if_splits)
  show "ll_holds e l t = 0 \<Longrightarrow> ll_release_opt e t l = None"
    using pos by (cases "dget l e") (auto simp: ll_defs split: if_splits)
qed

lemma ll_other_elements:
  "ll_try_acquire e t l = (b, l') \<Longrightarrow> d \<noteq> e \<Longrightarrow> dget l' d = dget l d"
  "ll_release e t l = Inr l' \<Longrightarrow> d \<noteq> e \<Longrightarrow> dget l' d = dget l d"
  by (auto simp: ll_defs Let_def split: option.splits if_splits)

section \<open>Properties of RWLock\<close>

text \<open>Concrete runs for the witnesses: one segment as a function of the state.\<close>

type_synonym rw_sys = "(rwlock, rw_pc) monitor"

definition run_read :: "tid \<Rightarrow> rw_sys \<Rightarrow> rw_sys" where
  "run_read t m = (case acquire_read t False (mon_obj m) of
     (out, l) \<Rightarrow> mon_settle rw_blocked t (rw_after InRead out) False l m)"

definition run_write :: "tid \<Rightarrow> rw_sys \<Rightarrow> rw_sys" where
  "run_write t m = (case acquire_write t False (mon_obj m) of
     (out, n, l) \<Rightarrow> mon_settle rw_blocked t (rw_after InWrite out) n l m)"

definition run_release :: "tid \<Rightarrow> rw_sys \<Rightarrow> rw_sys" where
  "run_release t m = (case rw_release t (mon_obj m) of Inl _ \<Rightarrow> m
     | Inr (n, l) \<Rightarrow> mon_settle rw_blocked t Outside n l m)"

definition rw_start :: rw_sys where
  "rw_start = \<lparr>mon_obj = rw_new, mon_pc = (\<lambda>_. Outside), mon_asleep = {}\<rparr>"

lemma reach_run:
  assumes r: "reach rw_init rw_step m" and pc: "mon_pc m t = Outside"
  shows "reach rw_init rw_step (run_read t m)" "reach rw_init rw_step (run_write t m)"
    "reach rw_init rw_step (run_release t m)"
proof -
  have s: "reach rw_init rw_step (mon_settle rw_blocked t p n l m)"
    if "rw_seg t Outside (mon_obj m) p n l" for p n l
    using reach_step [OF r, of "mon_settle rw_blocked t p n l m"] that pc
    by (simp add: rw_step_def mon_step)
  show "reach rw_init rw_step (run_read t m)" "reach rw_init rw_step (run_write t m)"
    "reach rw_init rw_step (run_release t m)"
    using r by (auto simp: run_read_def run_write_def run_release_def split: prod.splits sum.splits
        intro!: s intro: rw_seg.intros)
qed

lemma reach_start: "reach rw_init rw_step rw_start"
  by (auto simp: rw_init_def mon_init_def rw_start_def intro: reach_init)

lemmas run_simps = run_read_def run_write_def run_release_def rw_start_def rw_new_def
  mon_settle_def rw_after_def rw_blocked_def lock_simps dict_simps

text \<open>Thread 1 writes, thread 2 sleeps for reading, thread 3 sleeps for writing.\<close>

definition rw_contended :: rw_sys where
  "rw_contended = run_write 3 (run_read 2 (run_write 1 rw_start))"

lemma rw_contended_eq:
  "rw_contended = \<lparr>mon_obj = \<lparr>rw_readers = [], rw_wcount = 1, rw_writer = Some 1, rw_pending = [3]\<rparr>,
     mon_pc = (\<lambda>_. Outside)(1 := Outside, 2 := InRead, 3 := InWrite), mon_asleep = {2, 3}\<rparr>"
  by (auto simp: rw_contended_def run_simps)

lemma reach_contended: "reach rw_init rw_step rw_contended"
proof -
  have "reach rw_init rw_step (run_write 1 rw_start)"
    by (rule reach_run [OF reach_start]) (simp add: rw_start_def)
  moreover have "mon_pc (run_write 1 rw_start) 2 = Outside"
    and "mon_pc (run_read 2 (run_write 1 rw_start)) 3 = Outside" by (simp_all add: run_simps)
  ultimately show ?thesis unfolding rw_contended_def
    by (intro reach_run reach_start) (simp_all add: rw_start_def)
qed

text \<open>
  C1: Mutual exclusion of \<^verbatim>\<open>RWLock\<close>: in every reachable interleaving, while a thread holds the
  write lock no thread holds a read lock, the recursion counter is positive, and the writer is
  not itself blocked in a lock call.
\<close>
theorem rwlock_mutual_exclusion:
  assumes "reach rw_init rw_step s" and "rw_writer (mon_obj s) = Some w"
  shows "rw_readers (mon_obj s) = [] \<and> 1 \<le> rw_wcount (mon_obj s) \<and> mon_pc s w = Outside"
  using rw_writer_readers [OF rw_minv_ok [OF rwl.reach_minv [OF assms(1)]] assms(2)]
    rw_minv_blocked [OF rwl.reach_minv [OF assms(1)], of w] assms(2) by auto

theorem rwlock_mutual_exclusion_witness:
  "\<exists>s. reach rw_init rw_step s \<and> rw_writer (mon_obj s) = Some 1 \<and>
       rw_readers (mon_obj s) = [] \<and> mon_pc s 1 = Outside"
proof (intro exI conjI)
  show w: "rw_writer (mon_obj rw_contended) = Some 1" by (simp add: rw_contended_eq)
  show "rw_readers (mon_obj rw_contended) = []" "mon_pc rw_contended 1 = Outside"
    using rwlock_mutual_exclusion [OF reach_contended w] by auto
qed (rule reach_contended)

text \<open>
  C2: No lost wake-up: in every reachable interleaving, a thread blocked in \<^verbatim>\<open>RWLock\<close> that no
  notification has reached would still be refused if it looked at the lock now. Every change
  that lets a blocked reader or writer in is therefore followed by \<^verbatim>\<open>notify_all\<close>, including
  the withdrawal of a writer that timed out or was interrupted.
\<close>
theorem rwlock_no_lost_wakeup:
  assumes "reach rw_init rw_step s" and "t \<in> mon_asleep s"
  shows "mon_pc s t \<noteq> Outside \<and> \<not> rw_enabled (mon_pc s t) t (mon_obj s)"
  using rwl.no_lost_wakeup [OF assms] by (simp add: rw_blocked_def)

theorem rwlock_no_lost_wakeup_witness:
  "\<exists>s. reach rw_init rw_step s \<and> 2 \<in> mon_asleep s \<and> \<not> rw_enabled (mon_pc s 2) 2 (mon_obj s)"
proof (intro exI conjI)
  show a: "2 \<in> mon_asleep rw_contended" by (simp add: rw_contended_eq)
  show "\<not> rw_enabled (mon_pc rw_contended 2) 2 (mon_obj rw_contended)"
    using rwlock_no_lost_wakeup [OF reach_contended a] by blast
qed (rule reach_contended)

text \<open>
  C3: Progress of \<^verbatim>\<open>RWLock\<close>: in every reachable interleaving where nobody holds the lock and
  some thread is blocked in it, some blocked thread is awake (was notified) and is granted the
  lock as soon as it runs. The lock alone never deadlocks.
\<close>
theorem rwlock_progress:
  assumes r: "reach rw_init rw_step s" and free: "rw_writer (mon_obj s) = None"
    "rw_readers (mon_obj s) = []" and u: "mon_pc s u \<noteq> Outside"
  shows "\<exists>t. mon_pc s t \<noteq> Outside \<and> t \<notin> mon_asleep s \<and> rw_enabled (mon_pc s t) t (mon_obj s)"
proof -
  note inv = rwl.reach_minv [OF r]
  have "\<exists>t. mon_pc s t \<noteq> Outside \<and> rw_enabled (mon_pc s t) t (mon_obj s)"
  proof (cases "rw_pending (mon_obj s)")
    case Nil
    then have "mon_pc s u = InRead" using u rw_minv_pending [OF inv, of u] by (cases "mon_pc s u") auto
    with Nil free show ?thesis by (intro exI [of _ u]) (simp add: rw_enabled_simps)
  next
    case (Cons t ts)
    then have "mon_pc s t = InWrite" using rw_minv_pending [OF inv, of t] by simp
    with Cons free show ?thesis by (intro exI [of _ t]) (simp add: rw_enabled_simps)
  qed
  then show ?thesis using rwl.enabled_awake [OF r] by blast
qed

theorem rwlock_progress_witness:
  "\<exists>s t. reach rw_init rw_step s \<and> mon_pc s 2 \<noteq> Outside \<and>
     t \<notin> mon_asleep s \<and> rw_enabled (mon_pc s t) t (mon_obj s)"
proof -
  let ?s = "run_release 1 rw_contended"
  have r: "reach rw_init rw_step ?s"
    by (rule reach_run [OF reach_contended]) (simp add: rw_contended_eq)
  have f: "rw_writer (mon_obj ?s) = None" "rw_readers (mon_obj ?s) = []" "mon_pc ?s 2 \<noteq> Outside"
    by (simp_all add: rw_contended_eq run_simps)
  from rwlock_progress [OF r f] f(3) r show ?thesis by blast
qed

text \<open>
  Writer preference: while a writer is queued, a thread that holds no lock is not granted a
  read lock (it waits, or times out when its time is up) and the lock is unchanged; a reader
  asking for the write lock is refused at once with the deadlock answer, unchanged too.
\<close>
theorem rwlock_writer_preference:
  assumes "reach rw_init rw_step s" and "mon_pc s t = Outside"
    and "rw_writer (mon_obj s) \<noteq> Some t"
  shows "(rw_pending (mon_obj s) \<noteq> [] \<longrightarrow> \<not> dhas (rw_readers (mon_obj s)) t \<longrightarrow>
            acquire_read t ex (mon_obj s) = (if ex then Return TimedOut else Wait, mon_obj s)) \<and>
         (dhas (rw_readers (mon_obj s)) t \<longrightarrow>
            acquire_write t ex (mon_obj s) = (Return WouldDeadlock, False, mon_obj s))"
  using assms rw_minv_pending [OF rwl.reach_minv [OF assms(1)], of t]
  by (auto simp: acquire_read_def read_loop_def wait_or_timeout_def acquire_write_def write_finally_def)

theorem rwlock_writer_preference_witness:
  "acquire_read 4 True (mon_obj rw_contended) = (Return TimedOut, mon_obj rw_contended)"
proof -
  have "mon_pc rw_contended 4 = Outside" "rw_writer (mon_obj rw_contended) \<noteq> Some 4"
    by (simp_all add: rw_contended_eq)
  from rwlock_writer_preference [OF reach_contended this, of True]
  show ?thesis by (simp add: rw_contended_eq dict_simps)
qed

text \<open>
  Balanced use of the write lock: when \<^verbatim>\<open>acquire_write(0)\<close> is granted to a thread, acquiring it
  any number of further times and releasing it as often succeeds, and leaves every thread
  holding exactly what it held before.
\<close>
theorem rwlock_write_balanced:
  assumes "rw_quiet l" and "fst (try_acquire_write t l)"
  shows "\<exists>l'. lock_run try_acquire_write try_release_rw
                 (replicate (Suc n) (Acquire t) @ replicate (Suc n) (Release t)) l = Some l' \<and>
               rw_quiet l' \<and> write_holds l' = write_holds l"
  using rww.balanced [OF assms(1), of t "snd (try_acquire_write t l)" n] assms(2)
  by (cases "try_acquire_write t l") auto

theorem rwlock_write_balanced_witness:
  "\<exists>l'. lock_run try_acquire_write try_release_rw
     (replicate (Suc 2) (Acquire 7) @ replicate (Suc 2) (Release 7)) rw_new = Some l' \<and>
     write_holds l' = write_holds rw_new"
proof -
  have q: "rw_quiet rw_new" by (simp add: rw_quiet_def rw_ok_new) (simp add: rw_new_def)
  have "fst (try_acquire_write 7 rw_new)"
    by (simp add: try_acquire_write_cases [OF q]) (simp add: rw_new_def)
  from rwlock_write_balanced [OF q this, of 2] show ?thesis by blast
qed

section \<open>Properties of ListLock\<close>

text \<open>
  \<^verbatim>\<open>ListLock\<close> on one element: while a thread holds the element every other thread is refused and
  changes nothing, cannot release it, and the holder's \<open>n\<close> further acquisitions and \<open>n\<close> releases
  all succeed and restore every thread's count.
\<close>
theorem listlock_exclusive:
  assumes "ll_ok l" and "0 < ll_holds e l t" and "u \<noteq> t"
  shows "ll_try_acquire e u l = (False, l) \<and> (\<exists>x. ll_release e u l = Inl x) \<and>
     (\<exists>l'. lock_run (ll_try_acquire e) (ll_release_opt e)
              (replicate n (Acquire t) @ replicate n (Release t)) l = Some l' \<and>
            ll_holds e l' = ll_holds e l)"
proof (intro conjI)
  show "ll_try_acquire e u l = (False, l)"
    using assms(2,3) by (auto simp: ll_defs split: option.splits if_splits)
  show "\<exists>x. ll_release e u l = Inl x"
    using ll.no_foreign_release [OF assms] by (auto simp: ll_release_opt_def split: sum.splits)
  show "\<exists>l'. lock_run (ll_try_acquire e) (ll_release_opt e)
              (replicate n (Acquire t) @ replicate n (Release t)) l = Some l' \<and>
            ll_holds e l' = ll_holds e l"
  proof (cases n)
    case (Suc m)
    obtain l1 where "ll_try_acquire e t l = (True, l1)" using ll.reacquire [OF assms(1,2)] by blast
    from ll.balanced [OF assms(1) this, of m] Suc show ?thesis by blast
  qed simp
qed

theorem listlock_exclusive_witness:
  "ll_try_acquire ''zone'' 2 [(''zone'', (1, 1))] = (False, [(''zone'', (1, 1))])"
proof -
  have "ll_ok [(''zone'', (1 :: tid, 1 :: int))]" by (simp add: ll_ok_def dict_simps)
  moreover have "0 < ll_holds ''zone'' [(''zone'', (1 :: tid, 1 :: int))] 1"
    by (simp add: ll_holds_def dict_simps)
  ultimately show ?thesis
    using listlock_exclusive [of "[(''zone'', (1 :: tid, 1 :: int))]" "''zone''" 1 2 0] by simp
qed

end
