(* ===== verification/Keystore.thy ===== *)
theory Keystore
  imports Monitor
begin

text \<open>
  \<^verbatim>\<open>sonicprobe/libs/keystore.py\<close>: named sections with reentrant section and global ownership.
  One condition guards the whole object, so a method is a sequence of atomic segments that
  ends by returning, by raising, or in \<^verbatim>\<open>Condition.wait\<close>. Each \<^verbatim>\<open>wait\<close> of the code is one of the
  three blocked program counters: in \<^verbatim>\<open>_enter\<close>, in \<^verbatim>\<open>_acquire_section\<close>, in \<^verbatim>\<open>_acquire_global\<close>.
  Section names, keys and values are type variables; clock readings are \<open>int\<close>.
\<close>

section \<open>State\<close>

record ('n, 'k, 'v) keystore =
  ks_data :: "('n, ('k, 'v) dict) dict"
  ks_lock :: "('n, rlock) dict"
  ks_updated :: "('n, int) dict"
  ks_owners :: "('n, tid \<times> int) dict"
  ks_waiters :: "('n, int) dict"
  ks_gowner :: "tid option"
  ks_gdepth :: int
  ks_gwaiters :: int

definition ks_new :: "('n, 'k, 'v) keystore" where
  "ks_new = \<lparr>ks_data = [], ks_lock = [], ks_updated = [], ks_owners = [], ks_waiters = [],
     ks_gowner = None, ks_gdepth = 0, ks_gwaiters = 0\<rparr>"

text \<open>What the methods return: the store itself, \<^verbatim>\<open>None\<close>, a truth value, the 0 of the historical
  failure convention, an object (or the default), a snapshot, a time stamp (or the default).\<close>

datatype ('n, 'k, 'v) reply =
    RSelf | RNone | RBool bool | RZero | RObj "'v option" | RItems "('k \<times> 'v) list"
  | RKeys "'k list" | RVals "'v list" | RNames "'n list" | RTime "int option"

section \<open>Helpers of the class\<close>

definition owns_section :: "tid \<Rightarrow> ('n, 'k, 'v) keystore \<Rightarrow> bool" where
  "owns_section t s = list_ex (\<lambda>owner. fst owner = t) (dvals (ks_owners s))"

definition can_enter :: "tid \<Rightarrow> ('n, 'k, 'v) keystore \<Rightarrow> bool" where
  "can_enter t s = (case ks_gowner s of Some g \<Rightarrow> g = t
     | None \<Rightarrow> ks_gwaiters s = 0 \<or> owns_section t s)"

text \<open>The loop condition of \<^verbatim>\<open>_enter\<close>.\<close>

definition enter_waits :: "tid \<Rightarrow> bool \<Rightarrow> ('n, 'k, 'v) keystore \<Rightarrow> bool" where
  "enter_waits me global_request s =
     ((ks_gowner s \<noteq> None \<and> ks_gowner s \<noteq> Some me) \<or> (\<not> global_request \<and> \<not> can_enter me s))"

definition ensure_lock :: "'n \<Rightarrow> ('n, 'k, 'v) keystore \<Rightarrow> ('n, 'k, 'v) keystore" where
  "ensure_lock n s =
     (if dhas (ks_lock s) n then s else s\<lparr>ks_lock := dset (ks_lock s) n None\<rparr>)"

definition ensure_data :: "'n \<Rightarrow> ('n, 'k, 'v) keystore \<Rightarrow> ('n, 'k, 'v) keystore" where
  "ensure_data n s =
     (if dhas (ks_data s) n then s
      else s\<lparr>ks_data := dset (ks_data s) n [], ks_updated := dset (ks_updated s) n 0\<rparr>)"

definition cleanup_section :: "'n \<Rightarrow> ('n, 'k, 'v) keystore \<Rightarrow> ('n, 'k, 'v) keystore" where
  "cleanup_section n s =
     (if \<not> dhas (ks_data s) n \<and> \<not> dhas (ks_owners s) n \<and> dgetd (ks_waiters s) n 0 = 0
      then s\<lparr>ks_lock := ddel (ks_lock s) n, ks_waiters := ddel (ks_waiters s) n\<rparr> else s)"

section \<open>Section locks\<close>

text \<open>
  One iteration of the loop of \<^verbatim>\<open>_acquire_section\<close>. The code keeps a reference to the section's
  \<^verbatim>\<open>RLock\<close> while it waits; the model looks the name up again, which is the same object because a
  registered waiter keeps the entry in place (part 6 of the invariant below).
\<close>

datatype section_answer = AMissing | AGot | AExpired | AWait

definition section_iter ::
  "bool \<Rightarrow> bool \<Rightarrow> tid \<Rightarrow> 'n \<Rightarrow> ('n, 'k, 'v) keystore \<Rightarrow> section_answer \<times> ('n, 'k, 'v) keystore" where
  "section_iter exists expired me n s =
     (let waits = (if expired then AExpired else AWait, s) in
      if exists \<and> \<not> dhas (ks_data s) n then (AMissing, s)
      else if can_enter me s then
        (case rl_try me (dgetd (ks_lock s) n None) of
           (True, rl) \<Rightarrow>
             (AGot, s\<lparr>ks_lock := dset (ks_lock s) n rl,
                      ks_owners := dset (ks_owners s) n
                        (me, case dget (ks_owners s) n of None \<Rightarrow> 1 | Some (_, c) \<Rightarrow> c + 1)\<rparr>)
         | (False, _) \<Rightarrow> waits)
      else waits)"

text \<open>The \<^verbatim>\<open>finally\<close> clause of \<^verbatim>\<open>_acquire_section\<close>.\<close>

definition section_leave :: "'n \<Rightarrow> ('n, 'k, 'v) keystore \<Rightarrow> ('n, 'k, 'v) keystore" where
  "section_leave n s =
     cleanup_section n (s\<lparr>ks_waiters := dset (ks_waiters s) n (dgetd (ks_waiters s) n 0 - 1)\<rparr>)"

definition section_turn ::
  "bool \<Rightarrow> bool \<Rightarrow> tid \<Rightarrow> 'n \<Rightarrow> ('n, 'k, 'v) keystore \<Rightarrow> section_answer \<times> ('n, 'k, 'v) keystore" where
  "section_turn exists expired me n s =
     (case section_iter exists expired me n s of
        (AWait, s') \<Rightarrow> (AWait, s') | (a, s') \<Rightarrow> (a, section_leave n s'))"

definition acquire_section ::
  "bool \<Rightarrow> bool \<Rightarrow> tid \<Rightarrow> 'n \<Rightarrow> ('n, 'k, 'v) keystore \<Rightarrow> section_answer \<times> ('n, 'k, 'v) keystore" where
  "acquire_section exists expired me n s =
     (let s1 = ensure_lock n s;
          s2 = s1\<lparr>ks_waiters := dset (ks_waiters s1) n (dgetd (ks_waiters s1) n 0 + 1)\<rparr>
      in section_turn exists expired me n s2)"

definition release_section ::
  "tid \<Rightarrow> 'n \<Rightarrow> ('n, 'k, 'v) keystore \<Rightarrow> pyerror + ('n, 'k, 'v) keystore" where
  "release_section me n s =
     (case dget (ks_owners s) n of
        None \<Rightarrow> Inl (RuntimeError ''cannot release an unowned section lock'')
      | Some (owner, c) \<Rightarrow>
          if owner \<noteq> me then Inl (RuntimeError ''cannot release an unowned section lock'')
          else case dget (ks_lock s) n of
            None \<Rightarrow> Inl KeyError
          | Some rl \<Rightarrow>
             (case rl_release me rl of
                None \<Rightarrow> Inl (RuntimeError ''cannot release un-acquired lock'')
              | Some rl' \<Rightarrow>
                  let s1 = s\<lparr>ks_lock := dset (ks_lock s) n rl',
                             ks_owners := dset (ks_owners s) n (owner, c - 1)\<rparr>;
                      s2 = (if c - 1 = 0 then s1\<lparr>ks_owners := ddel (ks_owners s1) n\<rparr> else s1)
                  in Inr (cleanup_section n s2)))"

section \<open>Data operations\<close>

datatype ('n, 'k, 'v) data_op =
    OpAdd 'n | OpGet 'n 'k "'v option" | OpSet 'n 'k 'v | OpExists 'n | OpIteritems 'n
  | OpIterkeys 'n | OpItervalues 'n | OpHasKey 'n 'k | OpDelete 'n | OpRemove 'n 'k
  | OpUpdatedAt 'n "int option" | OpUpdatedDelta 'n | OpExpired 'n int | OpPurge 'n | OpReset 'n
  | OpList

text \<open>The arguments of \<^verbatim>\<open>_section_guard\<close>: name, \<^verbatim>\<open>missing_ok\<close>, \<^verbatim>\<open>create\<close>; \<open>None\<close> for the methods that
  use \<^verbatim>\<open>_guard\<close> alone.\<close>

fun op_section :: "('n, 'k, 'v) data_op \<Rightarrow> ('n \<times> bool \<times> bool) option" where
  "op_section (OpAdd n) = Some (n, True, True)"
| "op_section (OpGet n k d) = Some (n, True, False)"
| "op_section (OpSet n k v) = Some (n, True, True)"
| "op_section (OpExists n) = Some (n, True, False)"
| "op_section (OpIteritems n) = None"
| "op_section (OpIterkeys n) = None"
| "op_section (OpItervalues n) = None"
| "op_section (OpHasKey n k) = Some (n, True, False)"
| "op_section (OpDelete n) = Some (n, True, False)"
| "op_section (OpRemove n k) = Some (n, False, False)"
| "op_section (OpUpdatedAt n d) = Some (n, True, False)"
| "op_section (OpUpdatedDelta n) = Some (n, True, False)"
| "op_section (OpExpired n e) = Some (n, True, False)"
| "op_section (OpPurge n) = Some (n, True, False)"
| "op_section (OpReset n) = Some (n, True, False)"
| "op_section OpList = None"

text \<open>\<^verbatim>\<open>purge\<close> and \<^verbatim>\<open>reset\<close> replace the data of an existing section and stamp it.\<close>

definition restart_section :: "int \<Rightarrow> 'n \<Rightarrow> ('n, 'k, 'v) keystore \<Rightarrow> ('n, 'k, 'v) keystore" where
  "restart_section stamp n s =
     (if dhas (ks_data s) n
      then s\<lparr>ks_data := dset (ks_data s) n [], ks_updated := dset (ks_updated s) n stamp\<rparr> else s)"

text \<open>The body of each method, run under the guards: its reply or exception, the state, and whether
  it notifies.\<close>

fun op_body :: "int \<Rightarrow> ('n, 'k, 'v) data_op \<Rightarrow> ('n, 'k, 'v) keystore \<Rightarrow>
    (pyerror + ('n, 'k, 'v) reply) \<times> ('n, 'k, 'v) keystore \<times> bool" where
  "op_body now (OpAdd n) s = (Inr RSelf, s, False)"
| "op_body now (OpGet n k d) s =
     (Inr (RObj (case dget (ks_data s) n of None \<Rightarrow> d
        | Some sec \<Rightarrow> (case dget sec k of None \<Rightarrow> d | Some v \<Rightarrow> Some v))), s, False)"
| "op_body now (OpSet n k v) s =
     (case dget (ks_data s) n of None \<Rightarrow> (Inl KeyError, s, False)
      | Some sec \<Rightarrow> (Inr RSelf, s\<lparr>ks_data := dset (ks_data s) n (dset sec k v),
                                  ks_updated := dset (ks_updated s) n now\<rparr>, False))"
| "op_body now (OpExists n) s = (Inr (RBool (dhas (ks_data s) n)), s, False)"
| "op_body now (OpIteritems n) s =
     (case dget (ks_data s) n of None \<Rightarrow> (Inl KeyError, s, False)
      | Some sec \<Rightarrow> (Inr (RItems sec), s, False))"
| "op_body now (OpIterkeys n) s =
     (case dget (ks_data s) n of None \<Rightarrow> (Inl KeyError, s, False)
      | Some sec \<Rightarrow> (Inr (RKeys (dkeys sec)), s, False))"
| "op_body now (OpItervalues n) s =
     (case dget (ks_data s) n of None \<Rightarrow> (Inl KeyError, s, False)
      | Some sec \<Rightarrow> (Inr (RVals (dvals sec)), s, False))"
| "op_body now (OpHasKey n k) s =
     (case dget (ks_data s) n of None \<Rightarrow> (Inl KeyError, s, False)
      | Some sec \<Rightarrow> (Inr (RBool (dhas sec k)), s, False))"
| "op_body now (OpDelete n) s =
     (Inr RSelf, s\<lparr>ks_data := ddel (ks_data s) n, ks_updated := ddel (ks_updated s) n\<rparr>, True)"
| "op_body now (OpRemove n k) s =
     (case dget (ks_data s) n of None \<Rightarrow> (Inl KeyError, s, False)
      | Some sec \<Rightarrow> (Inr RSelf, s\<lparr>ks_data := dset (ks_data s) n (ddel sec k),
                                  ks_updated := dset (ks_updated s) n now\<rparr>, False))"
| "op_body now (OpUpdatedAt n d) s =
     (Inr (RTime (case dget (ks_updated s) n of None \<Rightarrow> d | Some t \<Rightarrow> Some t)), s, False)"
| "op_body now (OpUpdatedDelta n) s =
     (case dget (ks_updated s) n of None \<Rightarrow> (Inl KeyError, s, False)
      | Some t \<Rightarrow> (Inr (RTime (Some (now - t))), s, False))"
| "op_body now (OpExpired n e) s =
     (case dget (ks_updated s) n of None \<Rightarrow> (Inr RNone, s, False)
      | Some t \<Rightarrow> (Inr (RBool (0 \<le> e \<and> e < now - t)), s, False))"
| "op_body now (OpPurge n) s = (Inr RSelf, restart_section 0 n s, False)"
| "op_body now (OpReset n) s = (Inr RSelf, restart_section now n s, False)"
| "op_body now OpList s = (Inr (RNames (dkeys (ks_data s))), s, False)"

section \<open>Calls as segments\<close>

text \<open>
  A request is a data method with its \<^verbatim>\<open>lock\<close> argument, or \<^verbatim>\<open>acquire\<close>/\<^verbatim>\<open>try_acquire\<close> of a section
  with \<^verbatim>\<open>exists\<close>, whether it has a deadline (\<open>bounded\<close>; the blocking form has none, but reports
  a timed-out entry as an error) and its failure value. The program counters are the places
  where a thread is outside or asleep.
\<close>

datatype ('n, 'k, 'v) request =
    DataReq bool "('n, 'k, 'v) data_op"
  | NamedReq 'n bool bool "('n, 'k, 'v) reply"

datatype ('n, 'k, 'v) ks_pc =
    KOut | KEnter "('n, 'k, 'v) request" | KSection "('n, 'k, 'v) request"
  | KGEnter bool "('n, 'k, 'v) reply" | KGlobal bool "('n, 'k, 'v) reply"

fun req_name :: "('n, 'k, 'v) request \<Rightarrow> 'n option" where
  "req_name (DataReq lk op) = map_option fst (op_section op)"
| "req_name (NamedReq n ex bd fl) = Some n"

fun req_exists :: "('n, 'k, 'v) request \<Rightarrow> bool" where
  "req_exists (DataReq lk op) = False"
| "req_exists (NamedReq n ex bd fl) = ex"

fun req_bounded :: "('n, 'k, 'v) request \<Rightarrow> bool" where
  "req_bounded (DataReq lk op) = False"
| "req_bounded (NamedReq n ex bd fl) = bd"

text \<open>The end of a data method: \<^verbatim>\<open>_ensure_data\<close>, the body, the \<^verbatim>\<open>finally\<close> of \<^verbatim>\<open>_section_guard\<close>.\<close>

definition finish_op :: "int \<Rightarrow> tid \<Rightarrow> bool \<Rightarrow> ('n, 'k, 'v) data_op \<Rightarrow> ('n, 'k, 'v) keystore \<Rightarrow>
    (pyerror + ('n, 'k, 'v) reply) \<times> ('n, 'k, 'v) keystore \<times> bool" where
  "finish_op now me acquired op s =
     (case op_section op of
        None \<Rightarrow> op_body now op s
      | Some (n, missing_ok, create) \<Rightarrow>
          (case op_body now op (if create then ensure_data n s else s) of
             (r, s2, nt) \<Rightarrow>
               if acquired then
                 (case release_section me n s2 of
                    Inl e \<Rightarrow> (Inl e, s2, nt) | Inr s3 \<Rightarrow> (r, s3, True))
               else (r, cleanup_section n s2, nt)))"

type_synonym ('n, 'k, 'v) ks_out =
  "('n, 'k, 'v) ks_pc \<times> (pyerror + ('n, 'k, 'v) reply) option \<times> bool \<times> ('n, 'k, 'v) keystore"

fun after_section :: "int \<Rightarrow> tid \<Rightarrow> ('n, 'k, 'v) request \<Rightarrow>
    section_answer \<times> ('n, 'k, 'v) keystore \<Rightarrow> ('n, 'k, 'v) ks_out" where
  "after_section now me req (AWait, s) = (KSection req, None, False, s)"
| "after_section now me (DataReq lk op) (a, s) =
     (case finish_op now me (a = AGot) op s of (r, s', nt) \<Rightarrow> (KOut, Some r, nt, s'))"
| "after_section now me (NamedReq n ex bd fl) (AMissing, s) = (KOut, Some (Inr RNone), False, s)"
| "after_section now me (NamedReq n ex bd fl) (AExpired, s) = (KOut, Some (Inr fl), False, s)"
| "after_section now me (NamedReq n ex bd fl) (AGot, s) =
     (KOut, Some (Inr (RBool True)), False, if ex then s else ensure_data n s)"

text \<open>The part of a request after a successful \<^verbatim>\<open>_enter\<close>.\<close>

fun run_req :: "bool \<Rightarrow> int \<Rightarrow> tid \<Rightarrow> ('n, 'k, 'v) request \<Rightarrow> ('n, 'k, 'v) keystore \<Rightarrow> ('n, 'k, 'v) ks_out"
where
  "run_req expired now me (DataReq lk op) s =
     (case op_section op of
        None \<Rightarrow> (case finish_op now me False op s of (r, s', nt) \<Rightarrow> (KOut, Some r, nt, s'))
      | Some (n, missing_ok, create) \<Rightarrow>
          if \<not> missing_ok \<and> \<not> dhas (ks_data s) n then (KOut, Some (Inl KeyError), False, s)
          else (let s1 = (if create then ensure_lock n s else s) in
                if lk \<and> dhas (ks_lock s1) n
                then after_section now me (DataReq lk op) (acquire_section False False me n s1)
                else (case finish_op now me False op s1 of (r, s', nt) \<Rightarrow> (KOut, Some r, nt, s'))))"
| "run_req expired now me (NamedReq n ex bd fl) s =
     (if ex \<and> \<not> dhas (ks_data s) n then (KOut, Some (Inr RNone), False, s)
      else after_section now me (NamedReq n ex bd fl) (acquire_section ex (bd \<and> expired) me n s))"

fun enter_failure :: "('n, 'k, 'v) request \<Rightarrow> pyerror + ('n, 'k, 'v) reply" where
  "enter_failure (DataReq lk op) = Inl (RuntimeError ''unable to lock'')"
| "enter_failure (NamedReq n ex bd fl) =
     (if bd then Inr fl else Inl (RuntimeError ''unable to lock''))"

definition enter_seg ::
  "bool \<Rightarrow> int \<Rightarrow> tid \<Rightarrow> ('n, 'k, 'v) request \<Rightarrow> ('n, 'k, 'v) keystore \<Rightarrow> ('n, 'k, 'v) ks_out" where
  "enter_seg expired now me req s =
     (if enter_waits me False s
      then if expired then (KOut, Some (enter_failure req), False, s)
           else (KEnter req, None, False, s)
      else run_req expired now me req s)"

definition section_seg ::
  "bool \<Rightarrow> int \<Rightarrow> tid \<Rightarrow> ('n, 'k, 'v) request \<Rightarrow> ('n, 'k, 'v) keystore \<Rightarrow> ('n, 'k, 'v) ks_out" where
  "section_seg expired now me req s =
     (case req_name req of None \<Rightarrow> (KSection req, None, False, s)
      | Some n \<Rightarrow> after_section now me req
          (section_turn (req_exists req) (req_bounded req \<and> expired) me n s))"

section \<open>The global lock\<close>

datatype global_answer = GGot | GRefused | GWait

definition global_iter :: "tid \<Rightarrow> bool \<Rightarrow> ('n, 'k, 'v) keystore \<Rightarrow> global_answer" where
  "global_iter me expired s =
     (let owners = map fst (dvals (ks_owners s)) in
      if (ks_gowner s = None \<or> ks_gowner s = Some me) \<and> list_all (\<lambda>owner. owner = me) owners
      then GGot
      else if me \<in> set owners \<or> expired then GRefused else GWait)"

definition global_turn :: "bool \<Rightarrow> tid \<Rightarrow> bool \<Rightarrow> ('n, 'k, 'v) reply \<Rightarrow> ('n, 'k, 'v) keystore \<Rightarrow>
    ('n, 'k, 'v) ks_out" where
  "global_turn expired me bounded failure s =
     (case global_iter me (bounded \<and> expired) s of
        GWait \<Rightarrow> (KGlobal bounded failure, None, False, s)
      | GRefused \<Rightarrow> (KOut, Some (Inr failure), True, s\<lparr>ks_gwaiters := ks_gwaiters s - 1\<rparr>)
      | GGot \<Rightarrow> (KOut, Some (Inr (RBool True)), True,
          s\<lparr>ks_gowner := Some me, ks_gdepth := ks_gdepth s + 1, ks_gwaiters := ks_gwaiters s - 1\<rparr>))"

definition global_seg :: "bool \<Rightarrow> tid \<Rightarrow> bool \<Rightarrow> ('n, 'k, 'v) reply \<Rightarrow> ('n, 'k, 'v) keystore \<Rightarrow>
    ('n, 'k, 'v) ks_out" where
  "global_seg expired me bounded failure s =
     (if enter_waits me True s
      then if bounded \<and> expired then (KOut, Some (Inr failure), False, s)
           else (KGEnter bounded failure, None, False, s)
      else global_turn expired me bounded failure (s\<lparr>ks_gwaiters := ks_gwaiters s + 1\<rparr>))"

definition ks_unlock :: "tid \<Rightarrow> ('n, 'k, 'v) keystore \<Rightarrow> pyerror + (bool \<times> ('n, 'k, 'v) keystore)" where
  "ks_unlock me s =
     (if ks_gowner s \<noteq> Some me then Inl (RuntimeError ''cannot release an unowned lock'')
      else (let d = ks_gdepth s - 1 in
            if d = 0 then Inr (True, s\<lparr>ks_gdepth := d, ks_gowner := None\<rparr>)
            else Inr (False, s\<lparr>ks_gdepth := d\<rparr>)))"

definition ks_release :: "tid \<Rightarrow> 'n \<Rightarrow> ('n, 'k, 'v) keystore \<Rightarrow> pyerror + (bool \<times> ('n, 'k, 'v) keystore)" where
  "ks_release me n s =
     (if dhas (ks_lock s) n
      then (case release_section me n s of Inl e \<Rightarrow> Inl e | Inr s' \<Rightarrow> Inr (True, s'))
      else Inr (False, s))"

text \<open>\<^verbatim>\<open>try_release\<close> and \<^verbatim>\<open>try_unlock\<close> swallow the errors.\<close>

definition ks_try_release :: "tid \<Rightarrow> 'n \<Rightarrow> ('n, 'k, 'v) keystore \<Rightarrow> bool \<times> ('n, 'k, 'v) keystore" where
  "ks_try_release me n s = (case ks_release me n s of Inl _ \<Rightarrow> (False, s) | Inr x \<Rightarrow> x)"

definition ks_try_unlock :: "tid \<Rightarrow> ('n, 'k, 'v) keystore \<Rightarrow> bool \<times> ('n, 'k, 'v) keystore" where
  "ks_try_unlock me s = (case ks_unlock me s of Inl _ \<Rightarrow> (False, s) | Inr x \<Rightarrow> x)"

section \<open>Steps\<close>

text \<open>
  An exception raised out of \<^verbatim>\<open>wait\<close> runs the \<^verbatim>\<open>finally\<close> clauses it passes. A deadline that runs out
  while \<^verbatim>\<open>_enter\<close> still polls for the mutex (\<open>contended\<close>) returns without touching the store.
\<close>

inductive ks_seg :: "tid \<Rightarrow> ('n, 'k, 'v) ks_pc \<Rightarrow> ('n, 'k, 'v) keystore \<Rightarrow>
    ('n, 'k, 'v) ks_pc \<Rightarrow> bool \<Rightarrow> ('n, 'k, 'v) keystore \<Rightarrow> bool" where
  call: "enter_seg ex now t req s = (p, r, n, s') \<Longrightarrow> ks_seg t KOut s p n s'"
| resume_enter: "enter_seg ex now t req s = (p, r, n, s') \<Longrightarrow> ks_seg t (KEnter req) s p n s'"
| resume_section: "section_seg ex now t req s = (p, r, n, s') \<Longrightarrow> ks_seg t (KSection req) s p n s'"
| call_lock: "global_seg ex t bd fl s = (p, r, n, s') \<Longrightarrow> ks_seg t KOut s p n s'"
| resume_lock: "global_seg ex t bd fl s = (p, r, n, s') \<Longrightarrow> ks_seg t (KGEnter bd fl) s p n s'"
| resume_global: "global_turn ex t bd fl s = (p, r, n, s') \<Longrightarrow> ks_seg t (KGlobal bd fl) s p n s'"
| call_unlock: "ks_try_unlock t s = (n, s') \<Longrightarrow> ks_seg t KOut s KOut n s'"
| call_release: "ks_try_release t m s = (n, s') \<Longrightarrow> ks_seg t KOut s KOut n s'"
| contended: "ks_seg t KOut s KOut False s"
| raise_enter: "ks_seg t (KEnter req) s KOut False s"
| raise_genter: "ks_seg t (KGEnter bd fl) s KOut False s"
| raise_section: "req_name req = Some m \<Longrightarrow>
     ks_seg t (KSection req) s KOut False (cleanup_section m (section_leave m s))"
| raise_global: "ks_seg t (KGlobal bd fl) s KOut True (s\<lparr>ks_gwaiters := ks_gwaiters s - 1\<rparr>)"

definition ks_blocked :: "('n, 'k, 'v) ks_pc \<Rightarrow> bool" where
  "ks_blocked p \<longleftrightarrow> p \<noteq> KOut"

text \<open>Whether a thread asleep at \<open>p\<close> would go on if it looked now (no deadline running out).\<close>

definition ks_enabled :: "('n, 'k, 'v) ks_pc \<Rightarrow> tid \<Rightarrow> ('n, 'k, 'v) keystore \<Rightarrow> bool" where
  "ks_enabled p t s = (case p of KOut \<Rightarrow> False
     | KEnter _ \<Rightarrow> \<not> enter_waits t False s
     | KGEnter _ _ \<Rightarrow> \<not> enter_waits t True s
     | KSection req \<Rightarrow> (case req_name req of None \<Rightarrow> False
         | Some n \<Rightarrow> fst (section_iter (req_exists req) False t n s) \<noteq> AWait)
     | KGlobal _ _ \<Rightarrow> global_iter t False s \<noteq> GWait)"

definition ks_step :: "(('n, 'k, 'v) keystore, ('n, 'k, 'v) ks_pc) monitor \<Rightarrow>
    (('n, 'k, 'v) keystore, ('n, 'k, 'v) ks_pc) monitor \<Rightarrow> bool" where
  "ks_step = mon_step ks_seg ks_blocked"

definition ks_init :: "(('n, 'k, 'v) keystore, ('n, 'k, 'v) ks_pc) monitor \<Rightarrow> bool" where
  "ks_init = mon_init ks_new KOut"

end
