(* ===== verification/Keystore_Safety.thy ===== *)
theory Keystore_Safety
  imports Keystore
begin

text \<open>
  The invariant of the \<^verbatim>\<open>Keystore\<close>: the dictionaries agree with one another, every entry of the
  lock table is accounted for, the counters count the threads at their program counters, and a
  global owner excludes every other owner. Every segment keeps it and notifies whenever it
  lets another blocked thread go on.
\<close>

section \<open>The invariant of the store\<close>

text \<open>
  \<open>W n\<close> threads wait for section \<open>n\<close> and \<open>G\<close> threads for the global lock; the names in \<open>X\<close> are
  exempt from part 5 in the middle of a segment.
\<close>

fun owner_ok :: "(tid \<times> int) option \<Rightarrow> rlock option \<Rightarrow> bool" where
  "owner_ok None l = (l = None \<or> l = Some None)"
| "owner_ok (Some (t, c)) l = (1 \<le> c \<and> l = Some (Some (t, c)))"

fun global_ok :: "tid option \<Rightarrow> int \<Rightarrow> ('n, tid \<times> int) dict \<Rightarrow> bool" where
  "global_ok None depth owners = (depth = 0)"
| "global_ok (Some g) depth owners =
     (1 \<le> depth \<and> (\<forall>n t c. dget owners n = Some (t, c) \<longrightarrow> t = g))"

definition kinv :: "'n set \<Rightarrow> ('n \<Rightarrow> nat) \<Rightarrow> nat \<Rightarrow> ('n, 'k, 'v) keystore \<Rightarrow> bool" where
  "kinv X W G s \<longleftrightarrow>
     dict_ok (ks_owners s) \<and>
     (\<forall>n. dhas (ks_updated s) n = dhas (ks_data s) n) \<and>
     (\<forall>n. owner_ok (dget (ks_owners s) n) (dget (ks_lock s) n)) \<and>
     (\<forall>n. dhas (ks_data s) n \<longrightarrow> dhas (ks_lock s) n) \<and>
     (\<forall>n. dhas (ks_lock s) n \<longrightarrow> n \<in> X \<or> dhas (ks_data s) n \<or> dhas (ks_owners s) n \<or> 0 < W n) \<and>
     (\<forall>n. dgetd (ks_waiters s) n 0 = int (W n) \<and> (dhas (ks_waiters s) n \<longrightarrow> dhas (ks_lock s) n)) \<and>
     global_ok (ks_gowner s) (ks_gdepth s) (ks_owners s) \<and> ks_gwaiters s = int G"

lemma kinvI:
  assumes "dict_ok (ks_owners s)" "\<And>n. dhas (ks_updated s) n = dhas (ks_data s) n"
    "\<And>n. owner_ok (dget (ks_owners s) n) (dget (ks_lock s) n)"
    "\<And>n. dhas (ks_data s) n \<Longrightarrow> dhas (ks_lock s) n"
    "\<And>n. dhas (ks_lock s) n \<Longrightarrow> n \<in> X \<or> dhas (ks_data s) n \<or> dhas (ks_owners s) n \<or> 0 < W n"
    "\<And>n. dgetd (ks_waiters s) n 0 = int (W n)" "\<And>n. dhas (ks_waiters s) n \<Longrightarrow> dhas (ks_lock s) n"
    "global_ok (ks_gowner s) (ks_gdepth s) (ks_owners s)" "ks_gwaiters s = int G"
  shows "kinv X W G s"
  unfolding kinv_def using assms by simp

lemma kinvD:
  assumes "kinv X W G s"
  shows "dict_ok (ks_owners s)" "dhas (ks_updated s) n = dhas (ks_data s) n"
    "owner_ok (dget (ks_owners s) n) (dget (ks_lock s) n)"
    "dhas (ks_data s) n \<Longrightarrow> dhas (ks_lock s) n"
    "dhas (ks_lock s) n \<Longrightarrow> n \<in> X \<or> dhas (ks_data s) n \<or> dhas (ks_owners s) n \<or> 0 < W n"
    "dgetd (ks_waiters s) n 0 = int (W n)" "dhas (ks_waiters s) n \<Longrightarrow> dhas (ks_lock s) n"
    "global_ok (ks_gowner s) (ks_gdepth s) (ks_owners s)" "ks_gwaiters s = int G"
  using assms unfolding kinv_def by simp_all

lemma kinv_mono: "kinv X W G s \<Longrightarrow> X \<subseteq> Y \<Longrightarrow> kinv Y W G s"
  by (auto simp: kinv_def)

lemma dgetd_upd [simp, dict_simps]:
  "dgetd (dset d k v) j w = (if j = k then v else dgetd d j w)"
  "dgetd (ddel d k) j w = (if j = k then w else dgetd d j w)"
  "dgetd [] j w = w"
  by (simp_all add: dgetd_def)

lemma dhas_get: "dhas d k = (\<exists>v. dget d k = Some v)"
  by (auto simp: dhas_def)

lemma dgetd_absent: "\<not> dhas d k \<Longrightarrow> dgetd d k v = v"
  by (auto simp: dgetd_def dhas_def)

lemma dgetd_pos: "0 < dgetd d k (0 :: int) \<Longrightarrow> dhas d k"
  by (auto simp: dgetd_def dhas_def split: option.splits)

lemma kinv_waiting: "kinv X W G s \<Longrightarrow> 0 < W n \<Longrightarrow> dhas (ks_lock s) n"
  using dgetd_pos [of "ks_waiters s" n] by (auto simp: kinv_def)

lemma owner_ok_absent: "owner_ok w None \<Longrightarrow> owner_ok w (Some None)"
  by (cases w) auto

lemma dget_absent: "\<not> dhas d k \<Longrightarrow> dget d k = None"
  by (simp add: dhas_def)

lemma kinv_ensure_lock: "kinv X W G s \<Longrightarrow> kinv (insert n X) W G (ensure_lock n s)"
  by (auto simp: kinv_def ensure_lock_def dget_absent) (metis dget_absent owner_ok_absent)

lemma ensure_lock_has [simp]: "dhas (ks_lock (ensure_lock n s)) n"
  by (simp add: ensure_lock_def)

lemma kinv_ensure_data:
  "kinv X W G s \<Longrightarrow> dhas (ks_lock s) n \<Longrightarrow> kinv (X - {n}) W G (ensure_data n s)"
  by (auto simp: kinv_def ensure_data_def)

lemma kinv_cleanup: "kinv X W G s \<Longrightarrow> kinv (X - {n}) W G (cleanup_section n s)"
  by (auto simp: kinv_def cleanup_section_def dget_absent)

lemma kinv_wait_add:
  "kinv X W G s \<Longrightarrow> dhas (ks_lock s) n \<Longrightarrow>
   kinv (X - {n}) (W(n := Suc (W n))) G
     (s\<lparr>ks_waiters := dset (ks_waiters s) n (dgetd (ks_waiters s) n 0 + 1)\<rparr>)"
  by (auto simp: kinv_def)

lemma kinv_wait_sub:
  "kinv X W G s \<Longrightarrow> 0 < W n \<Longrightarrow>
   kinv (insert n X) (W(n := W n - 1)) G
     (s\<lparr>ks_waiters := dset (ks_waiters s) n (dgetd (ks_waiters s) n 0 - 1)\<rparr>)"
  using kinv_waiting [of X W G s n]
  by (simp add: kinv_def)

lemma kinv_section_leave:
  assumes "kinv X W G s" "0 < W n"
  shows "kinv (X - {n}) (W(n := W n - 1)) G (section_leave n s)"
proof -
  have "insert n X - {n} = X - {n}" by auto
  with kinv_cleanup [OF kinv_wait_sub [OF assms], of n] show ?thesis
    by (simp only: section_leave_def)
qed

lemma can_enter_global:
  "kinv X W G s \<Longrightarrow> can_enter t s \<Longrightarrow> ks_gowner s = None \<or> ks_gowner s = Some t"
  by (auto simp: can_enter_def split: option.splits)

lemma section_iter_cases:
  assumes "section_iter ex expired me n s = (a, s')"
  obtains "a \<noteq> AGot" "s' = s"
  | rl where "a = AGot" "can_enter me s" "rl_try me (dgetd (ks_lock s) n None) = (True, rl)"
      "s' = s\<lparr>ks_lock := dset (ks_lock s) n rl,
              ks_owners := dset (ks_owners s) n
                (me, case dget (ks_owners s) n of None \<Rightarrow> 1 | Some (_, c) \<Rightarrow> c + 1)\<rparr>"
proof (cases "(ex \<and> \<not> dhas (ks_data s) n) \<or> \<not> can_enter me s \<or>
    \<not> fst (rl_try me (dgetd (ks_lock s) n None))")
  case True
  with assms have "a \<noteq> AGot" "s' = s"
    by (cases "rl_try me (dgetd (ks_lock s) n None)"; auto simp: section_iter_def Let_def split: if_splits)+
  then show ?thesis by (rule that(1))
next
  case False
  then obtain rl where "rl_try me (dgetd (ks_lock s) n None) = (True, rl)"
    by (cases "rl_try me (dgetd (ks_lock s) n None)") auto
  with False assms show ?thesis by (intro that(2) [of rl]) (auto simp: section_iter_def)
qed

lemma kinv_section_iter:
  assumes k: "kinv X W G s" and i: "section_iter ex expired me n s = (a, s')"
    and h: "dhas (ks_lock s) n"
  shows "kinv X W G s'"
  using i
proof (cases rule: section_iter_cases)
  case 1
  with k show ?thesis by simp
next
  case (2 rl)
  have own: "owner_ok (dget (ks_owners s) n) (dget (ks_lock s) n)" using k by (simp add: kinv_def)
  have "owner_ok (Some (me, case dget (ks_owners s) n of None \<Rightarrow> 1 | Some (_, c) \<Rightarrow> c + 1)) (Some rl)"
    using own 2(3) by (cases "dget (ks_owners s) n")
      (auto simp: rl_try_def dgetd_def split: option.splits if_splits)
  moreover have "global_ok (ks_gowner s) (ks_gdepth s) (dset (ks_owners s) n (me, c))" for c
    using k can_enter_global [OF k 2(2)] by (auto simp: kinv_def)
  ultimately show ?thesis using k h unfolding 2(4) by (auto simp: kinv_def)
qed

lemma release_section_owner:
  assumes k: "kinv X W G s" and o: "dget (ks_owners s) n = Some (me, c)"
  shows "release_section me n s = Inr (cleanup_section n
     (if c = 1 then s\<lparr>ks_lock := dset (ks_lock s) n None, ks_owners := ddel (ks_owners s) n\<rparr>
      else s\<lparr>ks_lock := dset (ks_lock s) n (Some (me, c - 1)),
             ks_owners := dset (ks_owners s) n (me, c - 1)\<rparr>))"
proof -
  have "owner_ok (dget (ks_owners s) n) (dget (ks_lock s) n)" using k by (simp add: kinv_def)
  with o show ?thesis by (auto simp: release_section_def rl_release_def Let_def)
qed

lemma kinv_clear_owner:
  assumes "kinv X W G s" "dhas (ks_lock s) n"
    and "global_ok (ks_gowner s) (ks_gdepth s) (ddel (ks_owners s) n)"
  shows "kinv (insert n X) W G
    (s\<lparr>ks_lock := dset (ks_lock s) n None, ks_owners := ddel (ks_owners s) n\<rparr>)"
  using assms by (auto simp: kinv_def)

lemma kinv_set_owner:
  assumes "kinv X W G s" "dhas (ks_lock s) n" "1 \<le> c"
    and "global_ok (ks_gowner s) (ks_gdepth s) (dset (ks_owners s) n (t, c))"
  shows "kinv X W G (s\<lparr>ks_lock := dset (ks_lock s) n (Some (t, c)),
                       ks_owners := dset (ks_owners s) n (t, c)\<rparr>)"
  using assms by (auto simp: kinv_def)

lemma global_ok_upd:
  "global_ok g d (dset o' n (t, c)) \<Longrightarrow> global_ok g d (ddel o' n)"
  "global_ok g d o' \<Longrightarrow> dget o' n = Some (t, c) \<Longrightarrow> global_ok g d (dset o' n (t, e))"
  by (cases g; force)+

lemma owner_ok_lock: "owner_ok (Some (t, c)) (dget d n) \<Longrightarrow> 1 \<le> c \<and> dhas d n"
  by (simp add: dhas_def)

lemma kinv_release_section:
  assumes k: "kinv X W G s" and r: "release_section me n s = Inr s'"
  shows "kinv (X - {n}) W G s'"
proof -
  from r obtain c where o: "dget (ks_owners s) n = Some (me, c)"
    by (auto simp: release_section_def split: option.splits if_splits)
  have h: "owner_ok (dget (ks_owners s) n) (dget (ks_lock s) n)" using k by (simp add: kinv_def)
  let ?s = "if c = 1 then s\<lparr>ks_lock := dset (ks_lock s) n None, ks_owners := ddel (ks_owners s) n\<rparr>
      else s\<lparr>ks_lock := dset (ks_lock s) n (Some (me, c - 1)),
             ks_owners := dset (ks_owners s) n (me, c - 1)\<rparr>"
  have l: "1 \<le> c" "dhas (ks_lock s) n" using h o owner_ok_lock by (metis)+
  have g: "global_ok (ks_gowner s) (ks_gdepth s) (dset (ks_owners s) n (me, x))" for x
    using global_ok_upd(2) [OF kinvD(8) [OF k] o] .
  have "kinv (insert n X) W G ?s"
    using kinv_clear_owner [OF k l(2) global_ok_upd(1) [OF g]]
      kinv_mono [OF kinv_set_owner [OF k l(2) _ g] subset_insertI, of "c - 1" n] l(1) by simp
  then have "kinv (insert n X - {n}) W G (cleanup_section n ?s)" by (rule kinv_cleanup)
  moreover have "s' = cleanup_section n ?s" using r release_section_owner [OF k o] by simp
  ultimately show ?thesis by (simp add: insert_Diff_if)
qed

text \<open>The bodies touch data and time stamps only; deleting exempts the name from part 5.\<close>

definition op_names :: "('n, 'k, 'v) data_op \<Rightarrow> 'n set" where
  "op_names op = (case op_section op of None \<Rightarrow> {} | Some (n, _, _) \<Rightarrow> {n})"

lemma dget_has: "dget d k = Some v \<Longrightarrow> dhas d k"
  by (simp add: dhas_def)

lemma op_body_frame:
  assumes "op_body now op s = (r, s', nt)"
  shows "ks_lock s' = ks_lock s" "ks_owners s' = ks_owners s" "ks_waiters s' = ks_waiters s"
    "ks_gowner s' = ks_gowner s" "ks_gdepth s' = ks_gdepth s" "ks_gwaiters s' = ks_gwaiters s"
    "\<not> nt \<Longrightarrow> dhas (ks_data s') n = dhas (ks_data s) n"
  using assms by (cases op; auto simp: restart_section_def split: option.splits if_splits dest: dget_has)+

lemma kinv_op_body:
  assumes k: "kinv X W G s" and b: "op_body now op s = (r, s', nt)"
  shows "kinv (X \<union> op_names op) W G s'"
proof -
  note f = op_body_frame [OF b]
  have u: "\<forall>n. dhas (ks_updated s) n = dhas (ks_data s) n" using k by (simp add: kinv_def)
  have d1: "dhas (ks_updated s') n = dhas (ks_data s') n" for n
    using u b by (cases op) (auto simp: restart_section_def split: option.splits if_splits)
  have d2: "dhas (ks_data s') n \<Longrightarrow> dhas (ks_data s) n" for n
    using b by (cases op) (auto simp: restart_section_def split: option.splits if_splits dest: dget_has)
  have d3: "dhas (ks_data s) n \<Longrightarrow> n \<in> op_names op \<or> dhas (ks_data s') n" for n
    using b by (cases op) (auto simp: op_names_def restart_section_def split: option.splits if_splits)
  show ?thesis
  proof (rule kinvI, unfold f(1-6))
    show "n \<in> X \<union> op_names op \<or> dhas (ks_data s') n \<or> dhas (ks_owners s) n \<or> 0 < W n"
      if "dhas (ks_lock s) n" for n
      using kinvD(5) [OF k that] d3 [of n] by (metis UnI1 UnI2)
    show "dhas (ks_lock s) n" if "dhas (ks_data s') n" for n
      using kinvD(4) [OF k d2 [OF that]] .
  qed (use d1 kinvD(1,3,6-9) [OF k] in auto)
qed

section \<open>Segments that do not notify\<close>

text \<open>What a segment of \<open>t\<close> that does not notify may do to the others.\<close>

definition quiet :: "tid \<Rightarrow> ('n, 'k, 'v) keystore \<Rightarrow> ('n, 'k, 'v) keystore \<Rightarrow> bool" where
  "quiet t s s' \<longleftrightarrow> ks_gowner s' = ks_gowner s \<and> ks_gwaiters s \<le> ks_gwaiters s' \<and>
     (\<forall>n. dhas (ks_data s) n \<longrightarrow> dhas (ks_data s') n) \<and>
     (\<forall>n v c. v \<noteq> t \<longrightarrow> (dget (ks_owners s') n = Some (v, c)) = (dget (ks_owners s) n = Some (v, c))) \<and>
     (\<forall>n c. dget (ks_owners s) n = Some (t, c) \<longrightarrow> (\<exists>d. dget (ks_owners s') n = Some (t, d)))"

lemma quiet_refl [simp]: "quiet t s s"
  by (simp add: quiet_def)

lemma quiet_trans: "quiet t s s1 \<Longrightarrow> quiet t s1 s2 \<Longrightarrow> quiet t s s2"
  by (simp add: quiet_def)

lemma quiet_simps [simp]:
  "quiet t s (ensure_lock n s)" "quiet t s (ensure_data n s)" "quiet t s (cleanup_section n s)"
  "quiet t s (s\<lparr>ks_waiters := w\<rparr>)" "quiet t s (section_leave n s)"
  by (auto simp: quiet_def ensure_lock_def ensure_data_def cleanup_section_def section_leave_def)

lemma quiet_op_body: "op_body now op s = (r, s', False) \<Longrightarrow> quiet t s s'"
  using op_body_frame [of now op s r s' False] by (simp add: quiet_def)

lemma quiet_section_iter:
  assumes k: "kinv X W G s" and i: "section_iter ex expired t n s = (a, s')"
  shows "quiet t s s'"
  using i
proof (cases rule: section_iter_cases)
  case (2 rl)
  have "owner_ok (dget (ks_owners s) n) (dget (ks_lock s) n)" using k by (simp add: kinv_def)
  then have "dget (ks_owners s) n = None \<or> (\<exists>c. dget (ks_owners s) n = Some (t, c))"
    using 2(3) by (cases "dget (ks_owners s) n") (auto simp: dgetd_def rl_try_def split: if_splits)
  then show ?thesis unfolding 2(4) quiet_def by (elim disjE exE) simp_all
qed simp

section \<open>What each segment does\<close>

lemma section_turn_spec:
  assumes k: "kinv X (W(n := Suc (W n))) G s" and X: "X \<subseteq> {n}"
    and q: "section_turn ex expired me n s = (a, s')"
  shows "(if a = AWait then s' = s \<and> fst (section_iter ex False me n s) = AWait else kinv {} W G s') \<and>
    (a = AGot \<longrightarrow> (\<exists>c. dget (ks_owners s') n = Some (me, c))) \<and> quiet me s s'"
proof -
  obtain b s1 where i: "section_iter ex expired me n s = (b, s1)" by (cases "section_iter ex expired me n s")
  have h: "dhas (ks_lock s) n" using kinv_waiting [OF k, of n] by simp
  have k1: "kinv X (W(n := Suc (W n))) G s1" by (rule kinv_section_iter [OF k i h])
  have "X - {n} = {}" using X by auto
  with kinv_section_leave [OF k1, of n] have k2: "kinv {} W G (section_leave n s1)" by simp
  have o: "b = AGot \<Longrightarrow> \<exists>c. dget (ks_owners s1) n = Some (me, c)"
    using i by (cases rule: section_iter_cases) auto
  have qt: "quiet me s s1" by (rule quiet_section_iter [OF k i])
  have w: "b = AWait \<Longrightarrow> s1 = s \<and> fst (section_iter ex False me n s) = AWait"
    using i by (cases expired; cases "rl_try me (dgetd (ks_lock s) n None)")
      (auto simp: section_iter_def Let_def split: if_splits bool.splits)
  have os: "ks_owners (section_leave n s1) = ks_owners s1"
    by (simp add: section_leave_def cleanup_section_def)
  from q i have "a = b" "s' = (if b = AWait then s1 else section_leave n s1)"
    by (cases b; simp add: section_turn_def)+
  with w k2 o qt os quiet_trans [OF qt] show ?thesis by simp
qed

lemma acquire_section_spec:
  assumes k: "kinv X W G s" and X: "X \<subseteq> {n}"
    and q: "acquire_section ex expired me n s = (a, s')"
  shows "(if a = AWait
          then kinv {} (W(n := Suc (W n))) G s' \<and> fst (section_iter ex False me n s') = AWait
          else kinv {} W G s') \<and>
    (a = AGot \<longrightarrow> (\<exists>c. dget (ks_owners s') n = Some (me, c))) \<and> quiet me s s'"
proof -
  let ?s1 = "ensure_lock n s"
  let ?s2 = "?s1\<lparr>ks_waiters := dset (ks_waiters ?s1) n (dgetd (ks_waiters ?s1) n 0 + 1)\<rparr>"
  have "insert n X - {n} = {}" using X by auto
  with kinv_wait_add [OF kinv_ensure_lock [OF k, of n] ensure_lock_has]
  have k2: "kinv {} (W(n := Suc (W n))) G ?s2" by (simp only:)
  have q2: "section_turn ex expired me n ?s2 = (a, s')" using q by (simp add: acquire_section_def Let_def)
  have "quiet me s ?s2" by (rule quiet_trans [OF quiet_simps(1) quiet_simps(4)])
  with section_turn_spec [OF k2 empty_subsetI q2] quiet_trans k2 show ?thesis
    by (cases "a = AWait") auto
qed

lemma op_names_section: "op_section op = Some (n, mo, cr) \<Longrightarrow> op_names op = {n}"
  by (simp add: op_names_def)

lemma finish_op_spec:
  assumes k: "kinv X W G s" and X: "X \<subseteq> {n}" and sec: "op_section op = Some (n, mo, cr)"
    and cr: "cr \<longrightarrow> dhas (ks_lock s) n"
    and own: "acq \<longrightarrow> (\<exists>c. dget (ks_owners s) n = Some (me, c))"
    and f: "finish_op now me acq op s = (r, s', nt)"
  shows "kinv {} W G s' \<and> (\<not> nt \<longrightarrow> quiet me s s')"
proof -
  let ?s1 = "if cr then ensure_data n s else s"
  have k1: "kinv X W G ?s1"
    using k cr kinv_mono [OF kinv_ensure_data [OF k], of n X] by auto
  have o1: "ks_owners ?s1 = ks_owners s" by (simp add: ensure_data_def)
  obtain r2 s2 n2 where b: "op_body now op ?s1 = (r2, s2, n2)" by (cases "op_body now op ?s1") auto
  have k2: "kinv (X \<union> {n}) W G s2"
    using kinv_op_body [OF k1 b] op_names_section [OF sec] by simp
  have e: "(X \<union> {n}) - {n} = {}" using X by auto
  have q1: "quiet me s ?s1" by simp
  show ?thesis
  proof (cases acq)
    case True
    from own True obtain c where "dget (ks_owners s2) n = Some (me, c)"
      using op_body_frame(2) [OF b] o1 by metis
    from release_section_owner [OF k2 this] obtain s3 where
      r: "release_section me n s2 = Inr s3" by blast
    have "s' = s3" "nt" using f True b r sec by (auto simp: finish_op_def)
    with kinv_release_section [OF k2 r, unfolded e] show ?thesis by simp
  next
    case False
    then have s': "s' = cleanup_section n s2" "nt = n2" using f b sec by (auto simp: finish_op_def)
    have "\<not> nt \<Longrightarrow> quiet me s s'"
      unfolding s' using quiet_trans [OF quiet_trans [OF q1 quiet_op_body]] b by auto
    with kinv_cleanup [OF k2, of n, unfolded e] s' show ?thesis by simp
  qed
qed

lemma finish_op_plain:
  assumes "kinv {} W G s" "op_section op = None" "finish_op now me acq op s = (r, s', nt)"
  shows "kinv {} W G s' \<and> (\<not> nt \<longrightarrow> quiet me s s')"
proof -
  have b: "op_body now op s = (r, s', nt)" using assms(2,3) by (simp add: finish_op_def)
  have "op_names op = {}" using assms(2) by (simp add: op_names_def)
  with kinv_op_body [OF assms(1) b] have "kinv {} W G s'" by simp
  moreover have "\<not> nt \<Longrightarrow> quiet me s s'" using b quiet_op_body by auto
  ultimately show ?thesis by blast
qed

text \<open>A thread at \<open>p\<close> counts as a waiter of its section, or of the global lock.\<close>

definition pc_W :: "('n, 'k, 'v) ks_pc \<Rightarrow> ('n \<Rightarrow> nat) \<Rightarrow> 'n \<Rightarrow> nat" where
  "pc_W p W = (case p of KSection req \<Rightarrow>
     (case req_name req of None \<Rightarrow> W | Some n \<Rightarrow> W(n := Suc (W n))) | _ \<Rightarrow> W)"

definition pc_G :: "('n, 'k, 'v) ks_pc \<Rightarrow> nat \<Rightarrow> nat" where
  "pc_G p G = (case p of KGlobal _ _ \<Rightarrow> Suc G | _ \<Rightarrow> G)"

definition pc_named :: "('n, 'k, 'v) ks_pc \<Rightarrow> bool" where
  "pc_named p \<longleftrightarrow> (\<forall>req. p = KSection req \<longrightarrow> req_name req \<noteq> None)"

definition out_ok :: "('n \<Rightarrow> nat) \<Rightarrow> nat \<Rightarrow> tid \<Rightarrow> ('n, 'k, 'v) keystore \<Rightarrow> ('n, 'k, 'v) ks_pc \<Rightarrow> bool \<Rightarrow>
    ('n, 'k, 'v) keystore \<Rightarrow> bool" where
  "out_ok W G t s p nt s' \<longleftrightarrow> pc_named p \<and> kinv {} (pc_W p W) (pc_G p G) s' \<and>
     \<not> ks_enabled p t s' \<and> (\<not> nt \<longrightarrow> quiet t s s')"

lemma out_ok_out [simp]:
  "out_ok W G t s KOut nt s' = (kinv {} W G s' \<and> (\<not> nt \<longrightarrow> quiet t s s'))"
  by (simp add: out_ok_def pc_named_def pc_W_def pc_G_def ks_enabled_def)

lemma out_ok_section:
  "req_name req = Some n \<Longrightarrow> out_ok W G t s (KSection req) nt s' =
   (kinv {} (W(n := Suc (W n))) G s' \<and> fst (section_iter (req_exists req) False t n s') = AWait \<and>
    (\<not> nt \<longrightarrow> quiet t s s'))"
  by (auto simp: out_ok_def pc_named_def pc_W_def pc_G_def ks_enabled_def)

lemma after_section_spec:
  assumes nm: "req_name req = Some n"
    and w: "if a = AWait
            then kinv {} (W(n := Suc (W n))) G s' \<and> fst (section_iter (req_exists req) False me n s') = AWait
            else kinv {} W G s'"
    and g: "a = AGot \<longrightarrow> (\<exists>c. dget (ks_owners s') n = Some (me, c))"
    and q: "quiet me s s'" and f: "after_section now me req (a, s') = (p, r, nt, s2)"
    and d: "\<And>lk op. req = DataReq lk op \<Longrightarrow> a = AGot \<or> a = AWait"
  shows "out_ok W G me s p nt s2"
proof (cases "a = AWait")
  case True
  with f have "p = KSection req" "\<not> nt" "s2 = s'" by auto
  with True w q show ?thesis by (simp add: out_ok_section [OF nm])
next
  case False
  then have k: "kinv {} W G s'" using w by simp
  have l: "a = AGot \<Longrightarrow> dhas (ks_lock s') n"
    using g kinvD(3) [OF k, of n] owner_ok_lock by fastforce
  show ?thesis
  proof (cases req)
    case (DataReq lk op)
    with nm obtain mo c where sec: "op_section op = Some (n, mo, c)" by auto
    obtain r' where fo: "finish_op now me (a = AGot) op s' = (r', s2, nt)" and p: "p = KOut"
      using f False DataReq by (cases a) (auto split: prod.splits)
    have cr': "c \<longrightarrow> dhas (ks_lock s') n" using d DataReq l False by blast
    from finish_op_spec [OF k empty_subsetI sec cr' g fo] quiet_trans [OF q] p show ?thesis by auto
  next
    case (NamedReq m ex bd fl)
    with nm have "m = n" by simp
    have "kinv {} W G (ensure_data n s')" if "a = AGot"
      using kinv_ensure_data [OF k l [OF that]] by simp
    then show ?thesis using f False k q NamedReq \<open>m = n\<close> quiet_trans [OF q quiet_simps(2)]
      by (cases a) (auto split: if_splits)
  qed
qed

lemma section_iter_plain: "fst (section_iter False False me n s) = AGot \<or> fst (section_iter False False me n s) = AWait"
  by (cases "rl_try me (dgetd (ks_lock s) n None)") (auto simp: section_iter_def Let_def split: bool.splits)

lemma section_turn_plain: "section_turn False False me n s = (a, s') \<Longrightarrow> a = AGot \<or> a = AWait"
  using section_iter_plain [of me n s] by (cases "section_iter False False me n s")
    (auto simp: section_turn_def)

lemma acquire_section_plain: "acquire_section False False me n s = (a, s') \<Longrightarrow> a = AGot \<or> a = AWait"
  by (auto simp: acquire_section_def Let_def dest: section_turn_plain)

lemma finish_KOut:
  assumes f: "(case finish_op now me acq op s1 of (r, s', nt) \<Rightarrow> (KOut, Some r, nt, s')) = (p, r', nt, s')"
    and k: "kinv X W G s1" and q: "quiet me s s1"
    and sec: "(case op_section op of None \<Rightarrow> X = {} | Some (n, mo, cr) \<Rightarrow> X \<subseteq> {n} \<and>
      (cr \<longrightarrow> dhas (ks_lock s1) n) \<and> \<not> acq)"
  shows "out_ok W G me s p nt s'"
proof -
  obtain r0 where fo: "finish_op now me acq op s1 = (r0, s', nt)" and p: "p = KOut"
    using f by (cases "finish_op now me acq op s1") auto
  have "kinv {} W G s' \<and> (\<not> nt \<longrightarrow> quiet me s1 s')"
  proof (cases "op_section op")
    case None
    with sec k have "kinv {} W G s1" by simp
    with finish_op_plain [OF _ None fo] show ?thesis by simp
  next
    case (Some x)
    then obtain n mo cr where "op_section op = Some (n, mo, cr)" by (cases x) auto
    with sec finish_op_spec [OF k _ _ _ _ fo, of n mo cr] show ?thesis by simp
  qed
  with quiet_trans [OF q] p show ?thesis by auto
qed

lemma run_req_spec:
  assumes k: "kinv {} W G s" and f: "run_req expired now me req s = (p, r, nt, s')"
  shows "out_ok W G me s p nt s'"
proof (cases req)
  case (NamedReq n ex bd fl)
  show ?thesis
  proof (cases "ex \<and> \<not> dhas (ks_data s) n")
    case False
    obtain a s1 where a: "acquire_section ex (bd \<and> expired) me n s = (a, s1)"
      by (cases "acquire_section ex (bd \<and> expired) me n s")
    have f': "after_section now me (NamedReq n ex bd fl) (a, s1) = (p, r, nt, s')"
      using f False a NamedReq by (simp only: run_req.simps if_False)
    show ?thesis
      by (rule after_section_spec [OF _ _ _ _ f'])
        (use acquire_section_spec [OF k empty_subsetI a] in \<open>auto split: if_splits\<close>)
  qed (use f NamedReq k in auto)
next
  case (DataReq lk op)
  show ?thesis
  proof (cases "op_section op")
    case None
    have "(case finish_op now me False op s of (r, s', nt) \<Rightarrow> (KOut, Some r, nt, s')) = (p, r, nt, s')"
      using f None DataReq by simp
    from finish_KOut [OF this k quiet_refl] None show ?thesis by simp
  next
    case (Some x)
    then obtain n mo cr where sec: "op_section op = Some (n, mo, cr)" by (cases x) auto
    let ?s1 = "if cr then ensure_lock n s else s"
    show ?thesis
    proof (cases "\<not> mo \<and> \<not> dhas (ks_data s) n")
      case False
      have k1: "kinv {n} W G ?s1" using kinv_ensure_lock [OF k] kinv_mono [OF k] by simp
      have q1: "quiet me s ?s1" by simp
      show ?thesis
      proof (cases "lk \<and> dhas (ks_lock ?s1) n")
        case True
        obtain a s2 where a: "acquire_section False False me n ?s1 = (a, s2)"
          by (cases "acquire_section False False me n ?s1")
        have f': "after_section now me (DataReq lk op) (a, s2) = (p, r, nt, s')"
          using f False True a DataReq sec by (auto simp: Let_def)
        show ?thesis
          by (rule after_section_spec [OF _ _ _ _ f'])
            (use acquire_section_spec [OF k1 subset_refl a] quiet_trans [OF q1]
              acquire_section_plain [OF a] sec in \<open>auto split: if_splits\<close>)
      next
        case nl: False
        have f': "(case finish_op now me False op ?s1 of (r, s', nt) \<Rightarrow> (KOut, Some r, nt, s')) = (p, r, nt, s')"
          using f False nl DataReq sec by (simp only: run_req.simps option.case prod.case if_False Let_def)
        show ?thesis by (rule finish_KOut [OF f' k1 q1]) (simp add: sec)
      qed
    qed (use f DataReq k sec in auto)
  qed
qed

lemma enter_seg_spec:
  assumes k: "kinv {} W G s" and f: "enter_seg expired now me req s = (p, r, nt, s')"
  shows "out_ok W G me s p nt s'"
proof (cases "enter_waits me False s")
  case True
  with f k show ?thesis
    by (cases expired)
      (auto simp: enter_seg_def out_ok_def pc_named_def pc_W_def pc_G_def ks_enabled_def)
next
  case False
  with f run_req_spec [OF k] show ?thesis by (simp add: enter_seg_def)
qed

lemma section_seg_spec:
  assumes nm: "req_name req = Some n" and k: "kinv {} (W(n := Suc (W n))) G s"
    and f: "section_seg expired now me req s = (p, r, nt, s')"
  shows "out_ok W G me s p nt s'"
proof -
  obtain a s1 where a: "section_turn (req_exists req) (req_bounded req \<and> expired) me n s = (a, s1)"
    by (cases "section_turn (req_exists req) (req_bounded req \<and> expired) me n s")
  have f': "after_section now me req (a, s1) = (p, r, nt, s')"
    using f nm a by (simp add: section_seg_def)
  have "req = DataReq lk op \<Longrightarrow> a = AGot \<or> a = AWait" for lk op
    using section_turn_plain a by simp
  with section_turn_spec [OF k empty_subsetI a] k show ?thesis
    by (intro after_section_spec [OF nm _ _ _ f']) (auto split: if_splits)
qed

lemma global_iter_got:
  "kinv X W G s \<Longrightarrow> global_iter me ex s = GGot \<Longrightarrow>
   (ks_gowner s = None \<or> ks_gowner s = Some me) \<and> (\<forall>n t c. dget (ks_owners s) n = Some (t, c) \<longrightarrow> t = me)"
  using dvals_dget [of "ks_owners s"]
  by (force simp: global_iter_def Let_def list_all_iff kinv_def split: if_splits)

lemma kinv_gwaiters: "kinv X W G s \<Longrightarrow> kinv X W (Suc G) (s\<lparr>ks_gwaiters := ks_gwaiters s + 1\<rparr>)"
  "kinv X W (Suc G) s \<Longrightarrow> kinv X W G (s\<lparr>ks_gwaiters := ks_gwaiters s - 1\<rparr>)"
  by (simp_all add: kinv_def)

lemma global_turn_spec:
  assumes k: "kinv {} W (Suc G) s" and f: "global_turn expired me bd fl s = (p, r, nt, s')"
    and q: "quiet me s0 s"
  shows "out_ok W G me s0 p nt s'"
proof (cases "global_iter me (bd \<and> expired) s")
  case GGot
  let ?s = "s\<lparr>ks_gowner := Some me, ks_gdepth := ks_gdepth s + 1, ks_gwaiters := ks_gwaiters s - 1\<rparr>"
  have "kinv {} W G ?s" using k global_iter_got [OF k GGot] by (auto simp: kinv_def)
  with GGot f show ?thesis by (auto simp: global_turn_def)
next
  case GRefused
  with f kinv_gwaiters(2) [OF k] show ?thesis by (auto simp: global_turn_def)
next
  case GWait
  then have "global_iter me False s = GWait" by (auto simp: global_iter_def Let_def split: if_splits)
  with GWait f k q show ?thesis
    by (auto simp: global_turn_def out_ok_def pc_named_def pc_W_def pc_G_def ks_enabled_def)
qed

lemma global_seg_spec:
  assumes k: "kinv {} W G s" and f: "global_seg expired me bd fl s = (p, r, nt, s')"
  shows "out_ok W G me s p nt s'"
proof (cases "enter_waits me True s")
  case True
  with f k show ?thesis
    by (auto simp: global_seg_def out_ok_def pc_named_def pc_W_def pc_G_def ks_enabled_def split: if_splits)
next
  case False
  have q: "quiet me s (s\<lparr>ks_gwaiters := ks_gwaiters s + 1\<rparr>)" by (simp add: quiet_def)
  from False f show ?thesis
    by (auto simp: global_seg_def intro: global_turn_spec [OF kinv_gwaiters(1) [OF k] _ q])
qed

lemma try_release_spec:
  assumes k: "kinv {} W G s" and f: "ks_try_release me m s = (nt, s')"
  shows "kinv {} W G s' \<and> (\<not> nt \<longrightarrow> quiet me s s')"
  using k f kinv_release_section [OF k, of me m]
  by (cases "release_section me m s") (auto simp: ks_try_release_def ks_release_def split: if_splits)

lemma kinv_gdepth: "kinv X W G s \<Longrightarrow> global_ok (ks_gowner s) d (ks_owners s) \<Longrightarrow>
   kinv X W G (s\<lparr>ks_gdepth := d\<rparr>)"
  unfolding kinv_def by simp

lemma try_unlock_spec:
  assumes k: "kinv {} W G s" and f: "ks_try_unlock me s = (nt, s')"
  shows "kinv {} W G s' \<and> (\<not> nt \<longrightarrow> quiet me s s')"
proof (cases "ks_gowner s = Some me")
  case False
  with k f show ?thesis by (simp add: ks_try_unlock_def ks_unlock_def)
next
  case True
  with kinvD(8) [OF k] have d: "ks_gdepth s \<noteq> 1 \<Longrightarrow> global_ok (ks_gowner s) (ks_gdepth s - 1) (ks_owners s)"
    by simp
  show ?thesis
  proof (cases "ks_gdepth s = 1")
    case 1: True
    then have "nt" "s' = s\<lparr>ks_gdepth := 0, ks_gowner := None\<rparr>"
      using True f by (auto simp: ks_try_unlock_def ks_unlock_def Let_def)
    with k show ?thesis by (simp add: kinv_def)
  next
    case 2: False
    then have "s' = s\<lparr>ks_gdepth := ks_gdepth s - 1\<rparr>"
      using True f by (auto simp: ks_try_unlock_def ks_unlock_def Let_def)
    with kinv_gdepth [OF k d [OF 2]] show ?thesis by (simp add: quiet_def)
  qed
qed

section \<open>Waking up\<close>

lemma owns_section_iff: "dict_ok (ks_owners s) \<Longrightarrow>
  owns_section t s = (\<exists>n c. dget (ks_owners s) n = Some (t, c))"
  using dvals_dget [of "ks_owners s"] by (force simp: owns_section_def list_ex_iff)

lemma quiet_can_enter:
  assumes "kinv X W G s" "kinv X' W' G' s'" "quiet t s s'" "u \<noteq> t" "can_enter u s'"
  shows "can_enter u s"
  using assms kinvD(9) [OF assms(1)] owns_section_iff [OF kinvD(1) [OF assms(1)]]
    owns_section_iff [OF kinvD(1) [OF assms(2)]]
  by (auto simp: can_enter_def quiet_def split: option.splits)

lemma quiet_owner:
  assumes "quiet t s s'" "u \<noteq> t"
    "\<And>v c. dget (ks_owners s') n = Some (v, c) \<Longrightarrow> v = u"
    and "dget (ks_owners s) n = Some (v, c)"
  shows "v = u"
  using assms unfolding quiet_def by (cases "v = t") fastforce+

lemma section_iter_goes_on:
  assumes "kinv X W G s"
  shows "(fst (section_iter ex False u n s) \<noteq> AWait) =
    ((ex \<and> \<not> dhas (ks_data s) n) \<or>
     (can_enter u s \<and> (\<forall>v c. dget (ks_owners s) n = Some (v, c) \<longrightarrow> v = u)))"
  using kinvD(3) [OF assms, of n]
  by (cases "dget (ks_owners s) n") (auto simp: section_iter_def rl_try_def dgetd_def Let_def)

lemma owner_threads:
  assumes "dict_ok d" shows "v \<in> fst ` set (dvals d) \<longleftrightarrow> (\<exists>n c. dget d n = Some (v, c))"
proof -
  have "v \<in> fst ` set (dvals d) \<longleftrightarrow> (\<exists>c. (v, c) \<in> set (dvals d))" by force
  then show ?thesis using dvals_dget [OF assms] by auto
qed

lemma global_iter_goes_on:
  assumes "kinv X W G s"
  shows "(global_iter u False s \<noteq> GWait) =
    ((ks_gowner s = None \<or> ks_gowner s = Some u) \<and>
       (\<forall>n v c. dget (ks_owners s) n = Some (v, c) \<longrightarrow> v = u) \<or>
     (\<exists>n c. dget (ks_owners s) n = Some (u, c)))"
proof -
  have "(global_iter u False s \<noteq> GWait) = ((ks_gowner s = None \<or> ks_gowner s = Some u) \<and>
       (\<forall>v \<in> fst ` set (dvals (ks_owners s)). v = u) \<or> u \<in> fst ` set (dvals (ks_owners s)))"
    by (simp add: global_iter_def Let_def list_all_iff del: ball_simps)
  then show ?thesis unfolding Ball_def owner_threads [OF kinvD(1) [OF assms]] by blast
qed

lemma quiet_wake:
  assumes k: "kinv X W G s" and k': "kinv X' W' G' s'" and q: "quiet t s s'" and u: "u \<noteq> t"
    and e: "ks_enabled p u s'"
  shows "ks_enabled p u s"
proof (cases p)
  case (KEnter req)
  with e quiet_can_enter [OF k k' q u] q show ?thesis
    by (auto simp: ks_enabled_def enter_waits_def quiet_def)
next
  case (KSection req)
  then obtain n where n: "req_name req = Some n" using e by (auto simp: ks_enabled_def split: option.splits)
  have "dhas (ks_data s) n \<longrightarrow> dhas (ks_data s') n" using q by (simp add: quiet_def)
  with e n KSection quiet_can_enter [OF k k' q u] quiet_owner [OF q u, of n] show ?thesis
    by (simp add: ks_enabled_def section_iter_goes_on [OF k] section_iter_goes_on [OF k']) blast
next
  case (KGEnter bd fl)
  with e q show ?thesis by (auto simp: ks_enabled_def enter_waits_def quiet_def)
next
  case (KGlobal bd fl)
  have "ks_gowner s' = ks_gowner s" using q by (simp add: quiet_def)
  moreover have "dget (ks_owners s') n = Some (u, c) \<Longrightarrow> dget (ks_owners s) n = Some (u, c)" for n c
    using q u by (simp add: quiet_def)
  ultimately show ?thesis using e KGlobal quiet_owner [OF q u]
    by (simp add: ks_enabled_def global_iter_goes_on [OF k] global_iter_goes_on [OF k']) blast
qed (use e in \<open>simp add: ks_enabled_def\<close>)

section \<open>The system\<close>

definition waits_for :: "'n \<Rightarrow> ('n, 'k, 'v) ks_pc \<Rightarrow> bool" where
  "waits_for n p = (case p of KSection req \<Rightarrow> req_name req = Some n | _ \<Rightarrow> False)"

definition waits_global :: "('n, 'k, 'v) ks_pc \<Rightarrow> bool" where
  "waits_global p = (case p of KGlobal _ _ \<Rightarrow> True | _ \<Rightarrow> False)"

definition kminv :: "(tid \<Rightarrow> ('n, 'k, 'v) ks_pc) \<Rightarrow> ('n, 'k, 'v) keystore \<Rightarrow> bool" where
  "kminv pc s \<longleftrightarrow> finite {t. pc t \<noteq> KOut} \<and> (\<forall>t. pc_named (pc t)) \<and>
     kinv {} (\<lambda>n. card {t. waits_for n (pc t)}) (card {t. waits_global (pc t)}) s"

lemma card_add: "finite A \<Longrightarrow> card {u. if u = t then b else u \<in> A} = card (A - {t}) + (if b then 1 else 0)"
proof -
  assume "finite A"
  moreover have "{u. if u = t then b else u \<in> A} = (A - {t}) \<union> (if b then {t} else {})" by auto
  ultimately show ?thesis by (cases b) (simp_all add: card.insert_remove)
qed

lemma waiting_finite:
  assumes "finite {t. pc t \<noteq> KOut}"
  shows "finite {t. waits_for n (pc t)}" "finite {t. waits_global (pc t)}"
  by (rule finite_subset [OF _ assms], auto simp: waits_for_def waits_global_def)+

lemma count_waiters:
  assumes f: "finite {t. pc t \<noteq> KOut}" and nm: "pc_named p"
  shows "(\<lambda>n. card {u. waits_for n ((pc(t := p)) u)}) = pc_W p (\<lambda>n. card ({u. waits_for n (pc u)} - {t}))"
    "card {u. waits_global ((pc(t := p)) u)} = pc_G p (card ({u. waits_global (pc u)} - {t}))"
proof -
  have "{u. waits_for n ((pc(t := p)) u)} = {u. if u = t then waits_for n p else u \<in> {u. waits_for n (pc u)}}" for n
    by auto
  then show "(\<lambda>n. card {u. waits_for n ((pc(t := p)) u)}) = pc_W p (\<lambda>n. card ({u. waits_for n (pc u)} - {t}))"
    using card_add [OF waiting_finite(1) [OF f]] nm
    by (cases p) (auto simp: pc_W_def pc_named_def waits_for_def fun_eq_iff)
  have "{u. waits_global ((pc(t := p)) u)} = {u. if u = t then waits_global p else u \<in> {u. waits_global (pc u)}}"
    by auto
  then show "card {u. waits_global ((pc(t := p)) u)} = pc_G p (card ({u. waits_global (pc u)} - {t}))"
    using card_add [OF waiting_finite(2) [OF f]]
    by (cases p) (auto simp: pc_G_def waits_global_def)
qed

lemma ks_seg_spec:
  assumes "ks_seg t p s p' nt s'" "pc_named p" "kinv {} (pc_W p W) (pc_G p G) s"
  shows "out_ok W G t s p' nt s'"
  using assms
proof (cases rule: ks_seg.cases)
  case (raise_section req m)
  then have "kinv {} W G (cleanup_section m (section_leave m s))"
    using kinv_cleanup [OF kinv_section_leave, of "{}" "W(m := Suc (W m))" G s m m] assms(3)
    by (simp add: pc_W_def pc_G_def)
  with raise_section quiet_trans [OF quiet_simps(5) quiet_simps(3)] show ?thesis by simp
next
  case (resume_section ex now req r)
  then obtain n where "req_name req = Some n" using assms(2) by (auto simp: pc_named_def)
  with resume_section assms(3) show ?thesis
    by (auto intro: section_seg_spec simp: pc_W_def pc_G_def)
next
  case (call_unlock) with assms(3) try_unlock_spec show ?thesis by (simp add: pc_W_def pc_G_def)
next
  case (call_release m) with assms(3) try_release_spec show ?thesis by (simp add: pc_W_def pc_G_def)
next
  case (raise_global bd fl) with assms(3) kinv_gwaiters(2) show ?thesis by (simp add: pc_W_def pc_G_def)
qed (use assms(3) in \<open>auto simp: pc_W_def pc_G_def
       intro: enter_seg_spec global_seg_spec global_turn_spec [OF _ _ quiet_refl]\<close>)

lemma ks_seg_good:
  assumes m: "kminv pc s" and st: "ks_seg t (pc t) s p nt s'"
  shows "seg_ok ks_blocked ks_enabled kminv pc s t p nt s'"
proof -
  let ?W = "\<lambda>n. card ({u. waits_for n (pc u)} - {t})"
  let ?G = "card ({u. waits_global (pc u)} - {t})"
  from m have f: "finite {t. pc t \<noteq> KOut}" and nm: "pc_named (pc u)" for u
    by (auto simp: kminv_def)
  have k: "kinv {} (pc_W (pc t) ?W) (pc_G (pc t) ?G) s"
    using m count_waiters [OF f nm, of t t] by (simp add: kminv_def)
  have o: "out_ok ?W ?G t s p nt s'" by (rule ks_seg_spec [OF st nm k])
  then have nm': "pc_named p" and k': "kinv {} (pc_W p ?W) (pc_G p ?G) s'"
    and ne: "\<not> ks_enabled p t s'" and q: "\<not> nt \<Longrightarrow> quiet t s s'"
    by (auto simp: out_ok_def)
  have "finite {u. (pc(t := p)) u \<noteq> KOut}"
    by (rule finite_subset [of _ "insert t {u. pc u \<noteq> KOut}"]) (use f in auto)
  with nm nm' k' count_waiters [OF f nm', of t] have "kminv (pc(t := p)) s'"
    by (simp add: kminv_def)
  with ne q quiet_wake [OF k k'] show ?thesis by (auto simp: seg_ok_def)
qed

lemma kminv_new: "kminv (\<lambda>_. KOut) ks_new"
  by (simp add: kminv_def pc_named_def waits_for_def waits_global_def kinv_def ks_new_def)

interpretation ksm: monitor_system ks_seg ks_blocked ks_enabled kminv ks_new KOut
  rewrites "mon_step ks_seg ks_blocked = ks_step" and "mon_init ks_new KOut = ks_init"
proof -
  show "monitor_system ks_seg ks_blocked ks_enabled kminv ks_new KOut"
    by unfold_locales (auto simp: kminv_new intro: ks_seg_good)
qed (simp_all add: ks_step_def ks_init_def)

lemma reach_kinv:
  assumes "reach ks_init ks_step m"
  shows "\<exists>W G. kinv {} W G (mon_obj m) \<and> (\<forall>n. 0 < W n \<longleftrightarrow> (\<exists>t. waits_for n (mon_pc m t)))"
proof -
  have k: "kminv (mon_pc m) (mon_obj m)" by (rule ksm.reach_minv [OF assms])
  then have "finite {t. mon_pc m t \<noteq> KOut}" by (simp add: kminv_def)
  from waiting_finite(1) [OF this] k show ?thesis
    by (intro exI [of _ "\<lambda>n. card {t. waits_for n (mon_pc m t)}"]
        exI [of _ "card {t. waits_global (mon_pc m t)}"])
      (auto simp: kminv_def card_gt_0_iff)
qed

section \<open>Sections and the global lock as reentrant locks\<close>

text \<open>\<^verbatim>\<open>try_acquire(name)\<close>, \<^verbatim>\<open>release(name)\<close>, \<^verbatim>\<open>lock(blocking=False)\<close> and \<^verbatim>\<open>unlock()\<close> never wait.\<close>

definition sec_try :: "'n \<Rightarrow> tid \<Rightarrow> ('n, 'k, 'v) keystore \<Rightarrow> bool \<times> ('n, 'k, 'v) keystore" where
  "sec_try n t s = (case enter_seg True 0 t (NamedReq n False True (RBool False)) s of
     (p, r, nt, s') \<Rightarrow> (r = Some (Inr (RBool True)), s'))"

definition sec_release :: "'n \<Rightarrow> tid \<Rightarrow> ('n, 'k, 'v) keystore \<Rightarrow> ('n, 'k, 'v) keystore option" where
  "sec_release n t s = (case ks_release t n s of Inl _ \<Rightarrow> None | Inr (_, s') \<Rightarrow> Some s')"

fun count_of :: "(tid \<times> int) option \<Rightarrow> tid \<Rightarrow> nat" where
  "count_of None t = 0"
| "count_of (Some (u, c)) t = (if u = t then nat c else 0)"

definition sec_holds :: "'n \<Rightarrow> ('n, 'k, 'v) keystore \<Rightarrow> tid \<Rightarrow> nat" where
  "sec_holds n s t = count_of (dget (ks_owners s) n) t"

definition glob_try :: "tid \<Rightarrow> ('n, 'k, 'v) keystore \<Rightarrow> bool \<times> ('n, 'k, 'v) keystore" where
  "glob_try t s = (case global_seg True t True (RBool False) s of
     (p, r, nt, s') \<Rightarrow> (r = Some (Inr (RBool True)), s'))"

definition glob_release :: "tid \<Rightarrow> ('n, 'k, 'v) keystore \<Rightarrow> ('n, 'k, 'v) keystore option" where
  "glob_release t s = (case ks_unlock t s of Inl _ \<Rightarrow> None | Inr (_, s') \<Rightarrow> Some s')"

definition glob_holds :: "('n, 'k, 'v) keystore \<Rightarrow> tid \<Rightarrow> nat" where
  "glob_holds s t = (if ks_gowner s = Some t then nat (ks_gdepth s) else 0)"

lemma count_of_inc:
  "owner_ok w l \<Longrightarrow> (\<And>v c. w = Some (v, c) \<Longrightarrow> v = t) \<Longrightarrow>
   count_of (Some (t, case w of None \<Rightarrow> 1 | Some (_, c) \<Rightarrow> c + 1)) = (count_of w)(t := Suc (count_of w t))"
  by (cases w) (auto simp: fun_eq_iff Suc_nat_eq_nat_zadd1)

text \<open>What acquiring a section that is free or one's own does, and what is done otherwise.\<close>

definition grant_section :: "'n \<Rightarrow> tid \<Rightarrow> ('n, 'k, 'v) keystore \<Rightarrow> ('n, 'k, 'v) keystore \<Rightarrow> bool" where
  "grant_section n t s s' \<longleftrightarrow>
     ks_owners s' = dset (ks_owners s) n
       (t, case dget (ks_owners s) n of None \<Rightarrow> 1 | Some (_, c) \<Rightarrow> c + 1) \<and>
     ks_gowner s' = ks_gowner s \<and> ks_data s' = ks_data s \<and> ks_updated s' = ks_updated s"

lemma cleanup_fields [simp]:
  "ks_owners (cleanup_section n s) = ks_owners s" "ks_gowner (cleanup_section n s) = ks_gowner s"
  "ks_data (cleanup_section n s) = ks_data s" "ks_updated (cleanup_section n s) = ks_updated s"
  "ks_gdepth (cleanup_section n s) = ks_gdepth s" "ks_gwaiters (cleanup_section n s) = ks_gwaiters s"
  by (simp_all add: cleanup_section_def)

lemma leave_fields [simp]:
  "ks_owners (section_leave n s) = ks_owners s" "ks_gowner (section_leave n s) = ks_gowner s"
  "ks_data (section_leave n s) = ks_data s" "ks_updated (section_leave n s) = ks_updated s"
  "ks_gdepth (section_leave n s) = ks_gdepth s" "ks_gwaiters (section_leave n s) = ks_gwaiters s"
  by (simp_all add: section_leave_def)

lemma ensure_fields [simp]:
  "ks_owners (ensure_lock n s) = ks_owners s" "ks_gowner (ensure_lock n s) = ks_gowner s"
  "ks_data (ensure_lock n s) = ks_data s" "ks_updated (ensure_lock n s) = ks_updated s"
  "ks_gwaiters (ensure_lock n s) = ks_gwaiters s"
  "ks_owners (ensure_data n s) = ks_owners s" "ks_gowner (ensure_data n s) = ks_gowner s"
  by (simp_all add: ensure_lock_def ensure_data_def)

lemma can_enter_cong:
  "ks_gowner s' = ks_gowner s \<Longrightarrow> ks_gwaiters s' = ks_gwaiters s \<Longrightarrow> ks_owners s' = ks_owners s \<Longrightarrow>
   can_enter t s' = can_enter t s"
  by (simp add: can_enter_def owns_section_def cong: option.case_cong)

lemma acquire_section_frame:
  assumes a: "acquire_section ex expired me n s = (a, s')"
  shows "a \<noteq> AGot \<Longrightarrow> ks_owners s' = ks_owners s \<and> ks_data s' = ks_data s"
    and "a = AGot \<Longrightarrow> grant_section n me s s'"
proof -
  let ?s1 = "ensure_lock n s"
  let ?s2 = "?s1\<lparr>ks_waiters := dset (ks_waiters ?s1) n (dgetd (ks_waiters ?s1) n 0 + 1)\<rparr>"
  obtain b s3 where i: "section_iter ex expired me n ?s2 = (b, s3)"
    by (cases "section_iter ex expired me n ?s2")
  from a i have a': "a = b" "s' = (if b = AWait then s3 else section_leave n s3)"
    by (cases b; simp add: acquire_section_def section_turn_def Let_def)+
  from i show "a \<noteq> AGot \<Longrightarrow> ks_owners s' = ks_owners s \<and> ks_data s' = ks_data s"
    by (cases rule: section_iter_cases) (auto simp: a')
  from i show "a = AGot \<Longrightarrow> grant_section n me s s'"
    by (cases rule: section_iter_cases) (auto simp: a' grant_section_def)
qed

lemma acquire_section_granted:
  assumes k: "kinv X W G s" and X: "X \<subseteq> {n}" and c: "can_enter t s"
    and o: "\<And>v c. dget (ks_owners s) n = Some (v, c) \<Longrightarrow> v = t" and e: "ex \<longrightarrow> dhas (ks_data s) n"
  obtains s' where "acquire_section ex b t n s = (AGot, s')"
proof -
  let ?s1 = "ensure_lock n s"
  let ?s2 = "?s1\<lparr>ks_waiters := dset (ks_waiters ?s1) n (dgetd (ks_waiters ?s1) n 0 + 1)\<rparr>"
  have k2: "kinv (insert n X - {n}) (W(n := Suc (W n))) G ?s2"
    by (rule kinv_wait_add [OF kinv_ensure_lock [OF k] ensure_lock_has])
  have "owner_ok (dget (ks_owners ?s2) n) (dget (ks_lock ?s2) n)" by (rule kinvD(3) [OF k2])
  then have "fst (rl_try t (dgetd (ks_lock ?s2) n None))" using o
    by (cases "dget (ks_owners s) n") (auto simp: rl_try_def dgetd_def)
  moreover have "can_enter t ?s2" using c can_enter_cong [of ?s2 s t] by simp
  ultimately have "fst (section_iter ex b t n ?s2) = AGot" using e
    by (cases "rl_try t (dgetd (ks_lock ?s2) n None)") (auto simp: section_iter_def Let_def)
  then show ?thesis
    by (cases "section_iter ex b t n ?s2")
      (auto simp: acquire_section_def section_turn_def Let_def intro: that)
qed

lemma sec_try_eq:
  "sec_try n t s = (if enter_waits t False s then (False, s)
     else (case acquire_section False True t n s of
       (a, s') \<Rightarrow> (a = AGot, if a = AGot then ensure_data n s' else s')))"
  by (cases "acquire_section False True t n s"; cases "fst (acquire_section False True t n s)")
    (auto simp: sec_try_def enter_seg_def)

lemma acquire_expired: "fst (acquire_section ex True t n s) \<noteq> AWait"
proof -
  have i: "fst (section_iter ex True t n s0) \<noteq> AWait" for s0 :: "('a, 'b, 'c) keystore"
    by (cases "rl_try t (dgetd (ks_lock s0) n None)")
      (auto simp: section_iter_def Let_def split: bool.splits)
  have "fst (section_turn ex True t n s0) \<noteq> AWait" for s0 :: "('a, 'b, 'c) keystore"
    using i [of s0] by (cases "fst (section_iter ex True t n s0)"; cases "section_iter ex True t n s0")
      (auto simp: section_turn_def)
  then show ?thesis by (simp add: acquire_section_def Let_def)
qed

lemma sec_try_spec:
  assumes k: "kinv {} W G s" and a: "sec_try n t s = (b, s')"
  shows "kinv {} W G s'" "b \<Longrightarrow> grant_section n t (s\<lparr>ks_data := d, ks_updated := u\<rparr>) (s'\<lparr>ks_data := d, ks_updated := u\<rparr>)"
    "b \<Longrightarrow> \<forall>v c. dget (ks_owners s) n = Some (v, c) \<longrightarrow> v = t" "\<not> b \<Longrightarrow> ks_owners s' = ks_owners s"
proof -
  obtain q s1 where q: "acquire_section False True t n s = (q, s1)" by (cases "acquire_section False True t n s")
  have nw: "q \<noteq> AWait" using acquire_expired [of False t n s] q by simp
  with acquire_section_spec [OF k empty_subsetI q] have k1: "kinv {} W G s1" by simp
  have l: "q = AGot \<Longrightarrow> dhas (ks_lock s1) n"
    using acquire_section_spec [OF k empty_subsetI q] kinvD(3) [OF k1, of n] owner_ok_lock by fastforce
  show "kinv {} W G s'" using a k k1 q kinv_ensure_data [OF k1 l]
    by (auto simp: sec_try_eq split: if_splits)
  show "b \<Longrightarrow> grant_section n t (s\<lparr>ks_data := d, ks_updated := u\<rparr>) (s'\<lparr>ks_data := d, ks_updated := u\<rparr>)"
    using a q acquire_section_frame(2) [OF q]
    by (auto simp: sec_try_eq grant_section_def split: if_splits)
  show "\<not> b \<Longrightarrow> ks_owners s' = ks_owners s"
    using a q acquire_section_frame(1) [OF q] by (auto simp: sec_try_eq split: if_splits)
  show "b \<Longrightarrow> \<forall>v c. dget (ks_owners s) n = Some (v, c) \<longrightarrow> v = t"
  proof -
    assume b
    with a q have "q = AGot" by (auto simp: sec_try_eq split: if_splits)
    with q have g: "acquire_section False True t n s = (AGot, s1)" by simp
    let ?s1 = "ensure_lock n s"
    let ?s2 = "?s1\<lparr>ks_waiters := dset (ks_waiters ?s1) n (dgetd (ks_waiters ?s1) n 0 + 1)\<rparr>"
    have k2: "kinv (insert n {} - {n}) (W(n := Suc (W n))) G ?s2"
      by (rule kinv_wait_add [OF kinv_ensure_lock [OF k] ensure_lock_has])
    obtain c s3 where i: "section_iter False True t n ?s2 = (c, s3)"
      by (cases "section_iter False True t n ?s2")
    with g have "c = AGot"
      by (cases c; simp add: acquire_section_def section_turn_def Let_def)
    with i have "fst (rl_try t (dgetd (ks_lock ?s2) n None))"
      by (auto elim: section_iter_cases)
    with kinvD(3) [OF k2, of n] show "\<forall>v c. dget (ks_owners s) n = Some (v, c) \<longrightarrow> v = t"
      by (cases "dget (ks_owners s) n") (auto simp: rl_try_def dgetd_def split: if_splits)
  qed
qed

lemma kinv_owner_enters:
  assumes k: "kinv X W G s" and o: "dget (ks_owners s) n = Some (t, c)"
  shows "can_enter t s" "\<not> enter_waits t gr s"
proof -
  have "ks_gowner s = None \<or> ks_gowner s = Some t" using kinvD(8) [OF k] o
    by (cases "ks_gowner s") auto
  moreover have "owns_section t s" using o owns_section_iff [OF kinvD(1) [OF k]] by blast
  ultimately show "can_enter t s" "\<not> enter_waits t gr s" by (auto simp: can_enter_def enter_waits_def)
qed

lemma sec_holds_owner: "0 < sec_holds n s t \<Longrightarrow> \<exists>c. dget (ks_owners s) n = Some (t, c)"
  by (cases "dget (ks_owners s) n") (auto simp: sec_holds_def split: if_splits)

lemma sec_release_spec:
  assumes k: "kinv {} W G s" and o: "dget (ks_owners s) n = Some (t, c)"
  shows "\<exists>s'. sec_release n t s = Some s' \<and> kinv {} W G s' \<and>
    ks_owners s' = (if c = 1 then ddel (ks_owners s) n else dset (ks_owners s) n (t, c - 1)) \<and>
    ks_data s' = ks_data s"
proof -
  note r = release_section_owner [OF k o]
  have "dhas (ks_lock s) n" using kinvD(3) [OF k, of n] o by (auto simp: dhas_def)
  with r kinv_release_section [OF k r] show ?thesis
    by (auto simp: sec_release_def ks_release_def)
qed

interpretation ksec: reentrant_lock "sec_try n" "sec_release n" "sec_holds n" "kinv {} W G"
  for n :: 'n and W G
proof unfold_locales
  fix s s' :: "('n, 'k, 'v) keystore" and t u
  assume k: "kinv {} W G s"
  note own = kinvD(3) [OF k, of n]
  show "0 < sec_holds n s t \<Longrightarrow> 0 < sec_holds n s u \<Longrightarrow> t = u"
    by (drule sec_holds_owner, drule sec_holds_owner) auto
  show "kinv {} W G s' \<and> sec_holds n s' = (sec_holds n s)(t := Suc (sec_holds n s t))"
    if a: "sec_try n t s = (True, s')"
    using sec_try_spec [OF k a] count_of_inc [OF own, of t]
    by (auto simp: sec_holds_def [abs_def] grant_section_def)
  show "kinv {} W G s' \<and> sec_holds n s' = sec_holds n s" if a: "sec_try n t s = (False, s')"
    using sec_try_spec(1,4) [OF k a] by (simp add: sec_holds_def [abs_def])
  show "fst (sec_try n t s)" if h: "0 < sec_holds n s t"
  proof -
    from sec_holds_owner [OF h] obtain c where o: "dget (ks_owners s) n = Some (t, c)" by blast
    note e = kinv_owner_enters [OF k o]
    obtain s1 where "acquire_section False True t n s = (AGot, s1)"
      by (rule acquire_section_granted [OF k empty_subsetI e(1), of n False True]) (use o in auto)
    with e(2) show ?thesis by (simp add: sec_try_eq)
  qed
  show "\<exists>s'. sec_release n t s = Some s' \<and> kinv {} W G s' \<and>
        sec_holds n s' = (sec_holds n s)(t := sec_holds n s t - 1)" if h: "0 < sec_holds n s t"
  proof -
    from sec_holds_owner [OF h] obtain c where o: "dget (ks_owners s) n = Some (t, c)" by blast
    from own o have "1 \<le> c" by simp
    with sec_release_spec [OF k o] o show ?thesis
      by (auto simp: sec_holds_def [abs_def] fun_eq_iff nat_diff_distrib split: if_splits)
  qed
qed

lemma glob_try_spec:
  assumes k: "kinv {} W G s"
  shows "glob_try t s =
    (if (ks_gowner s = None \<or> ks_gowner s = Some t) \<and> (\<forall>n v c. dget (ks_owners s) n = Some (v, c) \<longrightarrow> v = t)
     then (True, s\<lparr>ks_gowner := Some t, ks_gdepth := ks_gdepth s + 1\<rparr>) else (False, s))"
proof -
  let ?s = "s\<lparr>ks_gwaiters := ks_gwaiters s + 1\<rparr>"
  have "global_iter t True ?s = (if (ks_gowner s = None \<or> ks_gowner s = Some t) \<and>
       (\<forall>n v c. dget (ks_owners s) n = Some (v, c) \<longrightarrow> v = t) then GGot else GRefused)"
    unfolding global_iter_def Let_def list_all_iff set_map
    by (simp del: ball_simps add: Ball_def owner_threads [OF kinvD(1) [OF k]]) blast
  then show ?thesis
    by (auto simp: glob_try_def global_seg_def enter_waits_def global_turn_def)
qed

interpretation kglob: owned_lock glob_try glob_release glob_holds "kinv {} W G" for W G
proof unfold_locales
  fix s s' :: "('a, 'b, 'c) keystore" and t u
  assume k: "kinv {} W G s"
  note g = kinvD(8) [OF k]
  show "0 < glob_holds s t \<Longrightarrow> 0 < glob_holds s u \<Longrightarrow> t = u"
    by (auto simp: glob_holds_def split: if_splits)
  show "kinv {} W G s' \<and> glob_holds s' = (glob_holds s)(t := Suc (glob_holds s t))"
    if a: "glob_try t s = (True, s')"
  proof -
    from a have ok: "(ks_gowner s = None \<or> ks_gowner s = Some t)" "(\<forall>n v c. dget (ks_owners s) n = Some (v, c) \<longrightarrow> v = t)"
      and s': "s' = s\<lparr>ks_gowner := Some t, ks_gdepth := ks_gdepth s + 1\<rparr>"
      by (auto simp: glob_try_spec [OF k] split: if_splits)
    from ok g have "kinv {} W G s'" using k unfolding s' kinv_def by (cases "ks_gowner s") simp_all
    with ok g s' show ?thesis
      by (cases "ks_gowner s") (auto simp: glob_holds_def [abs_def] fun_eq_iff Suc_nat_eq_nat_zadd1)
  qed
  show "kinv {} W G s' \<and> glob_holds s' = glob_holds s" if a: "glob_try t s = (False, s')"
    using a k by (auto simp: glob_try_spec [OF k] split: if_splits)
  show "fst (glob_try t s)" if h: "0 < glob_holds s t"
    using h g by (auto simp: glob_try_spec [OF k] glob_holds_def split: if_splits)
  show "\<exists>s'. glob_release t s = Some s' \<and> kinv {} W G s' \<and>
        glob_holds s' = (glob_holds s)(t := glob_holds s t - 1)" if h: "0 < glob_holds s t"
  proof -
    from h have o: "ks_gowner s = Some t" by (auto simp: glob_holds_def split: if_splits)
    obtain nt s' where u: "ks_unlock t s = Inr (nt, s')"
      using o by (cases "ks_gdepth s = 1") (auto simp: ks_unlock_def Let_def)
    then have "kinv {} W G s'" using try_unlock_spec [OF k, of t nt s'] by (simp add: ks_try_unlock_def)
    with u o g show ?thesis
      by (auto simp: glob_release_def glob_holds_def [abs_def] ks_unlock_def Let_def fun_eq_iff
          nat_diff_distrib split: if_splits)
  qed
  show "glob_release t s = None" if h: "glob_holds s t = 0"
  proof -
    have "ks_gowner s \<noteq> Some t" using h g by (auto simp: glob_holds_def)
    then show ?thesis by (simp add: glob_release_def ks_unlock_def)
  qed
qed

end
