(* ===== verification/Keystore_Properties.thy ===== *)
theory Keystore_Properties
  imports Keystore_Safety
begin

text \<open>
  The properties of \<^verbatim>\<open>Keystore\<close>, over every reachable interleaving of any number of threads, from
  the interpretations of the monitor and of the reentrant lock in \<^verbatim>\<open>Keystore_Safety\<close>.
\<close>

section \<open>A data method under its guards\<close>

lemma op_body_cong:
  assumes "ks_data s1 = ks_data s" "ks_updated s1 = ks_updated s"
    and "op_body now op s = (r, s', nt)" "op_body now op s1 = (r1, s1', nt1)"
  shows "r1 = r \<and> ks_data s1' = ks_data s' \<and> ks_updated s1' = ks_updated s' \<and> nt1 = nt"
  using assms by (cases op)
    (auto simp: restart_section_def split: option.splits if_splits)

lemma ensure_data_cong:
  "ks_data s1 = ks_data s \<Longrightarrow> ks_updated s1 = ks_updated s \<Longrightarrow>
   ks_data (ensure_data n s1) = ks_data (ensure_data n s) \<and>
   ks_updated (ensure_data n s1) = ks_updated (ensure_data n s)"
  by (simp add: ensure_data_def)

lemma finish_op_effect:
  assumes k: "kinv X W G s1" and d: "ks_data s1 = ks_data s" "ks_updated s1 = ks_updated s"
    and sec: "op_section op = Some (n, mo, cr)"
    and own: "acq \<longrightarrow> (\<exists>c. dget (ks_owners s1) n = Some (t, c))" and cr: "cr \<longrightarrow> dhas (ks_lock s1) n"
    and b: "op_body now op (if cr then ensure_data n s else s) = (r, s', nt)"
  shows "\<exists>s2 nt2. finish_op now t acq op s1 = (r, s2, nt2) \<and> ks_data s2 = ks_data s' \<and>
    ks_updated s2 = ks_updated s' \<and>
    ks_owners s2 = (if acq then (case dget (ks_owners s1) n of None \<Rightarrow> ks_owners s1
       | Some (_, c) \<Rightarrow> if c = 1 then ddel (ks_owners s1) n else dset (ks_owners s1) n (t, c - 1))
     else ks_owners s1)"
proof -
  let ?e = "\<lambda>s. if cr then ensure_data n s else s"
  have e: "ks_data (?e s1) = ks_data (?e s)" "ks_updated (?e s1) = ks_updated (?e s)"
    "ks_owners (?e s1) = ks_owners s1"
    using ensure_data_cong [OF d] d by auto
  obtain r1 s2 n1 where b1: "op_body now op (?e s1) = (r1, s2, n1)" by (cases "op_body now op (?e s1)") auto
  note c = op_body_cong [OF e(1,2) b b1] and f = op_body_frame [OF b1]
  show ?thesis
  proof (cases acq)
    case False
    with c f e b1 sec show ?thesis by (auto simp: finish_op_def)
  next
    case True
    then obtain x where o: "dget (ks_owners s2) n = Some (t, x)" using own f(2) e(3) by auto
    have "kinv X W G (?e s1)"
      using k cr kinv_mono [OF kinv_ensure_data [OF k], of n X] by auto
    from release_section_owner [OF kinv_op_body [OF this b1] o] o True c f(2) e(3) b1 sec
    show ?thesis by (auto simp: finish_op_def)
  qed
qed

text \<open>A call that can enter, on a section that is free or the caller's own.\<close>

lemma guarded_call:
  assumes k: "kinv {} W G s" and en: "\<not> enter_waits t False s"
    and sec: "op_section op = Some (n, mo, cr)" and mo: "mo \<or> dhas (ks_data s) n"
    and free: "lk \<longrightarrow> (\<forall>v c. dget (ks_owners s) n = Some (v, c) \<longrightarrow> v = t)"
    and b: "op_body now op (if cr then ensure_data n s else s) = (r, s1, nt)"
  shows "\<exists>s' nt'. enter_seg ex now t (DataReq lk op) s = (KOut, Some r, nt', s') \<and>
    ks_data s' = ks_data s1 \<and> ks_updated s' = ks_updated s1 \<and> ks_owners s' = ks_owners s"
proof -
  let ?s1 = "if cr then ensure_lock n s else s"
  have k1: "kinv {n} W G ?s1" using kinv_ensure_lock [OF k] kinv_mono [OF k] by simp
  have f1: "ks_data ?s1 = ks_data s" "ks_updated ?s1 = ks_updated s" "ks_owners ?s1 = ks_owners s"
    by auto
  have cr1: "cr \<longrightarrow> dhas (ks_lock ?s1) n" by simp
  have ce: "can_enter t ?s1" using en can_enter_cong [of ?s1 s t] by (simp add: enter_waits_def)
  show ?thesis
  proof (cases "lk \<and> dhas (ks_lock ?s1) n")
    case False
    then have run: "enter_seg ex now t (DataReq lk op) s =
        (case finish_op now t False op ?s1 of (r, s', nt) \<Rightarrow> (KOut, Some r, nt, s'))"
      using en sec mo by (auto simp: enter_seg_def Let_def)
    from finish_op_effect [OF k1 f1(1,2) sec _ cr1 b, of False t] show ?thesis
      unfolding run f1(3) by auto
  next
    case True
    have own: "v = t" if "dget (ks_owners ?s1) n = Some (v, c)" for v c
      using that free True f1(3) by auto
    obtain s2 where a: "acquire_section False False t n ?s1 = (AGot, s2)"
      by (rule acquire_section_granted [where ex = False and b = False, OF k1 subset_refl ce own]) auto
    have run: "enter_seg ex now t (DataReq lk op) s =
        (case finish_op now t True op s2 of (r, s', nt) \<Rightarrow> (KOut, Some r, nt, s'))"
      using en sec mo True a by (auto simp: enter_seg_def Let_def)
    have k2: "kinv {} W G s2" and o2: "\<exists>c. dget (ks_owners s2) n = Some (t, c)"
      using acquire_section_spec [OF k1 subset_refl a] by auto
    have gr: "grant_section n t ?s1 s2" by (rule acquire_section_frame(2) [OF a refl])
    have d2: "ks_data s2 = ks_data s" "ks_updated s2 = ks_updated s"
      using gr f1 by (auto simp: grant_section_def)
    have cr2: "cr \<longrightarrow> dhas (ks_lock s2) n"
      using o2 kinvD(3) [OF k2, of n] owner_ok_lock by fastforce
    from finish_op_effect [OF k2 d2 sec _ cr2 b, of True t] o2 obtain s' nt' where
      f: "finish_op now t True op s2 = (r, s', nt')" "ks_data s' = ks_data s1"
        "ks_updated s' = ks_updated s1"
      and o: "ks_owners s' = (case dget (ks_owners s2) n of None \<Rightarrow> ks_owners s2
       | Some (_, c) \<Rightarrow> if c = 1 then ddel (ks_owners s2) n else dset (ks_owners s2) n (t, c - 1))"
      by auto
    have "ks_owners s' = ks_owners s"
    proof (cases "dget (ks_owners s) n")
      case None
      with gr f1 o show ?thesis by (simp add: grant_section_def ddel_absent dhas_def)
    next
      case (Some w)
      then obtain c where w: "dget (ks_owners s) n = Some (t, c)" using own f1(3) by (cases w) auto
      then have "1 \<le> c" using kinvD(3) [OF k, of n] by simp
      with w gr f1 o show ?thesis by (simp add: grant_section_def dset_dset_same dset_same)
    qed
    with f show ?thesis unfolding run by auto
  qed
qed

section \<open>Concrete runs\<close>

type_synonym ks_demo = "((string, string, int) keystore, (string, string, int) ks_pc) monitor"

definition ks_call :: "bool \<Rightarrow> int \<Rightarrow> tid \<Rightarrow> (string, string, int) request \<Rightarrow> ks_demo \<Rightarrow> ks_demo" where
  "ks_call ex now t req m = (case enter_seg ex now t req (mon_obj m) of
     (p, r, n, s') \<Rightarrow> mon_settle ks_blocked t p n s' m)"

definition ks_glock :: "tid \<Rightarrow> ks_demo \<Rightarrow> ks_demo" where
  "ks_glock t m = (case global_seg False t False (RBool False) (mon_obj m) of
     (p, r, n, s') \<Rightarrow> mon_settle ks_blocked t p n s' m)"

definition ks_start :: ks_demo where
  "ks_start = \<lparr>mon_obj = ks_new, mon_pc = (\<lambda>_. KOut), mon_asleep = {}\<rparr>"

lemma reach_ks_start: "reach ks_init ks_step ks_start"
  by (auto simp: ks_init_def mon_init_def ks_start_def intro: reach_init)

lemma reach_ks_call:
  assumes r: "reach ks_init ks_step m" and pc: "mon_pc m t = KOut"
  shows "reach ks_init ks_step (ks_call ex now t req m)" "reach ks_init ks_step (ks_glock t m)"
proof -
  have s: "reach ks_init ks_step (mon_settle ks_blocked t p n l m)"
    if "ks_seg t KOut (mon_obj m) p n l" for p n l
    using reach_step [OF r, of "mon_settle ks_blocked t p n l m"] that pc
    by (simp add: ks_step_def mon_step)
  show "reach ks_init ks_step (ks_call ex now t req m)" "reach ks_init ks_step (ks_glock t m)"
    by (auto simp: ks_call_def ks_glock_def split: prod.splits intro!: s intro: ks_seg.intros)
qed

lemmas ks_run_simps = ks_call_def ks_glock_def ks_start_def ks_new_def mon_settle_def ks_blocked_def
  enter_seg_def enter_waits_def can_enter_def owns_section_def acquire_section_def section_turn_def
  section_iter_def section_leave_def cleanup_section_def ensure_lock_def ensure_data_def rl_try_def
  global_seg_def global_turn_def global_iter_def dgetd_def dvals_def finish_op_def Let_def dict_simps

text \<open>Thread 1 owns the section, thread 2 waits for it, thread 3 waits for the global lock.\<close>

definition ks_busy :: ks_demo where
  "ks_busy = ks_glock 3 (ks_call False 5 2 (DataReq True (OpSet ''zone'' ''k'' 1))
     (ks_call False 5 1 (NamedReq ''zone'' False False (RBool False)) ks_start))"

lemma ks_busy_eq:
  "ks_busy = \<lparr>mon_obj = \<lparr>ks_data = [(''zone'', [])], ks_lock = [(''zone'', Some (1, 1))],
       ks_updated = [(''zone'', 0)], ks_owners = [(''zone'', (1, 1))], ks_waiters = [(''zone'', 1)],
       ks_gowner = None, ks_gdepth = 0, ks_gwaiters = 1\<rparr>,
     mon_pc = (\<lambda>_. KOut)(1 := KOut, 2 := KSection (DataReq True (OpSet ''zone'' ''k'' 1)),
       3 := KGlobal False (RBool False)), mon_asleep = {2, 3}\<rparr>"
  by (auto simp: ks_busy_def ks_run_simps)

lemma reach_busy: "reach ks_init ks_step ks_busy"
  unfolding ks_busy_def by (intro reach_ks_call reach_ks_start) (simp_all add: ks_run_simps)




section \<open>Properties\<close>



text \<open>
  C5: No lost wake-up in \<^verbatim>\<open>Keystore\<close>: in every reachable interleaving, a thread asleep in one of the
  three waits (entry, section, global lock) that no \<^verbatim>\<open>notify_all\<close> has reached would wait again if
  it looked now. So each segment that lets a blocked thread go on notifies, the deletion of a
  section somebody awaits with \<^verbatim>\<open>exists\<close> and the give-up of a waiter for the global lock included.
\<close>
theorem keystore_no_lost_wakeup:
  assumes "reach ks_init ks_step m" and "t \<in> mon_asleep m"
  shows "mon_pc m t \<noteq> KOut \<and> \<not> ks_enabled (mon_pc m t) t (mon_obj m)"
  using ksm.no_lost_wakeup [OF assms] by (simp add: ks_blocked_def)

theorem keystore_no_lost_wakeup_witness:
  "\<exists>m :: ks_demo. reach ks_init ks_step m \<and> 3 \<in> mon_asleep m \<and> \<not> ks_enabled (mon_pc m 3) 3 (mon_obj m)"
proof (intro exI conjI)
  show a: "3 \<in> mon_asleep ks_busy" by (simp add: ks_busy_eq)
  show "\<not> ks_enabled (mon_pc ks_busy 3) 3 (mon_obj ks_busy)"
    using keystore_no_lost_wakeup [OF reach_busy a] by blast
qed (rule reach_busy)

text \<open>
  C6: The lock table of \<^verbatim>\<open>Keystore\<close> holds an entry for a name exactly when the section has data, an
  owner, or a thread waiting for it (no entry leaks, and none is dropped under a waiter); the
  time stamps are those of the existing sections; the owner record and the section's \<^verbatim>\<open>RLock\<close>
  agree on the owner and its count.
\<close>
theorem keystore_lock_table:
  assumes "reach ks_init ks_step m"
  shows "(dhas (ks_lock (mon_obj m)) n \<longleftrightarrow> dhas (ks_data (mon_obj m)) n \<or>
      dhas (ks_owners (mon_obj m)) n \<or> (\<exists>t. waits_for n (mon_pc m t))) \<and>
    (dhas (ks_updated (mon_obj m)) n \<longleftrightarrow> dhas (ks_data (mon_obj m)) n) \<and>
    (dget (ks_owners (mon_obj m)) n = Some (t, c) \<longleftrightarrow> dget (ks_lock (mon_obj m)) n = Some (Some (t, c)))"
proof -
  from reach_kinv [OF assms] obtain W G where k: "kinv {} W G (mon_obj m)"
    and w: "\<forall>n. 0 < W n \<longleftrightarrow> (\<exists>t. waits_for n (mon_pc m t))" by blast
  have o: "owner_ok (dget (ks_owners (mon_obj m)) n) (dget (ks_lock (mon_obj m)) n)" by (rule kinvD(3) [OF k])
  have "dhas (ks_owners (mon_obj m)) n \<Longrightarrow> dhas (ks_lock (mon_obj m)) n"
    using o owner_ok_lock by (fastforce simp: dhas_get)
  with kinvD(2,4,5) [OF k, of n] kinv_waiting [OF k, of n] w o show ?thesis
    by (cases "dget (ks_owners (mon_obj m)) n") auto
qed

theorem keystore_lock_table_witness:
  "dhas (ks_lock (mon_obj ks_busy)) ''zone'' \<and> \<not> dhas (ks_lock (mon_obj ks_busy)) ''other''"
  using keystore_lock_table [OF reach_busy, of "''zone''"] keystore_lock_table [OF reach_busy, of "''other''"]
  by (auto simp: ks_busy_eq dict_simps waits_for_def)

text \<open>
  A section owner is never locked out of its own section: in every reachable interleaving it can
  take the section again without waiting, also while a thread waits for the global lock, every
  other thread is refused, and \<open>n + 1\<close> acquisitions and releases leave every count as it was.
\<close>
theorem keystore_owner_reenters:
  assumes "reach ks_init ks_step m" and "dget (ks_owners (mon_obj m)) name = Some (t, c)"
  shows "fst (sec_try name t (mon_obj m)) \<and> (u \<noteq> t \<longrightarrow> \<not> fst (sec_try name u (mon_obj m))) \<and>
    (\<exists>s'. lock_run (sec_try name) (sec_release name)
            (replicate (Suc n) (Acquire t) @ replicate (Suc n) (Release t)) (mon_obj m) = Some s' \<and>
          sec_holds name s' = sec_holds name (mon_obj m))"
proof -
  from reach_kinv [OF assms(1)] obtain W G where k: "kinv {} W G (mon_obj m)" by blast
  have h: "0 < sec_holds name (mon_obj m) t" using kinvD(3) [OF k, of name] assms(2)
    by (simp add: sec_holds_def)
  obtain s1 where a: "sec_try name t (mon_obj m) = (True, s1)" by (rule ksec.reacquire [OF k h])
  with ksec.held_elsewhere_refused [OF k h] ksec.balanced [OF k a, of n] show ?thesis by auto
qed

theorem keystore_owner_reenters_witness:
  "ks_gwaiters (mon_obj ks_busy) = 1 \<and> fst (sec_try ''zone'' 1 (mon_obj ks_busy)) \<and>
   \<not> fst (sec_try ''zone'' 4 (mon_obj ks_busy))"
proof -
  have "dget (ks_owners (mon_obj ks_busy)) ''zone'' = Some (1, 1)" by (simp add: ks_busy_eq dict_simps)
  from keystore_owner_reenters [OF reach_busy this, of 4 0] show ?thesis by (simp add: ks_busy_eq)
qed

text \<open>
  \<^verbatim>\<open>set\<close> then \<^verbatim>\<open>get\<close>: when the caller can enter and, with \<^verbatim>\<open>lock=True\<close>, the section is free or its
  own, \<^verbatim>\<open>set\<close> returns in one segment, leaves all ownership as it was, stamps the section, and
  every later \<^verbatim>\<open>get\<close> sees the new value at that key and the old ones everywhere else.
\<close>
theorem keystore_set_get:
  assumes "reach ks_init ks_step m" and "\<not> enter_waits t False (mon_obj m)"
    and "lk \<longrightarrow> (\<forall>v c. dget (ks_owners (mon_obj m)) n = Some (v, c) \<longrightarrow> v = t)"
  shows "\<exists>s' nt. enter_seg ex now t (DataReq lk (OpSet n k v)) (mon_obj m) =
      (KOut, Some (Inr RSelf), nt, s') \<and> ks_owners s' = ks_owners (mon_obj m) \<and>
    dget (ks_updated s') n = Some now \<and>
    fst (op_body now' (OpGet n' k' d) s') =
      (if n' = n \<and> k' = k then Inr (RObj (Some v)) else fst (op_body now' (OpGet n' k' d) (mon_obj m)))"
proof -
  from reach_kinv [OF assms(1)] obtain W G where k: "kinv {} W G (mon_obj m)" by blast
  let ?s = "ensure_data n (mon_obj m)"
  obtain sec where sec: "dget (ks_data ?s) n = Some sec"
    and sec': "sec = (case dget (ks_data (mon_obj m)) n of None \<Rightarrow> [] | Some d \<Rightarrow> d)"
    by (cases "dget (ks_data (mon_obj m)) n") (auto simp: ensure_data_def dhas_def)
  have "op_body now (OpSet n k v) (if True then ?s else mon_obj m) = (Inr RSelf,
      ?s\<lparr>ks_data := dset (ks_data ?s) n (dset sec k v), ks_updated := dset (ks_updated ?s) n now\<rparr>, False)"
    by (simp add: sec)
  from guarded_call [OF k assms(2) _ _ assms(3) this, of True ex] obtain s' nt where
    run: "enter_seg ex now t (DataReq lk (OpSet n k v)) (mon_obj m) = (KOut, Some (Inr RSelf), nt, s')"
      "ks_owners s' = ks_owners (mon_obj m)"
    and s': "ks_data s' = dset (ks_data ?s) n (dset sec k v)" "ks_updated s' = dset (ks_updated ?s) n now"
    by auto
  have "dget (ks_data s') n' = (if n' = n then Some (dset sec k v) else dget (ks_data (mon_obj m)) n')"
    by (simp add: s' ensure_data_def)
  then show ?thesis using run s'(2) sec' by (auto split: option.splits)
qed

theorem keystore_set_get_witness:
  "\<exists>s' nt. enter_seg False 9 1 (DataReq True (OpSet ''zone'' ''k'' 42)) (mon_obj ks_busy) =
     (KOut, Some (Inr RSelf), nt, s') \<and>
     fst (op_body 10 (OpGet ''zone'' ''k'' None) s') = Inr (RObj (Some 42))"
proof -
  have "\<not> enter_waits 1 False (mon_obj ks_busy)"
    "True \<longrightarrow> (\<forall>v c. dget (ks_owners (mon_obj ks_busy)) ''zone'' = Some (v, c) \<longrightarrow> v = 1)"
    by (simp_all add: ks_busy_eq enter_waits_def can_enter_def owns_section_def dvals_def dict_simps)
  from keystore_set_get [OF reach_busy this, of False 9 "''k''" 42 10 "''zone''" "''k''" None]
  show ?thesis by auto
qed

text \<open>
  Deleting a section one owns removes its data and its stamp but not its lock: the owner keeps the
  section, the others stay locked out, and the table entry goes with the last release unless
  somebody waits for it.
\<close>
theorem keystore_delete_keeps_lock:
  assumes "reach ks_init ks_step m" and "dget (ks_owners (mon_obj m)) n = Some (t, 1)"
  shows "\<exists>s' nt. enter_seg ex now t (DataReq lk (OpDelete n)) (mon_obj m) =
      (KOut, Some (Inr RSelf), nt, s') \<and> \<not> dhas (ks_data s') n \<and> \<not> dhas (ks_updated s') n \<and>
    ks_owners s' = ks_owners (mon_obj m) \<and> dhas (ks_lock s') n \<and>
    (\<exists>s''. ks_release t n s' = Inr (True, s'') \<and> \<not> dhas (ks_owners s'') n \<and>
       (dhas (ks_lock s'') n \<longleftrightarrow> (\<exists>u. waits_for n (mon_pc m u))))"
proof -
  from reach_kinv [OF assms(1)] obtain W G where k: "kinv {} W G (mon_obj m)"
    and w: "\<forall>n. 0 < W n \<longleftrightarrow> (\<exists>t. waits_for n (mon_pc m t))" by blast
  let ?b = "mon_obj m\<lparr>ks_data := ddel (ks_data (mon_obj m)) n, ks_updated := ddel (ks_updated (mon_obj m)) n\<rparr>"
  have b: "op_body now (OpDelete n) (if False then ensure_data n (mon_obj m) else mon_obj m) = (Inr RSelf, ?b, True)"
    by simp
  have en: "\<not> enter_waits t False (mon_obj m)" by (rule kinv_owner_enters(2) [OF k assms(2)])
  have own: "lk \<longrightarrow> (\<forall>v c. dget (ks_owners (mon_obj m)) n = Some (v, c) \<longrightarrow> v = t)" using assms(2) by simp
  from guarded_call [OF k en _ _ own b, of True ex] obtain s' nt where
    run: "enter_seg ex now t (DataReq lk (OpDelete n)) (mon_obj m) = (KOut, Some (Inr RSelf), nt, s')"
    and s': "ks_data s' = ks_data ?b" "ks_updated s' = ks_updated ?b" "ks_owners s' = ks_owners (mon_obj m)"
    by auto
  have k': "kinv {} W G s'" using enter_seg_spec [OF k run] by simp
  have o': "dget (ks_owners s') n = Some (t, 1)" using s' assms(2) by simp
  have l: "dhas (ks_lock s') n" using kinvD(3) [OF k', of n] o' by (simp add: dhas_def)
  note rel = release_section_owner [OF k' o']
  have r: "ks_release t n s' = Inr (True, cleanup_section n
      (s'\<lparr>ks_lock := dset (ks_lock s') n None, ks_owners := ddel (ks_owners s') n\<rparr>))"
    using l rel by (simp add: ks_release_def)
  have "0 < W n \<longleftrightarrow> dgetd (ks_waiters s') n 0 \<noteq> 0" using kinvD(6) [OF k', of n] by simp
  with run s' l r w show ?thesis by (auto simp: cleanup_section_def)
qed

theorem keystore_delete_keeps_lock_witness:
  "\<exists>s' nt. enter_seg False 9 1 (DataReq True (OpDelete ''zone'')) (mon_obj ks_busy) =
     (KOut, Some (Inr RSelf), nt, s') \<and> \<not> dhas (ks_data s') ''zone'' \<and> dhas (ks_lock s') ''zone''"
proof -
  have "dget (ks_owners (mon_obj ks_busy)) ''zone'' = Some (1, 1)" by (simp add: ks_busy_eq dict_simps)
  from keystore_delete_keeps_lock [OF reach_busy this, of False 9 True] show ?thesis by auto
qed

text \<open>
  The global lock is a reentrant lock with an owner check: when \<^verbatim>\<open>lock(blocking=False)\<close> is granted,
  nobody else owned a section, \<open>n + 1\<close> acquisitions and releases restore every count, and
  another thread cannot release it.
\<close>
theorem keystore_global_balanced:
  assumes "reach ks_init ks_step m" and "glob_try t (mon_obj m) = (True, s1)"
  shows "(dget (ks_owners (mon_obj m)) name = Some (u, c) \<longrightarrow> u = t) \<and>
    (v \<noteq> t \<longrightarrow> glob_release v s1 = None) \<and>
    (\<exists>s'. lock_run glob_try glob_release
            (replicate (Suc n) (Acquire t) @ replicate (Suc n) (Release t)) (mon_obj m) = Some s' \<and>
          glob_holds s' = glob_holds (mon_obj m))"
proof -
  from reach_kinv [OF assms(1)] obtain W G where k: "kinv {} W G (mon_obj m)" by blast
  from kglob.acq_granted [OF k assms(2)] have k1: "kinv {} W G s1" and h: "0 < glob_holds s1 t" by auto
  have "dget (ks_owners (mon_obj m)) name = Some (u, c) \<longrightarrow> u = t"
    using assms(2) by (auto simp: glob_try_spec [OF k] split: if_splits)
  with kglob.no_foreign_release [OF k1 h] kglob.balanced [OF k assms(2), of n] show ?thesis by blast
qed

theorem keystore_global_balanced_witness:
  "glob_release 2 (snd (glob_try 1 (mon_obj ks_start))) = None"
proof -
  have g: "glob_try 1 (mon_obj ks_start) = (True, ks_new\<lparr>ks_gowner := Some 1, ks_gdepth := 1\<rparr>)"
    by (simp add: glob_try_def ks_run_simps)
  from keystore_global_balanced [OF reach_ks_start g, of "[]" 0 0 2 0] g show ?thesis by simp
qed

end
