(* ===== verification/Pystr.thy ===== *)
theory Pystr
  imports Prelude "HOL-Library.Char_ord"
begin

text \<open>
  Python strings and the methods of \<^verbatim>\<open>str\<close> the package uses. A string is the list of the bytes of
  its UTF-8 encoding, so an ASCII character is one \<^typ>\<open>char\<close> and every other character is a run of
  chars above 127; comparison, splitting at ASCII separators and concatenation are then exact.
\<close>

section \<open>Characters\<close>

definition digit_chars :: string where "digit_chars = ''0123456789''"
definition lower_chars :: string where "lower_chars = ''abcdefghijklmnopqrstuvwxyz''"
definition upper_chars :: string where "upper_chars = ''ABCDEFGHIJKLMNOPQRSTUVWXYZ''"

definition is_digit :: "char \<Rightarrow> bool" where "is_digit c = (c \<in> set digit_chars)"

definition all_in :: "string \<Rightarrow> string \<Rightarrow> bool" where
  "all_in s charset = list_all (\<lambda>c. c \<in> set charset) s"

text \<open>ASCII white space, as \<^verbatim>\<open>str.isspace\<close> and \<^verbatim>\<open>str.strip\<close> see it.\<close>

definition is_space :: "char \<Rightarrow> bool" where
  "is_space c = ((9 :: nat) \<le> of_char c \<and> (of_char c :: nat) \<le> 13 \<or>
                 (28 :: nat) \<le> of_char c \<and> (of_char c :: nat) \<le> 32)"

text \<open>\<^verbatim>\<open>len(s)\<close>: the bytes that start a character.\<close>

definition py_len :: "string \<Rightarrow> nat" where
  "py_len s = length (filter (\<lambda>c. (of_char c :: nat) < 128 \<or> (192 :: nat) \<le> of_char c) s)"

definition strip :: "string \<Rightarrow> string" where
  "strip s = rev (dropWhile is_space (rev (dropWhile is_space s)))"

definition upper_char :: "char \<Rightarrow> char" where
  "upper_char c = (case map_of (zip lower_chars upper_chars) c of None \<Rightarrow> c | Some d \<Rightarrow> d)"

definition lower_char :: "char \<Rightarrow> char" where
  "lower_char c = (case map_of (zip upper_chars lower_chars) c of None \<Rightarrow> c | Some d \<Rightarrow> d)"

text \<open>Inclusions and disjointness of charsets, checked on the literals.\<close>

lemma charset_subset: "all_in a b \<Longrightarrow> set a \<subseteq> set b"
  by (auto simp: all_in_def list_all_iff)

lemma all_in_iff: "all_in s cs = (set s \<subseteq> set cs)"
  by (auto simp: all_in_def list_all_iff)

lemma charset_all: "list_all P cs \<Longrightarrow> c \<in> set cs \<Longrightarrow> P c"
  by (simp add: list_all_iff)

section \<open>Splitting and joining\<close>

text \<open>\<open>s.split(c, 1)\<close>: the part before the first \<open>c\<close>, and the rest after it when there is one.\<close>

fun cut_at :: "'a \<Rightarrow> 'a list \<Rightarrow> 'a list \<times> 'a list option" where
  "cut_at c [] = ([], None)"
| "cut_at c (x # xs) = (if x = c then ([], Some xs) else (case cut_at c xs of (a, b) \<Rightarrow> (x # a, b)))"

text \<open>\<open>s.split(c)\<close>, \<open>s.split(c, n)\<close> and \<open>c.join(xs)\<close>.\<close>

fun split_on :: "'a \<Rightarrow> 'a list \<Rightarrow> 'a list list" where
  "split_on c [] = [[]]"
| "split_on c (x # xs) =
     (if x = c then [] # split_on c xs
      else (case split_on c xs of [] \<Rightarrow> [[x]] | y # ys \<Rightarrow> (x # y) # ys))"

fun split_max :: "'a \<Rightarrow> nat \<Rightarrow> 'a list \<Rightarrow> 'a list list" where
  "split_max c 0 s = [s]"
| "split_max c (Suc n) s = (case cut_at c s of (a, None) \<Rightarrow> [a] | (a, Some b) \<Rightarrow> a # split_max c n b)"

fun join :: "'a list \<Rightarrow> 'a list list \<Rightarrow> 'a list" where
  "join sep [] = []"
| "join sep [x] = x"
| "join sep (x # y # ys) = x @ sep @ join sep (y # ys)"

lemma cut_none: "c \<notin> set s \<Longrightarrow> cut_at c s = (s, None)"
  by (induction s) auto

lemma cut_append: "c \<notin> set a \<Longrightarrow> cut_at c (a @ c # b) = (a, Some b)"
  by (induction a) auto

lemma cut_Some: "cut_at c s = (a, Some b) \<Longrightarrow> s = a @ c # b \<and> c \<notin> set a"
  by (induction s arbitrary: a b) (auto split: if_splits prod.splits)

lemma cut_None: "cut_at c s = (a, None) \<Longrightarrow> s = a \<and> c \<notin> set a"
  by (induction s arbitrary: a) (auto split: if_splits prod.splits)

lemma split_on_ne [simp]: "split_on c s \<noteq> []"
  by (induction s) (auto split: list.splits)

lemma split_on_cut: "split_on c s = (case cut_at c s of (a, None) \<Rightarrow> [a] | (a, Some b) \<Rightarrow> a # split_on c b)"
  by (induction s) (auto split: list.splits prod.splits option.splits)

lemma split_on_free: "c \<notin> set s \<Longrightarrow> split_on c s = [s]"
  by (simp add: split_on_cut cut_none)

lemma split_on_append: "c \<notin> set a \<Longrightarrow> split_on c (a @ c # b) = a # split_on c b"
  by (subst split_on_cut) (simp add: cut_append)

lemma join_Cons: "join sep (x # xs) = (if xs = [] then x else x @ sep @ join sep xs)"
  by (cases xs) auto

lemma join_split_on: "join [c] (split_on c s) = s"
proof (induction s)
  case (Cons x s)
  then show ?case by (cases "split_on c s") (auto simp: join_Cons split: if_splits)
qed simp

lemma split_on_join:
  "xs \<noteq> [] \<Longrightarrow> (\<And>x. x \<in> set xs \<Longrightarrow> c \<notin> set x) \<Longrightarrow> split_on c (join [c] xs) = xs"
proof (induction xs)
  case (Cons x xs)
  then show ?case by (cases xs) (auto simp: split_on_free split_on_append join_Cons)
qed simp

lemma split_on_parts: "x \<in> set (split_on c s) \<Longrightarrow> c \<notin> set x"
proof (induction s arbitrary: x)
  case (Cons y s)
  obtain h t where "split_on c s = h # t" by (cases "split_on c s") auto
  with Cons show ?case by (auto split: if_splits)
qed simp

lemma split_on_set: "x \<in> set (split_on c s) \<Longrightarrow> set x \<subseteq> set s"
proof (induction s arbitrary: x)
  case (Cons y s)
  obtain h t where h: "split_on c s = h # t" by (cases "split_on c s") auto
  with Cons.IH have "set h \<subseteq> set s" "\<And>z. z \<in> set t \<Longrightarrow> set z \<subseteq> set s" by auto
  with h Cons.prems show ?case by (fastforce split: if_splits)
qed simp

lemma length_split_max: "length (split_max c n s) \<le> Suc n"
  by (induction c n s rule: split_max.induct) (auto split: prod.splits option.splits)

lemma split_max_all: "length (split_on c s) \<le> Suc n \<Longrightarrow> split_max c n s = split_on c s"
proof (induction c n s rule: split_max.induct)
  case (1 c s)
  then show ?case by (subst (asm) split_on_cut, subst split_on_cut)
    (auto split: prod.splits option.splits dest: cut_None)
next
  case (2 c n s)
  from "2.prems" show ?case
    by (subst (asm) split_on_cut, subst split_on_cut)
      (auto split: prod.splits option.splits intro: "2.IH")
qed

lemma split_max_more: "Suc n < length (split_on c s) \<Longrightarrow> length (split_max c n s) = Suc n"
proof (induction c n s rule: split_max.induct)
  case (2 c n s)
  from "2.prems" show ?case
    by (subst (asm) split_on_cut) (auto split: prod.splits option.splits intro: "2.IH")
qed simp

lemma split_max_len:
  "length (split_max c n s) = min (Suc n) (length (split_on c s))"
  using split_max_all [of c s n] split_max_more [of n c s] by (cases "length (split_on c s) \<le> Suc n") auto

section \<open>Numbers\<close>

definition digit_val :: "char \<Rightarrow> nat" where
  "digit_val c = (case map_of (zip ''0123456789abcdefABCDEF''
     [0, 1, 2, 3, 4, 5, 6, 7, 8, 9, 10, 11, 12, 13, 14, 15, 10, 11, 12, 13, 14, 15]) c of
       None \<Rightarrow> 16 | Some v \<Rightarrow> v)"

definition digits_val :: "nat \<Rightarrow> string \<Rightarrow> nat" where
  "digits_val base s = foldl (\<lambda>v c. v * base + digit_val c) 0 s"

definition digits_in :: "nat \<Rightarrow> string \<Rightarrow> bool" where
  "digits_in base s = (s \<noteq> [] \<and> list_all (\<lambda>c. digit_val c < base) s)"

text \<open>Digits with the underscores Python allows between them.\<close>

fun drop_underscores :: "string \<Rightarrow> string option" where
  "drop_underscores [] = Some []"
| "drop_underscores [c] = (if c = CHR ''_'' then None else Some [c])"
| "drop_underscores (c # d # s) =
     (if c = CHR ''_'' then None
      else if d = CHR ''_'' then map_option (Cons c) (drop_underscores s)
      else map_option (Cons c) (drop_underscores (d # s)))"

definition parse_digits :: "nat \<Rightarrow> string \<Rightarrow> nat option" where
  "parse_digits base s = (case drop_underscores s of None \<Rightarrow> None
     | Some t \<Rightarrow> if s \<noteq> [] \<and> hd s \<noteq> CHR ''_'' \<and> last s \<noteq> CHR ''_'' \<and> digits_in base t
                 then Some (digits_val base t) else None)"

definition signed :: "(string \<Rightarrow> nat option) \<Rightarrow> string \<Rightarrow> int option" where
  "signed p s = (case s of
       [] \<Rightarrow> None
     | c # t \<Rightarrow> if c = CHR ''-'' then map_option (\<lambda>n. - int n) (p t)
               else if c = CHR ''+'' then map_option int (p t) else map_option int (p s))"

text \<open>\<open>int(s)\<close>; \<open>None\<close> is \<^verbatim>\<open>ValueError\<close>.\<close>

definition py_int :: "string \<Rightarrow> int option" where
  "py_int s = signed (parse_digits 10) (strip s)"

text \<open>\<open>int(s, 0)\<close> on the text after the sign: a base prefix (an underscore may follow it), a decimal
  numeral without leading zeros, or zeros.\<close>

definition prefixed :: "nat \<Rightarrow> string \<Rightarrow> nat option" where
  "prefixed base s = parse_digits base (case s of c # t \<Rightarrow> if c = CHR ''_'' then t else s | [] \<Rightarrow> s)"

definition parse_base0 :: "string \<Rightarrow> nat option" where
  "parse_base0 s = (case s of
       c # x # t \<Rightarrow>
         if c = CHR ''0'' then
           (if x = CHR ''x'' \<or> x = CHR ''X'' then prefixed 16 t
            else if x = CHR ''o'' \<or> x = CHR ''O'' then prefixed 8 t
            else if x = CHR ''b'' \<or> x = CHR ''B'' then prefixed 2 t
            else (case parse_digits 10 s of Some 0 \<Rightarrow> Some 0 | _ \<Rightarrow> None))
         else parse_digits 10 s
     | _ \<Rightarrow> parse_digits 10 s)"

definition py_int0 :: "string \<Rightarrow> int option" where
  "py_int0 s = signed parse_base0 (strip s)"

text \<open>\<open>str(n)\<close>.\<close>

fun show_nat :: "nat \<Rightarrow> string" where
  "show_nat n = (if n < 10 then [digit_chars ! n] else show_nat (n div 10) @ [digit_chars ! (n mod 10)])"

declare show_nat.simps [simp del]

definition show_int :: "int \<Rightarrow> string" where
  "show_int i = (if i < 0 then CHR ''-'' # show_nat (nat (- i)) else show_nat (nat i))"

lemma digit_char_cases: "n < 10 \<Longrightarrow> n \<in> {0, 1, 2, 3, 4, 5, 6, 7, 8, 9 :: nat}"
  by auto

lemma digit_val_char: "n < 10 \<Longrightarrow> digit_val (digit_chars ! n) = n"
  by (drule digit_char_cases) (auto simp: digit_chars_def digit_val_def)

lemma digit_char_mem: "n < 10 \<Longrightarrow> digit_chars ! n \<in> set digit_chars"
  by (rule nth_mem) (simp add: digit_chars_def)

lemma digits_val_snoc: "digits_val b (s @ [c]) = digits_val b s * b + digit_val c"
  by (simp add: digits_val_def)

lemma show_nat_digits: "set (show_nat n) \<subseteq> set digit_chars" "show_nat n \<noteq> []"
proof (induction n rule: show_nat.induct)
  case (1 n)
  { case 1 with "1.IH" show ?case by (subst show_nat.simps) (auto simp: digit_char_mem) }
  { case 2 show ?case by (subst show_nat.simps) simp }
qed

lemma digits_val_show: "digits_val 10 (show_nat n) = n"
proof (induction n rule: show_nat.induct)
  case (1 n)
  show ?case
  proof (cases "n < 10")
    case True
    then show ?thesis by (subst show_nat.simps) (simp add: digits_val_def digit_val_char)
  next
    case False
    with "1.IH" show ?thesis by (subst show_nat.simps) (simp add: digits_val_snoc digit_val_char)
  qed
qed

lemma digit_chars_val: "c \<in> set digit_chars \<Longrightarrow> digit_val c < 10 \<and> c \<noteq> CHR ''_'' \<and> \<not> is_space c"
  by (rule charset_all [of _ digit_chars]) code_simp

lemma drop_underscores_free: "CHR ''_'' \<notin> set s \<Longrightarrow> drop_underscores s = Some s"
  by (induction s rule: drop_underscores.induct) auto

lemma parse_digits_dec:
  "s \<noteq> [] \<Longrightarrow> set s \<subseteq> set digit_chars \<Longrightarrow> parse_digits 10 s = Some (digits_val 10 s)"
proof -
  assume s: "s \<noteq> []" "set s \<subseteq> set digit_chars"
  then have u: "CHR ''_'' \<notin> set s" using digit_chars_val by blast
  have "hd s \<in> set s" "last s \<in> set s" using s by auto
  with u have "hd s \<noteq> CHR ''_''" "last s \<noteq> CHR ''_''" by auto
  moreover have "digits_in 10 s" using s digit_chars_val by (auto simp: digits_in_def list_all_iff)
  ultimately show ?thesis using s u by (simp add: parse_digits_def drop_underscores_free)
qed

lemma dropWhile_none: "list_all (\<lambda>x. \<not> P x) s \<Longrightarrow> dropWhile P s = s"
  by (cases s) auto

lemma strip_free: "list_all (\<lambda>c. \<not> is_space c) s \<Longrightarrow> strip s = s"
  by (simp add: strip_def dropWhile_none list_all_rev)

lemma py_int_show: "py_int (show_nat n) = Some (int n)"
proof -
  have d: "set (show_nat n) \<subseteq> set digit_chars" and ne: "show_nat n \<noteq> []" by (rule show_nat_digits)+
  then have st: "strip (show_nat n) = show_nat n"
    using digit_chars_val by (intro strip_free) (auto simp: list_all_iff)
  obtain c t where c: "show_nat n = c # t" using ne by (cases "show_nat n") auto
  with d have "c \<noteq> CHR ''-''" "c \<noteq> CHR ''+''" by (auto simp: digit_chars_def)
  with st [unfolded c] parse_digits_dec [OF ne d, unfolded c] digits_val_show [of n, unfolded c]
  show ?thesis
    by (simp add: py_int_def signed_def c)
qed

section \<open>Searching\<close>

text \<open>\<open>s.find(p)\<close>, \<open>s.count(p)\<close> for a nonempty \<open>p\<close>, \<open>s.startswith(p)\<close>, the split at the last \<open>c\<close>.\<close>

definition starts_with :: "string \<Rightarrow> string \<Rightarrow> bool" where
  "starts_with p s = (take (length p) s = p)"

fun find_sub :: "string \<Rightarrow> string \<Rightarrow> nat option" where
  "find_sub p [] = (if p = [] then Some 0 else None)"
| "find_sub p (c # s) = (if starts_with p (c # s) then Some 0 else map_option Suc (find_sub p s))"

function count_sub :: "string \<Rightarrow> string \<Rightarrow> nat" where
  "count_sub p [] = 0"
| "count_sub p (c # s) = (if starts_with p (c # s) then Suc (count_sub p (drop (length p - 1) s))
     else count_sub p s)"
  by pat_completeness auto
termination by (relation "measure (\<lambda>(p, s). length s)") auto

fun rcut :: "'a \<Rightarrow> 'a list \<Rightarrow> ('a list \<times> 'a list) option" where
  "rcut c [] = None"
| "rcut c (x # xs) = (case rcut c xs of Some (a, b) \<Rightarrow> Some (x # a, b)
     | None \<Rightarrow> if x = c then Some ([], xs) else None)"

text \<open>\<^verbatim>\<open>os.path.basename\<close> and \<^verbatim>\<open>os.path.join\<close> of two parts.\<close>

definition path_basename :: "string \<Rightarrow> string" where "path_basename p = last (split_on CHR ''/'' p)"

definition path_join :: "string \<Rightarrow> string \<Rightarrow> string" where
  "path_join d n = (if starts_with ''/'' n then n else if d = [] \<or> last d = CHR ''/'' then d @ n else d @ ''/'' @ n)"

lemma starts_with_append: "starts_with p s \<Longrightarrow> s = p @ drop (length p) s"
  by (metis append_take_drop_id starts_with_def)

lemma find_sub_split: "find_sub p s = Some n \<Longrightarrow> s = take n s @ p @ drop (n + length p) s"
proof (induction p s arbitrary: n rule: find_sub.induct)
  case (2 p c s)
  show ?case
  proof (cases "starts_with p (c # s)")
    case True
    with "2.prems" have "n = 0" "take (length p) (c # s) = p" by (auto simp: starts_with_def)
    then show ?thesis by (metis append.left_neutral append_take_drop_id plus_nat.add_0 take_0)
  next
    case False
    with 2 show ?thesis by auto
  qed
qed (auto split: if_splits)

lemma count_sub_zero: "p \<noteq> [] \<Longrightarrow> (count_sub p s = 0) = (find_sub p s = None)"
  by (induction p s rule: count_sub.induct) auto

lemma rcut_Some: "rcut c s = Some (a, b) \<Longrightarrow> s = a @ c # b \<and> c \<notin> set b"
proof (induction s arbitrary: a)
  case (Cons x s)
  have "rcut c s = None \<Longrightarrow> c \<notin> set s" by (induction s) (auto split: option.splits prod.splits if_splits)
  with Cons show ?case by (auto split: option.splits prod.splits if_splits)
qed simp

lemma rcut_append: "c \<notin> set b \<Longrightarrow> rcut c (a @ c # b) = Some (a, b)"
proof (induction a)
  case Nil
  have "c \<notin> set b \<Longrightarrow> rcut c b = None" by (induction b) auto
  with Nil show ?case by simp
qed simp

section \<open>Values\<close>

text \<open>The dynamically typed arguments some functions tell apart (floats are not among them).\<close>

datatype pyval =
    VNone | VBool bool | VInt int | VStr string | VBytes string
  | VList "pyval list" | VTuple "pyval list" | VDict "(pyval \<times> pyval) list"

end
