(* ===== verification/Regex.thy ===== *)
theory Regex
  imports Pystr
begin

text \<open>
  The regular expressions of the package as data, matched from the first to the last character
  (\<^verbatim>\<open>^...\Z\<close>) with derivatives, and the language each denotes: \<open>full_match\<close> computes, \<open>denotes\<close> is
  what proofs use, and the two agree.
\<close>

datatype regex =
    NoMatch | Epsilon | Chars string | NotChars string | Alt regex regex | Seq regex regex | Star regex

definition Lit :: "char \<Rightarrow> regex" where "Lit c = Chars [c]"
definition Plus :: "regex \<Rightarrow> regex" where "Plus r = Seq r (Star r)"
definition Opt :: "regex \<Rightarrow> regex" where "Opt r = Alt Epsilon r"

fun Rep :: "nat \<Rightarrow> regex \<Rightarrow> regex" where
  "Rep 0 r = Epsilon"
| "Rep (Suc n) r = Seq r (Rep n r)"

text \<open>At most \<open>n\<close> copies.\<close>

fun UpTo :: "nat \<Rightarrow> regex \<Rightarrow> regex" where
  "UpTo 0 r = Epsilon"
| "UpTo (Suc n) r = Opt (Seq r (UpTo n r))"

fun nullable :: "regex \<Rightarrow> bool" where
  "nullable NoMatch = False"
| "nullable Epsilon = True"
| "nullable (Chars cs) = False"
| "nullable (NotChars cs) = False"
| "nullable (Alt r s) = (nullable r \<or> nullable s)"
| "nullable (Seq r s) = (nullable r \<and> nullable s)"
| "nullable (Star r) = True"

text \<open>Sequences and alternatives simplify as they are built, which keeps derivatives small.\<close>

definition mk_seq :: "regex \<Rightarrow> regex \<Rightarrow> regex" where
  "mk_seq r s = (if r = NoMatch then NoMatch else if r = Epsilon then s else Seq r s)"

definition mk_alt :: "regex \<Rightarrow> regex \<Rightarrow> regex" where
  "mk_alt r s = (if r = NoMatch then s else if s = NoMatch then r else if r = s then r else Alt r s)"

fun deriv :: "char \<Rightarrow> regex \<Rightarrow> regex" where
  "deriv c NoMatch = NoMatch"
| "deriv c Epsilon = NoMatch"
| "deriv c (Chars cs) = (if c \<in> set cs then Epsilon else NoMatch)"
| "deriv c (NotChars cs) = (if c \<in> set cs then NoMatch else Epsilon)"
| "deriv c (Alt r s) = mk_alt (deriv c r) (deriv c s)"
| "deriv c (Seq r s) =
     (if nullable r then mk_alt (mk_seq (deriv c r) s) (deriv c s) else mk_seq (deriv c r) s)"
| "deriv c (Star r) = mk_seq (deriv c r) (Star r)"

definition full_match :: "regex \<Rightarrow> string \<Rightarrow> bool" where
  "full_match r s = nullable (foldl (\<lambda>r c. deriv c r) r s)"

section \<open>What an expression denotes\<close>

inductive denotes :: "regex \<Rightarrow> string \<Rightarrow> bool" where
  eps: "denotes Epsilon []"
| chars: "c \<in> set cs \<Longrightarrow> denotes (Chars cs) [c]"
| not_chars: "c \<notin> set cs \<Longrightarrow> denotes (NotChars cs) [c]"
| alt_left: "denotes r w \<Longrightarrow> denotes (Alt r s) w"
| alt_right: "denotes s w \<Longrightarrow> denotes (Alt r s) w"
| seq: "denotes r v \<Longrightarrow> denotes s w \<Longrightarrow> denotes (Seq r s) (v @ w)"
| star_nil: "denotes (Star r) []"
| star_cons: "denotes r v \<Longrightarrow> denotes (Star r) w \<Longrightarrow> denotes (Star r) (v @ w)"

inductive_cases denotes_starE: "denotes (Star r) w"

inductive_simps denotes_basic [simp]:
  "denotes NoMatch w" "denotes Epsilon w" "denotes (Chars cs) w" "denotes (NotChars cs) w"

inductive_simps denotes_alt [simp]: "denotes (Alt r s) w"
inductive_simps denotes_seq: "denotes (Seq r s) w"

lemma denotes_mk_alt: "denotes (mk_alt r s) w = denotes (Alt r s) w"
  by (auto simp: mk_alt_def)

lemma denotes_mk_seq: "denotes (mk_seq r s) w = denotes (Seq r s) w"
  by (auto simp: mk_seq_def denotes_seq)

lemma nullable_denotes: "nullable r = denotes r []"
proof (induction r)
  case (Star r)
  show ?case by (simp add: denotes.star_nil)
qed (auto simp: denotes_seq)

lemma denotes_star_Cons:
  "denotes (Star r) (c # w) \<longleftrightarrow> (\<exists>u v. w = u @ v \<and> denotes r (c # u) \<and> denotes (Star r) v)"
proof
  have "denotes q x \<Longrightarrow> q = Star r \<Longrightarrow> x = c # w \<Longrightarrow>
      \<exists>u v. w = u @ v \<and> denotes r (c # u) \<and> denotes (Star r) v" for q x
  proof (induction arbitrary: w rule: denotes.induct)
    case (star_cons p y z)
    then show ?case by (cases y) auto
  qed auto
  then show "denotes (Star r) (c # w) \<Longrightarrow> \<exists>u v. w = u @ v \<and> denotes r (c # u) \<and> denotes (Star r) v"
    by blast
qed (metis append_Cons denotes.star_cons)

lemma deriv_denotes: "denotes (deriv c r) w = denotes r (c # w)"
proof (induction r arbitrary: w)
  case (Seq r s)
  have "denotes (Seq r s) (c # w) \<longleftrightarrow>
      (\<exists>u v. w = u @ v \<and> denotes r (c # u) \<and> denotes s v) \<or> (denotes r [] \<and> denotes s (c # w))"
    by (auto simp: denotes_seq Cons_eq_append_conv)
  then show ?case using Seq by (auto simp: denotes_mk_alt denotes_mk_seq denotes_seq nullable_denotes)
next
  case (Star r)
  then show ?case by (auto simp: denotes_mk_seq denotes_seq denotes_star_Cons)
qed (auto simp: denotes_mk_alt)

theorem full_match_denotes: "full_match r s = denotes r s"
proof -
  have "nullable (foldl (\<lambda>r c. deriv c r) r s) = denotes r s"
    by (induction s arbitrary: r) (simp_all add: nullable_denotes deriv_denotes)
  then show ?thesis by (simp add: full_match_def)
qed

section \<open>Languages of common shapes\<close>

lemma denotes_lit [simp]: "denotes (Lit c) w = (w = [c])"
  by (auto simp: Lit_def)

lemma denotes_opt [simp]: "denotes (Opt r) w = (w = [] \<or> denotes r w)"
  by (simp add: Opt_def)

lemma denotes_seq_chars [simp]:
  "denotes (Seq (Chars cs) r) [] = False"
  "denotes (Seq (Chars cs) r) (c # w) = (c \<in> set cs \<and> denotes r w)"
proof -
  show "denotes (Seq (Chars cs) r) [] = False" by (simp add: denotes_seq)
  have "denotes (deriv c (Seq (Chars cs) r)) w = (c \<in> set cs \<and> denotes r w)"
    by (simp add: denotes_mk_seq denotes_seq)
  then show "denotes (Seq (Chars cs) r) (c # w) = (c \<in> set cs \<and> denotes r w)"
    by (simp only: deriv_denotes)
qed

lemma denotes_seq_lit [simp]:
  "denotes (Seq (Lit d) r) [] = False"
  "denotes (Seq (Lit d) r) (c # w) = (c = d \<and> denotes r w)"
  by (simp_all add: Lit_def)

lemma denotes_star_chars: "denotes (Star (Chars cs)) w = (set w \<subseteq> set cs)"
  by (induction w) (auto simp: denotes_star_Cons denotes.star_nil)

lemma denotes_plus_chars: "denotes (Plus (Chars cs)) w = (w \<noteq> [] \<and> set w \<subseteq> set cs)"
  by (cases w) (simp_all add: Plus_def denotes_star_chars)

lemma denotes_rep: "denotes (Rep n r) w \<longleftrightarrow>
  (\<exists>ws. length ws = n \<and> list_all (denotes r) ws \<and> w = concat ws)"
proof (induction n arbitrary: w)
  case (Suc n)
  show ?case
  proof
    assume "denotes (Rep (Suc n) r) w"
    then obtain v ws where "denotes r v" "length ws = n" "list_all (denotes r) ws" "w = v @ concat ws"
      using Suc.IH by (auto simp: denotes_seq)
    then show "\<exists>ws. length ws = Suc n \<and> list_all (denotes r) ws \<and> w = concat ws"
      by (intro exI [of _ "v # ws"]) simp
  next
    assume "\<exists>ws. length ws = Suc n \<and> list_all (denotes r) ws \<and> w = concat ws"
    then obtain v ws where "length ws = n" "denotes r v" "list_all (denotes r) ws" "w = v @ concat ws"
      by (auto simp: length_Suc_conv)
    then show "denotes (Rep (Suc n) r) w" using Suc.IH by (auto simp: denotes_seq)
  qed
qed simp

lemma denotes_upto_chars: "denotes (UpTo n (Chars cs)) w = (length w \<le> n \<and> set w \<subseteq> set cs)"
proof (induction n arbitrary: w)
  case (Suc n)
  show ?case by (cases w) (auto simp: Suc.IH)
qed auto

lemma denotes_assoc: "denotes (Seq (Seq a b) c) w = denotes (Seq a (Seq b c)) w"
  by (auto simp: denotes_seq) (metis append_assoc)+

lemma denotes_epsilon_seq [simp]: "denotes (Seq Epsilon r) w = denotes r w"
  by (simp add: denotes_seq)

lemma denotes_sep: "denotes (Seq d (Seq (Lit c) r)) w = (\<exists>u v. w = u @ c # v \<and> denotes d u \<and> denotes r v)"
  by (auto simp: denotes_seq)

text \<open>Parts separated by a character that occurs in none of them.\<close>

lemma denotes_star_unfold: "denotes (Star q) w = (w = [] \<or> denotes (Seq q (Star q)) w)"
  by (subst denotes_seq, rule iffI, erule denotes_starE) (auto intro: denotes.intros)

lemma denotes_star_seq: "denotes (Seq (Star q) p) w = (denotes p w \<or> denotes (Seq q (Seq (Star q) p)) w)"
proof -
  have "denotes (Seq (Star q) p) w \<longleftrightarrow>
      (\<exists>u v. w = u @ v \<and> (u = [] \<or> denotes (Seq q (Star q)) u) \<and> denotes p v)"
    unfolding denotes_seq [of "Star q" p w] by (simp add: denotes_star_unfold [of q])
  also have "\<dots> \<longleftrightarrow> denotes p w \<or> denotes (Seq (Seq q (Star q)) p) w"
    unfolding denotes_seq [of "Seq q (Star q)" p w] by auto
  finally show ?thesis by (simp only: denotes_assoc)
qed

lemma denotes_sep_star:
  assumes nc: "\<And>w. denotes p w \<Longrightarrow> c \<notin> set w"
  shows "denotes (Seq (Star (Seq p (Lit c))) p) w = list_all (denotes p) (split_on c w)"
    "denotes (Seq (Seq p (Lit c)) r) w = (\<exists>b. cut_at c w = (fst (cut_at c w), Some b) \<and>
       denotes p (fst (cut_at c w)) \<and> denotes r b)"
proof -
  have one: "denotes (Seq (Seq p (Lit c)) r) w = (\<exists>b. cut_at c w = (fst (cut_at c w), Some b) \<and>
       denotes p (fst (cut_at c w)) \<and> denotes r b)" for r w
    unfolding denotes_assoc denotes_sep
  proof
    assume "\<exists>u v. w = u @ c # v \<and> denotes p u \<and> denotes r v"
    then show "\<exists>b. cut_at c w = (fst (cut_at c w), Some b) \<and> denotes p (fst (cut_at c w)) \<and> denotes r b"
      using nc by (auto simp: cut_append)
  next
    assume "\<exists>b. cut_at c w = (fst (cut_at c w), Some b) \<and> denotes p (fst (cut_at c w)) \<and> denotes r b"
    then show "\<exists>u v. w = u @ c # v \<and> denotes p u \<and> denotes r v" by (metis cut_Some)
  qed
  then show "denotes (Seq (Seq p (Lit c)) r) w = (\<exists>b. cut_at c w = (fst (cut_at c w), Some b) \<and>
       denotes p (fst (cut_at c w)) \<and> denotes r b)" .
  note st = denotes_star_seq [of "Seq p (Lit c)" p]
  show "denotes (Seq (Star (Seq p (Lit c))) p) w = list_all (denotes p) (split_on c w)"
  proof (induction "length w" arbitrary: w rule: less_induct)
    case less
    show ?case
    proof (cases "snd (cut_at c w)")
      case None
      then have "cut_at c w = (w, None)" using cut_None [of c w] by (cases "cut_at c w") auto
      then show ?thesis unfolding st [of w] one by (simp add: split_on_cut [of c w])
    next
      case (Some b)
      then obtain a where a: "cut_at c w = (a, Some b)" by (cases "cut_at c w") auto
      then have w: "w = a @ c # b" using cut_Some [of c w] by auto
      then have "\<not> denotes p w" using nc [of w] by auto
      moreover have "split_on c w = a # split_on c b" using a by (simp add: split_on_cut [of c w])
      ultimately show ?thesis using less [of b] w a unfolding st [of w] one by simp
    qed
  qed
qed

lemma denotes_seq_opt:
  "c \<in> set cs \<Longrightarrow> denotes r v \<Longrightarrow> denotes (Seq (Opt (Chars cs)) r) (c # v)"
  "denotes (Seq (Opt (Chars cs)) r) [] = denotes r []"
  using denotes_seq_chars(2) [of cs r c v] by (auto simp: denotes_seq Opt_def)

end
