(* ===== verification/Network.thy ===== *)
theory Network
  imports Regex
begin

text \<open>
  \<^verbatim>\<open>sonicprobe/libs/network.py\<close>: validators and normalisers of addresses, host names and e-mail
  addresses. A function that answers \<^verbatim>\<open>False\<close> or a value is \<open>None\<close> or \<open>Some\<close>. Arguments are
  strings; the two functions that take integers too get a \<^typ>\<open>pyval\<close>. The IDNA codec of the
  standard library is the argument \<open>idna\<close> of the functions that call it.
\<close>

section \<open>IPv4\<close>

definition HEXDIG :: string where "HEXDIG = ''0123456789abcdefABCDEF''"

text \<open>\<^verbatim>\<open>inet_aton\<close> of the C library: one to four numbers in C notation; the last one fills the rest.\<close>

definition c_number :: "string \<Rightarrow> nat option" where
  "c_number s = (case s of
       [] \<Rightarrow> None
     | c # t \<Rightarrow>
         if c = CHR ''0'' \<and> t \<noteq> [] \<and> (hd t = CHR ''x'' \<or> hd t = CHR ''X'')
         then (if digits_in 16 (tl t) then Some (digits_val 16 (tl t)) else None)
         else if c = CHR ''0'' then (if digits_in 8 s then Some (digits_val 8 s) else None)
         else if digits_in 10 s then Some (digits_val 10 s) else None)"

fun aton_parts :: "nat \<Rightarrow> nat list \<Rightarrow> nat option" where
  "aton_parts room [] = None"
| "aton_parts room [v] = (if v < 256 ^ room then Some v else None)"
| "aton_parts room (v # w # vs) =
     (if v < 256 then map_option (\<lambda>r. v * 256 ^ (room - 1) + r) (aton_parts (room - 1) (w # vs))
      else None)"

fun all_some :: "'a option list \<Rightarrow> 'a list option" where
  "all_some [] = Some []"
| "all_some (None # xs) = None"
| "all_some (Some x # xs) = map_option (Cons x) (all_some xs)"

definition inet_aton :: "string \<Rightarrow> nat option" where
  "inet_aton s = (let parts = split_on CHR ''.'' s in
     if length parts \<le> 4
     then (case all_some (map c_number parts) of None \<Rightarrow> None | Some vs \<Rightarrow> aton_parts 4 vs)
     else None)"

definition inet_ntoa :: "nat \<Rightarrow> string" where
  "inet_ntoa n = join ''.'' (map show_nat
     [n div 16777216 mod 256, n div 65536 mod 256, n div 256 mod 256, n mod 256])"

definition ipv4_to_long :: "string \<Rightarrow> nat option" where
  "ipv4_to_long addr = inet_aton addr"

text \<open>\<^verbatim>\<open>struct.pack('!L', addr)\<close> fails outside 32 bits.\<close>

definition long_to_ipv4 :: "int \<Rightarrow> string option" where
  "long_to_ipv4 addr = (if 0 \<le> addr \<and> addr < 4294967296 then Some (inet_ntoa (nat addr)) else None)"

definition packed_ipv4 :: "string \<Rightarrow> nat option" where
  "packed_ipv4 addr = (if addr = [] \<or> list_ex is_space addr then None else inet_aton addr)"

definition normalize_ipv4_dotdec :: "string \<Rightarrow> string option" where
  "normalize_ipv4_dotdec addr = map_option inet_ntoa (packed_ipv4 addr)"

definition valid_bitmask_ipv4 :: "pyval \<Rightarrow> bool" where
  "valid_bitmask_ipv4 arg =
     (case (case arg of VInt i \<Rightarrow> Some (show_int i) | VStr s \<Rightarrow> Some s | _ \<Rightarrow> None) of
        None \<Rightarrow> False
      | Some s \<Rightarrow> s \<noteq> [] \<and> list_all is_digit s \<and>
          (case py_int s of None \<Rightarrow> False | Some i \<Rightarrow> 0 < i \<and> i < 33))"

definition int_of_value :: "pyval \<Rightarrow> int option" where
  "int_of_value v = (case v of VInt i \<Rightarrow> Some i | VStr s \<Rightarrow> py_int s | _ \<Rightarrow> None)"

definition bitmask_to_netmask_ipv4 :: "pyval \<Rightarrow> string option" where
  "bitmask_to_netmask_ipv4 arg =
     (if \<not> valid_bitmask_ipv4 arg then None
      else (case int_of_value arg of None \<Rightarrow> None
        | Some i \<Rightarrow> long_to_ipv4 (push_bit (nat (32 - i)) (drop_bit (nat (32 - i)) 4294967295))))"

definition valid_ipv4 :: "string \<Rightarrow> bool" where
  "valid_ipv4 addr = (packed_ipv4 addr \<noteq> None)"

definition valid_ipv4_dotdec :: "string \<Rightarrow> bool" where
  "valid_ipv4_dotdec s =
     (s \<noteq> [] \<and> hd s \<in> set (HEXDIG @ ''xX'') \<and> all_in (tl s) (HEXDIG @ ''.xX'') \<and>
      (let parts = split_max CHR ''.'' 4 s in
       length parts = 4 \<and>
       list_all (\<lambda>p. case py_int0 p of None \<Rightarrow> False | Some i \<Rightarrow> 0 \<le> i \<and> i \<le> 255) parts))"

definition parse_ipv4_cidr :: "string \<Rightarrow> (string \<times> string) option" where
  "parse_ipv4_cidr cidr = (case cut_at CHR ''/'' cidr of (addr, rest) \<Rightarrow>
     (let bits = (case rest of None \<Rightarrow> ''32'' | Some b \<Rightarrow> b) in
      if \<not> valid_ipv4_dotdec addr \<or> bitmask_to_netmask_ipv4 (VStr bits) = None then None
      else Some (addr, bits)))"

section \<open>IPv6\<close>

definition RE_IPV6_H16 :: regex where
  "RE_IPV6_H16 = Seq (Chars HEXDIG) (UpTo 3 (Chars HEXDIG))"

definition RE_IPV4_EMBEDDED :: regex where
  "RE_IPV4_EMBEDDED =
     (let d13 = Seq (Chars digit_chars) (UpTo 2 (Chars digit_chars))
      in Seq (Rep 3 (Seq d13 (Lit CHR ''.''))) d13)"

definition valid_ipv6_h16 :: "string \<Rightarrow> bool" where
  "valid_ipv6_h16 h16 = full_match RE_IPV6_H16 h16"

definition valid_ipv4_embedded :: "string \<Rightarrow> bool" where
  "valid_ipv4_embedded v = (full_match RE_IPV4_EMBEDDED v \<and>
     list_all (\<lambda>part. (part = ''0'' \<or> \<not> starts_with ''0'' part) \<and> digits_val 10 part \<le> 255)
       (split_on CHR ''.'' v))"

definition valid_ipv6_right :: "string \<Rightarrow> nat option" where
  "valid_ipv6_right s =
     (if s = [] then Some 0
      else (let arr = split_max CHR '':'' 8 s in
        if 8 < length arr \<or> (7 < length arr \<and> CHR ''.'' \<in> set s) \<or>
           \<not> all_in (concat (butlast arr)) HEXDIG then None
        else if CHR ''.'' \<in> set (last arr)
        then (if \<not> valid_ipv4_embedded (last arr) then None
              else if list_all valid_ipv6_h16 (butlast arr) then Some (2 + length (butlast arr)) else None)
        else if list_all valid_ipv6_h16 arr then Some (length arr) else None))"

definition valid_ipv6_left :: "string \<Rightarrow> nat option" where
  "valid_ipv6_left s =
     (if s = [] then Some 0
      else (let arr = split_max CHR '':'' 7 s in
        if 7 < length arr \<or> \<not> all_in (concat arr) HEXDIG then None
        else if list_all valid_ipv6_h16 arr then Some (length arr) else None))"

definition valid_ipv6_address :: "string \<Rightarrow> bool" where
  "valid_ipv6_address s =
     (case find_sub ''::'' s of
        None \<Rightarrow> valid_ipv6_right s = Some 8
      | Some pos \<Rightarrow>
          count_sub ''::'' s = 1 \<and>
          (case valid_ipv6_right (drop (pos + 2) s) of None \<Rightarrow> False
           | Some right \<Rightarrow> (case valid_ipv6_left (take pos s) of None \<Rightarrow> False
               | Some left \<Rightarrow> right + left \<le> 7)))"

section \<open>Domain and host names\<close>

definition alnum_chars :: string where "alnum_chars = lower_chars @ upper_chars @ digit_chars"

definition DOMAIN_PART :: regex where
  "DOMAIN_PART = Seq (Chars alnum_chars)
     (Opt (Seq (UpTo 61 (Chars (alnum_chars @ ''-''))) (Chars alnum_chars)))"

definition RE_DOMAIN :: regex where
  "RE_DOMAIN = Seq (Star (Seq DOMAIN_PART (Lit CHR ''.''))) DOMAIN_PART"

definition RE_DOMAIN_TLD :: regex where
  "RE_DOMAIN_TLD = Seq (Plus (Seq DOMAIN_PART (Lit CHR ''.''))) DOMAIN_PART"

definition RE_SUB_DOMAIN_TLD :: regex where
  "RE_SUB_DOMAIN_TLD =
     (let p = Seq DOMAIN_PART (Lit CHR ''.'') in Seq (Seq (Rep 2 p) (Star p)) DOMAIN_PART)"

definition valid_domain_part :: "string \<Rightarrow> bool" where
  "valid_domain_part s = full_match DOMAIN_PART s"

definition valid_domain :: "string \<Rightarrow> bool" where
  "valid_domain s = (length s < 256 \<and> full_match RE_DOMAIN s)"

definition valid_domain_tld :: "string \<Rightarrow> bool" where
  "valid_domain_tld s = (length s < 256 \<and> full_match RE_DOMAIN_TLD s)"

definition valid_sub_domain_tld :: "string \<Rightarrow> bool" where
  "valid_sub_domain_tld s = (length s < 256 \<and> full_match RE_SUB_DOMAIN_TLD s)"

text \<open>The masks are sets of flags (the integers of the source are distinct powers of two).\<close>

datatype host_flag = M_IPV4_DOTDEC | M_IPV4 | M_IPV6 | M_DOMAIN | M_DOMAIN_TLD | M_DOMAIN_IDN
  | M_SUB_DOMAIN_TLD

definition MASK_DOMAIN_ALL :: "host_flag list" where
  "MASK_DOMAIN_ALL = [M_DOMAIN, M_DOMAIN_TLD, M_DOMAIN_IDN]"

definition MASK_HOST_ALL :: "host_flag list" where
  "MASK_HOST_ALL = [M_IPV4, M_IPV6] @ MASK_DOMAIN_ALL"

definition MASK_EMAIL_HOST_ALL :: "host_flag list" where
  "MASK_EMAIL_HOST_ALL = [M_DOMAIN_TLD, M_DOMAIN_IDN]"

text \<open>\<open>encode_idn(host, text_type=True)\<close> is \<open>idna host\<close>; after a failed encoding the domain validators
  see \<^verbatim>\<open>False\<close>, which is no string.\<close>

definition domain_checks :: "host_flag list \<Rightarrow> string option \<Rightarrow> bool" where
  "domain_checks flags host = (case host of None \<Rightarrow> False
     | Some h \<Rightarrow> (M_DOMAIN \<in> set flags \<and> valid_domain h) \<or>
         (M_DOMAIN_TLD \<in> set flags \<and> valid_domain_tld h) \<or>
         (M_SUB_DOMAIN_TLD \<in> set flags \<and> valid_sub_domain_tld h))"

definition valid_host :: "(string \<Rightarrow> string option) \<Rightarrow> string \<Rightarrow> host_flag list \<Rightarrow> bool" where
  "valid_host idna host flags =
     (if M_IPV4 \<in> set flags \<and> valid_ipv4 host then True
      else if M_IPV4_DOTDEC \<in> set flags \<and> valid_ipv4_dotdec host then True
      else if M_IPV6 \<in> set flags \<and> valid_ipv6_address host then True
      else domain_checks flags (if M_DOMAIN_IDN \<in> set flags then idna host else Some host))"

definition parse_domain_cert ::
  "(string \<Rightarrow> string option) \<Rightarrow> string \<Rightarrow> host_flag list \<Rightarrow> (string \<times> bool) option" where
  "parse_domain_cert idna domain flags =
     (let wildcard = starts_with ''*.'' domain;
          d = (if wildcard then drop 2 domain else domain);
          d' = (if M_DOMAIN_IDN \<in> set flags then idna d else Some d)
      in if domain_checks flags d' then map_option (\<lambda>x. (x, wildcard)) d' else None)"

definition valid_domain_cert :: "(string \<Rightarrow> string option) \<Rightarrow> string \<Rightarrow> host_flag list \<Rightarrow> bool" where
  "valid_domain_cert idna domain flags = (parse_domain_cert idna domain flags \<noteq> None)"

definition valid_port_number :: "pyval \<Rightarrow> bool" where
  "valid_port_number port =
     (case int_of_value port of None \<Rightarrow> False | Some i \<Rightarrow> 0 \<le> i \<and> i \<le> 65535)"

section \<open>E-mail addresses\<close>

definition ATOM_CHARS :: string where
  "ATOM_CHARS = CHR ''!'' # CHR ''#'' # CHR ''$'' # CHR ''%'' # CHR ''&'' # CHR 0x27 # ''*+-/=?^_'' @
     CHR 0x60 # ''{|}~'' @ alnum_chars"

text \<open>Printable ASCII but the quote and the backslash; what may follow a backslash.\<close>

definition QTEXT_CHARS :: string where
  "QTEXT_CHARS = map char_of (filter (\<lambda>n. n \<noteq> 34 \<and> n \<noteq> 92) [32 ..< 127 :: nat])"

definition QUOTEDPAIR_CHARS :: string where
  "QUOTEDPAIR_CHARS = ''()<>[]:;@,.'' @ [CHR 0x22, CHR 0x5C]"

definition RE_EMAIL_LOCALPART :: regex where
  "RE_EMAIL_LOCALPART =
     Alt (Seq (Plus (Chars ATOM_CHARS)) (Star (Seq (Lit CHR ''.'') (Plus (Chars ATOM_CHARS)))))
         (Seq (Lit CHR 0x22)
            (Seq (Plus (Alt (Chars QTEXT_CHARS) (Seq (Lit CHR 0x5C) (Chars QUOTEDPAIR_CHARS))))
               (Lit CHR 0x22)))"

definition valid_email_localpart :: "string \<Rightarrow> bool" where
  "valid_email_localpart s =
     (1 \<le> length s \<and> length s \<le> 64 \<and> full_match RE_EMAIL_LOCALPART s)"

definition valid_email_address_literal ::
  "(string \<Rightarrow> string option) \<Rightarrow> string \<Rightarrow> host_flag list \<Rightarrow> bool" where
  "valid_email_address_literal idna address flags =
     (if address = [] then False
      else if hd address = CHR ''['' \<and> last address = CHR '']'' then
        (if starts_with ''[IPv6:'' address
         then M_IPV6 \<in> set flags \<and> valid_ipv6_address (butlast (drop 6 address))
         else M_IPV4_DOTDEC \<in> set flags \<and> valid_ipv4_dotdec (butlast (drop 1 address)))
      else (let m = filter (\<lambda>f. f \<in> {M_DOMAIN, M_DOMAIN_TLD, M_DOMAIN_IDN, M_SUB_DOMAIN_TLD}) flags
            in m \<noteq> [] \<and> valid_host idna address m))"

definition valid_email :: "(string \<Rightarrow> string option) \<Rightarrow> string \<Rightarrow> host_flag list \<Rightarrow> bool" where
  "valid_email idna email flags =
     (if 320 < length email then False
      else (case rcut CHR ''@'' email of None \<Rightarrow> False
        | Some (localpart, address) \<Rightarrow> localpart \<noteq> [] \<and>
            valid_email_localpart localpart \<and> valid_email_address_literal idna address flags))"

section \<open>MAC addresses\<close>

definition RE_MAC_ADDRESS :: regex where
  "RE_MAC_ADDRESS =
     Seq (Rep 5 (Seq (Rep 2 (Chars HEXDIG)) (Lit CHR '':''))) (Rep 2 (Chars HEXDIG))"

definition RE_MAC_ADDR_INPUT :: regex where
  "RE_MAC_ADDR_INPUT =
     Rep 6 (Seq (Seq (Chars HEXDIG) (Opt (Chars HEXDIG))) (Opt (Chars ''-: '')))"

definition RE_MAC_ADDR_DOTTED :: regex where
  "RE_MAC_ADDR_DOTTED =
     Seq (Rep 2 (Seq (Rep 4 (Chars HEXDIG)) (Lit CHR ''.''))) (Rep 4 (Chars HEXDIG))"

text \<open>\<^verbatim>\<open>findall\<close> of one or two hexadecimal digits and an optional separator.\<close>

function mac_findall :: "string \<Rightarrow> string list" where
  "mac_findall [] = []"
| "mac_findall (c # s) =
     (if c \<notin> set HEXDIG then mac_findall s
      else (let two = (s \<noteq> [] \<and> hd s \<in> set HEXDIG);
                rest = (if two then tl s else s);
                rest' = (if rest \<noteq> [] \<and> hd rest \<in> set ''-: '' then tl rest else rest)
            in (if two then [c, hd s] else [c]) # mac_findall rest'))"
  by pat_completeness auto
termination by (relation "measure length") (auto simp: Let_def)

definition HEX_UPPER :: string where "HEX_UPPER = ''0123456789ABCDEF''"

definition hex2 :: "nat \<Rightarrow> string" where
  "hex2 n = [HEX_UPPER ! (n div 16 mod 16), HEX_UPPER ! (n mod 16)]"

definition normalize_mac_address :: "string \<Rightarrow> string option" where
  "normalize_mac_address s =
     (if \<not> (full_match RE_MAC_ADDR_INPUT s \<or> full_match RE_MAC_ADDR_DOTTED s) then None
      else (let m = mac_findall (map upper_char s) in
        if length m \<noteq> 6 then None
        else Some (join '':'' (map (\<lambda>p. hex2 (digits_val 16 p)) m))))"

definition valid_mac_address :: "string \<Rightarrow> bool" where
  "valid_mac_address s = (full_match RE_MAC_ADDRESS s \<and> s \<noteq> ''00:00:00:00:00:00'')"

end
