(* ===== verification/Network_Properties.thy ===== *)
theory Network_Properties
  imports Network
begin

text \<open>
  What the validators accept, as grammars independent of their regular expressions and splits, and
  the round trips of the normalisers.
\<close>

section \<open>Decimal numerals\<close>

lemma show_nat_hd: "n \<noteq> 0 \<Longrightarrow> hd (show_nat n) \<noteq> CHR ''0''"
proof (induction n rule: show_nat.induct)
  case (1 n)
  show ?case
  proof (cases "n < 10")
    case True
    then have "n \<in> {1, 2, 3, 4, 5, 6, 7, 8, 9}" using 1 by auto
    then show ?thesis by (subst show_nat.simps) (auto simp: digit_chars_def)
  next
    case False
    with 1 show_nat_digits(2) [of "n div 10"] show ?thesis by (subst show_nat.simps) simp
  qed
qed

lemma show_nat_zero: "show_nat 0 = ''0''"
  by (subst show_nat.simps) (simp add: digit_chars_def)

lemma digits_val_Cons_pos: "digit_val c \<noteq> 0 \<Longrightarrow> digits_val 10 (c # s) \<noteq> 0"
proof (induction s rule: rev_induct)
  case (snoc d s)
  then show ?case using digits_val_snoc [of 10 "c # s" d] by simp
qed (simp add: digits_val_def)

lemma digit_char_val: "c \<in> set digit_chars \<Longrightarrow> digit_chars ! digit_val c = c"
  by (rule charset_all [of _ digit_chars]) code_simp

lemma digit_val_zero: "c \<in> set digit_chars \<Longrightarrow> digit_val c = 0 \<Longrightarrow> c = CHR ''0''"
  using digit_char_val [of c] by (simp add: digit_chars_def)

lemma show_digits_val:
  "s \<noteq> [] \<Longrightarrow> set s \<subseteq> set digit_chars \<Longrightarrow> s = ''0'' \<or> hd s \<noteq> CHR ''0'' \<Longrightarrow> show_nat (digits_val 10 s) = s"
proof (induction s rule: rev_induct)
  case (snoc c s)
  have c: "c \<in> set digit_chars" using snoc.prems by auto
  then have d: "digit_val c < 10" using digit_chars_val by blast
  show ?case
  proof (cases "s = []")
    case True
    then show ?thesis using c d by (subst show_nat.simps) (simp add: digits_val_def digit_char_val)
  next
    case False
    then obtain a t where s: "s = a # t" by (cases s) auto
    with snoc.prems have "a \<in> set digit_chars" "a \<noteq> CHR ''0''" by auto
    then have pos: "digits_val 10 s \<noteq> 0" using digits_val_Cons_pos digit_val_zero s by blast
    have "show_nat (digits_val 10 s) = s" using snoc False s by auto
    with pos d c show ?thesis by (subst show_nat.simps) (simp add: digits_val_snoc digit_char_val)
  qed
qed simp

lemma length_show_nat: "n < 1000 \<Longrightarrow> length (show_nat n) \<le> 3"
  by (subst show_nat.simps, subst show_nat.simps, subst show_nat.simps) auto

lemma digits_val_show_chars: "set s \<subseteq> set digit_chars \<Longrightarrow> s \<noteq> [] \<Longrightarrow> digits_in 10 s"
  using digit_chars_val by (auto simp: digits_in_def list_all_iff)

lemma show_nat_free: "c \<notin> set digit_chars \<Longrightarrow> c \<notin> set (show_nat n)"
  using show_nat_digits(1) by blast

section \<open>IPv4\<close>

lemma c_number_show: "c_number (show_nat n) = Some n"
proof (cases "n = 0")
  case True
  then show ?thesis by (simp add: show_nat_zero c_number_def digits_in_def digits_val_def digit_val_def)
next
  case False
  obtain c t where c: "show_nat n = c # t" using show_nat_digits(2) by (cases "show_nat n") auto
  with show_nat_hd [OF False] have "c \<noteq> CHR ''0''" by simp
  then show ?thesis using digits_val_show_chars [OF show_nat_digits, of n] digits_val_show [of n] c
    by (simp add: c_number_def)
qed

lemma all_some_map: "all_some (map Some xs) = Some xs"
  by (induction xs) auto

lemma byte_digits: "(n :: nat) < 4294967296 \<Longrightarrow>
  n div 16777216 mod 256 * 16777216 + (n div 65536 mod 256 * 65536 + (n div 256 mod 256 * 256 + n mod 256)) = n"
proof -
  assume "n < 4294967296"
  then have "n div 16777216 mod 256 = n div 16777216" by (simp add: less_mult_imp_div_less)
  moreover have "n div 256 * 256 + n mod 256 = n" by simp
  moreover have "n div 65536 * 256 + n div 256 mod 256 = n div 256"
    using div_mult_mod_eq [of "n div 256" 256] by (simp add: div_mult2_eq [symmetric])
  moreover have "n div 16777216 * 256 + n div 65536 mod 256 = n div 65536"
    using div_mult_mod_eq [of "n div 65536" 256] by (simp add: div_mult2_eq [symmetric])
  ultimately show ?thesis by linarith
qed

lemma split_show: "split_on CHR ''.'' (join ''.'' (map show_nat (n # ns))) = map show_nat (n # ns)"
  by (rule split_on_join) (auto simp: show_nat_free digit_chars_def dest: subsetD [OF show_nat_digits(1)])

lemma inet_aton_ntoa: "n < 4294967296 \<Longrightarrow> inet_aton (inet_ntoa n) = Some n"
  using byte_digits [of n] unfolding inet_aton_def inet_ntoa_def split_show
  by (simp add: c_number_show o_def algebra_simps)

lemma ntoa_chars: "set (inet_ntoa n) \<subseteq> insert (CHR ''.'') (set digit_chars)" "inet_ntoa n \<noteq> []"
  using show_nat_digits by (auto simp: inet_ntoa_def)

lemma ntoa_no_space: "\<not> list_ex is_space (inet_ntoa n)"
  using ntoa_chars(1) [of n] digit_chars_val by (auto simp: list_ex_iff is_space_def)

lemma packed_ntoa: "n < 4294967296 \<Longrightarrow> packed_ipv4 (inet_ntoa n) = Some n"
  using ntoa_chars(2) ntoa_no_space by (simp add: packed_ipv4_def inet_aton_ntoa)

lemma aton_parts_bound: "aton_parts room vs = Some r \<Longrightarrow> length vs \<le> room \<Longrightarrow> r < 256 ^ room"
proof (induction room vs arbitrary: r rule: aton_parts.induct)
  case (3 room v w vs)
  then obtain q where q: "aton_parts (room - 1) (w # vs) = Some q" and v: "v < 256"
    and r: "r = v * 256 ^ (room - 1) + q" by (auto split: if_splits)
  have "q < 256 ^ (room - 1)" using "3.IH" q v "3.prems"(2) by simp
  then have "r < Suc v * 256 ^ (room - 1)" using r by simp
  also have "\<dots> \<le> 256 * 256 ^ (room - 1)" using v by (intro mult_right_mono) auto
  finally show ?case using "3.prems"(2) by (cases room) auto
qed (auto split: if_splits)

lemma length_all_some: "all_some xs = Some ys \<Longrightarrow> length ys = length xs"
  by (induction xs arbitrary: ys rule: all_some.induct) auto

lemma inet_aton_bound: "inet_aton s = Some r \<Longrightarrow> r < 4294967296"
  using aton_parts_bound [of 4 _ r]
  by (auto simp: inet_aton_def Let_def split: if_splits option.splits dest!: length_all_some)

lemma parse_base0_show: "parse_base0 (show_nat n) = Some n"
proof -
  have d: "parse_digits 10 (show_nat n) = Some n"
    using parse_digits_dec [OF show_nat_digits(2,1)] digits_val_show by simp
  show ?thesis
  proof (cases "n = 0")
    case True
    with d show ?thesis by (simp add: parse_base0_def show_nat_zero)
  next
    case False
    obtain c t where c: "show_nat n = c # t" using show_nat_digits(2) by (cases "show_nat n") auto
    with show_nat_hd [OF False] have "c \<noteq> CHR ''0''" by simp
    with d c show ?thesis by (cases t) (auto simp: parse_base0_def)
  qed
qed

lemma py_int0_show: "py_int0 (show_nat n) = Some (int n)"
proof -
  have d: "set (show_nat n) \<subseteq> set digit_chars" and ne: "show_nat n \<noteq> []" by (rule show_nat_digits)+
  then have st: "strip (show_nat n) = show_nat n"
    using digit_chars_val by (intro strip_free) (auto simp: list_all_iff)
  obtain c t where c: "show_nat n = c # t" using ne by (cases "show_nat n") auto
  with d have "c \<noteq> CHR ''-''" "c \<noteq> CHR ''+''" by (auto simp: digit_chars_def)
  with st [unfolded c] parse_base0_show [of n, unfolded c]
  show ?thesis by (simp add: py_int0_def signed_def c)
qed

lemma digit_dotdec: "all_in digit_chars (HEXDIG @ ''xX'')" "all_in (CHR ''.'' # digit_chars) (HEXDIG @ ''.xX'')"
  by code_simp+

lemma mod256: "(k :: nat) mod 256 \<le> 255"
  using mod_less_divisor [of 256 k] by linarith

lemma ntoa_dotdec: "valid_ipv4_dotdec (inet_ntoa n)"
proof -
  let ?ps = "map show_nat [n div 16777216 mod 256, n div 65536 mod 256, n div 256 mod 256, n mod 256]"
  have s: "split_on CHR ''.'' (inet_ntoa n) = ?ps" unfolding inet_ntoa_def by (rule split_show)
  then have m: "split_max CHR ''.'' 4 (inet_ntoa n) = ?ps" using split_max_all [of "CHR ''.''" "inet_ntoa n" 4] by simp
  obtain c t where c: "inet_ntoa n = c # t" using ntoa_chars(2) by (cases "inet_ntoa n") auto
  have "c \<in> set (show_nat (n div 16777216 mod 256))"
    using c show_nat_digits(2) [of "n div 16777216 mod 256"] by (cases "show_nat (n div 16777216 mod 256)") (auto simp: inet_ntoa_def)
  then have "c \<in> set digit_chars" using show_nat_digits(1) by blast
  then have h: "c \<in> set (HEXDIG @ ''xX'')"
    using charset_subset [OF digit_dotdec(1)] by blast
  have "set t \<subseteq> insert (CHR ''.'') (set digit_chars)" using ntoa_chars(1) [of n] c by simp
  then have "all_in t (HEXDIG @ ''.xX'')"
    using charset_subset [OF digit_dotdec(2)] by (auto simp: all_in_iff)
  with h c m show ?thesis by (simp add: valid_ipv4_dotdec_def py_int0_show mod256)
qed

section \<open>IPv6\<close>

definition h16 :: "string \<Rightarrow> bool" where
  "h16 g \<longleftrightarrow> 1 \<le> length g \<and> length g \<le> 4 \<and> set g \<subseteq> set HEXDIG"

text \<open>Four decimal numbers up to 255 without leading zeros.\<close>

definition quad :: "string \<Rightarrow> bool" where
  "quad q \<longleftrightarrow> (\<exists>a b c d. a \<le> 255 \<and> b \<le> 255 \<and> c \<le> 255 \<and> d \<le> 255 \<and>
     q = join ''.'' (map show_nat [a, b, c, d]))"

definition v6_groups :: "string list \<Rightarrow> nat \<Rightarrow> bool" where
  "v6_groups gs n \<longleftrightarrow> (list_all h16 gs \<and> n = length gs) \<or>
     (gs \<noteq> [] \<and> list_all h16 (butlast gs) \<and> quad (last gs) \<and> n = Suc (length gs))"

lemma valid_h16_iff: "valid_ipv6_h16 g = h16 g"
  by (cases g) (auto simp: valid_ipv6_h16_def RE_IPV6_H16_def full_match_denotes denotes_upto_chars h16_def)

lemma d13_iff: "denotes (Seq (Chars cs) (UpTo 2 (Chars cs))) g \<longleftrightarrow>
  g \<noteq> [] \<and> length g \<le> 3 \<and> set g \<subseteq> set cs"
  by (cases g) (auto simp: denotes_upto_chars)

lemma four_parts: "denotes (Seq (Rep 3 (Seq d (Lit c))) e) w \<longleftrightarrow>
  (\<exists>x y z v. w = x @ c # y @ c # z @ c # v \<and> denotes d x \<and> denotes d y \<and> denotes d z \<and> denotes e v)"
  unfolding numeral_3_eq_3 Rep.simps denotes_assoc denotes_sep denotes_epsilon_seq by blast

lemma quad_regex: "denotes RE_IPV4_EMBEDDED v \<longleftrightarrow>
  (\<exists>a b c d. v = join ''.'' [a, b, c, d] \<and>
     (\<forall>g \<in> {a, b, c, d}. g \<noteq> [] \<and> length g \<le> 3 \<and> set g \<subseteq> set digit_chars))"
  unfolding RE_IPV4_EMBEDDED_def Let_def four_parts d13_iff by simp

lemma octet_iff:
  assumes "g \<noteq> []" "set g \<subseteq> set digit_chars"
  shows "((g = ''0'' \<or> \<not> starts_with ''0'' g) \<and> digits_val 10 g \<le> 255) \<longleftrightarrow> (\<exists>k \<le> 255. g = show_nat k)"
proof
  assume "(g = ''0'' \<or> \<not> starts_with ''0'' g) \<and> digits_val 10 g \<le> 255"
  moreover have "\<not> starts_with ''0'' g \<Longrightarrow> hd g \<noteq> CHR ''0''" using assms(1) by (cases g) (auto simp: starts_with_def)
  ultimately have "show_nat (digits_val 10 g) = g" using show_digits_val [OF assms] by blast
  then show "\<exists>k \<le> 255. g = show_nat k"
    using \<open>(g = ''0'' \<or> \<not> starts_with ''0'' g) \<and> digits_val 10 g \<le> 255\<close> by metis
next
  assume "\<exists>k \<le> 255. g = show_nat k"
  then obtain k where k: "k \<le> 255" "g = show_nat k" by blast
  have "starts_with ''0'' g \<Longrightarrow> hd g = CHR ''0''" using assms(1) by (cases g) (auto simp: starts_with_def)
  then have "starts_with ''0'' g \<Longrightarrow> k = 0" using show_nat_hd [of k] k by blast
  with k show "(g = ''0'' \<or> \<not> starts_with ''0'' g) \<and> digits_val 10 g \<le> 255"
    by (auto simp: digits_val_show show_nat_zero)
qed

lemma dot_no_digit: "CHR ''.'' \<notin> set digit_chars"
  by (simp add: digit_chars_def)

lemma split_quad:
  "set a \<union> set b \<union> set c \<union> set d \<subseteq> set digit_chars \<Longrightarrow>
   split_on CHR ''.'' (join ''.'' [a, b, c, d]) = [a, b, c, d]"
  by (rule split_on_join) (use dot_no_digit in auto)

lemma valid_quad_iff: "valid_ipv4_embedded q = quad q"
proof
  assume "valid_ipv4_embedded q"
  then obtain a b c d where q: "q = join ''.'' [a, b, c, d]"
    and g: "\<forall>g \<in> {a, b, c, d}. g \<noteq> [] \<and> length g \<le> 3 \<and> set g \<subseteq> set digit_chars"
    and v: "list_all (\<lambda>part. (part = ''0'' \<or> \<not> starts_with ''0'' part) \<and> digits_val 10 part \<le> 255)
       (split_on CHR ''.'' q)"
    unfolding valid_ipv4_embedded_def full_match_denotes quad_regex by blast
  have "split_on CHR ''.'' q = [a, b, c, d]" unfolding q by (rule split_quad) (use g in auto)
  then have "set (split_on CHR ''.'' q) = {a, b, c, d}" by simp
  with v have o: "(x = ''0'' \<or> \<not> starts_with ''0'' x) \<and> digits_val 10 x \<le> 255" if "x \<in> {a, b, c, d}" for x
    using that unfolding list_all_iff by blast
  have oct: "\<exists>k \<le> 255. x = show_nat k" if "x \<in> {a, b, c, d}" for x
    using octet_iff [of x] o [OF that] g that by blast
  obtain i where i: "i \<le> 255" "a = show_nat i" using oct [of a] by auto
  obtain j where j: "j \<le> 255" "b = show_nat j" using oct [of b] by auto
  obtain k where k: "k \<le> 255" "c = show_nat k" using oct [of c] by auto
  obtain l where l: "l \<le> 255" "d = show_nat l" using oct [of d] by auto
  from i j k l show "quad q" unfolding quad_def q
    by (intro exI [of _ i] exI [of _ j] exI [of _ k] exI [of _ l]) simp
next
  assume "quad q"
  then obtain a b c d where q: "q = join ''.'' [show_nat a, show_nat b, show_nat c, show_nat d]"
    and l: "a \<le> 255" "b \<le> 255" "c \<le> 255" "d \<le> 255" by (auto simp: quad_def)
  have dg: "set (show_nat k) \<subseteq> set digit_chars" "show_nat k \<noteq> []" for k by (rule show_nat_digits)+
  have "split_on CHR ''.'' q = [show_nat a, show_nat b, show_nat c, show_nat d]"
    unfolding q by (rule split_quad) (use dg in auto)
  moreover have "denotes RE_IPV4_EMBEDDED q" unfolding quad_regex q
    using dg l length_show_nat
    by (intro exI [of _ "show_nat a"] exI [of _ "show_nat b"] exI [of _ "show_nat c"] exI [of _ "show_nat d"]) simp
  ultimately show "valid_ipv4_embedded q" using octet_iff [OF dg(2,1)] l
    by (auto simp: valid_ipv4_embedded_def full_match_denotes)
qed

lemma group_chars: "h16 g \<Longrightarrow> CHR '':'' \<notin> set g \<and> CHR ''.'' \<notin> set g \<and> g \<noteq> []"
  by (auto simp: h16_def HEXDIG_def)

lemma quad_chars: "quad q \<Longrightarrow> CHR '':'' \<notin> set q \<and> CHR ''.'' \<in> set q \<and> q \<noteq> []"
  by (auto simp: quad_def show_nat_free digit_chars_def)

lemma v6_group_parts: "v6_groups gs n \<Longrightarrow> g \<in> set gs \<Longrightarrow> CHR '':'' \<notin> set g \<and> g \<noteq> []"
proof -
  assume v: "v6_groups gs n" and g: "g \<in> set gs"
  then have "g \<in> set (butlast gs) \<or> g = last gs" by (metis append_butlast_last_id butlast.simps(1) in_set_conv_decomp_last
        list.set_cases rotate1.simps(2) set_ConsD set_rotate1 empty_iff list.set(1))
  with v g group_chars quad_chars show "CHR '':'' \<notin> set g \<and> g \<noteq> []"
    by (auto simp: v6_groups_def list_all_iff)
qed

lemma list_all_butlast: "gs \<noteq> [] \<Longrightarrow> list_all P gs = (list_all P (butlast gs) \<and> P (last gs))"
  by (cases gs rule: rev_cases) auto

lemma set_join: "set (join [c] gs) \<subseteq> insert c (\<Union> (set ` set gs))"
  by (induction gs) (auto simp: join_Cons)

lemma in_join: "g \<in> set gs \<Longrightarrow> set g \<subseteq> set (join [c] gs)"
  by (induction gs) (auto simp: join_Cons)

lemma right_iff: "valid_ipv6_right s = Some n \<longleftrightarrow> (\<exists>gs. s = join '':'' gs \<and> n \<le> 8 \<and> v6_groups gs n)"
proof
  assume v: "valid_ipv6_right s = Some n"
  show "\<exists>gs. s = join '':'' gs \<and> n \<le> 8 \<and> v6_groups gs n"
  proof (cases "s = []")
    case True
    with v show ?thesis by (intro exI [of _ "[]"]) (simp add: valid_ipv6_right_def v6_groups_def)
  next
    case False
    let ?gs = "split_on CHR '':'' s" and ?a = "split_max CHR '':'' 8 s"
    from v False have l: "length ?a \<le> 8" by (auto simp: valid_ipv6_right_def Let_def split: if_splits)
    then have "length ?gs \<le> 8" by (simp add: split_max_len)
    then have e: "?a = ?gs" by (intro split_max_all) simp
    have "n \<le> 8 \<and> v6_groups ?gs n"
    proof (cases "CHR ''.'' \<in> set (last ?gs)")
      case True
      then have "CHR ''.'' \<in> set s" using split_on_set [of "last ?gs" "CHR '':''" s] by auto
      with v False True show ?thesis
        by (auto simp: valid_ipv6_right_def Let_def e valid_quad_iff v6_groups_def valid_h16_iff [abs_def]
            split: if_splits)
    next
      case nd: False
      with v False l show ?thesis
        by (auto simp: valid_ipv6_right_def Let_def e v6_groups_def valid_h16_iff [abs_def] split: if_splits)
    qed
    then show ?thesis using join_split_on [of "CHR '':''" s] by metis
  qed
next
  assume "\<exists>gs. s = join '':'' gs \<and> n \<le> 8 \<and> v6_groups gs n"
  then obtain gs where s: "s = join '':'' gs" and n: "n \<le> 8" and v: "v6_groups gs n" by blast
  show "valid_ipv6_right s = Some n"
  proof (cases "gs = []")
    case True
    with s v show ?thesis by (simp add: valid_ipv6_right_def v6_groups_def)
  next
    case False
    have sp: "split_on CHR '':'' s = gs" unfolding s
      by (rule split_on_join [OF False]) (use v6_group_parts [OF v] in auto)
    have "length gs \<le> n" using v by (auto simp: v6_groups_def)
    then have e: "split_max CHR '':'' 8 s = gs" using n sp split_max_all [of "CHR '':''" s 8] by simp
    have ne: "s \<noteq> []" using sp v6_group_parts [OF v, of "[]"] by auto
    have b: "list_all h16 (butlast gs)" using v list_all_butlast [OF False] by (auto simp: v6_groups_def)
    then have hx: "all_in (concat (butlast gs)) HEXDIG" by (auto simp: all_in_iff list_all_iff h16_def)
    from v consider (h) "list_all h16 gs" "n = length gs" | (q) "quad (last gs)" "n = Suc (length gs)"
      by (auto simp: v6_groups_def)
    then show ?thesis
    proof cases
      case h
      then have nd: "g \<in> set gs \<Longrightarrow> CHR ''.'' \<notin> set g" for g using group_chars by (auto simp: list_all_iff)
      then have "CHR ''.'' \<notin> set s" using set_join [of "CHR '':''" gs] by (auto simp: s)
      with h nd [of "last gs"] ne n hx False show ?thesis
        by (simp add: valid_ipv6_right_def Let_def e valid_h16_iff [abs_def])
    next
      case q
      have "Suc (length gs - Suc 0) = length gs" using False by simp
      with q quad_chars ne n hx b show ?thesis
        by (simp add: valid_ipv6_right_def Let_def e valid_h16_iff [abs_def] valid_quad_iff)
    qed
  qed
qed

lemma left_iff: "valid_ipv6_left s = Some n \<longleftrightarrow>
  (\<exists>gs. s = join '':'' gs \<and> n \<le> 7 \<and> list_all h16 gs \<and> n = length gs)"
proof
  assume v: "valid_ipv6_left s = Some n"
  show "\<exists>gs. s = join '':'' gs \<and> n \<le> 7 \<and> list_all h16 gs \<and> n = length gs"
  proof (cases "s = []")
    case True
    with v show ?thesis by (intro exI [of _ "[]"]) (simp add: valid_ipv6_left_def)
  next
    case False
    let ?gs = "split_on CHR '':'' s" and ?a = "split_max CHR '':'' 7 s"
    from v False have l: "length ?a \<le> 7" by (auto simp: valid_ipv6_left_def Let_def split: if_splits)
    then have "length ?gs \<le> 7" by (simp add: split_max_len)
    then have e: "?a = ?gs" by (intro split_max_all) simp
    from v False l have "n \<le> 7 \<and> list_all h16 ?gs \<and> n = length ?gs"
      by (auto simp: valid_ipv6_left_def Let_def e valid_h16_iff [abs_def] split: if_splits)
    then show ?thesis using join_split_on [of "CHR '':''" s] by metis
  qed
next
  assume "\<exists>gs. s = join '':'' gs \<and> n \<le> 7 \<and> list_all h16 gs \<and> n = length gs"
  then obtain gs where s: "s = join '':'' gs" and v: "length gs \<le> 7" "list_all h16 gs" "n = length gs" by blast
  show "valid_ipv6_left s = Some n"
  proof (cases "gs = []")
    case False
    have g: "g \<in> set gs \<Longrightarrow> h16 g" for g using v by (simp add: list_all_iff)
    have sp: "split_on CHR '':'' s = gs" unfolding s
      by (rule split_on_join [OF False]) (use group_chars g in auto)
    then have e: "split_max CHR '':'' 7 s = gs" using v split_max_all [of "CHR '':''" s 7] by simp
    have ne: "s \<noteq> []" using sp g [of "[]"] by (auto simp: h16_def)
    have "all_in (concat gs) HEXDIG" using g by (auto simp: all_in_iff h16_def)
    with v e ne show ?thesis by (simp add: valid_ipv6_left_def Let_def valid_h16_iff [abs_def])
  qed (use s v in \<open>simp add: valid_ipv6_left_def\<close>)
qed

text \<open>Where \<open>::\<close> stands in an address.\<close>

lemma starts_dbl [simp]: "starts_with ''::'' (c # s) = (c = CHR '':'' \<and> s \<noteq> [] \<and> hd s = CHR '':'')"
  by (cases s) (auto simp: starts_with_def)

lemma find_dbl_free: "CHR '':'' \<notin> set g \<Longrightarrow> find_sub ''::'' g = None"
  by (induction g) auto

lemma find_dbl_none:
  "CHR '':'' \<notin> set g \<Longrightarrow> t \<noteq> [] \<Longrightarrow> hd t \<noteq> CHR '':'' \<Longrightarrow> find_sub ''::'' t = None \<Longrightarrow>
   find_sub ''::'' (g @ CHR '':'' # t) = None"
  by (induction g) (auto simp: hd_append)

lemma find_dbl_append:
  "find_sub ''::'' a = None \<Longrightarrow> a = [] \<or> last a \<noteq> CHR '':'' \<Longrightarrow>
   find_sub ''::'' (a @ ''::'' @ b) = Some (length a) \<and>
   count_sub ''::'' (a @ ''::'' @ b) = Suc (count_sub ''::'' b)"
  by (induction a) (auto simp: hd_append split: if_splits)

lemma groups_no_dbl:
  "\<forall>g \<in> set gs. g \<noteq> [] \<and> CHR '':'' \<notin> set g \<Longrightarrow>
   find_sub ''::'' (join '':'' gs) = None \<and>
   (gs \<noteq> [] \<longrightarrow> join '':'' gs \<noteq> [] \<and> hd (join '':'' gs) \<noteq> CHR '':'' \<and> last (join '':'' gs) \<noteq> CHR '':'')"
proof (induction gs)
  case (Cons g gs)
  then have g: "g \<noteq> []" "CHR '':'' \<notin> set g" by auto
  then have h: "hd g \<noteq> CHR '':''" "last g \<noteq> CHR '':''" by (metis list.set_sel(1), metis last_in_set)
  from Cons g h find_dbl_free find_dbl_none show ?case by (auto simp: join_Cons hd_append)
qed simp

lemma ipv6_abbreviated:
  assumes Some: "find_sub ''::'' s = Some pos"
  shows "valid_ipv6_address s \<longleftrightarrow>
     (\<exists>l r n. s = join '':'' l @ ''::'' @ join '':'' r \<and> list_all h16 l \<and> v6_groups r n \<and> length l + n \<le> 7)"
proof
  assume "valid_ipv6_address s"
  then obtain m k where r: "valid_ipv6_right (drop (pos + 2) s) = Some m"
    and l: "valid_ipv6_left (take pos s) = Some k" and mk: "m + k \<le> 7"
    using Some by (auto simp: valid_ipv6_address_def split: option.splits)
  from r l obtain gs hs where "drop (pos + 2) s = join '':'' gs" "v6_groups gs m"
    "take pos s = join '':'' hs" "list_all h16 hs" "k = length hs"
    unfolding right_iff left_iff by blast
  moreover have "s = take pos s @ ''::'' @ drop (pos + 2) s" using find_sub_split [OF Some] by simp
  ultimately show "\<exists>l r n. s = join '':'' l @ ''::'' @ join '':'' r \<and> list_all h16 l \<and> v6_groups r n \<and> length l + n \<le> 7"
    using mk by (intro exI [of _ hs] exI [of _ gs] exI [of _ m]) simp
next
  assume "\<exists>l r n. s = join '':'' l @ ''::'' @ join '':'' r \<and> list_all h16 l \<and> v6_groups r n \<and> length l + n \<le> 7"
  then obtain l r n where s: "s = join '':'' l @ ''::'' @ join '':'' r" and l: "list_all h16 l"
    and r: "v6_groups r n" and n: "length l + n \<le> 7" by blast
  have ln: "\<forall>g \<in> set l. g \<noteq> [] \<and> CHR '':'' \<notin> set g" using l group_chars by (auto simp: list_all_iff)
  have rn: "\<forall>g \<in> set r. g \<noteq> [] \<and> CHR '':'' \<notin> set g" using v6_group_parts [OF r] by auto
  have f: "find_sub ''::'' s = Some (length (join '':'' l)) \<and>
      count_sub ''::'' s = Suc (count_sub ''::'' (join '':'' r))"
    unfolding s by (rule find_dbl_append) (use groups_no_dbl [OF ln] in auto)
  have "count_sub ''::'' (join '':'' r) = 0" using groups_no_dbl [OF rn] count_sub_zero [of "''::''"] by simp
  moreover have "valid_ipv6_right (join '':'' r) = Some n" using r n by (auto simp: right_iff)
  moreover have "valid_ipv6_left (join '':'' l) = Some (length l)" using l n by (auto simp: left_iff)
  ultimately show "valid_ipv6_address s" using f n by (simp add: valid_ipv6_address_def s add.commute)
qed

text \<open>
  C7: \<^verbatim>\<open>valid_ipv6_address\<close> accepts exactly the textual IPv6 addresses: eight groups, or groups around
  one \<open>::\<close> that stands for at least one group; a group is one to four hexadecimal digits, and
  the last one may be a dotted quad of decimal octets without leading zeros, counting for two.
\<close>
theorem valid_ipv6_grammar:
  "valid_ipv6_address s \<longleftrightarrow>
     (\<exists>gs. s = join '':'' gs \<and> v6_groups gs 8) \<or>
     (\<exists>l r n. s = join '':'' l @ ''::'' @ join '':'' r \<and> list_all h16 l \<and> v6_groups r n \<and>
        length l + n \<le> 7)"
proof (cases "find_sub ''::'' s")
  case None
  have "s \<noteq> a @ ''::'' @ b" if "list_all h16 l" "a = join '':'' l" for a b l
  proof
    assume s: "s = a @ ''::'' @ b"
    have "find_sub ''::'' s \<noteq> None" using groups_no_dbl [of l] find_dbl_append [of a b] that group_chars
      by (cases "l = []") (auto simp: list_all_iff s)
    then show False using None by simp
  qed
  with None right_iff [of s 8] show ?thesis by (auto simp: valid_ipv6_address_def)
next
  case (Some pos)
  have no8: "\<not> (s = join '':'' gs \<and> v6_groups gs m)" for gs m
    using groups_no_dbl [of gs] v6_group_parts [of gs m] Some by auto
  with ipv6_abbreviated [OF Some] show ?thesis by blast
qed

section \<open>Masks and normal forms of IPv4\<close>

lemma netmask_value:
  "k < 32 \<Longrightarrow> push_bit k (drop_bit k (4294967295 :: int)) = 4294967296 - 2 ^ k"
proof -
  have "list_all (\<lambda>k. push_bit k (drop_bit k (4294967295 :: int)) = 4294967296 - 2 ^ k) [0 ..< 32]"
    by code_simp
  then show "k < 32 \<Longrightarrow> push_bit k (drop_bit k (4294967295 :: int)) = 4294967296 - 2 ^ k"
    by (simp add: list_all_iff)
qed

text \<open>The prefix length a value stands for: an integer, or a string that consists of decimal digits.\<close>

definition prefix_length :: "pyval \<Rightarrow> int option" where
  "prefix_length v = (case v of
       VInt i \<Rightarrow> Some i
     | VStr s \<Rightarrow> if s \<noteq> [] \<and> set s \<subseteq> set digit_chars then Some (int (digits_val 10 s)) else None
     | _ \<Rightarrow> None)"

lemma py_int_digits:
  assumes "s \<noteq> []" "set s \<subseteq> set digit_chars"
  shows "py_int s = Some (int (digits_val 10 s))"
proof -
  have st: "strip s = s" using digit_chars_val assms(2) by (intro strip_free) (auto simp: list_all_iff)
  obtain c t where c: "s = c # t" using assms(1) by (cases s) auto
  with assms(2) have "c \<noteq> CHR ''-''" "c \<noteq> CHR ''+''" by (auto simp: digit_chars_def)
  with st [unfolded c] parse_digits_dec [OF assms, unfolded c] show ?thesis by (simp add: py_int_def signed_def c)
qed

lemma int_of_prefix: "prefix_length v = Some j \<Longrightarrow> int_of_value v = Some j"
  by (auto simp: prefix_length_def int_of_value_def py_int_digits split: pyval.splits if_splits)

lemma show_int_digits: "0 \<le> i \<Longrightarrow> show_int i \<noteq> [] \<and> set (show_int i) \<subseteq> set digit_chars"
  using show_nat_digits [of "nat i"] by (simp add: show_int_def)

lemma show_int_negative: "i < 0 \<Longrightarrow> \<not> list_all is_digit (show_int i)"
  by (simp add: show_int_def is_digit_def digit_chars_def)

lemma digits_all: "list_all is_digit s \<longleftrightarrow> set s \<subseteq> set digit_chars"
  by (auto simp: list_all_iff is_digit_def)

lemma valid_bitmask_iff: "valid_bitmask_ipv4 v \<longleftrightarrow> (\<exists>j. prefix_length v = Some j \<and> 1 \<le> j \<and> j \<le> 32)"
proof (cases v)
  case (VInt i)
  show ?thesis
  proof (cases "0 \<le> i")
    case True
    have "py_int (show_int i) = Some i" using True by (simp add: show_int_def py_int_show)
    with show_int_digits [OF True] show ?thesis by (auto simp: VInt valid_bitmask_ipv4_def prefix_length_def digits_all)
  next
    case False
    then show ?thesis using show_int_negative [of i] by (auto simp: VInt valid_bitmask_ipv4_def prefix_length_def)
  qed
next
  case (VStr s)
  show ?thesis
  proof (cases "s \<noteq> [] \<and> set s \<subseteq> set digit_chars")
    case True
    then have "py_int s = Some (int (digits_val 10 s))" by (simp add: py_int_digits)
    with True show ?thesis by (auto simp: VStr valid_bitmask_ipv4_def prefix_length_def digits_all)
  next
    case False
    then have "\<not> valid_bitmask_ipv4 v" "prefix_length v = None"
      by (auto simp: VStr valid_bitmask_ipv4_def prefix_length_def digits_all)
    then show ?thesis by simp
  qed
qed (simp_all add: valid_bitmask_ipv4_def prefix_length_def)

text \<open>
  C8: \<^verbatim>\<open>bitmask_to_netmask_ipv4\<close> accepts exactly the prefix lengths 1 to 32, given as an integer or as a string of
  decimal digits with such a value (leading zeros allowed), and refuses every other value; for a length it accepts it
  answers the dotted mask whose 32-bit value has that many leading one bits.
\<close>
theorem netmask_of_prefix:
  "(bitmask_to_netmask_ipv4 v \<noteq> None \<longleftrightarrow> (\<exists>j. prefix_length v = Some j \<and> 1 \<le> j \<and> j \<le> 32)) \<and>
   (\<forall>j. prefix_length v = Some j \<and> 1 \<le> j \<and> j \<le> 32 \<longrightarrow>
      (\<exists>m. bitmask_to_netmask_ipv4 v = Some m \<and> valid_ipv4_dotdec m \<and>
           ipv4_to_long m = Some (4294967296 - 2 ^ nat (32 - j))))"
proof -
  have mask: "\<exists>m. bitmask_to_netmask_ipv4 v = Some m \<and> valid_ipv4_dotdec m \<and>
      ipv4_to_long m = Some (4294967296 - 2 ^ nat (32 - j))"
    if j: "prefix_length v = Some j" "1 \<le> j" "j \<le> 32" for j
  proof -
    have w: "valid_bitmask_ipv4 v" using j by (simp add: valid_bitmask_iff)
    have k: "nat (32 - j) < 32" using j by simp
    have p: "(2 :: int) ^ nat (32 - j) \<le> 2 ^ 32" using k by (intro power_increasing) auto
    have p1: "(1 :: int) \<le> 2 ^ nat (32 - j)" by simp
    let ?n = "4294967296 - 2 ^ nat (32 - j) :: int"
    have n: "nat ?n = 4294967296 - 2 ^ nat (32 - j)" by (simp add: nat_diff_distrib' nat_power_eq)
    have "bitmask_to_netmask_ipv4 v = Some (inet_ntoa (nat ?n))"
      using w int_of_prefix [OF j(1)] p p1 by (simp add: bitmask_to_netmask_ipv4_def netmask_value [OF k] long_to_ipv4_def)
    moreover have "inet_aton (inet_ntoa (nat ?n)) = Some (nat ?n)"
      by (rule inet_aton_ntoa) (use p p1 in linarith)
    ultimately show ?thesis using ntoa_dotdec by (simp add: ipv4_to_long_def n)
  qed
  moreover have "\<not> valid_bitmask_ipv4 v \<Longrightarrow> bitmask_to_netmask_ipv4 v = None" by (simp add: bitmask_to_netmask_ipv4_def)
  ultimately show ?thesis unfolding valid_bitmask_iff by (metis option.distinct(1))
qed

theorem netmask_of_prefix_witness:
  "bitmask_to_netmask_ipv4 (VStr ''024'') \<noteq> None \<and> bitmask_to_netmask_ipv4 (VInt 33) = None \<and>
   (\<exists>m. bitmask_to_netmask_ipv4 (VInt 24) = Some m \<and> ipv4_to_long m = Some (4294967296 - 2 ^ 8))"
proof -
  have "prefix_length (VStr ''024'') = Some 24" by (simp add: prefix_length_def digits_val_def digit_val_def digit_chars_def)
  moreover have "prefix_length (VInt i) = Some i" for i by (simp add: prefix_length_def)
  ultimately show ?thesis
    using netmask_of_prefix [of "VStr ''024''"] netmask_of_prefix [of "VInt 33"] netmask_of_prefix [of "VInt 24"] by auto
qed

text \<open>
  \<^verbatim>\<open>normalize_ipv4_dotdec\<close> maps every address \<^verbatim>\<open>inet_aton\<close> understands (short, octal and hexadecimal
  forms included) to plain dotted decimal for the same 32-bit value; the result passes the strict
  validator and is its own normal form.
\<close>
theorem normalize_ipv4_canonical:
  assumes "normalize_ipv4_dotdec a = Some b"
  shows "ipv4_to_long b = ipv4_to_long a \<and> valid_ipv4_dotdec b \<and> valid_ipv4 b \<and>
    normalize_ipv4_dotdec b = Some b"
proof -
  from assms obtain n where n: "packed_ipv4 a = Some n" and b: "b = inet_ntoa n"
    by (auto simp: normalize_ipv4_dotdec_def)
  then have a: "inet_aton a = Some n" by (simp add: packed_ipv4_def split: if_splits)
  have lt: "n < 4294967296" by (rule inet_aton_bound [OF a])
  show ?thesis using inet_aton_ntoa [OF lt] packed_ntoa [OF lt] ntoa_dotdec [of n] a
    by (simp add: b ipv4_to_long_def valid_ipv4_def normalize_ipv4_dotdec_def)
qed

theorem normalize_ipv4_canonical_witness:
  "normalize_ipv4_dotdec ''127.1'' = Some ''127.0.0.1'' \<and> ipv4_to_long ''127.0.0.1'' = ipv4_to_long ''127.1''"
proof -
  have n: "normalize_ipv4_dotdec ''127.1'' = Some ''127.0.0.1''"
    by (simp add: normalize_ipv4_dotdec_def packed_ipv4_def is_space_def inet_aton_def c_number_def
        digits_in_def digits_val_def digit_val_def inet_ntoa_def show_nat.simps digit_chars_def)
  from normalize_ipv4_canonical [OF n] n show ?thesis by simp
qed

section \<open>Domain names\<close>

text \<open>A label: up to 63 letters, digits and hyphens, with no hyphen at either end.\<close>

definition domain_label :: "string \<Rightarrow> bool" where
  "domain_label l \<longleftrightarrow> 1 \<le> length l \<and> length l \<le> 63 \<and> set l \<subseteq> set (alnum_chars @ ''-'') \<and>
     hd l \<in> set alnum_chars \<and> last l \<in> set alnum_chars"

lemma denotes_seq_end: "denotes (Seq r (Chars cs)) w = (\<exists>u c. w = u @ [c] \<and> denotes r u \<and> c \<in> set cs)"
  by (auto simp: denotes_seq)

lemma label_regex: "denotes DOMAIN_PART l = domain_label l"
proof (cases l)
  case Nil
  then show ?thesis by (simp add: DOMAIN_PART_def domain_label_def)
next
  case (Cons c t)
  show ?thesis
  proof (cases t rule: rev_cases)
    case Nil
    with Cons show ?thesis by (auto simp: DOMAIN_PART_def domain_label_def)
  next
    case (snoc u d)
    with Cons show ?thesis
      by (auto simp: DOMAIN_PART_def domain_label_def denotes_seq_end denotes_upto_chars)
  qed
qed

lemma label_no_dot: "domain_label l \<Longrightarrow> CHR ''.'' \<notin> set l"
proof
  assume "domain_label l" "CHR ''.'' \<in> set l"
  then have "CHR ''.'' \<in> set (alnum_chars @ ''-'')" by (auto simp: domain_label_def)
  then show False by (simp add: alnum_chars_def lower_chars_def upper_chars_def digit_chars_def)
qed

lemma label_regex_no_dot: "denotes DOMAIN_PART w \<Longrightarrow> CHR ''.'' \<notin> set w"
  by (simp add: label_regex label_no_dot)

lemma domain_regex: "denotes RE_DOMAIN w = list_all domain_label (split_on CHR ''.'' w)"
proof -
  have "denotes DOMAIN_PART = domain_label" by (simp add: fun_eq_iff label_regex)
  then show ?thesis unfolding RE_DOMAIN_def
    using denotes_sep_star(1) [of DOMAIN_PART "CHR ''.''" w] label_regex_no_dot by simp
qed

lemma domain_more:
  "denotes (Seq (Seq DOMAIN_PART (Lit CHR ''.'')) r) w \<longleftrightarrow>
   (\<exists>a b. w = a @ CHR ''.'' # b \<and> domain_label a \<and> denotes r b)"
  by (simp add: denotes_assoc denotes_sep label_regex)

lemma split_length_dot: "domain_label a \<Longrightarrow> split_on CHR ''.'' (a @ CHR ''.'' # b) = a # split_on CHR ''.'' b"
  by (rule split_on_append [OF label_no_dot])

lemma split_two: "2 \<le> length (split_on c w) \<Longrightarrow> \<exists>a b. w = a @ c # b \<and> c \<notin> set a \<and> split_on c w = a # split_on c b"
  by (subst (asm) split_on_cut, subst split_on_cut)
    (auto split: prod.splits option.splits dest!: cut_Some)

lemma labels_more:
  "(\<exists>a b. w = a @ CHR ''.'' # b \<and> domain_label a \<and> Q (split_on CHR ''.'' b)) \<longleftrightarrow>
   (\<exists>p ps. split_on CHR ''.'' w = p # ps \<and> ps \<noteq> [] \<and> domain_label p \<and> Q ps)"
proof
  assume "\<exists>p ps. split_on CHR ''.'' w = p # ps \<and> ps \<noteq> [] \<and> domain_label p \<and> Q ps"
  then obtain p ps where p: "split_on CHR ''.'' w = p # ps" "ps \<noteq> []" "domain_label p" "Q ps" by blast
  then have "2 \<le> length (split_on CHR ''.'' w)" by (cases ps) auto
  from split_two [OF this] p show "\<exists>a b. w = a @ CHR ''.'' # b \<and> domain_label a \<and> Q (split_on CHR ''.'' b)"
    by auto
qed (use split_length_dot in fastforce)

lemma tld_regex: "denotes RE_DOMAIN_TLD w \<longleftrightarrow>
  list_all domain_label (split_on CHR ''.'' w) \<and> 2 \<le> length (split_on CHR ''.'' w)"
proof -
  have "denotes RE_DOMAIN_TLD w \<longleftrightarrow> (\<exists>a b. w = a @ CHR ''.'' # b \<and> domain_label a \<and>
      list_all domain_label (split_on CHR ''.'' b))"
    unfolding RE_DOMAIN_TLD_def Plus_def
    unfolding RE_DOMAIN_def [symmetric]
    by (subst denotes_assoc) (simp only: domain_more domain_regex flip: RE_DOMAIN_def)
  also have "\<dots> \<longleftrightarrow> list_all domain_label (split_on CHR ''.'' w) \<and> 2 \<le> length (split_on CHR ''.'' w)"
    unfolding labels_more by (cases "split_on CHR ''.'' w") (auto simp: Suc_le_eq)
  finally show ?thesis .
qed

lemma sub_regex: "denotes RE_SUB_DOMAIN_TLD w \<longleftrightarrow>
  list_all domain_label (split_on CHR ''.'' w) \<and> 3 \<le> length (split_on CHR ''.'' w)"
proof -
  let ?p = "Seq DOMAIN_PART (Lit CHR ''.'')"
  have "denotes RE_SUB_DOMAIN_TLD w \<longleftrightarrow> denotes (Seq ?p RE_DOMAIN_TLD) w"
    unfolding RE_SUB_DOMAIN_TLD_def RE_DOMAIN_TLD_def Plus_def Let_def numeral_2_eq_2 Rep.simps
    by (simp add: denotes_assoc denotes_sep)
  also have "\<dots> \<longleftrightarrow> (\<exists>a b. w = a @ CHR ''.'' # b \<and> domain_label a \<and>
      list_all domain_label (split_on CHR ''.'' b) \<and> 2 \<le> length (split_on CHR ''.'' b))"
    by (simp only: domain_more tld_regex)
  also have "\<dots> \<longleftrightarrow> (\<exists>p ps. split_on CHR ''.'' w = p # ps \<and> ps \<noteq> [] \<and> domain_label p \<and>
      list_all domain_label ps \<and> 2 \<le> length ps)"
    by (rule labels_more)
  also have "\<dots> \<longleftrightarrow> list_all domain_label (split_on CHR ''.'' w) \<and> 3 \<le> length (split_on CHR ''.'' w)"
    by (cases "split_on CHR ''.'' w") (auto simp: Suc_le_eq)
  finally show ?thesis .
qed

text \<open>
  The three domain validators accept exactly the names under 256 characters whose dot-separated
  labels are all well formed, with at least one, two and three labels; so each stricter
  validator implies the weaker ones.
\<close>
theorem valid_domain_labels:
  "valid_domain s = (length s < 256 \<and> list_all domain_label (split_on CHR ''.'' s)) \<and>
   valid_domain_tld s = (valid_domain s \<and> 2 \<le> length (split_on CHR ''.'' s)) \<and>
   valid_sub_domain_tld s = (valid_domain s \<and> 3 \<le> length (split_on CHR ''.'' s))"
  by (auto simp: valid_domain_def valid_domain_tld_def valid_sub_domain_tld_def full_match_denotes
      domain_regex tld_regex sub_regex)

section \<open>MAC addresses\<close>

lemma hexdig_upper: "c \<in> set HEXDIG \<Longrightarrow> upper_char c \<in> set HEX_UPPER \<and> digit_val c < 16"
  by (rule charset_all [of _ HEXDIG]) code_simp

lemma hex_upper: "c \<in> set HEX_UPPER \<Longrightarrow> c \<in> set HEXDIG \<and> upper_char c = c \<and> HEX_UPPER ! digit_val c = c \<and>
    digit_val c < 16"
  by (rule charset_all [of _ HEX_UPPER]) code_simp

lemma hex_upper_nth: "n < 16 \<Longrightarrow> HEX_UPPER ! n \<in> set HEX_UPPER \<and> digit_val (HEX_UPPER ! n) = n"
proof -
  have "list_all (\<lambda>n. HEX_UPPER ! n \<in> set HEX_UPPER \<and> digit_val (HEX_UPPER ! n) = n) [0 ..< 16]" by code_simp
  then show "n < 16 \<Longrightarrow> HEX_UPPER ! n \<in> set HEX_UPPER \<and> digit_val (HEX_UPPER ! n) = n"
    by (simp add: list_all_iff)
qed

definition hex_pair :: "string \<Rightarrow> bool" where
  "hex_pair p \<longleftrightarrow> (\<exists>a b. p = [a, b] \<and> a \<in> set HEX_UPPER \<and> b \<in> set HEX_UPPER)"

lemma hex2_pair: "hex_pair (hex2 n)"
  using hex_upper_nth by (auto simp: hex_pair_def hex2_def)

lemma hex2_of_pair: "hex_pair p \<Longrightarrow> hex2 (digits_val 16 p) = p"
  using hex_upper by (auto simp: hex_pair_def hex2_def digits_val_def)

lemma findall_pairs:
  "list_all hex_pair ps \<Longrightarrow> mac_findall (map upper_char (join '':'' ps)) = ps"
proof (induction ps)
  case (Cons p ps)
  then obtain a b where p: "p = [a, b]" "a \<in> set HEX_UPPER" "b \<in> set HEX_UPPER" by (auto simp: hex_pair_def)
  note u = hex_upper [OF p(2)] hex_upper [OF p(3)]
  have "upper_char CHR '':'' = CHR '':''" by code_simp
  moreover have "hd q \<in> set ''-: '' \<Longrightarrow> hd q \<notin> set HEX_UPPER" for q :: string by (auto simp: HEX_UPPER_def)
  ultimately show ?case using Cons u p
    by (cases ps) (auto simp: Let_def join_Cons)
qed simp

lemma mac_regex: "list_all hex_pair ps \<Longrightarrow> length ps = 6 \<Longrightarrow> denotes RE_MAC_ADDRESS (join '':'' ps)"
  by (auto simp: length_Suc_conv numeral_eq_Suc hex_pair_def RE_MAC_ADDRESS_def denotes_assoc hex_upper)

lemma mac_input: "list_all hex_pair ps \<Longrightarrow> length ps = 6 \<Longrightarrow> denotes RE_MAC_ADDR_INPUT (join '':'' ps)"
  by (auto simp: length_Suc_conv numeral_eq_Suc hex_pair_def RE_MAC_ADDR_INPUT_def denotes_assoc
      hex_upper denotes_seq_opt(2) intro!: denotes_seq_opt(1))

text \<open>
  Every result of \<^verbatim>\<open>normalize_mac_address\<close> is six pairs of upper-case hexadecimal digits joined by
  colons, matches the strict \<^verbatim>\<open>RE_MAC_ADDRESS\<close>, passes \<^verbatim>\<open>valid_mac_address\<close> unless it is the null
  address, and is its own normal form.
\<close>
theorem normalize_mac_canonical:
  assumes "normalize_mac_address s = Some t"
  shows "(\<exists>ps. length ps = 6 \<and> list_all hex_pair ps \<and> t = join '':'' ps) \<and>
    full_match RE_MAC_ADDRESS t \<and> (valid_mac_address t \<or> t = ''00:00:00:00:00:00'') \<and>
    normalize_mac_address t = Some t"
proof -
  define ps where "ps = map (\<lambda>p. hex2 (digits_val 16 p)) (mac_findall (map upper_char s))"
  have t: "t = join '':'' ps" and l: "length ps = 6"
    using assms by (auto simp: normalize_mac_address_def Let_def ps_def split: if_splits)
  have h: "list_all hex_pair ps" by (simp add: ps_def list_all_iff hex2_pair)
  have "map (\<lambda>p. hex2 (digits_val 16 p)) ps = ps"
    using h by (intro map_idI) (simp add: list_all_iff hex2_of_pair)
  moreover have "full_match RE_MAC_ADDR_INPUT t" using mac_input [OF h l] by (simp add: full_match_denotes t)
  ultimately have "normalize_mac_address t = Some t"
    using findall_pairs [OF h] l by (simp add: normalize_mac_address_def Let_def t)
  with t l h mac_regex [OF h l] show ?thesis
    by (auto simp: valid_mac_address_def full_match_denotes)
qed

theorem normalize_mac_canonical_witness:
  "normalize_mac_address ''0-1b:2 3-4:5'' = Some ''00:1B:02:03:04:05'' \<and>
   normalize_mac_address ''00:1B:02:03:04:05'' = Some ''00:1B:02:03:04:05''"
proof -
  have n: "normalize_mac_address ''0-1b:2 3-4:5'' = Some ''00:1B:02:03:04:05''" by code_simp
  from normalize_mac_canonical [OF n] n show ?thesis by simp
qed

section \<open>Hosts and e-mail addresses\<close>

lemma email_domain_shape:
  assumes a: "valid_email_address_literal idna d flags"
  shows "(M_IPV6 \<in> set flags \<and> (\<exists>a. d = ''[IPv6:'' @ a @ '']'' \<and> valid_ipv6_address a)) \<or>
     (M_IPV4_DOTDEC \<in> set flags \<and> (\<exists>a. d = ''['' @ a @ '']'' \<and> valid_ipv4_dotdec a)) \<or>
     (\<exists>h. valid_domain h \<and> (if M_DOMAIN_IDN \<in> set flags then idna d = Some h else d = h))"
proof -
  let ?m = "filter (\<lambda>f. f \<in> {M_DOMAIN, M_DOMAIN_TLD, M_DOMAIN_IDN, M_SUB_DOMAIN_TLD}) flags"
  show ?thesis
  proof (cases "hd d = CHR ''['' \<and> last d = CHR '']''")
    case True
    show ?thesis
    proof (cases "starts_with ''[IPv6:'' d")
      case v6: True
      obtain y where y: "d = ''[IPv6:'' @ y" "drop 6 d = y" using starts_with_append [OF v6] by simp
      then have ne: "y \<noteq> []" using True by auto
      have "last y = CHR '']''" using y ne True by simp
      then have "d = ''[IPv6:'' @ butlast (drop 6 d) @ '']''"
        unfolding y(2) using append_butlast_last_id [OF ne] y(1) by simp
      moreover have "M_IPV6 \<in> set flags \<and> valid_ipv6_address (butlast (drop 6 d))"
        using a True v6 by (simp add: valid_email_address_literal_def split: if_splits)
      ultimately show ?thesis by blast
    next
      case v4: False
      obtain x y where d: "d = x # y" using a by (cases d) (auto simp: valid_email_address_literal_def)
      have v: "M_IPV4_DOTDEC \<in> set flags \<and> valid_ipv4_dotdec (butlast y)"
        using a True v4 d by (simp add: valid_email_address_literal_def)
      then have ne: "y \<noteq> []" by (auto simp: valid_ipv4_dotdec_def)
      then have "d = ''['' @ butlast y @ '']''" using True d append_butlast_last_id [OF ne] by simp
      with v show ?thesis by blast
    qed
  next
    case False
    then have h: "valid_host idna d ?m" using a
      by (auto simp: valid_email_address_literal_def Let_def split: if_splits)
    have "M_IPV4 \<notin> set ?m" "M_IPV4_DOTDEC \<notin> set ?m" "M_IPV6 \<notin> set ?m" by auto
    with h have "domain_checks ?m (if M_DOMAIN_IDN \<in> set ?m then idna d else Some d)"
      unfolding valid_host_def by (auto split: if_splits)
    then obtain x where x: "(if M_DOMAIN_IDN \<in> set flags then idna d else Some d) = Some x"
      and v: "valid_domain x \<or> valid_domain_tld x \<or> valid_sub_domain_tld x"
      by (auto simp: domain_checks_def split: option.splits if_splits)
    from v have "valid_domain x"
      by (auto simp: valid_domain_def valid_domain_tld_def valid_sub_domain_tld_def full_match_denotes
          domain_regex tld_regex sub_regex)
    with x show ?thesis by (auto split: if_splits)
  qed
qed

text \<open>
  Shape of an accepted e-mail address, for any IDNA codec: it is a local part of 1 to 64 characters
  that matches the local-part expression, the last \<open>@\<close>, and either a bracketed literal whose
  inside is a valid address of a family the mask allows, or an unbracketed name which the codec (when
  the mask asks for it) or the text itself turns into a well-formed domain.
\<close>
theorem valid_email_shape:
  assumes "valid_email idna e flags"
  shows "\<exists>l d. e = l @ CHR ''@'' # d \<and> CHR ''@'' \<notin> set d \<and> 1 \<le> length l \<and> length l \<le> 64 \<and>
    full_match RE_EMAIL_LOCALPART l \<and>
    ((M_IPV6 \<in> set flags \<and> (\<exists>a. d = ''[IPv6:'' @ a @ '']'' \<and> valid_ipv6_address a)) \<or>
     (M_IPV4_DOTDEC \<in> set flags \<and> (\<exists>a. d = ''['' @ a @ '']'' \<and> valid_ipv4_dotdec a)) \<or>
     (\<exists>h. valid_domain h \<and> (if M_DOMAIN_IDN \<in> set flags then idna d = Some h else d = h)))"
proof -
  from assms obtain l d where r: "rcut CHR ''@'' e = Some (l, d)" and l: "valid_email_localpart l"
    and a: "valid_email_address_literal idna d flags"
    by (auto simp: valid_email_def split: if_splits option.splits)
  from rcut_Some [OF r] l email_domain_shape [OF a] show ?thesis unfolding valid_email_localpart_def
    by (intro exI [of _ l] exI [of _ d]) blast
qed

theorem valid_email_shape_witness:
  "\<exists>l d. ''a@b.fr'' = l @ CHR ''@'' # d \<and> full_match RE_EMAIL_LOCALPART l"
proof -
  have "full_match RE_EMAIL_LOCALPART ''a''"
    by (simp add: full_match_def RE_EMAIL_LOCALPART_def Plus_def Lit_def mk_seq_def mk_alt_def
        ATOM_CHARS_def alnum_chars_def lower_chars_def)
  moreover have "valid_domain_tld ''b.fr''"
    by (simp add: valid_domain_tld_def full_match_denotes tld_regex domain_label_def alnum_chars_def lower_chars_def)
  ultimately have v: "valid_email Some ''a@b.fr'' MASK_EMAIL_HOST_ALL"
    by (simp add: valid_email_def valid_email_localpart_def valid_email_address_literal_def
        MASK_EMAIL_HOST_ALL_def valid_host_def domain_checks_def)
  from valid_email_shape [OF v] show ?thesis by blast
qed

end
