(* ===== verification/Urisup.thy ===== *)
theory Urisup
  imports Network
begin

text \<open>
  \<^verbatim>\<open>sonicprobe/libs/urisup.py\<close>: splitting, checking, decoding, encoding and joining URIs. A URI tree is
  the five-tuple of the source: scheme, authority (user, password, host, port), path, query (key/value
  pairs), fragment. The leaves of authority and query may be \<^verbatim>\<open>None\<close>, a string or an integer. Each
  exception class of the module is a constructor of \<open>uri_error\<close>. Strings are UTF-8, so the bytes that
  percent coding sees are the chars of the string.
\<close>

section \<open>Character classes\<close>

definition ALPHA :: string where "ALPHA = lower_chars @ upper_chars"
definition SCHEME_CHAR :: string where "SCHEME_CHAR = ALPHA @ digit_chars @ ''+-.''"
definition SUB_DELIMS :: string where "SUB_DELIMS = ''!$&'' @ CHR 0x27 # ''()*+,;=''"
definition UNRESERVED :: string where "UNRESERVED = ALPHA @ digit_chars @ ''-._~''"
definition PCHAR :: string where "PCHAR = UNRESERVED @ SUB_DELIMS @ ''%:@/''"
definition QUEFRAG_CHAR :: string where "QUEFRAG_CHAR = PCHAR @ ''?''"
definition USER_CHAR :: string where "USER_CHAR = UNRESERVED @ SUB_DELIMS @ ''%''"
definition PASSWD_CHAR :: string where "PASSWD_CHAR = UNRESERVED @ SUB_DELIMS @ ''%:''"
definition REG_NAME_CHAR :: string where "REG_NAME_CHAR = UNRESERVED @ SUB_DELIMS @ ''%''"

definition IPV_FUTURE_RE :: regex where
  "IPV_FUTURE_RE = Seq (Lit CHR ''v'') (Seq (Plus (Chars HEXDIG)) (Seq (Lit CHR ''.'')
     (Plus (Chars (UNRESERVED @ SUB_DELIMS @ '':'')))))"

definition allow_to_encdct :: "string \<Rightarrow> string" where
  "allow_to_encdct charset = filter (\<lambda>c. c \<noteq> CHR ''%'') charset"

definition USER_ENCDCT :: string where "USER_ENCDCT = allow_to_encdct USER_CHAR"
definition PASSWD_ENCDCT :: string where "PASSWD_ENCDCT = allow_to_encdct PASSWD_CHAR"
definition REG_NAME_ENCDCT :: string where "REG_NAME_ENCDCT = allow_to_encdct REG_NAME_CHAR"
definition P_ENCDCT :: string where "P_ENCDCT = allow_to_encdct PCHAR"
definition FRAG_ENCDCT :: string where "FRAG_ENCDCT = allow_to_encdct QUEFRAG_CHAR"

definition QUERY_KEY_ENCDCT :: string where
  "QUERY_KEY_ENCDCT = allow_to_encdct (filter (\<lambda>c. c \<notin> set ''&+='') QUEFRAG_CHAR @ '' '')"

definition QUERY_VAL_ENCDCT :: string where
  "QUERY_VAL_ENCDCT = allow_to_encdct (filter (\<lambda>c. c \<notin> set ''&+'') QUEFRAG_CHAR @ '' '')"

section \<open>Errors and trees\<close>

datatype uri_error =
    InvalidSchemeError | InvalidUserError | InvalidPasswdError | InvalidIPv4addressError
  | InvalidIPLiteralError | InvalidRegNameError | InvalidPortError | InvalidPathError
  | InvalidQueryError | InvalidFragmentError | UriRaised pyerror

datatype uelt = UNone | UStr string | UInt int

type_synonym uauth = "uelt \<times> uelt \<times> uelt \<times> uelt"
type_synonym utree =
  "string option \<times> uauth option \<times> string option \<times> (uelt \<times> uelt) list option \<times> string option"

text \<open>Truth of a leaf, of an optional string; \<^verbatim>\<open>x or None\<close>; \<^verbatim>\<open>str(x)\<close>.\<close>

fun utrue :: "uelt \<Rightarrow> bool" where
  "utrue UNone = False"
| "utrue (UStr s) = (s \<noteq> [])"
| "utrue (UInt i) = (i \<noteq> 0)"

fun is_int :: "uelt \<Rightarrow> bool" where
  "is_int (UInt i) = True"
| "is_int _ = False"

fun utext :: "uelt \<Rightarrow> string" where
  "utext UNone = []"
| "utext (UStr s) = s"
| "utext (UInt i) = show_int i"

definition ustr :: "string option \<Rightarrow> uelt" where
  "ustr x = (case x of None \<Rightarrow> UNone | Some s \<Rightarrow> if s = [] then UNone else UStr s)"

definition or_none :: "string option \<Rightarrow> string option" where
  "or_none x = (if x = Some [] then None else x)"

section \<open>Percent coding\<close>

text \<open>\<^verbatim>\<open>urllib.parse.quote\<close> and \<^verbatim>\<open>unquote\<close>: every byte that is neither unreserved nor in \<open>safe\<close> becomes
  \<open>%XX\<close>; decoding works on the ASCII runs and replaces what is not UTF-8.\<close>

definition always_safe :: string where "always_safe = upper_chars @ lower_chars @ digit_chars @ ''_.-~''"

definition pct_byte :: "char \<Rightarrow> string" where
  "pct_byte c = CHR ''%'' # hex2 (of_char c)"

definition quote :: "string \<Rightarrow> string \<Rightarrow> string" where
  "quote s safe = concat (map (\<lambda>c. if c \<in> set always_safe \<or> c \<in> set safe then [c] else pct_byte c) s)"

fun unquote_bytes :: "string \<Rightarrow> string" where
  "unquote_bytes (c # a # b # s) =
     (if c = CHR ''%'' \<and> digit_val a < 16 \<and> digit_val b < 16
      then char_of (16 * digit_val a + digit_val b) # unquote_bytes s
      else c # unquote_bytes (a # b # s))"
| "unquote_bytes s = s"

text \<open>\<open>bytes.decode('utf-8', 'replace')\<close>: how many bytes the next item takes and whether it is well
  formed; an ill-formed prefix becomes U+FFFD.\<close>

definition byte_in :: "nat \<Rightarrow> nat \<Rightarrow> string \<Rightarrow> bool" where
  "byte_in lo hi s = (case s of [] \<Rightarrow> False | c # _ \<Rightarrow> lo \<le> of_char c \<and> of_char c \<le> hi)"

definition utf8_item :: "char \<Rightarrow> string \<Rightarrow> bool \<times> nat" where
  "utf8_item c s =
     (let n = of_char c :: nat;
          tail2 = (\<lambda>lo hi. if \<not> byte_in lo hi s then (False, 1)
                    else if \<not> byte_in 128 191 (drop 1 s) then (False, 2) else (True, 3));
          tail3 = (\<lambda>lo hi. if \<not> byte_in lo hi s then (False, 1)
                    else if \<not> byte_in 128 191 (drop 1 s) then (False, 2)
                    else if \<not> byte_in 128 191 (drop 2 s) then (False, 3) else (True, 4))
      in if n < 128 then (True, 1)
         else if n < 194 then (False, 1)
         else if n < 224 then (if byte_in 128 191 s then (True, 2) else (False, 1))
         else if n = 224 then tail2 160 191
         else if n = 237 then tail2 128 159
         else if n < 240 then tail2 128 191
         else if n = 240 then tail3 144 191
         else if n < 244 then tail3 128 191
         else if n = 244 then tail3 128 143
         else (False, 1))"

definition replacement :: string where "replacement = map char_of [239, 191, 189 :: nat]"

function utf8_replace :: "string \<Rightarrow> string" where
  "utf8_replace [] = []"
| "utf8_replace (c # s) = (case utf8_item c s of (ok, n) \<Rightarrow>
     (if ok then take n (c # s) else replacement) @ utf8_replace (drop (n - 1) s))"
  by pat_completeness auto
termination by (relation "measure length") auto

definition is_ascii :: "char \<Rightarrow> bool" where
  "is_ascii c = ((of_char c :: nat) < 128)"

function unquote :: "string \<Rightarrow> string" where
  "unquote [] = []"
| "unquote (c # s) =
     (if is_ascii c
      then utf8_replace (unquote_bytes (takeWhile is_ascii (c # s))) @ unquote (dropWhile is_ascii s)
      else c # unquote s)"
  by pat_completeness auto
termination by (relation "measure length") (auto simp: le_imp_less_Suc length_dropWhile_le)

definition pct_decode :: "string \<Rightarrow> string" where
  "pct_decode s = unquote s"

definition pct_encode :: "uelt \<Rightarrow> string \<Rightarrow> uelt" where
  "pct_encode x encdct = (if x = UNone then UNone else UStr (quote (utext x) encdct))"

definition replace_char :: "char \<Rightarrow> string \<Rightarrow> string \<Rightarrow> string" where
  "replace_char c d s = concat (map (\<lambda>x. if x = c then d else [x]) s)"

definition query_elt_decode :: "string \<Rightarrow> string" where
  "query_elt_decode s = pct_decode (replace_char CHR ''+'' '' '' s)"

definition query_elt_encode :: "uelt \<Rightarrow> string \<Rightarrow> uelt" where
  "query_elt_encode x encdct = (case pct_encode x encdct of
     UStr s \<Rightarrow> UStr (replace_char CHR '' '' ''+'' s) | u \<Rightarrow> u)"

section \<open>Splitting\<close>

datatype host_kind = HOST_IP_LITERAL | HOST_IPV4_ADDRESS | HOST_REG_NAME

definition host_type :: "string \<Rightarrow> host_kind" where
  "host_type host =
     (if host = [] then HOST_REG_NAME
      else if hd host = CHR ''['' then HOST_IP_LITERAL
      else if valid_ipv4_dotdec host then HOST_IPV4_ADDRESS
      else HOST_REG_NAME)"

definition LF :: char where "LF = CHR 0x0A"

text \<open>The end \<^verbatim>\<open>(\:.*|)$\<close> of the pattern: without \<^verbatim>\<open>DOTALL\<close> the dot stops at a line feed, and the dollar
  also matches before a final one.\<close>

definition literal_port :: "string \<Rightarrow> string option" where
  "literal_port r =
     (if r = [] \<or> r = [LF] then Some []
      else if hd r = CHR '':'' then
        (let p = tl r; q = (if p \<noteq> [] \<and> last p = LF then butlast p else p)
         in if LF \<in> set q then None else Some q)
      else None)"

definition split_hostport :: "string \<Rightarrow> uri_error + (string option \<times> string option)" where
  "split_hostport hostport =
     (case hostport of
        [] \<Rightarrow> Inr (None, None)
      | c # t \<Rightarrow>
          if c = CHR ''['' then
            (case cut_at CHR '']'' t of
               (g, None) \<Rightarrow> Inl InvalidIPLiteralError
             | (g, Some r) \<Rightarrow>
                 if full_match (Plus (Chars (HEXDIG @ '':.''))) g \<or> full_match IPV_FUTURE_RE g
                 then (case literal_port r of
                         None \<Rightarrow> Inl InvalidIPLiteralError
                       | Some port \<Rightarrow> Inr (Some (''['' @ g @ '']''), Some port))
                 else Inl InvalidIPLiteralError)
          else (case cut_at CHR '':'' hostport of (host, port) \<Rightarrow> Inr (Some host, port)))"

definition split_authority :: "string \<Rightarrow> uri_error + uauth" where
  "split_authority authority =
     (let (user, passwd, hostport) =
        (case cut_at CHR ''@'' authority of
           (_, None) \<Rightarrow> (None, None, authority)
         | (userinfo, Some hostport) \<Rightarrow>
             (case cut_at CHR '':'' userinfo of (u, p) \<Rightarrow> (Some u, p, hostport)))
      in case split_hostport hostport of
           Inl e \<Rightarrow> Inl e
         | Inr (host, port) \<Rightarrow> Inr (ustr user, ustr passwd, ustr host, ustr port))"

definition split_assignment :: "string \<Rightarrow> uelt \<times> uelt" where
  "split_assignment a = (case cut_at CHR ''='' a of
     (k, None) \<Rightarrow> (UStr k, UNone) | (k, Some v) \<Rightarrow> (UStr k, UStr v))"

definition split_query :: "string \<Rightarrow> (uelt \<times> uelt) list" where
  "split_query query = map split_assignment (filter (\<lambda>a. a \<noteq> []) (split_on CHR ''&'' query))"

fun unsplit_assignment :: "uelt \<times> uelt \<Rightarrow> string" where
  "unsplit_assignment (x, y) =
     (if x \<noteq> UNone \<and> y \<noteq> UNone then utext x @ ''='' @ utext y
      else if x \<noteq> UNone then utext x
      else if y \<noteq> UNone then ''='' @ utext y
      else [])"

definition unsplit_query :: "(uelt \<times> uelt) list \<Rightarrow> string" where
  "unsplit_query query = join ''&'' (map unsplit_assignment query)"

text \<open>
  The expression of RFC 3986, appendix B, group by group: each group takes what it matches and
  leaves the rest. No group can give anything back, since the rest of the expression matches any text.
\<close>

definition take_scheme :: "string \<Rightarrow> string option \<times> string" where
  "take_scheme u =
     (let s = takeWhile (\<lambda>c. c \<notin> set '':/?#'') u; r = drop (length s) u
      in if s \<noteq> [] \<and> starts_with '':'' r then (Some s, drop 1 r) else (None, u))"

definition take_authority :: "string \<Rightarrow> string option \<times> string" where
  "take_authority u =
     (if starts_with ''//'' u
      then (let a = takeWhile (\<lambda>c. c \<notin> set ''/?#'') (drop 2 u) in (Some a, drop (length a) (drop 2 u)))
      else (None, u))"

definition take_path :: "string \<Rightarrow> string \<times> string" where
  "take_path u = (let p = takeWhile (\<lambda>c. c \<notin> set ''?#'') u in (p, drop (length p) u))"

definition take_query :: "string \<Rightarrow> string option \<times> string" where
  "take_query u =
     (if starts_with ''?'' u
      then (let q = takeWhile (\<lambda>c. c \<noteq> CHR ''#'') (drop 1 u) in (Some q, drop (length q) (drop 1 u)))
      else (None, u))"

definition take_fragment :: "string \<Rightarrow> string option" where
  "take_fragment u = (if starts_with ''#'' u then Some (drop 1 u) else None)"

definition basic_urisplit ::
  "string \<Rightarrow> string option \<times> string option \<times> string \<times> string option \<times> string option" where
  "basic_urisplit uri =
     (case take_scheme uri of (scheme, r1) \<Rightarrow>
      case take_authority r1 of (authority, r2) \<Rightarrow>
      case take_path r2 of (path, r3) \<Rightarrow>
      case take_query r3 of (query, r4) \<Rightarrow> (scheme, authority, path, query, take_fragment r4))"

definition uri_split_tree :: "string \<Rightarrow> uri_error + utree" where
  "uri_split_tree uri =
     (case basic_urisplit uri of (scheme, authority, path, query, fragment) \<Rightarrow>
        (let q = (case or_none query of None \<Rightarrow> None
                  | Some s \<Rightarrow> (case split_query s of [] \<Rightarrow> None | l \<Rightarrow> Some l));
             tree = (\<lambda>a. (or_none scheme, a, or_none (Some path), q, or_none fragment))
         in case or_none authority of
              None \<Rightarrow> Inr (tree None)
            | Some a \<Rightarrow> (case split_authority a of Inl e \<Rightarrow> Inl e | Inr auth \<Rightarrow> Inr (tree (Some auth)))))"

section \<open>Normalising and checking\<close>

definition normalize_authority :: "uauth option \<Rightarrow> uauth option" where
  "normalize_authority a = (case a of None \<Rightarrow> None
     | Some (user, passwd, host, port) \<Rightarrow>
         if list_ex (\<lambda>x. is_int x \<or> utrue x) [user, passwd, host, port] then a else None)"

definition normalize_query :: "(uelt \<times> uelt) list option \<Rightarrow> (uelt \<times> uelt) list option" where
  "normalize_query q = (case q of None \<Rightarrow> None
     | Some l \<Rightarrow> (case filter (\<lambda>(x, y). utrue x \<or> is_int x \<or> utrue y \<or> is_int y) l of
           [] \<Rightarrow> None | l' \<Rightarrow> Some l'))"

definition uri_tree_normalize :: "utree \<Rightarrow> utree" where
  "uri_tree_normalize t = (case t of (scheme, authority, path, query, fragment) \<Rightarrow>
     (or_none scheme, normalize_authority authority, or_none path, normalize_query query,
      or_none fragment))"

definition valid_scheme :: "string \<Rightarrow> bool" where
  "valid_scheme s = (s \<noteq> [] \<and> hd s \<in> set ALPHA \<and> all_in (tl s) SCHEME_CHAR)"

definition valid_IPvFuture :: "string \<Rightarrow> bool" where
  "valid_IPvFuture s = (full_match IPV_FUTURE_RE s \<or>
     (s \<noteq> [] \<and> last s = LF \<and> full_match IPV_FUTURE_RE (butlast s)))"

definition valid_IPLiteral :: "string \<Rightarrow> bool" where
  "valid_IPLiteral s =
     (if length s < 2 \<or> hd s \<noteq> CHR ''['' \<or> last s \<noteq> CHR '']'' then False
      else valid_ipv6_address (butlast (tl s)) \<or> valid_IPvFuture (butlast (tl s)))"

definition valid_query :: "(uelt \<times> uelt) list \<Rightarrow> bool" where
  "valid_query q = list_all (\<lambda>(k, v). (utrue k \<longrightarrow> all_in (utext k) QUEFRAG_CHAR) \<and>
                                      (utrue v \<longrightarrow> all_in (utext v) QUEFRAG_CHAR)) q"

definition bad_leaf :: "uelt \<Rightarrow> string \<Rightarrow> bool" where
  "bad_leaf x charset = (utrue x \<and> \<not> all_in (utext x) charset)"

definition check_authority :: "uauth \<Rightarrow> uri_error + unit" where
  "check_authority a = (case a of (user, passwd, host, port) \<Rightarrow>
     raise_if (bad_leaf user USER_CHAR) InvalidUserError
    (raise_if (bad_leaf passwd PASSWD_CHAR) InvalidPasswdError
    (raise_if (utrue host \<and> is_int host) (UriRaised (TypeError ''object is not subscriptable''))
    (raise_if (utrue host \<and> host_type (utext host) = HOST_REG_NAME \<and>
               \<not> all_in (utext host) REG_NAME_CHAR) InvalidRegNameError
    (raise_if (utrue host \<and> host_type (utext host) = HOST_IP_LITERAL \<and>
               \<not> valid_IPLiteral (utext host)) InvalidIPLiteralError
    (raise_if (bad_leaf port digit_chars) InvalidPortError (Inr ())))))))"

definition check_path :: "bool \<Rightarrow> bool \<Rightarrow> string \<Rightarrow> uri_error + unit" where
  "check_path scheme authority path =
     raise_if (\<not> all_in path PCHAR) InvalidPathError
    (raise_if (authority \<and> hd path \<noteq> CHR ''/'') InvalidPathError
    (raise_if (\<not> authority \<and> \<not> scheme \<and> CHR '':'' \<in> set (fst (cut_at CHR ''/'' path))) InvalidPathError
    (Inr ())))"

definition when_some :: "'a option \<Rightarrow> ('a \<Rightarrow> uri_error + unit) \<Rightarrow> uri_error + unit" where
  "when_some x f = (case x of None \<Rightarrow> Inr () | Some v \<Rightarrow> f v)"

definition uri_tree_validate :: "utree \<Rightarrow> uri_error + utree" where
  "uri_tree_validate t = (case t of (scheme, authority, path, query, fragment) \<Rightarrow>
     andthen (when_some (or_none scheme) (\<lambda>s. raise_if (\<not> valid_scheme s) InvalidSchemeError (Inr ())))
    (andthen (when_some authority check_authority)
    (andthen (when_some (or_none path) (check_path (or_none scheme \<noteq> None) (authority \<noteq> None)))
    (andthen (when_some query (\<lambda>q. raise_if (\<not> valid_query q) InvalidQueryError (Inr ())))
    (andthen (when_some (or_none fragment)
                (\<lambda>f. raise_if (\<not> all_in f QUEFRAG_CHAR) InvalidFragmentError (Inr ())))
    (Inr t))))))"

section \<open>Decoding\<close>

text \<open>Decoding an integer leaf fails: \<^verbatim>\<open>'%' in 5\<close> is a \<^verbatim>\<open>TypeError\<close>, \<^verbatim>\<open>(5).replace\<close> an \<^verbatim>\<open>AttributeError\<close>.\<close>

fun decode_leaf :: "pyerror \<Rightarrow> (string \<Rightarrow> string) \<Rightarrow> uelt \<Rightarrow> uri_error + uelt" where
  "decode_leaf e f UNone = Inr UNone"
| "decode_leaf e f (UStr s) = Inr (UStr (f s))"
| "decode_leaf e f (UInt i) = Inl (UriRaised e)"

definition not_iterable :: pyerror where
  "not_iterable = TypeError ''argument of type int is not iterable''"

fun decode_pairs :: "(uelt \<times> uelt) list \<Rightarrow> uri_error + (uelt \<times> uelt) list" where
  "decode_pairs [] = Inr []"
| "decode_pairs ((x, y) # l) =
     (case decode_leaf AttributeError query_elt_decode x of Inl e \<Rightarrow> Inl e | Inr x' \<Rightarrow>
     (case decode_leaf AttributeError query_elt_decode y of Inl e \<Rightarrow> Inl e | Inr y' \<Rightarrow>
     (case decode_pairs l of Inl e \<Rightarrow> Inl e | Inr l' \<Rightarrow> Inr ((x', y') # l'))))"

definition decode_authority :: "uauth \<Rightarrow> uri_error + uauth" where
  "decode_authority a = (case a of (user, passwd, host, port) \<Rightarrow>
     (case decode_leaf not_iterable pct_decode user of Inl e \<Rightarrow> Inl e | Inr user' \<Rightarrow>
     (case decode_leaf not_iterable pct_decode passwd of Inl e \<Rightarrow> Inl e | Inr passwd' \<Rightarrow>
     (if utrue host \<and> is_int host then Inl (UriRaised (TypeError ''object is not subscriptable''))
      else if utrue host \<and> host_type (utext host) = HOST_REG_NAME
      then (case decode_leaf not_iterable pct_decode host of Inl e \<Rightarrow> Inl e
            | Inr host' \<Rightarrow> Inr (user', passwd', host', port))
      else Inr (user', passwd', host, port)))))"

definition uri_tree_decode :: "utree \<Rightarrow> uri_error + utree" where
  "uri_tree_decode t = (case t of (scheme, authority, path, query, fragment) \<Rightarrow>
     (case (case authority of None \<Rightarrow> Inr None | Some a \<Rightarrow> map_sum id Some (decode_authority a)) of
        Inl e \<Rightarrow> Inl e
      | Inr authority' \<Rightarrow>
     (case (case query of None \<Rightarrow> Inr None | Some q \<Rightarrow> map_sum id Some (decode_pairs q)) of
        Inl e \<Rightarrow> Inl e
      | Inr query' \<Rightarrow>
          Inr (scheme, authority', map_option pct_decode path, query', map_option pct_decode fragment))))"

definition uri_help_split :: "string \<Rightarrow> uri_error + utree" where
  "uri_help_split uri =
     bind_sum (uri_split_tree uri)
       (\<lambda>t. bind_sum (uri_tree_validate (uri_tree_normalize t)) uri_tree_decode)"

section \<open>Encoding and joining\<close>

definition precheck_host :: "host_kind \<Rightarrow> uelt \<Rightarrow> uri_error + unit" where
  "precheck_host type_host host = (case type_host of
     HOST_IP_LITERAL \<Rightarrow>
       raise_if (utrue host \<and> is_int host) (UriRaised (TypeError ''object of type int has no len()''))
      (raise_if (utrue host \<and> \<not> valid_IPLiteral (utext host)) InvalidIPLiteralError (Inr ()))
   | HOST_IPV4_ADDRESS \<Rightarrow>
       raise_if (utrue host \<and> (is_int host \<or> \<not> valid_ipv4_dotdec (utext host))) InvalidIPv4addressError (Inr ())
   | HOST_REG_NAME \<Rightarrow> Inr ())"

definition uri_tree_precode_check :: "host_kind \<Rightarrow> utree \<Rightarrow> uri_error + utree" where
  "uri_tree_precode_check type_host t = (case t of (scheme, authority, path, query, fragment) \<Rightarrow>
     andthen (when_some (or_none scheme) (\<lambda>s. raise_if (\<not> valid_scheme s) InvalidSchemeError (Inr ())))
    (andthen (when_some authority (\<lambda>(user, passwd, host, port).
        raise_if (bad_leaf port digit_chars) InvalidPortError (precheck_host type_host host)))
    (andthen (when_some (or_none path) (\<lambda>p. raise_if (authority \<noteq> None \<and> hd p \<noteq> CHR ''/'')
        InvalidPathError (Inr ())))
    (Inr t))))"

definition encode_leaf :: "uelt \<Rightarrow> string \<Rightarrow> uelt" where
  "encode_leaf x encdct = (if utrue x then pct_encode x encdct else x)"

definition encode_authority :: "host_kind \<Rightarrow> uauth \<Rightarrow> uauth" where
  "encode_authority type_host a = (case a of (user, passwd, host, port) \<Rightarrow>
     (encode_leaf user USER_ENCDCT, encode_leaf passwd PASSWD_ENCDCT,
      if type_host = HOST_REG_NAME then encode_leaf host REG_NAME_ENCDCT else host,
      if is_int port then UStr (utext port) else port))"

definition encode_path :: "bool \<Rightarrow> string \<Rightarrow> string" where
  "encode_path noscheme path =
     (let p = quote path P_ENCDCT in
      if noscheme then
        (case cut_at CHR ''/'' p of (seg, rest) \<Rightarrow>
           replace_char CHR '':'' ''%3A'' seg @ (case rest of None \<Rightarrow> [] | Some r \<Rightarrow> ''/'' @ r))
      else p)"

definition uri_tree_encode :: "host_kind \<Rightarrow> utree \<Rightarrow> utree" where
  "uri_tree_encode type_host t = (case t of (scheme, authority, path, query, fragment) \<Rightarrow>
     (scheme, map_option (encode_authority type_host) authority,
      (case or_none path of None \<Rightarrow> path
       | Some p \<Rightarrow> Some (encode_path (authority = None \<and> or_none scheme = None) p)),
      map_option (map (\<lambda>(x, y). (query_elt_encode x QUERY_KEY_ENCDCT, query_elt_encode y QUERY_VAL_ENCDCT))) query,
      (case or_none fragment of None \<Rightarrow> fragment | Some f \<Rightarrow> Some (quote f FRAG_ENCDCT))))"

text \<open>The input is a coded tree, whose true leaves are strings.\<close>

definition unsplit_authority :: "uauth \<Rightarrow> string option" where
  "unsplit_authority a = (case a of (user, passwd, host, port) \<Rightarrow>
     (let userinfo = (if utrue user \<and> utrue passwd then Some (utext user @ '':'' @ utext passwd)
                      else if utrue user then Some (utext user)
                      else if utrue passwd then Some ('':'' @ utext passwd) else None);
          hostport = (if utrue host \<and> utrue port then Some (utext host @ '':'' @ utext port)
                      else if utrue host then Some (utext host)
                      else if utrue port then Some ('':'' @ utext port) else None)
      in case (userinfo, hostport) of
           (Some u, Some h) \<Rightarrow> Some (u @ ''@'' @ h)
         | (Some u, None) \<Rightarrow> Some (u @ ''@'')
         | (None, Some h) \<Rightarrow> Some h
         | (None, None) \<Rightarrow> None))"

definition uri_unsplit_tree :: "utree \<Rightarrow> string" where
  "uri_unsplit_tree t = (case t of (scheme, authority, path, query, fragment) \<Rightarrow>
     (let a = Option.bind authority unsplit_authority;
          q = (case query of None \<Rightarrow> [] | Some l \<Rightarrow> unsplit_query l);
          p = (case path of None \<Rightarrow> [] | Some p \<Rightarrow> p)
      in (case or_none scheme of None \<Rightarrow> [] | Some s \<Rightarrow> s @ '':'') @
         (case a of None \<Rightarrow> [] | Some x \<Rightarrow> ''//'' @ x) @
         (if a = None \<and> starts_with ''//'' p then ''//'' else []) @ p @
         (if q = [] then [] else ''?'' @ q) @
         (case or_none fragment of None \<Rightarrow> [] | Some f \<Rightarrow> ''#'' @ f)))"

definition uri_help_unsplit :: "utree \<Rightarrow> uri_error + string" where
  "uri_help_unsplit t =
     bind_sum (uri_tree_precode_check HOST_REG_NAME (uri_tree_normalize t))
       (\<lambda>t'. Inr (uri_unsplit_tree (uri_tree_encode HOST_REG_NAME t')))"

end
