(* ===== verification/Urisup_Properties.thy ===== *)
theory Urisup_Properties
  imports Urisup Network_Properties
begin

text \<open>
  Round trips of \<^verbatim>\<open>urisup\<close>: percent coding, the five-part split, and joining then splitting a whole
  tree.
\<close>

section \<open>Percent coding\<close>

definition utf8_ok :: "string \<Rightarrow> bool" where
  "utf8_ok s \<longleftrightarrow> utf8_replace s = s"

definition safe_set :: "string \<Rightarrow> bool" where
  "safe_set safe \<longleftrightarrow> CHR ''%'' \<notin> set safe \<and> list_all is_ascii safe"

lemma always_safe_ascii: "c \<in> set always_safe \<Longrightarrow> is_ascii c \<and> c \<noteq> CHR ''%''"
  by (rule charset_all [of _ always_safe]) (code_simp)

lemma hex_upper_safe: "c \<in> set HEX_UPPER \<Longrightarrow> c \<in> set always_safe"
  by (rule charset_all [of _ HEX_UPPER]) code_simp

lemma hex2_chars: "set (hex2 n) \<subseteq> set HEX_UPPER"
  using hex_upper_nth by (simp add: hex2_def)

lemma quote_Nil [simp]: "quote [] safe = []"
  by (simp add: quote_def)

lemma quote_Cons: "quote (c # s) safe =
  (if c \<in> set always_safe \<or> c \<in> set safe then [c] else pct_byte c) @ quote s safe"
  by (simp add: quote_def)

lemma quote_empty [simp]: "quote s safe = [] \<longleftrightarrow> s = []"
  by (cases s) (auto simp: quote_Cons pct_byte_def)

lemma quote_chars: "set (quote s safe) \<subseteq> insert (CHR ''%'') (set always_safe \<union> set safe)"
proof (induction s)
  case (Cons c s)
  have "set (pct_byte c) \<subseteq> insert (CHR ''%'') (set always_safe)"
    using hex2_chars [of "of_char c"] hex_upper_safe by (auto simp: pct_byte_def)
  with Cons show ?case by (auto simp: quote_Cons)
qed simp

lemma quote_ascii: "safe_set safe \<Longrightarrow> list_all is_ascii (quote s safe)"
proof -
  assume "safe_set safe"
  moreover have "is_ascii CHR ''%''" by code_simp
  ultimately show ?thesis using quote_chars [of s safe] always_safe_ascii
    by (auto simp: list_all_iff safe_set_def)
qed

lemma unquote_bytes_other: "c \<noteq> CHR ''%'' \<Longrightarrow> unquote_bytes (c # s) = c # unquote_bytes s"
  by (cases s rule: unquote_bytes.cases) auto

lemma hex2_decode:
  "unquote_bytes (pct_byte c @ s) = c # unquote_bytes s"
proof -
  have l: "(of_char c :: nat) < 256"
    by (rule nat_of_char_less_256)
  let ?n = "of_char c :: nat"
  have "?n div 16 < 16" using l by (simp add: less_mult_imp_div_less)
  then have d: "?n div 16 mod 16 = ?n div 16" by simp
  have "digit_val (HEX_UPPER ! (?n div 16)) = ?n div 16" "digit_val (HEX_UPPER ! (?n mod 16)) = ?n mod 16"
    using hex_upper_nth [of "?n div 16"] hex_upper_nth [of "?n mod 16"] \<open>?n div 16 < 16\<close> by simp_all
  moreover have "16 * (?n div 16) + ?n mod 16 = ?n" by simp
  ultimately show ?thesis using d \<open>?n div 16 < 16\<close>
    by (simp add: pct_byte_def hex2_def)
qed

lemma unquote_bytes_quote: "safe_set safe \<Longrightarrow> unquote_bytes (quote s safe) = s"
proof (induction s)
  case (Cons c s)
  have "c \<in> set always_safe \<or> c \<in> set safe \<Longrightarrow> c \<noteq> CHR ''%''"
    using always_safe_ascii [of c] Cons.prems by (auto simp: safe_set_def)
  with Cons show ?case
    by (auto simp: quote_Cons hex2_decode safe_set_def unquote_bytes_other)
qed simp

lemma unquote_run: "list_all is_ascii s \<Longrightarrow> unquote s = utf8_replace (unquote_bytes s)"
proof (cases s)
  case (Cons c t)
  assume a: "list_all is_ascii s"
  then have e: "takeWhile is_ascii t = t" "dropWhile is_ascii t = []"
    by (auto simp: Cons list_all_iff takeWhile_eq_all_conv dropWhile_eq_Nil_conv)
  show ?thesis using a by (simp add: Cons e)
qed simp

lemma pct_roundtrip: "safe_set safe \<Longrightarrow> utf8_ok s \<Longrightarrow> pct_decode (quote s safe) = s"
  by (simp add: pct_decode_def unquote_run quote_ascii unquote_bytes_quote utf8_ok_def)

lemma encdct_safe:
  "safe_set USER_ENCDCT" "safe_set PASSWD_ENCDCT" "safe_set REG_NAME_ENCDCT" "safe_set P_ENCDCT"
  "safe_set FRAG_ENCDCT" "safe_set QUERY_KEY_ENCDCT" "safe_set QUERY_VAL_ENCDCT"
  unfolding safe_set_def by code_simp+

section \<open>The five parts\<close>

type_synonym parts = "string option \<times> string option \<times> string \<times> string option \<times> string option"

text \<open>Recomposition as RFC 3986, section 5.3, gives it.\<close>

definition recompose :: "parts \<Rightarrow> string" where
  "recompose t = (case t of (scheme, authority, path, query, fragment) \<Rightarrow>
     (case scheme of None \<Rightarrow> [] | Some s \<Rightarrow> s @ '':'') @
     (case authority of None \<Rightarrow> [] | Some a \<Rightarrow> ''//'' @ a) @ path @
     (case query of None \<Rightarrow> [] | Some q \<Rightarrow> ''?'' @ q) @
     (case fragment of None \<Rightarrow> [] | Some f \<Rightarrow> ''#'' @ f))"

text \<open>A text that the split would read as starting with a scheme; the parts a split can produce.\<close>

definition scheme_like :: "string \<Rightarrow> bool" where
  "scheme_like p = (let s0 = takeWhile (\<lambda>c. c \<notin> set '':/?#'') p
     in s0 \<noteq> [] \<and> starts_with '':'' (drop (length s0) p))"

fun parts_ok :: "parts \<Rightarrow> bool" where
  "parts_ok (scheme, authority, path, query, fragment) =
     ((case scheme of None \<Rightarrow> True | Some s \<Rightarrow> s \<noteq> [] \<and> set s \<inter> set '':/?#'' = {}) \<and>
      (case authority of None \<Rightarrow> \<not> starts_with ''//'' path
       | Some a \<Rightarrow> set a \<inter> set ''/?#'' = {} \<and> (path = [] \<or> hd path = CHR ''/'')) \<and>
      (scheme = None \<longrightarrow> authority = None \<longrightarrow> \<not> scheme_like path) \<and>
      set path \<inter> set ''?#'' = {} \<and>
      (case query of None \<Rightarrow> True | Some q \<Rightarrow> CHR ''#'' \<notin> set q))"

lemma starts1: "starts_with [c] s \<longleftrightarrow> (\<exists>t. s = c # t)"
  by (cases s) (auto simp: starts_with_def)

lemma starts2: "starts_with [c, d] s \<longleftrightarrow> (\<exists>t. s = c # d # t)"
  by (cases s; cases "tl s") (auto simp: starts_with_def)

lemma drop_takeWhile: "takeWhile P s @ drop (length (takeWhile P s)) s = s"
  by (metis append_take_drop_id takeWhile_eq_take)

text \<open>The stages of the split, each with the rest of the input.\<close>

definition tail_of :: "string option \<Rightarrow> string option \<Rightarrow> string" where
  "tail_of query fragment =
     (case query of None \<Rightarrow> [] | Some q \<Rightarrow> ''?'' @ q) @ (case fragment of None \<Rightarrow> [] | Some f \<Rightarrow> ''#'' @ f)"

lemma takeWhile_app:
  "set a \<inter> X = {} \<Longrightarrow> (t = [] \<or> hd t \<in> X) \<Longrightarrow> takeWhile (\<lambda>c. c \<notin> X) (a @ t) = a"
  by (induction a) (auto, cases t, auto)

lemma takeWhile_ne:
  "c \<notin> set x \<Longrightarrow> takeWhile (\<lambda>y. y \<noteq> c) x = x" "c \<notin> set x \<Longrightarrow> takeWhile (\<lambda>y. y \<noteq> c) (x @ c # t) = x"
  by (induction x) auto

lemma starts1_app: "d \<noteq> [] \<Longrightarrow> starts_with [c] (d @ t) = starts_with [c] d"
  by (cases d) (auto simp: starts_with_def)

lemma starts1_simps [simp]: "starts_with [c] [] = False" "starts_with [c] (d # s) = (d = c)"
  by (auto simp: starts_with_def)

lemma take_fragment_app: "take_fragment (case f of None \<Rightarrow> [] | Some f \<Rightarrow> ''#'' @ f) = f"
  by (cases f) (simp_all add: take_fragment_def)

lemma take_query_app:
  assumes "case q of None \<Rightarrow> True | Some x \<Rightarrow> CHR ''#'' \<notin> set x"
  shows "take_query (tail_of q f) = (q, case f of None \<Rightarrow> [] | Some f \<Rightarrow> ''#'' @ f)"
proof (cases q)
  case None
  then show ?thesis by (cases f) (auto simp: tail_of_def take_query_def)
next
  case (Some x)
  with assms have x: "CHR ''#'' \<notin> set x" by simp
  show ?thesis unfolding Some by (cases f) (simp_all add: tail_of_def takeWhile_ne [OF x] take_query_def)
qed

lemma tail_of_hd: "tail_of q f = [] \<or> hd (tail_of q f) \<in> set ''?#''"
  by (auto simp: tail_of_def split: option.splits)

lemma take_path_app:
  assumes "set path \<inter> set ''?#'' = {}"
  shows "take_path (path @ tail_of q f) = (path, tail_of q f)"
proof -
  have "takeWhile (\<lambda>c. c \<notin> set ''?#'') (path @ tail_of q f) = path"
    using assms tail_of_hd by (rule takeWhile_app)
  then show ?thesis unfolding take_path_def Let_def by simp
qed

lemma take_authority_app:
  assumes "case a of None \<Rightarrow> \<not> starts_with ''//'' r | Some x \<Rightarrow> set x \<inter> set ''/?#'' = {}"
    and r: "a \<noteq> None \<Longrightarrow> r = [] \<or> hd r \<in> set ''/?#''"
  shows "take_authority ((case a of None \<Rightarrow> [] | Some x \<Rightarrow> ''//'' @ x) @ r) = (a, r)"
proof (cases a)
  case None
  with assms show ?thesis by (simp add: take_authority_def)
next
  case (Some x)
  have t: "takeWhile (\<lambda>c. c \<notin> set ''/?#'') (x @ r) = x"
    by (rule takeWhile_app) (use assms Some in auto)
  have d: "drop 2 (''//'' @ x @ r) = x @ r" "starts_with ''//'' (''//'' @ x @ r)" by (simp_all add: starts2)
  show ?thesis unfolding Some option.case append_assoc take_authority_def d t Let_def using d(2) by simp
qed

lemma take_scheme_app:
  assumes "case sch of None \<Rightarrow> \<not> scheme_like r | Some s \<Rightarrow> s \<noteq> [] \<and> set s \<inter> set '':/?#'' = {}"
  shows "take_scheme ((case sch of None \<Rightarrow> [] | Some s \<Rightarrow> s @ '':'') @ r) = (sch, r)"
proof (cases sch)
  case None
  with assms show ?thesis by (simp add: Let_def scheme_like_def take_scheme_def)
next
  case (Some s)
  have t: "takeWhile (\<lambda>c. c \<notin> set '':/?#'') (s @ '':'' @ r) = s"
    by (rule takeWhile_app) (use assms Some in auto)
  show ?thesis unfolding Some option.case append_assoc take_scheme_def t Let_def using assms Some by simp
qed

lemma starts_dbl_app: "set p \<inter> set ''?#'' = {} \<Longrightarrow> starts_with ''//'' (p @ tail_of q f) = starts_with ''//'' p"
  using tail_of_hd [of q f] by (cases p; cases "tl p"; cases "tail_of q f") (auto simp: starts_with_def)

lemma scheme_like_app:
  assumes "set p \<inter> set ''?#'' = {}"
  shows "scheme_like (p @ tail_of q f) = scheme_like p"
proof (cases "set p \<inter> set '':/?#'' = {}")
  case True
  have t1: "takeWhile (\<lambda>c. c \<notin> set '':/?#'') (p @ tail_of q f) = p"
    by (rule takeWhile_app [OF True]) (use tail_of_hd [of q f] in auto)
  have t2: "takeWhile (\<lambda>c. c \<notin> set '':/?#'') p = p"
    using takeWhile_app [OF True, of "[]"] by simp
  have "\<not> starts_with '':'' (tail_of q f)" using tail_of_hd [of q f] by (cases "tail_of q f") auto
  then show ?thesis unfolding scheme_like_def Let_def t1 t2 by simp
next
  case False
  then obtain x where "x \<in> set p" "x \<in> set '':/?#''" by blast
  then have "takeWhile (\<lambda>c. c \<notin> set '':/?#'') (p @ t) = takeWhile (\<lambda>c. c \<notin> set '':/?#'') p" for t
    by (subst takeWhile_append1 [of x]) auto
  moreover have "drop (length (takeWhile (\<lambda>c. c \<notin> set '':/?#'') p)) p \<noteq> []"
  proof
    assume "drop (length (takeWhile (\<lambda>c. c \<notin> set '':/?#'') p)) p = []"
    then have "takeWhile (\<lambda>c. c \<notin> set '':/?#'') p = p" using drop_takeWhile by (metis append_Nil2)
    then have "x \<notin> set '':/?#''" using \<open>x \<in> set p\<close> set_takeWhileD by metis
    then show False using \<open>x \<in> set '':/?#''\<close> by blast
  qed
  ultimately show ?thesis by (simp only: scheme_like_def Let_def drop_append starts1_app not_False_eq_True)
qed

text \<open>Splitting what was recomposed from well-formed parts.\<close>

lemma urisplit_recompose:
  assumes "parts_ok (sch, a, p, q, f)"
  shows "basic_urisplit (recompose (sch, a, p, q, f)) = (sch, a, p, q, f)"
proof -
  note ok = assms [unfolded parts_ok.simps]
  let ?r = "p @ tail_of q f"
  let ?r1 = "(case a of None \<Rightarrow> [] | Some x \<Rightarrow> ''//'' @ x) @ ?r"
  have rec: "recompose (sch, a, p, q, f) = (case sch of None \<Rightarrow> [] | Some s \<Rightarrow> s @ '':'') @ ?r1"
    by (simp add: recompose_def tail_of_def)
  have p: "set p \<inter> set ''?#'' = {}" using ok by blast
  have "sch = None \<Longrightarrow> \<not> scheme_like ?r1"
    using ok scheme_like_app [OF p, of q f] by (cases a) (simp_all add: scheme_like_def)
  then have sch: "case sch of None \<Rightarrow> \<not> scheme_like ?r1 | Some s \<Rightarrow> s \<noteq> [] \<and> set s \<inter> set '':/?#'' = {}"
    using ok by (cases sch) simp_all
  have au: "case a of None \<Rightarrow> \<not> starts_with ''//'' ?r | Some x \<Rightarrow> set x \<inter> set ''/?#'' = {}"
    using ok starts_dbl_app [OF p, of q f] by (cases a) simp_all
  have r: "a \<noteq> None \<Longrightarrow> ?r = [] \<or> hd ?r \<in> set ''/?#''"
    using ok tail_of_hd [of q f] by (cases p) auto
  have q: "case q of None \<Rightarrow> True | Some x \<Rightarrow> CHR ''#'' \<notin> set x" using ok by blast
  show ?thesis unfolding rec basic_urisplit_def
    by (simp add: take_scheme_app [OF sch] take_authority_app [OF au r] take_path_app [OF p]
        take_query_app [OF q] take_fragment_app)
qed

text \<open>Each group and the rest it leaves make up the text it was given.\<close>

lemma take_scheme_eq: "take_scheme u = (sch, r) \<Longrightarrow> u = (case sch of None \<Rightarrow> [] | Some s \<Rightarrow> s @ '':'') @ r"
  using drop_takeWhile [of "\<lambda>c. c \<notin> set '':/?#''" u]
  by (cases "drop (length (takeWhile (\<lambda>c. c \<notin> set '':/?#'') u)) u")
    (auto simp: take_scheme_def Let_def simp del: takeWhile_eq_Nil_iff set_simps split: if_splits)

lemma take_authority_eq: "take_authority u = (a, r) \<Longrightarrow> u = (case a of None \<Rightarrow> [] | Some x \<Rightarrow> ''//'' @ x) @ r"
  using drop_takeWhile [of "\<lambda>c. c \<notin> set ''/?#''" "drop 2 u"]
  by (auto simp: take_authority_def Let_def starts2 simp del: set_simps split: if_splits)

lemma take_path_eq: "take_path u = (p, r) \<Longrightarrow> u = p @ r"
  using drop_takeWhile [of "\<lambda>c. c \<notin> set ''?#''" u] by (auto simp: take_path_def Let_def simp del: set_simps)

lemma take_query_eq: "take_query u = (q, r) \<Longrightarrow> u = (case q of None \<Rightarrow> [] | Some x \<Rightarrow> ''?'' @ x) @ r"
  using starts_with_append [of "''?''" u] drop_takeWhile [of "\<lambda>c. c \<noteq> CHR ''#''" "drop 1 u"]
  by (auto simp: take_query_def Let_def split: if_splits)

text \<open>The same with \<^term>\<open>dropWhile\<close>, and where the groups stop.\<close>

lemma take_alts:
  "take_path u = (takeWhile (\<lambda>c. c \<notin> set ''?#'') u, dropWhile (\<lambda>c. c \<notin> set ''?#'') u)"
  "take_query u = (if starts_with ''?'' u
     then (Some (takeWhile (\<lambda>c. c \<noteq> CHR ''#'') (drop 1 u)), dropWhile (\<lambda>c. c \<noteq> CHR ''#'') (drop 1 u))
     else (None, u))"
  "take_authority u = (if starts_with ''//'' u
     then (Some (takeWhile (\<lambda>c. c \<notin> set ''/?#'') (drop 2 u)), dropWhile (\<lambda>c. c \<notin> set ''/?#'') (drop 2 u))
     else (None, u))"
  by (simp_all only: take_path_def take_query_def take_authority_def Let_def dropWhile_eq_drop)

lemma dropWhile_hd: "dropWhile P u = [] \<or> \<not> P (hd (dropWhile P u))"
  using hd_dropWhile [of P u] by blast

lemma takeWhile_none_of: "set (takeWhile (\<lambda>c. c \<notin> X) u) \<inter> X = {}"
  by (auto dest: set_takeWhileD)

lemma scheme_like_take: "scheme_like u = (fst (take_scheme u) \<noteq> None)"
  by (simp add: scheme_like_def take_scheme_def Let_def)

lemma split_parts_ok: "parts_ok (basic_urisplit u)"
proof -
  obtain sch r1 where s: "take_scheme u = (sch, r1)" by (cases "take_scheme u")
  obtain a r2 where a: "take_authority r1 = (a, r2)" by (cases "take_authority r1")
  obtain p r3 where p: "take_path r2 = (p, r3)" by (cases "take_path r2")
  obtain q r4 where q: "take_query r3 = (q, r4)" by (cases "take_query r3")
  have us: "basic_urisplit u = (sch, a, p, q, take_fragment r4)"
    by (simp add: basic_urisplit_def s a p q)
  have 1: "case sch of None \<Rightarrow> True | Some s \<Rightarrow> s \<noteq> [] \<and> set s \<inter> set '':/?#'' = {}"
    using s takeWhile_none_of [of "set '':/?#''" u] by (auto simp: take_scheme_def Let_def simp del: set_simps split: if_splits)
  have p': "p = takeWhile (\<lambda>c. c \<notin> set ''?#'') r2" "r3 = dropWhile (\<lambda>c. c \<notin> set ''?#'') r2"
    using p by (simp_all only: take_alts prod.inject)
  have 4: "set p \<inter> set ''?#'' = {}" unfolding p' by (rule takeWhile_none_of)
  have r3: "r3 = [] \<or> hd r3 \<in> set ''?#''" using dropWhile_hd [of "\<lambda>c. c \<notin> set ''?#''" r2] p' by simp
  have 5: "case q of None \<Rightarrow> True | Some x \<Rightarrow> CHR ''#'' \<notin> set x"
    using q by (auto simp: take_alts dest: set_takeWhileD split: if_splits)
  have r2: "r2 = p @ r3" by (rule take_path_eq [OF p])
  have 2: "case a of None \<Rightarrow> \<not> starts_with ''//'' p
       | Some x \<Rightarrow> set x \<inter> set ''/?#'' = {} \<and> (p = [] \<or> hd p = CHR ''/'')"
  proof (cases a)
    case None
    then have "\<not> starts_with ''//'' r2" using a by (auto simp: take_authority_def Let_def split: if_splits)
    then show ?thesis using None r2 by (auto simp: starts2)
  next
    case (Some x)
    then have x: "x = takeWhile (\<lambda>c. c \<notin> set ''/?#'') (drop 2 r1)" "r2 = dropWhile (\<lambda>c. c \<notin> set ''/?#'') (drop 2 r1)"
      using a by (cases "starts_with ''//'' r1"; simp only: take_alts option.inject prod.inject if_True if_False; simp)+
    have "r2 = [] \<or> hd r2 \<in> set ''/?#''" using dropWhile_hd [of "\<lambda>c. c \<notin> set ''/?#''" "drop 2 r1"] x(2) by simp
    then have "p = [] \<or> hd p = CHR ''/''" using r2 4 by (cases p) auto
    moreover have "set x \<inter> set ''/?#'' = {}" unfolding x(1) by (rule takeWhile_none_of)
    ultimately show ?thesis by (simp add: Some)
  qed
  have 3: "\<not> scheme_like p" if "sch = None" "a = None"
  proof
    assume "scheme_like p"
    have "u = r2" using take_scheme_eq [OF s] take_authority_eq [OF a] that by simp
    then have "\<not> scheme_like (p @ r3)" using s that r2 by (simp add: scheme_like_take)
    moreover have "scheme_like (p @ r3)"
    proof -
      have "r3 = tail_of q (take_fragment r4)"
      proof -
        have "r4 = [] \<or> hd r4 = CHR ''#''"
        proof (cases "starts_with ''?'' r3")
          case True
          then have "r4 = dropWhile (\<lambda>c. c \<noteq> CHR ''#'') (drop 1 r3)" using q by (simp add: take_alts)
          then show ?thesis using dropWhile_hd [of "\<lambda>c. c \<noteq> CHR ''#''" "drop 1 r3"] by simp
        next
          case False
          then have "r4 = r3" using q by (simp add: take_alts)
          then show ?thesis using r3 False by (cases r3) auto
        qed
        then have "r4 = (case take_fragment r4 of None \<Rightarrow> [] | Some f \<Rightarrow> ''#'' @ f)"
          by (cases r4) (auto simp: take_fragment_def)
        with take_query_eq [OF q] show ?thesis by (simp add: tail_of_def)
      qed
      with scheme_like_app [OF 4] \<open>scheme_like p\<close> show ?thesis by simp
    qed
    ultimately show False by blast
  qed
  show ?thesis unfolding us parts_ok.simps using 1 2 3 4 5 by blast
qed

lemma split_recompose: "recompose (basic_urisplit u) = u"
proof -
  obtain sch r1 where s: "take_scheme u = (sch, r1)" by (cases "take_scheme u")
  obtain a r2 where a: "take_authority r1 = (a, r2)" by (cases "take_authority r1")
  obtain p r3 where p: "take_path r2 = (p, r3)" by (cases "take_path r2")
  obtain q r4 where q: "take_query r3 = (q, r4)" by (cases "take_query r3")
  have r3: "r3 = [] \<or> hd r3 \<in> set ''?#''"
    using p dropWhile_hd [of "\<lambda>c. c \<notin> set ''?#''" r2] by (simp only: take_alts prod.inject) auto
  have "r4 = [] \<or> hd r4 = CHR ''#''"
  proof (cases "starts_with ''?'' r3")
    case True
    then have "r4 = dropWhile (\<lambda>c. c \<noteq> CHR ''#'') (drop 1 r3)" using q by (simp add: take_alts)
    then show ?thesis using dropWhile_hd [of "\<lambda>c. c \<noteq> CHR ''#''" "drop 1 r3"] by simp
  next
    case False
    then have "r4 = r3" using q by (simp add: take_alts)
    then show ?thesis using r3 False by (cases r3) auto
  qed
  then have f: "r4 = (case take_fragment r4 of None \<Rightarrow> [] | Some f \<Rightarrow> ''#'' @ f)"
    by (cases r4) (auto simp: take_fragment_def)
  have us: "basic_urisplit u = (sch, a, p, q, take_fragment r4)"
    by (simp add: basic_urisplit_def s a p q)
  show "recompose (basic_urisplit u) = u" unfolding us recompose_def prod.case
    using take_scheme_eq [OF s] take_authority_eq [OF a] take_path_eq [OF p] take_query_eq [OF q] f by simp
qed

text \<open>
  C9: \<^verbatim>\<open>basic_urisplit\<close> loses nothing: recomposing its five parts with the delimiters of RFC 3986 gives
  back the URI, for every string; and splitting what was recomposed from well-formed parts gives
  back the parts, which every split is.
\<close>
theorem urisplit_lossless:
  "recompose (basic_urisplit u) = u \<and> parts_ok (basic_urisplit u) \<and>
   (parts_ok t \<longrightarrow> basic_urisplit (recompose t) = t)"
  using split_recompose split_parts_ok urisplit_recompose by (cases t) auto

theorem urisplit_lossless_witness:
  "basic_urisplit (recompose (Some ''http'', Some ''h'', ''/p'', None, Some ''f'')) =
     (Some ''http'', Some ''h'', ''/p'', None, Some ''f'')"
  using urisplit_lossless [of "[]" "(Some ''http'', Some ''h'', ''/p'', None, Some ''f'')"] by simp

section \<open>Two corners of hosts\<close>

text \<open>The doctest of \<^verbatim>\<open>host_type\<close> with leading zeros: \<^verbatim>\<open>int(s, 0)\<close> does not take them, so this is a name.\<close>

lemma host_type_documented: "host_type ''0x7F.0.0.00000000000001'' = HOST_REG_NAME"
  by code_simp

text \<open>The dollar of the patterns also matches before a final line feed.\<close>

lemma ip_literal_line_feed:
  "split_authority (''[::1]'' @ [LF]) = Inr (UNone, UNone, UStr ''[::1]'', UNone)"
  "valid_IPLiteral (''[v1.a'' @ [LF] @ '']'')"
  by code_simp+

end
