(* ===== verification/Argpolicy.thy ===== *)
theory Argpolicy
  imports Regex
begin

text \<open>
  \<^verbatim>\<open>sonicprobe/libs/argpolicy.py\<close>: policies for argument lists and environments, compiled once and
  then applied. Specifications and inputs are dynamically typed (\<^typ>\<open>pyval\<close>). The \<^verbatim>\<open>regex\<close> package
  is a parameter: \<open>compile\<close> is \<open>None\<close> when the package is missing, a compiled pattern is of any type
  \<open>'r\<close>, and \<open>fullmatch\<close> may find a match or none, miss its deadline or raise. Digits in negative
  numbers are the ASCII ones.
\<close>

datatype policy_exn = PolicyError string | ValidationError string | EngineError

datatype rx_outcome = Matched | Unmatched | TimedOut | Crashed

type_synonym 'r rx_compile = "(string \<Rightarrow> 'r option) option"
type_synonym 'r rx_fullmatch = "'r \<Rightarrow> string \<Rightarrow> rx_outcome"

section \<open>Names\<close>

definition letters :: string where "letters = upper_chars @ lower_chars"

definition OPTION_NAME :: regex where
  "OPTION_NAME = Seq (UpTo 2 (Lit CHR ''-''))
     (Seq (Chars letters) (Star (Chars (letters @ digit_chars @ ''_-''))))"

definition ENV_NAME :: regex where
  "ENV_NAME = Seq (Chars (letters @ ''_'')) (Star (Chars (letters @ digit_chars @ ''_'')))"

definition NEGATIVE_NUMBER :: regex where
  "NEGATIVE_NUMBER = Seq (Lit CHR ''-'') (Seq (Plus (Chars digit_chars))
     (Opt (Seq (Lit CHR ''.'') (Plus (Chars digit_chars)))))"

definition RULE_FIELDS :: "pyval list" where
  "RULE_FIELDS = map VStr [''regex'', ''choices'', ''nargs'', ''repeatable'']"

definition MAX_RULES :: nat where "MAX_RULES = 256"
definition MAX_PATTERN :: nat where "MAX_PATTERN = 1024"
definition MAX_VALUE :: nat where "MAX_VALUE = 65536"

definition option_name :: "pyval \<Rightarrow> policy_exn + string" where
  "option_name name = (case name of
       VStr s \<Rightarrow> if full_match OPTION_NAME s
                then Inr (if starts_with ''-'' s then s else ''--'' @ s)
                else Inl (PolicyError ''invalid option name'')
     | _ \<Rightarrow> Inl (PolicyError ''invalid option name''))"

definition env_name :: "pyval \<Rightarrow> policy_exn + string" where
  "env_name name = (case name of
       VStr s \<Rightarrow> if full_match ENV_NAME s then Inr s
                else Inl (PolicyError ''invalid environment variable name'')
     | _ \<Rightarrow> Inl (PolicyError ''invalid environment variable name''))"

section \<open>Policy entries\<close>

text \<open>A policy is a boolean for every name, or a mapping of the names it lists.\<close>

datatype 'a entries = All bool | Named "(string, 'a) dict"

definition item_entries :: "bool \<Rightarrow> pyval \<Rightarrow> policy_exn + (pyval \<times> pyval) list" where
  "item_entries rules item = (case item of
       VStr s \<Rightarrow> Inr [(item, VNone)]
     | VDict d \<Rightarrow> if rules \<and> length d = 1 then Inr d
                 else Inl (PolicyError ''expected names or single-name rule mappings'')
     | _ \<Rightarrow> Inl (PolicyError ''expected names or single-name rule mappings''))"

fun collect_entries :: "(pyval \<Rightarrow> policy_exn + string) \<Rightarrow> (pyval \<times> pyval) list \<Rightarrow>
    (string, pyval) dict \<Rightarrow> policy_exn + (string, pyval) dict" where
  "collect_entries norm [] r = Inr r"
| "collect_entries norm ((k, rule) # es) r = bind_sum (norm k) (\<lambda>name.
     raise_if (dhas r name) (PolicyError (''duplicate policy name: '' @ name))
       (collect_entries norm es (dset r name rule)))"

definition named_entries ::
  "(pyval \<Rightarrow> policy_exn + string) \<Rightarrow> (pyval \<times> pyval) list \<Rightarrow> policy_exn + pyval entries" where
  "named_entries norm es = raise_if (MAX_RULES < length es) (PolicyError ''too many policy rules'')
     (bind_sum (collect_entries norm es []) (\<lambda>r. Inr (Named r)))"

definition entries ::
  "pyval \<Rightarrow> (pyval \<Rightarrow> policy_exn + string) \<Rightarrow> bool \<Rightarrow> policy_exn + pyval entries" where
  "entries spec norm rules = (case spec of
       VBool b \<Rightarrow> Inr (All b)
     | VDict d \<Rightarrow> if rules then named_entries norm d
                 else Inl (PolicyError ''expected a boolean, name list or rule mapping'')
     | VList items \<Rightarrow> bind_sum (each (item_entries rules) items) (\<lambda>ess. named_entries norm (concat ess))
     | _ \<Rightarrow> Inl (PolicyError ''expected a boolean, name list or rule mapping''))"

section \<open>Rules\<close>

datatype nargs = Count nat | OneOrMore | AnyNumber

record 'r rule =
  r_name :: string
  r_nargs :: nargs
  r_repeatable :: bool
  r_choices :: "string list option"
  r_pattern :: "'r option"

definition spec_fields :: "string \<Rightarrow> pyval \<Rightarrow> policy_exn + (pyval, pyval) dict" where
  "spec_fields name spec = (case spec of
       VNone \<Rightarrow> Inr []
     | VBool True \<Rightarrow> Inr []
     | VStr s \<Rightarrow> Inr [(VStr ''regex'', VStr s)]
     | VDict d \<Rightarrow> raise_if (list_ex (\<lambda>k. k \<notin> set RULE_FIELDS) (dkeys d))
         (PolicyError (''invalid rule for '' @ name)) (Inr d)
     | _ \<Rightarrow> Inl (PolicyError (''invalid rule for '' @ name)))"

definition read_nargs :: "pyval \<Rightarrow> policy_exn + nargs" where
  "read_nargs v = (let bad = Inl (PolicyError ''nargs must be a nonnegative integer, + or *'') in
     (case v of
       VInt i \<Rightarrow> if 0 \<le> i \<and> i \<le> int MAX_RULES then Inr (Count (nat i)) else bad
     | VStr s \<Rightarrow> if s = ''+'' then Inr OneOrMore else if s = ''*'' then Inr AnyNumber else bad
     | _ \<Rightarrow> bad))"

definition read_repeatable :: "pyval \<Rightarrow> policy_exn + bool" where
  "read_repeatable v = (case v of VBool b \<Rightarrow> Inr b | _ \<Rightarrow> Inl (PolicyError ''repeatable must be boolean''))"

definition bounded_text :: "pyval \<Rightarrow> string option" where
  "bounded_text v = (case v of
       VStr s \<Rightarrow> if CHR 0x00 \<in> set s \<or> MAX_VALUE < py_len s then None else Some s
     | _ \<Rightarrow> None)"

definition read_choice :: "pyval \<Rightarrow> policy_exn + string" where
  "read_choice v = (case bounded_text v of None \<Rightarrow> Inl (PolicyError ''choices must contain strings'')
     | Some s \<Rightarrow> Inr s)"

definition read_choices :: "pyval option \<Rightarrow> policy_exn + string list option" where
  "read_choices c = (case c of
       None \<Rightarrow> Inr None
     | Some (VList vs) \<Rightarrow>
         if vs = [] \<or> MAX_RULES < length vs then Inl (PolicyError ''choices must contain strings'')
         else bind_sum (each read_choice vs) (\<lambda>ss. Inr (Some ss))
     | Some _ \<Rightarrow> Inl (PolicyError ''choices must contain strings''))"

definition read_pattern ::
  "'r rx_compile \<Rightarrow> string \<Rightarrow> pyval option \<Rightarrow> policy_exn + 'r option" where
  "read_pattern compile name p = (case p of
       None \<Rightarrow> Inr None
     | Some (VStr s) \<Rightarrow>
         if MAX_PATTERN < py_len s then Inl (PolicyError (''invalid regex for '' @ name))
         else (case compile of
                 None \<Rightarrow> Inl (PolicyError ''regex rules require the regex package'')
               | Some cp \<Rightarrow> (case cp s of None \<Rightarrow> Inl (PolicyError (''invalid regex for '' @ name))
                            | Some r \<Rightarrow> Inr (Some r)))
     | Some _ \<Rightarrow> Inl (PolicyError (''invalid regex for '' @ name)))"

definition new_rule :: "'r rx_compile \<Rightarrow> bool \<Rightarrow> string \<Rightarrow> pyval \<Rightarrow> policy_exn + 'r rule" where
  "new_rule compile arguments name spec0 =
     bind_sum (spec_fields name spec0) (\<lambda>spec.
     raise_if (\<not> arguments \<and> (dhas spec (VStr ''nargs'') \<or> dhas spec (VStr ''repeatable'')))
       (PolicyError ''environment rules do not accept nargs or repeatable'')
    (bind_sum (read_nargs (dgetd spec (VStr ''nargs'') (VInt 1))) (\<lambda>n.
     bind_sum (read_repeatable (dgetd spec (VStr ''repeatable'') (VBool False))) (\<lambda>rep.
     bind_sum (read_choices (dget spec (VStr ''choices''))) (\<lambda>cs.
     bind_sum (read_pattern compile name (dget spec (VStr ''regex''))) (\<lambda>p.
     raise_if (n = Count 0 \<and> (p \<noteq> None \<or> cs \<noteq> None))
       (PolicyError ''valueless options cannot have value rules'')
       (Inr \<lparr>r_name = name, r_nargs = n, r_repeatable = rep, r_choices = cs, r_pattern = p\<rparr>)))))))"

definition rule_validate :: "'r rx_fullmatch \<Rightarrow> 'r rule \<Rightarrow> string \<Rightarrow> policy_exn + unit" where
  "rule_validate fullmatch rule v =
     raise_if (case r_choices rule of None \<Rightarrow> False | Some cs \<Rightarrow> v \<notin> set cs)
       (ValidationError (''value outside choices for '' @ r_name rule))
       (case r_pattern rule of None \<Rightarrow> Inr ()
        | Some p \<Rightarrow> (case fullmatch p v of
             Matched \<Rightarrow> Inr ()
           | Unmatched \<Rightarrow> Inl (ValidationError (''value does not match regex for '' @ r_name rule))
           | TimedOut \<Rightarrow> Inl (ValidationError (''regex deadline exceeded for '' @ r_name rule))
           | Crashed \<Rightarrow> Inl EngineError))"

text \<open>The rules of a mapping, in its order.\<close>

fun compile_rules :: "'r rx_compile \<Rightarrow> bool \<Rightarrow> (string, pyval) dict \<Rightarrow> policy_exn + (string, 'r rule) dict"
where
  "compile_rules compile arguments [] = Inr []"
| "compile_rules compile arguments ((name, spec) # d) = bind_sum (new_rule compile arguments name spec)
     (\<lambda>r. bind_sum (compile_rules compile arguments d) (\<lambda>rs. Inr ((name, r) # rs)))"

record 'r policy =
  p_allow :: "'r rule entries"
  p_disallow :: "pyval entries"

definition new_policy :: "'r rx_compile \<Rightarrow> bool \<Rightarrow> (pyval \<Rightarrow> policy_exn + string) \<Rightarrow>
    pyval \<Rightarrow> pyval \<Rightarrow> policy_exn + 'r policy" where
  "new_policy compile arguments norm allow disallow =
     bind_sum (entries allow norm True) (\<lambda>a.
     bind_sum (entries disallow norm False) (\<lambda>d.
     (case a of
        All b \<Rightarrow> Inr \<lparr>p_allow = All b, p_disallow = d\<rparr>
      | Named es \<Rightarrow> bind_sum (compile_rules compile arguments es)
          (\<lambda>rs. Inr \<lparr>p_allow = Named rs, p_disallow = d\<rparr>))))"

definition new_args_policy :: "'r rx_compile \<Rightarrow> pyval \<Rightarrow> pyval \<Rightarrow> policy_exn + 'r policy" where
  "new_args_policy compile allow disallow = new_policy compile True option_name allow disallow"

definition new_env_policy :: "'r rx_compile \<Rightarrow> pyval \<Rightarrow> pyval \<Rightarrow> policy_exn + 'r policy" where
  "new_env_policy compile allow disallow = new_policy compile False env_name allow disallow"

section \<open>Argument lists\<close>

definition text_arg :: "pyval \<Rightarrow> policy_exn + string" where
  "text_arg v = (case bounded_text v of
       None \<Rightarrow> Inl (ValidationError ''expected bounded text without NUL bytes'')
     | Some s \<Rightarrow> Inr s)"

definition is_option :: "string \<Rightarrow> bool" where
  "is_option token = (starts_with ''-'' token \<and> token \<noteq> ''-'' \<and> \<not> full_match NEGATIVE_NUMBER token)"

definition denied :: "pyval entries \<Rightarrow> string \<Rightarrow> bool" where
  "denied deny name = (case deny of All b \<Rightarrow> b | Named d \<Rightarrow> dhas d name)"

definition deny_configured :: "pyval entries \<Rightarrow> bool" where
  "deny_configured deny = (case deny of All b \<Rightarrow> b | Named d \<Rightarrow> d \<noteq> [])"

text \<open>The scan of an unrestricted policy.\<close>

fun scan_unrestricted :: "pyval entries \<Rightarrow> string list \<Rightarrow> policy_exn + unit" where
  "scan_unrestricted deny [] = Inr ()"
| "scan_unrestricted deny (token # ts) =
     (if token = ''--'' then Inr ()
      else if is_option token then
        (let name = fst (cut_at CHR ''='' token) in
         raise_if (denied deny name) (ValidationError (''forbidden option: '' @ name))
        (raise_if (deny_configured deny \<and> starts_with ''-'' name \<and> \<not> starts_with ''--'' name \<and> 2 < py_len name)
           (ValidationError ''compact short options are ambiguous with a deny list'')
        (scan_unrestricted deny ts)))
      else scan_unrestricted deny ts)"

definition nargs_max :: "nargs \<Rightarrow> nat option" where
  "nargs_max n = (case n of Count k \<Rightarrow> Some k | _ \<Rightarrow> None)"

definition nargs_min :: "nargs \<Rightarrow> nat" where
  "nargs_min n = (case n of Count k \<Rightarrow> k | OneOrMore \<Rightarrow> 1 | AnyNumber \<Rightarrow> 0)"

text \<open>The inner loop: values are consumed while there is room and the next token is not an option.\<close>

fun take_values :: "nat option \<Rightarrow> nat \<Rightarrow> string list \<Rightarrow> string list \<times> string list" where
  "take_values maximum n [] = ([], [])"
| "take_values maximum n (a # as) =
     (if (case maximum of None \<Rightarrow> True | Some k \<Rightarrow> n < k) \<and> \<not> is_option a
      then (case take_values maximum (Suc n) as of (vs, rest) \<Rightarrow> (a # vs, rest))
      else ([], a # as))"

lemma take_values_append: "take_values m n as = (vs, rest) \<Longrightarrow> as = vs @ rest"
  by (induction m n as arbitrary: vs rest rule: take_values.induct) (auto split: if_splits prod.splits)

definition given_values :: "string option \<Rightarrow> string list \<Rightarrow> string list" where
  "given_values attached vs = (case attached of None \<Rightarrow> vs | Some a \<Rightarrow> a # vs)"

definition wrong_count :: "nargs \<Rightarrow> nat \<Rightarrow> bool" where
  "wrong_count n k = (k < nargs_min n \<or> (case nargs_max n of None \<Rightarrow> False | Some m \<Rightarrow> k \<noteq> m))"

function scan_args :: "'r rx_fullmatch \<Rightarrow> (string, 'r rule) dict \<Rightarrow> pyval entries \<Rightarrow> nat \<Rightarrow>
    string list \<Rightarrow> string list \<Rightarrow> policy_exn + unit" where
  "scan_args fm allow deny index seen [] = Inr ()"
| "scan_args fm allow deny index seen (token # rest) =
     (case cut_at CHR ''='' token of (name, attached) \<Rightarrow>
      (case dget allow name of
         None \<Rightarrow> Inl (ValidationError (''unknown or forbidden option at argument '' @ show_nat index))
       | Some rule \<Rightarrow>
          raise_if (denied deny name)
            (ValidationError (''unknown or forbidden option at argument '' @ show_nat index))
         (raise_if (name \<in> set seen \<and> \<not> r_repeatable rule)
            (ValidationError (''option cannot repeat: '' @ name))
         (case take_values (nargs_max (r_nargs rule)) (length (given_values attached [])) rest of (vs, rest') \<Rightarrow>
            raise_if (wrong_count (r_nargs rule) (length (given_values attached vs)))
              (ValidationError (''wrong value count for '' @ name))
           (andthen (each (rule_validate fm rule) (given_values attached vs))
             (scan_args fm allow deny (Suc (index + length vs)) (name # seen) rest'))))))"
  by pat_completeness auto
termination
  by (relation "measure (\<lambda>(fm, allow, deny, index, seen, args). length args)")
    (auto dest: take_values_append [OF sym])

definition args_validate :: "'r rx_fullmatch \<Rightarrow> 'r policy \<Rightarrow> pyval \<Rightarrow> policy_exn + pyval" where
  "args_validate fm p args = (case args of
       VList vs \<Rightarrow> bind_sum (each text_arg vs) (\<lambda>ts.
         raise_if (ts \<noteq> [] \<and> (p_allow p = All False \<or> p_disallow p = All True))
           (ValidationError ''client arguments are forbidden'')
        (andthen (case p_allow p of
             All True \<Rightarrow> scan_unrestricted (p_disallow p) ts
           | All False \<Rightarrow> Inr ()
           | Named d \<Rightarrow> scan_args fm d (p_disallow p) 0 [] ts)
         (Inr args)))
     | _ \<Rightarrow> Inl (ValidationError ''arguments must be a list''))"

definition validate_args ::
  "'r rx_compile \<Rightarrow> 'r rx_fullmatch \<Rightarrow> pyval \<Rightarrow> pyval \<Rightarrow> pyval \<Rightarrow> policy_exn + pyval" where
  "validate_args compile fm args allow disallow =
     bind_sum (new_args_policy compile allow disallow) (\<lambda>p. args_validate fm p args)"

section \<open>Environments\<close>

definition env_item :: "'r rx_fullmatch \<Rightarrow> 'r policy \<Rightarrow> pyval \<times> pyval \<Rightarrow> policy_exn + unit" where
  "env_item fm p item = (case item of (name, v) \<Rightarrow>
     (case env_name name of
        Inl _ \<Rightarrow> Inl (ValidationError ''invalid environment variable name'')
      | Inr n \<Rightarrow> bind_sum (text_arg v) (\<lambda>s.
          raise_if (p_allow p = All False \<or> denied (p_disallow p) n \<or>
                    (case p_allow p of Named d \<Rightarrow> \<not> dhas d n | _ \<Rightarrow> False))
            (ValidationError (''forbidden environment variable: '' @ n))
            (case p_allow p of
               Named d \<Rightarrow> (case dget d n of Some rule \<Rightarrow> rule_validate fm rule s | None \<Rightarrow> Inl EngineError)
             | All _ \<Rightarrow> Inr ()))))"

definition env_validate :: "'r rx_fullmatch \<Rightarrow> 'r policy \<Rightarrow> pyval \<Rightarrow> policy_exn + pyval" where
  "env_validate fm p env = (case env of
       VDict d \<Rightarrow> bind_sum (each (env_item fm p) d) (\<lambda>_. Inr env)
     | _ \<Rightarrow> Inl (ValidationError ''environment must be a mapping''))"

definition validate_env ::
  "'r rx_compile \<Rightarrow> 'r rx_fullmatch \<Rightarrow> pyval \<Rightarrow> pyval \<Rightarrow> pyval \<Rightarrow> policy_exn + pyval" where
  "validate_env compile fm env allow disallow =
     bind_sum (new_env_policy compile allow disallow) (\<lambda>p. env_validate fm p env)"

end
