(* ===== verification/Argpolicy_Properties.thy ===== *)
theory Argpolicy_Properties
  imports Argpolicy
begin

text \<open>
  What the compiled policies promise: their names are canonical and their rules well formed, a
  restricted policy accepts exactly the argument lists of its grammar, an environment is accepted
  variable by variable, and a rejection says nothing of the values it was given.
\<close>

section \<open>Well-formed policies\<close>

text \<open>An option name after normalisation: a dash, then a letter or another dash, no equals sign.\<close>

definition canon_option :: "string \<Rightarrow> bool" where
  "canon_option n = (full_match OPTION_NAME n \<and> starts_with ''-'' n)"

definition rule_wf :: "string \<Rightarrow> 'r rule \<Rightarrow> bool" where
  "rule_wf n r \<longleftrightarrow> r_name r = n \<and> (case r_nargs r of Count k \<Rightarrow> k \<le> MAX_RULES | _ \<Rightarrow> True) \<and>
     (r_nargs r = Count 0 \<longrightarrow> r_pattern r = None \<and> r_choices r = None) \<and>
     (case r_choices r of None \<Rightarrow> True | Some cs \<Rightarrow> cs \<noteq> [] \<and> length cs \<le> MAX_RULES \<and>
        list_all (\<lambda>c. bounded_text (VStr c) = Some c) cs)"

definition named_wf :: "(string \<Rightarrow> bool) \<Rightarrow> (string \<Rightarrow> 'a \<Rightarrow> bool) \<Rightarrow> 'a entries \<Rightarrow> bool" where
  "named_wf name_ok val_ok e = (case e of All _ \<Rightarrow> True
     | Named d \<Rightarrow> dict_ok d \<and> length d \<le> MAX_RULES \<and> list_all (\<lambda>(n, v). name_ok n \<and> val_ok n v) d)"

definition policy_wf :: "(string \<Rightarrow> bool) \<Rightarrow> 'r policy \<Rightarrow> bool" where
  "policy_wf name_ok p = (named_wf name_ok rule_wf (p_allow p) \<and>
     named_wf name_ok (\<lambda>_ _. True) (p_disallow p))"

lemma collect_wf:
  "collect_entries norm es r = Inr r' \<Longrightarrow> (\<And>k n. norm k = Inr n \<Longrightarrow> ok n) \<Longrightarrow>
   dict_ok r \<Longrightarrow> list_all (\<lambda>(n, v). ok n) r \<Longrightarrow>
   dict_ok r' \<and> list_all (\<lambda>(n, v). ok n) r' \<and> length r' = length r + length es"
proof (induction norm es r rule: collect_entries.induct)
  case (2 norm k rule es r)
  from "2.prems"(1) obtain n where n: "norm k = Inr n" "\<not> dhas r n"
    and c: "collect_entries norm es (dset r n rule) = Inr r'" by (auto simp: err_simps)
  have "list_all (\<lambda>(n, v). ok n) (dset r n rule)" "length (dset r n rule) = Suc (length r)"
    using "2.prems"(2) [OF n(1)] "2.prems"(4) n(2) by (simp_all add: dset_absent)
  with "2.IH" [OF c] "2.prems" show ?case by auto
qed auto

lemma entries_wf:
  assumes "entries spec norm rules = Inr e" and "\<And>k n. norm k = Inr n \<Longrightarrow> ok n"
  shows "named_wf ok (\<lambda>_ _. True) e"
proof -
  have "named_entries norm es = Inr e \<Longrightarrow> named_wf ok (\<lambda>_ _. True) e" for es
    using collect_wf [of norm es "[]" _ ok] assms(2)
    by (fastforce simp: named_entries_def named_wf_def err_simps)
  with assms(1) show ?thesis
    by (auto simp: entries_def err_simps named_wf_def split: pyval.splits if_splits)
qed

lemma read_choices_wf:
  "read_choices c = Inr (Some cs) \<Longrightarrow>
   cs \<noteq> [] \<and> length cs \<le> MAX_RULES \<and> list_all (\<lambda>c. bounded_text (VStr c) = Some c) cs"
proof -
  assume "read_choices c = Inr (Some cs)"
  then obtain vs where v: "vs \<noteq> []" "length vs \<le> MAX_RULES" "each read_choice vs = Inr cs"
    by (auto simp: read_choices_def err_simps split: option.splits pyval.splits if_splits)
  have "read_choice x = Inr s \<Longrightarrow> bounded_text (VStr s) = Some s" for x s
    by (auto simp: read_choice_def bounded_text_def split: option.splits pyval.splits if_splits)
  with v show ?thesis
    by (auto simp: err_simps list_all2_conv_all_nth list_all_length)
qed

lemma new_rule_wf: "new_rule compile arguments n spec = Inr r \<Longrightarrow> rule_wf n r"
proof -
  assume "new_rule compile arguments n spec = Inr r"
  then obtain fs k rep cs p where n: "read_nargs (dgetd fs (VStr ''nargs'') (VInt 1)) = Inr k"
    and c: "read_choices (dget fs (VStr ''choices'')) = Inr cs" and z: "\<not> (k = Count 0 \<and> (p \<noteq> None \<or> cs \<noteq> None))"
    and r: "r = \<lparr>r_name = n, r_nargs = k, r_repeatable = rep, r_choices = cs, r_pattern = p\<rparr>"
    by (auto simp: new_rule_def err_simps)
  have "case k of Count m \<Rightarrow> m \<le> MAX_RULES | _ \<Rightarrow> True"
    using n by (auto simp: read_nargs_def Let_def split: pyval.splits if_splits)
  moreover have "case cs of None \<Rightarrow> True | Some l \<Rightarrow> l \<noteq> [] \<and> length l \<le> MAX_RULES \<and>
      list_all (\<lambda>c. bounded_text (VStr c) = Some c) l"
    using c read_choices_wf by (auto split: option.splits)
  ultimately show ?thesis using z by (auto simp: rule_wf_def r)
qed

lemma compile_rules_wf:
  "compile_rules compile arguments d = Inr rs \<Longrightarrow>
   map fst rs = map fst d \<and> list_all (\<lambda>(n, r). rule_wf n r) rs"
  by (induction compile arguments d arbitrary: rs rule: compile_rules.induct)
    (auto simp: err_simps dest: new_rule_wf)

lemma new_policy_wf:
  assumes "new_policy compile arguments norm allow disallow = Inr p"
    and ok: "\<And>k n. norm k = Inr n \<Longrightarrow> ok n"
  shows "policy_wf ok p"
proof -
  from assms(1) obtain a d where a: "entries allow norm True = Inr a"
    and d: "entries disallow norm False = Inr d"
    and k: "(case a of All b \<Rightarrow> Inr \<lparr>p_allow = All b, p_disallow = d\<rparr>
      | Named es \<Rightarrow> bind_sum (compile_rules compile arguments es)
          (\<lambda>rs. Inr \<lparr>p_allow = Named rs, p_disallow = d\<rparr>)) = Inr p"
    unfolding new_policy_def bind_sum_iff by blast
  from k have p: "p_disallow p = d" "(\<exists>b. a = All b \<and> p_allow p = All b) \<or>
      (\<exists>es rs. a = Named es \<and> compile_rules compile arguments es = Inr rs \<and> p_allow p = Named rs)"
    by (cases a; auto simp: err_simps)+
  from entries_wf [OF a ok] have aw: "named_wf ok (\<lambda>_ _. True) a" by simp
  have "named_wf ok rule_wf (p_allow p)"
    using p(2)
  proof (elim disjE exE conjE)
    fix es rs
    assume e: "a = Named es" "p_allow p = Named rs" and c: "compile_rules compile arguments es = Inr rs"
    from compile_rules_wf [OF c] have m: "map fst rs = map fst es" and w: "list_all (\<lambda>(n, r). rule_wf n r) rs"
      by auto
    from aw e have k: "dict_ok es" "length es \<le> MAX_RULES" "list_all ok (map fst es)"
      by (auto simp: named_wf_def list_all_iff)
    from m have "length rs = length es" using map_eq_imp_length_eq by blast
    moreover have "dict_ok rs" using k(1) m by (simp add: dict_ok_def)
    moreover have "list_all ok (map fst rs)" using k(3) unfolding m .
    ultimately show ?thesis using k(2) w e(2) by (auto simp: named_wf_def list_all_iff)
  qed (simp add: named_wf_def)
  with entries_wf [OF d ok] p(1) show ?thesis by (simp add: policy_wf_def)
qed

lemma option_name_denotes: "denotes OPTION_NAME s \<longleftrightarrow>
  (\<exists>p c t. s = p @ c # t \<and> (p = [] \<or> p = ''-'' \<or> p = ''--'') \<and> c \<in> set letters \<and>
     set t \<subseteq> set (letters @ digit_chars @ ''_-''))"
proof -
  have d: "denotes (UpTo 2 (Lit CHR ''-'')) p = (p = [] \<or> p = ''-'' \<or> p = ''--'')" for p
    by (auto simp: numeral_2_eq_2 Lit_def denotes_seq)
  have c: "denotes (Seq (Chars cs) (Star (Chars ds))) w =
      (\<exists>c t. w = c # t \<and> c \<in> set cs \<and> set t \<subseteq> set ds)" for cs ds w
    by (cases w) (auto simp: denotes_star_chars)
  show ?thesis unfolding OPTION_NAME_def denotes_seq [of "UpTo 2 (Lit CHR ''-'')"] d c by blast
qed

lemma letters_not: "c \<in> set letters \<Longrightarrow> c \<noteq> CHR ''-'' \<and> c \<notin> set digit_chars \<and> c \<noteq> CHR ''=''"
  by (rule charset_all [of _ letters]) code_simp

lemma option_name_canon: "option_name k = Inr n \<Longrightarrow> canon_option n"
proof -
  assume "option_name k = Inr n"
  then obtain s where s: "denotes OPTION_NAME s" and n: "n = (if starts_with ''-'' s then s else ''--'' @ s)"
    by (auto simp: option_name_def full_match_denotes split: pyval.splits if_splits)
  from s obtain p c t where p: "s = p @ c # t" "p = [] \<or> p = ''-'' \<or> p = ''--''" "c \<in> set letters"
    "set t \<subseteq> set (letters @ digit_chars @ ''_-'')" unfolding option_name_denotes by blast
  then have "denotes OPTION_NAME (''--'' @ s)" if "\<not> starts_with ''-'' s"
    using that letters_not unfolding option_name_denotes
    by (intro exI [of _ "''--''"] exI [of _ c] exI [of _ t]) (auto simp: starts_with_def)
  with s n show ?thesis by (auto simp: canon_option_def full_match_denotes starts_with_def)
qed

lemma canon_option_cases:
  "canon_option n \<Longrightarrow> \<exists>c u. n = CHR ''-'' # c # u \<and> c \<notin> set digit_chars"
proof -
  assume "canon_option n"
  then obtain p c t where p: "n = p @ c # t" "p = [] \<or> p = ''-'' \<or> p = ''--''" "c \<in> set letters"
    and s: "starts_with ''-'' n"
    unfolding canon_option_def full_match_denotes option_name_denotes by blast
  have "CHR ''-'' \<notin> set digit_chars" by code_simp
  with p s letters_not [OF p(3)] show ?thesis by (auto simp: starts_with_def)
qed

lemma canon_is_option: "canon_option n \<Longrightarrow> is_option (n @ x)"
proof -
  assume "canon_option n"
  then obtain c u where n: "n = CHR ''-'' # c # u" "c \<notin> set digit_chars"
    using canon_option_cases by blast
  have "\<not> denotes (Seq (Plus (Chars digit_chars)) r) (c # v)" for r v
    using n(2) by (auto simp: denotes_seq denotes_plus_chars Cons_eq_append_conv)
  then show ?thesis
    by (simp add: is_option_def n(1) starts_with_def full_match_denotes NEGATIVE_NUMBER_def)
qed

section \<open>The grammar of restricted argument lists\<close>

text \<open>An option group: the name, the value attached to it with an equals sign, the values after it.\<close>

type_synonym group = "string \<times> string option \<times> string list"

definition group_tokens :: "group \<Rightarrow> string list" where
  "group_tokens g = (case g of (n, a, vs) \<Rightarrow>
     (n @ (case a of None \<Rightarrow> [] | Some v \<Rightarrow> CHR ''='' # v)) # vs)"

definition group_ok :: "'r rx_fullmatch \<Rightarrow> (string, 'r rule) dict \<Rightarrow> pyval entries \<Rightarrow> group \<Rightarrow> bool" where
  "group_ok fm allow deny g = (case g of (n, a, vs) \<Rightarrow>
     CHR ''='' \<notin> set n \<and> \<not> denied deny n \<and> list_all (\<lambda>v. \<not> is_option v) vs \<and>
     (case dget allow n of None \<Rightarrow> False
      | Some r \<Rightarrow> (case r_nargs r of
             Count k \<Rightarrow> length (given_values a vs) = k
           | OneOrMore \<Rightarrow> given_values a vs \<noteq> []
           | AnyNumber \<Rightarrow> True) \<and>
          list_all (\<lambda>v. rule_validate fm r v = Inr ()) (given_values a vs)))"

definition may_repeat :: "(string, 'r rule) dict \<Rightarrow> string \<Rightarrow> bool" where
  "may_repeat allow n = (case dget allow n of None \<Rightarrow> False | Some r \<Rightarrow> r_repeatable r)"

definition groups_ok :: "'r rx_fullmatch \<Rightarrow> (string, 'r rule) dict \<Rightarrow> pyval entries \<Rightarrow> group list \<Rightarrow> bool" where
  "groups_ok fm allow deny gs \<longleftrightarrow> list_all (group_ok fm allow deny) gs \<and>
     distinct (filter (\<lambda>n. \<not> may_repeat allow n) (map fst gs))"

lemma take_values_props: "take_values m n as = (vs, rest) \<Longrightarrow>
   list_all (\<lambda>v. \<not> is_option v) vs \<and> (case m of None \<Rightarrow> True | Some k \<Rightarrow> vs = [] \<or> n + length vs \<le> k)"
  by (induction m n as arbitrary: vs rest rule: take_values.induct)
    (auto split: if_splits prod.splits option.splits)

lemma take_values_exact:
  "list_all (\<lambda>v. \<not> is_option v) vs \<Longrightarrow> (case m of None \<Rightarrow> True | Some k \<Rightarrow> vs = [] \<or> n + length vs \<le> k) \<Longrightarrow>
   rest = [] \<or> is_option (hd rest) \<Longrightarrow> take_values m n (vs @ rest) = (vs, rest)"
proof (induction vs arbitrary: n)
  case Nil
  then show ?case by (cases rest) auto
next
  case (Cons v vs)
  then have "take_values m (Suc n) (vs @ rest) = (vs, rest)"
    by (intro Cons.IH) (auto split: option.splits)
  with Cons.prems show ?case by (auto split: option.splits)
qed

lemma each_unit: "(each (f :: 'a \<Rightarrow> 'e + unit) xs = Inr us) = (list_all (\<lambda>x. f x = Inr ()) xs \<and> length us = length xs)"
  by (auto simp: err_simps list_all2_conv_all_nth list_all_length)

lemma count_ok: "wrong_count n k = (case n of Count m \<Rightarrow> k \<noteq> m | OneOrMore \<Rightarrow> k = 0 | AnyNumber \<Rightarrow> False)"
  by (cases n) (auto simp: wrong_count_def nargs_min_def nargs_max_def)

lemma scan_args_Cons: "scan_args fm allow deny i seen (token # rest) = Inr () \<longleftrightarrow>
  (\<exists>n a r vs rest'. cut_at CHR ''='' token = (n, a) \<and> dget allow n = Some r \<and> \<not> denied deny n \<and>
     (n \<in> set seen \<longrightarrow> r_repeatable r) \<and>
     take_values (nargs_max (r_nargs r)) (length (given_values a [])) rest = (vs, rest') \<and>
     \<not> wrong_count (r_nargs r) (length (given_values a vs)) \<and>
     list_all (\<lambda>v. rule_validate fm r v = Inr ()) (given_values a vs) \<and>
     scan_args fm allow deny (Suc (i + length vs)) (n # seen) rest' = Inr ())"
  by (auto simp: err_simps each_unit simp del: each_iff split: prod.splits option.splits)
    (metis Ex_list_of_length)+

lemma group_head:
  "list_all (group_ok fm allow deny) gs \<Longrightarrow> (\<And>n r. dget allow n = Some r \<Longrightarrow> canon_option n) \<Longrightarrow>
   concat (map group_tokens gs) = [] \<or> is_option (hd (concat (map group_tokens gs)))"
  using canon_is_option canon_is_option [of _ "[]"]
  by (cases gs) (auto simp: group_ok_def group_tokens_def split: prod.splits option.splits)

lemma cut_group: "CHR ''='' \<notin> set n \<Longrightarrow>
  cut_at CHR ''='' (n @ (case a of None \<Rightarrow> [] | Some v \<Rightarrow> CHR ''='' # v)) = (n, a)"
  by (cases a) (auto simp: cut_none cut_append)

lemma cut_token: "cut_at CHR ''='' token = (n, a) \<Longrightarrow>
  CHR ''='' \<notin> set n \<and> token = n @ (case a of None \<Rightarrow> [] | Some v \<Rightarrow> CHR ''='' # v)"
  by (cases a) (auto dest: cut_None cut_Some)

lemma given_length: "length (given_values a vs) = length (given_values a []) + length vs"
  by (cases a) (auto simp: given_values_def)

lemma scan_args_sound:
  "scan_args fm allow deny i seen args = Inr () \<Longrightarrow>
   \<exists>gs. args = concat (map group_tokens gs) \<and> groups_ok fm allow deny gs \<and>
        list_all (\<lambda>n. n \<in> set seen \<longrightarrow> may_repeat allow n) (map fst gs)"
proof (induction "length args" arbitrary: i seen args rule: less_induct)
  case less
  show ?case
  proof (cases args)
    case Nil
    then show ?thesis by (intro exI [of _ "[]"]) (simp add: groups_ok_def)
  next
    case (Cons token rest)
    from less.prems obtain n a r vs rest' where c: "cut_at CHR ''='' token = (n, a)"
      and r: "dget allow n = Some r" "\<not> denied deny n" "n \<in> set seen \<longrightarrow> r_repeatable r"
      and t: "take_values (nargs_max (r_nargs r)) (length (given_values a [])) rest = (vs, rest')"
      and v: "\<not> wrong_count (r_nargs r) (length (given_values a vs))"
        "list_all (\<lambda>v. rule_validate fm r v = Inr ()) (given_values a vs)"
      and s: "scan_args fm allow deny (Suc (i + length vs)) (n # seen) rest' = Inr ()"
      unfolding Cons scan_args_Cons by blast
    have rest: "rest = vs @ rest'" using take_values_append [OF t] .
    then have "length rest' < length args" by (simp add: Cons)
    from less.hyps [OF this s] obtain gs where g: "rest' = concat (map group_tokens gs)"
      "groups_ok fm allow deny gs"
      "list_all (\<lambda>m. m \<in> set (n # seen) \<longrightarrow> may_repeat allow m) (map fst gs)" by blast
    have "group_ok fm allow deny (n, a, vs)"
      using cut_token [OF c] r v take_values_props [OF t]
      by (auto simp: group_ok_def count_ok split: nargs.splits)
    moreover have "may_repeat allow n = r_repeatable r" using r by (simp add: may_repeat_def)
    ultimately have "groups_ok fm allow deny ((n, a, vs) # gs)"
      using g(2,3) by (auto simp: groups_ok_def list_all_iff)
    moreover have "args = concat (map group_tokens ((n, a, vs) # gs))"
      using Cons rest g(1) cut_token [OF c] by (simp add: group_tokens_def)
    moreover have "list_all (\<lambda>m. m \<in> set seen \<longrightarrow> may_repeat allow m) (map fst ((n, a, vs) # gs))"
      using g(3) r(1,3) by (auto simp: list_all_iff may_repeat_def)
    ultimately show ?thesis by blast
  qed
qed

lemma scan_args_complete:
  assumes canon: "\<And>n r. dget allow n = Some r \<Longrightarrow> canon_option n"
  shows "groups_ok fm allow deny gs \<Longrightarrow>
     list_all (\<lambda>n. n \<in> set seen \<longrightarrow> may_repeat allow n) (map fst gs) \<Longrightarrow>
     scan_args fm allow deny i seen (concat (map group_tokens gs)) = Inr ()"
proof (induction gs arbitrary: i seen)
  case (Cons g gs)
  obtain n a vs where g: "g = (n, a, vs)" by (cases g) auto
  from Cons.prems(1) g obtain r where r: "dget allow n = Some r" "\<not> denied deny n" "CHR ''='' \<notin> set n"
      "list_all (\<lambda>v. rule_validate fm r v = Inr ()) (given_values a vs)"
    and no: "list_all (\<lambda>v. \<not> is_option v) vs"
    and w: "\<not> wrong_count (r_nargs r) (length (given_values a vs))"
    by (auto simp: groups_ok_def group_ok_def count_ok split: option.splits nargs.splits)
  let ?rest = "concat (map group_tokens gs)"
  have t: "take_values (nargs_max (r_nargs r)) (length (given_values a [])) (vs @ ?rest) = (vs, ?rest)"
  proof (rule take_values_exact [OF no])
    show "case nargs_max (r_nargs r) of None \<Rightarrow> True
        | Some k \<Rightarrow> vs = [] \<or> length (given_values a []) + length vs \<le> k"
      using w given_length [of a vs] by (cases "r_nargs r") (auto simp: count_ok nargs_max_def)
    show "?rest = [] \<or> is_option (hd ?rest)"
      using Cons.prems(1) canon by (intro group_head [of fm allow deny]) (auto simp: groups_ok_def)
  qed
  have sc: "scan_args fm allow deny (Suc (i + length vs)) (n # seen) ?rest = Inr ()"
  proof (rule Cons.IH)
    show "groups_ok fm allow deny gs"
      using Cons.prems(1) by (simp add: groups_ok_def g split: if_splits)
    have "n \<in> fst ` set gs \<longrightarrow> may_repeat allow n"
      using Cons.prems(1) by (force simp: groups_ok_def g split: if_splits)
    then show "list_all (\<lambda>m. m \<in> set (n # seen) \<longrightarrow> may_repeat allow m) (map fst gs)"
      using Cons.prems(2) by (auto simp: list_all_iff)
  qed
  have rp: "n \<in> set seen \<longrightarrow> r_repeatable r"
    using Cons.prems(2) r(1) by (simp add: g may_repeat_def)
  have eq: "concat (map group_tokens (g # gs)) =
      (n @ (case a of None \<Rightarrow> [] | Some v \<Rightarrow> CHR ''='' # v)) # vs @ ?rest"
    by (simp add: group_tokens_def g)
  show ?case
    unfolding eq scan_args_Cons using cut_group [OF r(3), of a] r(1,2) rp t w r(4) sc by blast
qed simp

text \<open>The canonical names of a compiled policy.\<close>

lemma policy_names:
  assumes "new_args_policy compile allow disallow = Inr p" "p_allow p = Named d" "dget d n = Some r"
  shows "canon_option n" "rule_wf n r"
proof -
  have "policy_wf canon_option p"
    using new_policy_wf [of compile True option_name allow disallow p canon_option]
      assms(1) option_name_canon by (simp add: new_args_policy_def)
  with assms(2) have "list_all (\<lambda>(n, r). canon_option n \<and> rule_wf n r) d"
    by (simp add: policy_wf_def named_wf_def)
  moreover have "(n, r) \<in> set d" using assms(3) by (simp add: dget_def map_of_SomeD)
  ultimately show "canon_option n" "rule_wf n r" by (auto simp: list_all_iff)
qed

lemma text_arg_iff: "(text_arg v = Inr s) = (v = VStr s \<and> CHR 0x00 \<notin> set s \<and> py_len s \<le> MAX_VALUE)"
  by (auto simp: text_arg_def bounded_text_def split: option.splits pyval.splits if_splits)

lemma each_text: "(each text_arg vs = Inr ts) =
  (vs = map VStr ts \<and> list_all (\<lambda>s. CHR 0x00 \<notin> set s \<and> py_len s \<le> MAX_VALUE) ts)"
proof (induction vs arbitrary: ts)
  case (Cons v vs)
  show ?case
  proof (cases ts)
    case (Cons t us)
    have "each text_arg (v # vs) = Inr ts \<longleftrightarrow> text_arg v = Inr t \<and> each text_arg vs = Inr us"
      by (simp only: Cons each_iff list_all2_Cons)
    with Cons.IH [of us] show ?thesis by (simp only: Cons text_arg_iff list.map list.pred_inject list.inject) blast
  qed (simp add: each_iff del: each.simps)
qed auto

text \<open>
  C10: A restricted policy accepts an argument list exactly when the list is a sequence of option groups
  of its grammar: each group is an allowed, not denied option name, possibly with a value after an
  equals sign, followed by tokens that are not options, with as many values as the rule asks and each
  value accepted by the rule; only repeatable options occur twice; every token is text without NUL.
  The accepted list is returned as it is.
\<close>

theorem args_policy_grammar:
  assumes "new_args_policy compile allow disallow = Inr p" "p_allow p = Named d"
    "p_disallow p \<noteq> All True"
  shows "args_validate fm p (VList vs) = Inr v \<longleftrightarrow> v = VList vs \<and>
    (\<exists>gs. vs = map VStr (concat (map group_tokens gs)) \<and> groups_ok fm d (p_disallow p) gs \<and>
       list_all (\<lambda>s. CHR 0x00 \<notin> set s \<and> py_len s \<le> MAX_VALUE) (concat (map group_tokens gs)))"
proof -
  have sc: "scan_args fm d (p_disallow p) 0 [] ts = Inr () \<longleftrightarrow>
      (\<exists>gs. ts = concat (map group_tokens gs) \<and> groups_ok fm d (p_disallow p) gs)" for ts
  proof
    show "scan_args fm d (p_disallow p) 0 [] ts = Inr () \<Longrightarrow>
        \<exists>gs. ts = concat (map group_tokens gs) \<and> groups_ok fm d (p_disallow p) gs"
      using scan_args_sound [of fm d "p_disallow p" 0 "[]" ts] by blast
    assume "\<exists>gs. ts = concat (map group_tokens gs) \<and> groups_ok fm d (p_disallow p) gs"
    then obtain gs where g: "ts = concat (map group_tokens gs)" "groups_ok fm d (p_disallow p) gs" by blast
    show "scan_args fm d (p_disallow p) 0 [] ts = Inr ()"
      unfolding g(1) by (rule scan_args_complete)
        (use g(2) policy_names(1) [OF assms(1,2)] in \<open>auto simp: list_all_iff\<close>)
  qed
  have "args_validate fm p (VList vs) = Inr v \<longleftrightarrow> v = VList vs \<and>
      (\<exists>ts. each text_arg vs = Inr ts \<and> scan_args fm d (p_disallow p) 0 [] ts = Inr ())"
    unfolding args_validate_def pyval.case bind_sum_iff raise_if_iff andthen_iff assms(2) entries.case
    using assms(3) by auto
  moreover have "(\<exists>ts. (A ts \<and> B ts) \<and> (\<exists>g. ts = F g \<and> C g)) = (\<exists>g. A (F g) \<and> C g \<and> B (F g))"
    for A B :: "string list \<Rightarrow> bool" and F :: "group list \<Rightarrow> string list" and C by blast
  ultimately show ?thesis unfolding sc each_text by simp
qed

definition demo_rule :: "string rule" where
  "demo_rule = \<lparr>r_name = ''--month'', r_nargs = Count 1, r_repeatable = False, r_choices = None,
     r_pattern = None\<rparr>"

definition demo_policy :: "string policy" where
  "demo_policy = \<lparr>p_allow = Named [(''--month'', demo_rule)], p_disallow = All False\<rparr>"

lemma demo_policy_new:
  "new_args_policy None (VList [VStr ''month'']) (VBool False) = Inr demo_policy"
  by code_simp

theorem args_policy_grammar_witness:
  "args_validate (\<lambda>_ _. Unmatched) demo_policy (VList [VStr ''--month'', VStr ''-1'']) =
     Inr (VList [VStr ''--month'', VStr ''-1'']) \<and>
   args_validate (\<lambda>_ _. Unmatched) demo_policy (VList [VStr ''--month=-x'']) = Inr (VList [VStr ''--month=-x''])"
proof -
  have "p_allow demo_policy = Named [(''--month'', demo_rule)]" "p_disallow demo_policy \<noteq> All True"
    by (simp_all add: demo_policy_def)
  note iff = args_policy_grammar [OF demo_policy_new this]
  have ok: "groups_ok (\<lambda>_ _. Unmatched) [(''--month'', demo_rule)] (All False) [(''--month'', None, [''-1''])]"
    "groups_ok (\<lambda>_ _. Unmatched) [(''--month'', demo_rule)] (All False) [(''--month'', Some ''-x'', [])]"
    by code_simp+
  have "args_validate (\<lambda>_ _. Unmatched) demo_policy (VList [VStr ''--month'', VStr ''-1'']) =
     Inr (VList [VStr ''--month'', VStr ''-1''])"
    by (rule iffD2 [OF iff], intro conjI refl exI [of _ "[(''--month'', None, [''-1''])]"])
      (use ok in \<open>simp_all add: group_tokens_def py_len_def MAX_VALUE_def demo_policy_def\<close>)
  moreover have "args_validate (\<lambda>_ _. Unmatched) demo_policy (VList [VStr ''--month=-x'']) =
     Inr (VList [VStr ''--month=-x''])"
    by (rule iffD2 [OF iff], intro conjI refl exI [of _ "[(''--month'', Some ''-x'', [])]"])
      (use ok in \<open>simp_all add: group_tokens_def py_len_def MAX_VALUE_def demo_policy_def\<close>)
  ultimately show ?thesis by simp
qed

lemma env_name_match: "env_name k = Inr n \<Longrightarrow> full_match ENV_NAME n"
  by (auto simp: env_name_def split: pyval.splits if_splits)

text \<open>
  A policy that compiles is well formed: its names are canonical and distinct (\<^verbatim>\<open>month\<close> and
  \<^verbatim>\<open>--month\<close> are one name), at most \<^verbatim>\<open>MAX_RULES\<close> of them, every rule carries its name, a value count
  within bounds, bounded text as choices, and an option without values has no value rule.
\<close>

theorem compiled_policy_wf:
  "(new_args_policy compile allow disallow = Inr p \<longrightarrow> policy_wf canon_option p) \<and>
   (new_env_policy compile allow disallow = Inr p \<longrightarrow> policy_wf (full_match ENV_NAME) p)"
  using new_policy_wf [of compile True option_name allow disallow p canon_option]
    new_policy_wf [of compile False env_name allow disallow p "full_match ENV_NAME"]
    env_name_match option_name_canon
  by (auto simp: new_args_policy_def new_env_policy_def)

theorem compiled_policy_wf_witness:
  "policy_wf canon_option demo_policy \<and>
   policy_wf (full_match ENV_NAME) (\<lparr>p_allow = All False, p_disallow = All False\<rparr> :: string policy)"
  using demo_policy_new compiled_policy_wf [of _ _ _ demo_policy]
    compiled_policy_wf [of None "VBool False" "VBool False"
      "\<lparr>p_allow = All False, p_disallow = All False\<rparr> :: string policy"]
  by (simp add: new_env_policy_def new_policy_def entries_def bind_sum_simps)

section \<open>Rejections\<close>

text \<open>The messages a policy may give: fixed texts, the index of an argument, a name of the policy.\<close>

definition named_in :: "'a entries \<Rightarrow> string \<Rightarrow> bool" where
  "named_in e n = (case e of All _ \<Rightarrow> False | Named d \<Rightarrow> dhas d n)"

definition message_of :: "'r policy \<Rightarrow> string \<Rightarrow> bool" where
  "message_of p msg \<longleftrightarrow>
     msg \<in> set [''arguments must be a list'', ''expected bounded text without NUL bytes'',
        ''client arguments are forbidden'', ''compact short options are ambiguous with a deny list''] \<or>
     (\<exists>i. msg = ''unknown or forbidden option at argument '' @ show_nat i) \<or>
     (\<exists>n. (named_in (p_allow p) n \<or> named_in (p_disallow p) n) \<and>
        (\<exists>prefix \<in> set [''forbidden option: '', ''option cannot repeat: '', ''wrong value count for '',
           ''value outside choices for '', ''value does not match regex for '',
           ''regex deadline exceeded for '']. msg = prefix @ n))"

definition rejects :: "'r rx_fullmatch \<Rightarrow> 'r policy \<Rightarrow> policy_exn \<Rightarrow> bool" where
  "rejects fm p e = (case e of
       ValidationError msg \<Rightarrow> message_of p msg
     | EngineError \<Rightarrow> (\<exists>r s. fm r s = Crashed)
     | PolicyError _ \<Rightarrow> False)"

lemma rule_validate_rejects:
  "rule_validate fm r v = Inl e \<Longrightarrow> named_in (p_allow p) (r_name r) \<Longrightarrow> rejects fm p e"
  by (auto simp: rule_validate_def raise_if_def rejects_def message_of_def
      split: if_splits option.splits rx_outcome.splits)

lemma scan_unrestricted_rejects:
  "scan_unrestricted (p_disallow p) ts = Inl e \<Longrightarrow> p_disallow p \<noteq> All True \<Longrightarrow> rejects fm p e"
proof (induction ts)
  case (Cons t ts)
  have "denied (p_disallow p) n \<Longrightarrow> named_in (p_disallow p) n" for n
    using Cons.prems(2) by (auto simp: denied_def named_in_def split: entries.splits)
  with Cons show ?case
    by (auto simp: Let_def raise_if_iff rejects_def message_of_def split: if_splits)
qed simp

lemma scan_args_rejects:
  assumes p: "p_allow p = Named d" and wf: "\<And>n r. dget d n = Some r \<Longrightarrow> r_name r = n"
  shows "scan_args fm d (p_disallow p) i seen ts = Inl e \<Longrightarrow> rejects fm p e"
proof (induction "length ts" arbitrary: i seen ts rule: less_induct)
  case less
  show ?case
  proof (cases ts)
    case (Cons token rest)
    obtain n a where c: "cut_at CHR ''='' token = (n, a)" by (cases "cut_at CHR ''='' token") auto
    show ?thesis
    proof (cases "dget d n")
      case None
      with less.prems c show ?thesis by (auto simp: Cons rejects_def message_of_def)
    next
      case (Some r)
      then have n: "named_in (p_allow p) n" by (simp add: p named_in_def dhas_def)
      obtain vs rest' where t: "take_values (nargs_max (r_nargs r)) (length (given_values a [])) rest = (vs, rest')"
        by (cases "take_values (nargs_max (r_nargs r)) (length (given_values a [])) rest") auto
      have len: "length rest' < length ts" using take_values_append [OF t] by (simp add: Cons)
      note e = less.prems [unfolded Cons scan_args.simps c prod.case Some option.case t raise_if_iff andthen_iff]
      have "rejects fm p e" if "each (rule_validate fm r) us = Inl e" for us
        using each_error [OF that] rule_validate_rejects wf [OF Some] n by blast
      with e less.hyps [OF len] n show ?thesis
        by (auto simp: rejects_def message_of_def split: if_splits)
    qed
  qed (use less.prems in simp)
qed

lemma text_arg_rejects: "each text_arg vs = Inl e \<Longrightarrow> rejects fm p e"
  using each_error [of text_arg vs e]
  by (auto simp: text_arg_def rejects_def message_of_def split: option.splits)

text \<open>
  C11: Whatever the arguments, a compiled policy rejects them with a \<^verbatim>\<open>ValidationError\<close> (or lets an
  error of the regex engine through) whose message is made of fixed texts, the index of an argument
  and names of the policy: it never includes a supplied value, nor an option the policy does not name.
\<close>

theorem args_rejections:
  assumes "new_args_policy compile allow disallow = Inr p" "args_validate fm p args = Inl e"
  shows "rejects fm p e"
proof (cases "\<exists>vs. args = VList vs")
  case False
  with assms(2) show ?thesis by (auto simp: args_validate_def rejects_def message_of_def split: pyval.splits)
next
  case True
  then obtain vs where vs: "args = VList vs" by blast
  show ?thesis
  proof (cases "each text_arg vs")
    case (Inl d)
    with assms(2) show ?thesis using text_arg_rejects by (auto simp: args_validate_def vs bind_sum_simps)
  next
    case (Inr ts)
    show ?thesis
    proof (cases "ts \<noteq> [] \<and> (p_allow p = All False \<or> p_disallow p = All True)")
      case True
      with assms(2) Inr show ?thesis
        by (auto simp: args_validate_def vs bind_sum_simps raise_if_iff rejects_def message_of_def)
    next
      case False
      note e = assms(2) [unfolded args_validate_def vs pyval.case Inr bind_sum_simps raise_if_iff andthen_iff]
      show ?thesis
      proof (cases "p_allow p")
        case (All b)
        with e False scan_unrestricted_rejects [of p ts e fm] show ?thesis
          by (cases ts; cases b; auto split: if_splits)
      next
        case (Named d)
        have "r_name r = n" if "dget d n = Some r" for n r
          using policy_names(2) [OF assms(1) Named that] by (simp add: rule_wf_def)
        from scan_args_rejects [OF Named this] e False Named show ?thesis
          by (auto split: if_splits)
      qed
    qed
  qed
qed

theorem args_rejections_witness:
  "rejects (\<lambda>_ _. Unmatched) demo_policy (ValidationError ''wrong value count for --month'')"
  by (rule args_rejections [OF demo_policy_new, of _ "VList [VStr ''--month'']"])
    (simp add: args_validate_def text_arg_def bounded_text_def bind_sum_simps demo_policy_def demo_rule_def
      py_len_def MAX_VALUE_def dget_def wrong_count_def nargs_min_def given_values_def denied_def)

text \<open>
  Deny wins and the default is to deny: when the allow side is \<^verbatim>\<open>False\<close> or the deny side \<^verbatim>\<open>True\<close>, an
  empty input is returned and every other list or mapping is rejected with a \<^verbatim>\<open>ValidationError\<close>.
\<close>

theorem policy_denials:
  assumes "p_allow p = All False \<or> p_disallow p = All True"
  shows "args_validate fm p (VList []) = Inr (VList []) \<and>
    (vs \<noteq> [] \<longrightarrow> (\<exists>msg. args_validate fm p (VList vs) = Inl (ValidationError msg))) \<and>
    env_validate fm p (VDict []) = Inr (VDict []) \<and>
    (d \<noteq> [] \<longrightarrow> (\<exists>msg. env_validate fm p (VDict d) = Inl (ValidationError msg)))"
proof (intro conjI impI)
  show "args_validate fm p (VList []) = Inr (VList [])" "env_validate fm p (VDict []) = Inr (VDict [])"
    by (auto simp: args_validate_def env_validate_def bind_sum_simps split: entries.splits bool.splits)
  show "\<exists>msg. args_validate fm p (VList vs) = Inl (ValidationError msg)" if "vs \<noteq> []"
  proof (cases "each text_arg vs")
    case (Inl e)
    from each_error [OF this] obtain msg where "e = ValidationError msg"
      by (auto simp: text_arg_def split: option.splits)
    with Inl show ?thesis by (simp add: args_validate_def bind_sum_simps)
  next
    case (Inr ts)
    then have "ts \<noteq> []" using that by (auto simp: each_text)
    with Inr assms show ?thesis by (auto simp: args_validate_def bind_sum_simps)
  qed
  show "\<exists>msg. env_validate fm p (VDict d) = Inl (ValidationError msg)" if ne: "d \<noteq> []"
  proof -
    obtain i d' where d: "d = i # d'" using ne by (cases d) auto
    have "\<exists>msg. env_item fm p i = Inl (ValidationError msg)"
      using assms
      by (cases "env_name (fst i)"; cases "text_arg (snd i)"; cases i)
        (auto simp: env_item_def bind_sum_simps denied_def text_arg_def split: option.splits)
    then show ?thesis by (auto simp: env_validate_def d bind_sum_simps)
  qed
qed

theorem policy_denials_witness:
  "(\<exists>msg. args_validate (\<lambda>_ _. Matched) (\<lparr>p_allow = All False, p_disallow = All False\<rparr> :: string policy)
      (VList [VStr ''x'']) = Inl (ValidationError msg)) \<and>
   (\<exists>msg. env_validate (\<lambda>_ _. Matched) (\<lparr>p_allow = All True, p_disallow = All True\<rparr> :: string policy)
      (VDict [(VStr ''TZ'', VStr ''UTC'')]) = Inl (ValidationError msg))"
  using policy_denials [where p = "\<lparr>p_allow = All False, p_disallow = All False\<rparr> :: string policy" and vs = "[VStr ''x'']"]
    policy_denials [where p = "\<lparr>p_allow = All True, p_disallow = All True\<rparr> :: string policy" and d = "[(VStr ''TZ'', VStr ''UTC'')]"]
  by simp

end
