(* ===== verification/Xbstream.thy ===== *)
theory Xbstream
  imports Pystr
begin

text \<open>
  \<^verbatim>\<open>sonicprobe/libs/xbstream.py\<close>: the reader that cuts an xbstream into chunks and hands each one on.
  The callbacks are parameters: \<open>source i n\<close> is how many bytes the \<open>i\<close>-th \<^verbatim>\<open>read(n)\<close> returns (at least
  one while the input lasts, at most \<open>n\<close>), \<open>sink i n\<close> is the answer of the \<open>i\<close>-th \<^verbatim>\<open>tx\<close> or \<^verbatim>\<open>write\<close> when
  \<open>n\<close> bytes remain to be sent. The reader's record carries the input left, the bytes the callback
  took and, as a history, each chunk object as it is when its transmission ends.
\<close>

definition XB_MAGIC :: string where "XB_MAGIC = ''XBSTCK01''"
definition HEADER_LEN :: nat where "HEADER_LEN = length XB_MAGIC + 1 + 1 + 4"
definition PATH_LENGTH_OFFSET :: nat where "PATH_LENGTH_OFFSET = length XB_MAGIC + 1 + 1"
definition CHUNK_TYPE_OFFSET :: nat where "CHUNK_TYPE_OFFSET = length XB_MAGIC + 1"
definition XB_EOF :: string where "XB_EOF = ''E''"
definition XB_PAYLOAD :: string where "XB_PAYLOAD = ''P''"

section \<open>The chunk object\<close>

record xb =
  xb_buffer :: string
  xb_filled_size :: nat
  xb_tx_size :: nat
  xb_chunk_tx :: bool
  xb_name :: "string option"
  xb_magic_verified :: bool
  xb_chunk_path_len :: nat
  xb_chunk_type :: "string option"
  xb_payload :: "string option"
  xb_payload_size :: nat
  xb_chunk_size :: nat
  xb_chunk_no :: nat
  xb_tx_started :: bool

definition xb_new :: xb where
  "xb_new = \<lparr>xb_buffer = [], xb_filled_size = 0, xb_tx_size = 0, xb_chunk_tx = False, xb_name = None,
     xb_magic_verified = False, xb_chunk_path_len = 0, xb_chunk_type = None, xb_payload = None,
     xb_payload_size = 0, xb_chunk_size = HEADER_LEN, xb_chunk_no = 0, xb_tx_started = False\<rparr>"

definition xb_clean :: "xb \<Rightarrow> xb" where
  "xb_clean x = x\<lparr>xb_buffer := [], xb_payload := None\<rparr>"

text \<open>\<open>b[i:j]\<close> and little-endian numbers (\<^verbatim>\<open>struct.unpack\<close> with \<^verbatim>\<open><I\<close> and \<^verbatim>\<open><Q\<close>).\<close>

definition bslice :: "nat \<Rightarrow> nat \<Rightarrow> string \<Rightarrow> string" where
  "bslice i j s = take (j - i) (drop i s)"

fun le_nat :: "string \<Rightarrow> nat" where
  "le_nat [] = 0"
| "le_nat (c # s) = of_char c + 256 * le_nat s"

section \<open>The reader\<close>

datatype answer = NoAnswer | Took int | NotAnInteger

type_synonym source = "nat \<Rightarrow> nat \<Rightarrow> nat"
type_synonym sink = "nat \<Rightarrow> nat \<Rightarrow> answer"

record reader =
  rd_obj :: xb
  rd_counts :: "(string option, nat) dict"
  rd_eof :: bool
  rd_set_payload :: bool
  rd_in :: string
  rd_reads :: nat
  rd_writes :: nat
  rd_out :: string
  rd_done :: "xb list"

type_synonym 'a rd_result = "(pyerror \<times> 'a) + 'a"

definition reader_new :: "bool \<Rightarrow> string \<Rightarrow> reader" where
  "reader_new set_payload input = \<lparr>rd_obj = xb_new, rd_counts = [], rd_eof = False,
     rd_set_payload = set_payload, rd_in = input, rd_reads = 0, rd_writes = 0, rd_out = [], rd_done = []\<rparr>"

definition is_streaming :: "reader \<Rightarrow> bool" where
  "is_streaming r = (\<not> rd_eof r)"

definition reset_chunk_count :: "reader \<Rightarrow> reader" where
  "reset_chunk_count r = r\<lparr>rd_counts := []\<rparr>"

definition read_cb :: "source \<Rightarrow> nat \<Rightarrow> reader \<Rightarrow> string \<times> reader" where
  "read_cb source n r = (let k = min n (max 1 (source (rd_reads r) n)) in
     (take k (rd_in r), r\<lparr>rd_in := drop k (rd_in r), rd_reads := Suc (rd_reads r)\<rparr>))"

text \<open>The three steps of \<^verbatim>\<open>buffer_updated\<close> that read the header fields.\<close>

definition step_header :: "xb \<Rightarrow> xb rd_result" where
  "step_header x =
     (if \<not> xb_magic_verified x \<and> HEADER_LEN \<le> xb_filled_size x then
        (if bslice 0 (length XB_MAGIC) (xb_buffer x) \<noteq> XB_MAGIC
         then Inl (ValueError ''Error: magic excepted'', x)
         else (let ty = bslice CHUNK_TYPE_OFFSET (CHUNK_TYPE_OFFSET + 1) (xb_buffer x);
                   pl = le_nat (bslice PATH_LENGTH_OFFSET (PATH_LENGTH_OFFSET + 4) (xb_buffer x));
                   y = x\<lparr>xb_magic_verified := True, xb_chunk_path_len := pl, xb_chunk_type := Some ty\<rparr>
               in if ty \<noteq> XB_EOF \<and> ty \<noteq> XB_PAYLOAD
                  then Inl (ValueError ''Unsupported xbstream chunk type'', y)
                  else Inr (y\<lparr>xb_chunk_size := HEADER_LEN + pl + (if ty \<noteq> XB_EOF then 16 else 0)\<rparr>)))
      else Inr x)"

definition step_payload :: "xb \<Rightarrow> xb" where
  "step_payload x =
     (if xb_magic_verified x \<and> xb_payload_size x = 0 \<and> xb_chunk_type x \<noteq> Some XB_EOF \<and>
         HEADER_LEN + xb_chunk_path_len x + 16 \<le> xb_filled_size x
      then (let off = HEADER_LEN + xb_chunk_path_len x; size = le_nat (bslice off (off + 8) (xb_buffer x))
            in x\<lparr>xb_payload_size := size, xb_chunk_size := size + 4 + 16 + xb_chunk_path_len x + HEADER_LEN,
                 xb_name := Some (bslice HEADER_LEN off (xb_buffer x))\<rparr>)
      else x)"

definition step_eof :: "xb \<Rightarrow> xb" where
  "step_eof x =
     (if xb_magic_verified x \<and> xb_chunk_type x = Some XB_EOF \<and>
         HEADER_LEN + xb_chunk_path_len x \<le> xb_filled_size x
      then x\<lparr>xb_name := Some (bslice HEADER_LEN (HEADER_LEN + xb_chunk_path_len x) (xb_buffer x))\<rparr>
      else x)"

definition update_fields :: "xb \<Rightarrow> xb rd_result" where
  "update_fields x = (case step_header x of Inl e \<Rightarrow> Inl e | Inr y \<Rightarrow> Inr (step_eof (step_payload y)))"

definition ready_for_tx :: "xb \<Rightarrow> bool" where
  "ready_for_tx x = (0 < xb_filled_size x \<and> xb_filled_size x = xb_chunk_size x)"

definition append_bytes :: "string \<Rightarrow> xb \<Rightarrow> xb" where
  "append_bytes bs x =
     x\<lparr>xb_buffer := xb_buffer x @ bs, xb_filled_size := xb_filled_size x + length bs\<rparr>"

definition with_obj :: "reader \<Rightarrow> xb rd_result \<Rightarrow> reader rd_result" where
  "with_obj r res = (case res of Inl (e, x) \<Rightarrow> Inl (e, r\<lparr>rd_obj := x\<rparr>) | Inr x \<Rightarrow> Inr (r\<lparr>rd_obj := x\<rparr>))"

lemma with_obj_in: "with_obj r res = Inr r' \<Longrightarrow> rd_in r' = rd_in r"
  by (auto simp: with_obj_def split: sum.splits prod.splits)

text \<open>The loops of \<^verbatim>\<open>tx_start\<close>: the missing bytes (\<^verbatim>\<open>buffer_updated\<close> only reads fields there, the
  transmission being started), then the transmission.\<close>

function fill_chunk :: "source \<Rightarrow> reader \<Rightarrow> reader rd_result" where
  "fill_chunk source r =
     (if xb_filled_size (rd_obj r) < xb_chunk_size (rd_obj r) then
        (case read_cb source (xb_chunk_size (rd_obj r) - xb_filled_size (rd_obj r)) r of (bs, r1) \<Rightarrow>
           if bs = [] then Inl (EOFError, r1\<lparr>rd_eof := True\<rparr>)
           else (case with_obj r1 (update_fields (append_bytes bs (rd_obj r1))) of
                   Inl e \<Rightarrow> Inl e | Inr r2 \<Rightarrow> fill_chunk source r2))
      else Inr r)"
  by pat_completeness auto
termination
  by (relation "measure (\<lambda>(source, r). length (rd_in r))")
    (auto simp: with_obj_in read_cb_def Let_def min_def max_def split: if_splits)

declare fill_chunk.simps [simp del]

function send :: "sink \<Rightarrow> reader \<Rightarrow> reader rd_result" where
  "send sink r =
     (let x = rd_obj r in
      if xb_tx_size x < xb_chunk_size x then
        (let remaining = xb_chunk_size x - xb_tx_size x;
             r1 = r\<lparr>rd_writes := Suc (rd_writes r)\<rparr>;
             written = (case sink (rd_writes r) remaining of NoAnswer \<Rightarrow> int remaining | Took k \<Rightarrow> k | NotAnInteger \<Rightarrow> 0)
         in if written \<le> 0 \<or> int remaining < written
            then Inl (IOError ''xbstream write callback made invalid progress'', r1)
            else send sink (r1\<lparr>rd_obj := x\<lparr>xb_tx_size := xb_tx_size x + nat written\<rparr>,
                   rd_out := rd_out r @ take (nat written) (drop (xb_tx_size x) (xb_buffer x))\<rparr>))
      else Inr r)"
  by pat_completeness auto
termination
  by (relation "measure (\<lambda>(sink, r). xb_chunk_size (rd_obj r) - xb_tx_size (rd_obj r))")
    (auto simp: Let_def)

declare send.simps [simp del]

definition set_payload :: "reader \<Rightarrow> reader" where
  "set_payload r = (let x = rd_obj r; off = 4 + 16 + xb_chunk_path_len x + HEADER_LEN in
     r\<lparr>rd_obj := x\<lparr>xb_payload := if rd_set_payload r
          then Some (bslice off (off + xb_payload_size x) (xb_buffer x)) else None\<rparr>\<rparr>)"

definition tx_start :: "source \<Rightarrow> sink \<Rightarrow> reader \<Rightarrow> reader rd_result" where
  "tx_start source sink r =
     (case fill_chunk source (r\<lparr>rd_obj := (rd_obj r)\<lparr>xb_tx_started := True\<rparr>\<rparr>) of
        Inl e \<Rightarrow> Inl e
      | Inr r1 \<Rightarrow> (case send sink (set_payload r1) of
          Inl e \<Rightarrow> Inl e
        | Inr r2 \<Rightarrow> (let x = (rd_obj r2)\<lparr>xb_chunk_tx := True\<rparr> in
            Inr (r2\<lparr>rd_obj := x, rd_done := rd_done r2 @ [x]\<rparr>))))"

definition count_chunk :: "reader \<Rightarrow> reader" where
  "count_chunk r = (let x = rd_obj r; n = dgetd (rd_counts r) (xb_name x) 0 + 1 in
     r\<lparr>rd_counts := dset (rd_counts r) (xb_name x) n, rd_obj := x\<lparr>xb_chunk_no := n\<rparr>\<rparr>)"

definition buffer_updated :: "source \<Rightarrow> sink \<Rightarrow> reader \<Rightarrow> reader rd_result" where
  "buffer_updated source sink r =
     (case with_obj r (update_fields (rd_obj r)) of
        Inl e \<Rightarrow> Inl e
      | Inr r1 \<Rightarrow> if \<not> xb_tx_started (rd_obj r1) \<and> ready_for_tx (rd_obj r1)
                  then tx_start source sink (count_chunk r1) else Inr r1)"

definition xb_call :: "source \<Rightarrow> sink \<Rightarrow> reader \<Rightarrow> reader rd_result" where
  "xb_call source sink r0 =
     (let r = (if xb_chunk_tx (rd_obj r0) then r0\<lparr>rd_obj := xb_new\<rparr> else r0) in
      if xb_filled_size (rd_obj r) < xb_chunk_size (rd_obj r) then
        (case read_cb source (xb_chunk_size (rd_obj r) - xb_filled_size (rd_obj r)) r of (bs, r1) \<Rightarrow>
           if bs \<noteq> [] then buffer_updated source sink (r1\<lparr>rd_obj := append_bytes bs (rd_obj r1)\<rparr>)
           else if xb_filled_size (rd_obj r1) \<noteq> 0 then Inl (EOFError, r1\<lparr>rd_eof := True\<rparr>)
           else Inr (r1\<lparr>rd_eof := True\<rparr>))
      else Inr r)"

text \<open>The loop of the module: \<^verbatim>\<open>while xbread.is_streaming(): xbread()\<close>.\<close>

fun xb_run :: "source \<Rightarrow> sink \<Rightarrow> nat \<Rightarrow> reader \<Rightarrow> reader rd_result" where
  "xb_run source sink 0 r = Inr r"
| "xb_run source sink (Suc n) r =
     (if is_streaming r
      then (case xb_call source sink r of Inl e \<Rightarrow> Inl e | Inr r' \<Rightarrow> xb_run source sink n r')
      else Inr r)"

end
