(* ===== verification/Xbstream_Properties.thy ===== *)
theory Xbstream_Properties
  imports Xbstream
begin

text \<open>
  The format of an xbstream as an encoder, and what the reader makes of it: however the input is cut
  into reads and the output into writes, it copies the stream, numbers the chunks of each file and
  stops; a stream cut inside a chunk is an \<^verbatim>\<open>EOFError\<close>.
\<close>

section \<open>The format\<close>

datatype body = Eof | Payload string string string

text \<open>Flags, path and body of a chunk; a payload has its offset, its checksum and its bytes.\<close>

type_synonym chunk = "char \<times> string \<times> body"

fun le_bytes :: "nat \<Rightarrow> nat \<Rightarrow> string" where
  "le_bytes 0 v = []"
| "le_bytes (Suc n) v = char_of (v mod 256) # le_bytes n (v div 256)"

definition chunk_header :: "chunk \<Rightarrow> string" where
  "chunk_header c = (case c of (flags, path, b) \<Rightarrow>
     XB_MAGIC @ [flags] @ (case b of Eof \<Rightarrow> XB_EOF | Payload _ _ _ \<Rightarrow> XB_PAYLOAD) @ le_bytes 4 (length path))"

definition chunk_body :: "chunk \<Rightarrow> string" where
  "chunk_body c = (case c of (flags, path, b) \<Rightarrow>
     (case b of Eof \<Rightarrow> [] | Payload off crc pl \<Rightarrow> le_bytes 8 (length pl) @ off @ crc @ pl))"

definition chunk_path :: "chunk \<Rightarrow> string" where
  "chunk_path c = fst (snd c)"

definition chunk_encode :: "chunk \<Rightarrow> string" where
  "chunk_encode c = chunk_header c @ chunk_path c @ chunk_body c"

definition chunk_ok :: "chunk \<Rightarrow> bool" where
  "chunk_ok c = (case c of (flags, path, b) \<Rightarrow> length path < 2 ^ 32 \<and>
     (case b of Eof \<Rightarrow> True
      | Payload off crc pl \<Rightarrow> length off = 8 \<and> length crc = 4 \<and> length pl < 2 ^ 64))"

definition sink_ok :: "sink \<Rightarrow> bool" where
  "sink_ok sink \<longleftrightarrow> (\<forall>i n. 0 < n \<longrightarrow> sink i n = NoAnswer \<or> (\<exists>k. sink i n = Took k \<and> 1 \<le> k \<and> k \<le> int n))"

lemma length_le_bytes [simp]: "length (le_bytes n v) = n"
  by (induction n arbitrary: v) auto

lemma le_nat_bytes: "v < 256 ^ n \<Longrightarrow> le_nat (le_bytes n v) = v"
proof (induction n arbitrary: v)
  case (Suc n)
  then have "le_nat (le_bytes n (v div 256)) = v div 256" by (intro Suc.IH) (simp add: less_mult_imp_div_less mult.commute)
  then show ?case by simp
qed simp

section \<open>Slices of an encoded chunk\<close>

definition is_eof :: "chunk \<Rightarrow> bool" where "is_eof c = (snd (snd c) = Eof)"

definition chunk_data :: "chunk \<Rightarrow> string" where
  "chunk_data c = (case snd (snd c) of Eof \<Rightarrow> [] | Payload _ _ pl \<Rightarrow> pl)"

definition chunk_type :: "chunk \<Rightarrow> string" where
  "chunk_type c = (if is_eof c then XB_EOF else XB_PAYLOAD)"

lemma length_header [simp]: "length (chunk_header c) = 14"
  by (auto simp: chunk_header_def XB_MAGIC_def XB_EOF_def XB_PAYLOAD_def split: prod.splits body.splits)

lemma HEADER_LEN [simp]: "HEADER_LEN = 14" "PATH_LENGTH_OFFSET = 10" "CHUNK_TYPE_OFFSET = 9" "length XB_MAGIC = 8"
  by (simp_all add: HEADER_LEN_def PATH_LENGTH_OFFSET_def CHUNK_TYPE_OFFSET_def XB_MAGIC_def)

lemma length_encode: "chunk_ok c \<Longrightarrow> length (chunk_encode c) =
   14 + length (chunk_path c) + (if is_eof c then 0 else 20 + length (chunk_data c))"
  by (auto simp: chunk_encode_def chunk_body_def chunk_ok_def is_eof_def chunk_data_def chunk_path_def
      split: prod.splits body.splits)

lemma bslice_self [simp]: "bslice i i s = []"
  by (simp add: bslice_def)

lemma bslice_take: "j \<le> m \<Longrightarrow> bslice i j (take m s) = bslice i j s"
  by (simp add: bslice_def drop_take min_def)

lemma slice_header: "j \<le> 14 \<Longrightarrow> bslice i j (chunk_encode c) = bslice i j (chunk_header c)"
  by (simp add: bslice_def chunk_encode_def)

lemma slices:
  assumes "chunk_ok c"
  shows "bslice 0 8 (chunk_encode c) = XB_MAGIC"
    "bslice 9 10 (chunk_encode c) = chunk_type c"
    "le_nat (bslice 10 14 (chunk_encode c)) = length (chunk_path c)"
    "bslice 14 (14 + length (chunk_path c)) (chunk_encode c) = chunk_path c"
    "\<not> is_eof c \<Longrightarrow> le_nat (bslice (14 + length (chunk_path c)) (22 + length (chunk_path c)) (chunk_encode c)) =
       length (chunk_data c)"
    "bslice (34 + length (chunk_path c)) (34 + length (chunk_path c) + length (chunk_data c)) (chunk_encode c) =
       chunk_data c"
proof -
  obtain fl path b where c: "c = (fl, path, b)" by (cases c) auto
  have h: "chunk_header c = ''XBSTCK01'' @ [fl] @ chunk_type c @ le_bytes 4 (length path)"
    and t: "length (chunk_type c) = 1"
    by (auto simp: chunk_header_def c chunk_type_def is_eof_def XB_MAGIC_def XB_EOF_def XB_PAYLOAD_def split: body.splits)
  have p: "chunk_path c = path" by (simp add: chunk_path_def c)
  obtain y where y: "chunk_type c = [y]" using t by (auto simp: length_Suc_conv)
  show "bslice 0 8 (chunk_encode c) = XB_MAGIC" "bslice 9 10 (chunk_encode c) = chunk_type c"
    by (simp_all add: chunk_encode_def h y bslice_def XB_MAGIC_def)
  have "length path < 256 ^ 4" using assms by (simp add: chunk_ok_def c)
  then show "le_nat (bslice 10 14 (chunk_encode c)) = length (chunk_path c)"
    using le_nat_bytes [of "length path" 4]
    by (simp add: chunk_encode_def h y bslice_def p)
  show "bslice 14 (14 + length (chunk_path c)) (chunk_encode c) = chunk_path c"
    by (simp add: bslice_def chunk_encode_def)
  show "le_nat (bslice (14 + length (chunk_path c)) (22 + length (chunk_path c)) (chunk_encode c)) =
      length (chunk_data c)" if "\<not> is_eof c"
  proof -
    from that obtain off crc pl where b: "b = Payload off crc pl" by (cases b) (auto simp: is_eof_def c)
    with assms have "length pl < 256 ^ 8" by (simp add: chunk_ok_def c)
    then show ?thesis using le_nat_bytes [of "length pl" 8]
      by (simp add: bslice_def chunk_encode_def chunk_body_def chunk_data_def c b)
  qed
  show "bslice (34 + length (chunk_path c)) (34 + length (chunk_path c) + length (chunk_data c)) (chunk_encode c) =
      chunk_data c"
    using assms
    by (auto simp: bslice_def chunk_encode_def chunk_body_def chunk_data_def c chunk_path_def chunk_ok_def
        split: body.splits)
qed

section \<open>A chunk being read\<close>

text \<open>How many bytes the reader wants once it has \<open>k\<close> of a chunk, and its object then.\<close>

definition size_at :: "chunk \<Rightarrow> nat \<Rightarrow> nat" where
  "size_at c k = (if k < 14 then 14 else if is_eof c then 14 + length (chunk_path c)
     else if k < 30 + length (chunk_path c) then 30 + length (chunk_path c)
     else length (chunk_encode c))"

definition obj_at :: "chunk \<Rightarrow> nat \<Rightarrow> xb" where
  "obj_at c k = \<lparr>xb_buffer = take k (chunk_encode c), xb_filled_size = k, xb_tx_size = 0, xb_chunk_tx = False,
     xb_name = (if 14 + length (chunk_path c) + (if is_eof c then 0 else 16) \<le> k then Some (chunk_path c) else None),
     xb_magic_verified = (14 \<le> k), xb_chunk_path_len = (if 14 \<le> k then length (chunk_path c) else 0),
     xb_chunk_type = (if 14 \<le> k then Some (chunk_type c) else None), xb_payload = None,
     xb_payload_size = (if \<not> is_eof c \<and> 30 + length (chunk_path c) \<le> k then length (chunk_data c) else 0),
     xb_chunk_size = size_at c k, xb_chunk_no = 0, xb_tx_started = False\<rparr>"

lemma obj_at_0: "obj_at c 0 = xb_new"
  by (auto simp: obj_at_def xb_new_def size_at_def)

lemma size_at_more: "chunk_ok c \<Longrightarrow> k < length (chunk_encode c) \<Longrightarrow>
   k < size_at c k \<and> size_at c k \<le> length (chunk_encode c)"
  by (auto simp: size_at_def length_encode)

lemma ready_at: "chunk_ok c \<Longrightarrow> 0 < k \<Longrightarrow> k \<le> length (chunk_encode c) \<Longrightarrow>
   ready_for_tx (obj_at c k) = (k = length (chunk_encode c))"
  by (auto simp: ready_for_tx_def obj_at_def size_at_def length_encode)

lemma chunk_type_eof: "(chunk_type c = XB_EOF) = is_eof c" "(XB_EOF = chunk_type c) = is_eof c"
  "\<not> is_eof c \<Longrightarrow> chunk_type c = XB_PAYLOAD" "XB_PAYLOAD \<noteq> XB_EOF" "XB_EOF \<noteq> XB_PAYLOAD"
  by (auto simp: chunk_type_def XB_EOF_def XB_PAYLOAD_def)

lemma xb_eq: "(x :: xb) = y \<longleftrightarrow> xb_buffer x = xb_buffer y \<and> xb_filled_size x = xb_filled_size y \<and>
   xb_tx_size x = xb_tx_size y \<and> xb_chunk_tx x = xb_chunk_tx y \<and> xb_name x = xb_name y \<and>
   xb_magic_verified x = xb_magic_verified y \<and> xb_chunk_path_len x = xb_chunk_path_len y \<and>
   xb_chunk_type x = xb_chunk_type y \<and> xb_payload x = xb_payload y \<and> xb_payload_size x = xb_payload_size y \<and>
   xb_chunk_size x = xb_chunk_size y \<and> xb_chunk_no x = xb_chunk_no y \<and> xb_tx_started x = xb_tx_started y"
  by auto

lemma update_at:
  assumes c: "chunk_ok c" and k: "k < size_at c k" "j \<le> size_at c k" "k \<le> j" "j \<le> length (chunk_encode c)"
  shows "update_fields ((obj_at c k)\<lparr>xb_buffer := take j (chunk_encode c), xb_filled_size := j\<rparr>) = Inr (obj_at c j)"
proof -
  note sl = slices [OF c]
  consider "j < 14" | "k < 14" "j = 14" | "14 \<le> k" "is_eof c" | "14 \<le> k" "\<not> is_eof c"
    using k(2) by (force simp: size_at_def split: if_splits)
  then show ?thesis
  proof cases
    case 1
    with k show ?thesis
      by (auto simp: update_fields_def step_header_def step_payload_def step_eof_def obj_at_def size_at_def)
  next
    case 2
    then show ?thesis
      by (auto simp: update_fields_def step_header_def step_payload_def step_eof_def obj_at_def size_at_def
          Let_def bslice_take sl chunk_type_eof XB_EOF_def XB_PAYLOAD_def chunk_type_def)
  next
    case 3
    with k show ?thesis
      by (auto simp: update_fields_def step_header_def step_payload_def step_eof_def obj_at_def size_at_def
          Let_def bslice_take sl chunk_type_eof)
  next
    case 4
    with k show ?thesis
      by (auto simp: update_fields_def step_header_def step_payload_def step_eof_def obj_at_def size_at_def
          Let_def bslice_take sl chunk_type_eof length_encode [OF c])
  qed
qed


section \<open>One call\<close>

lemma read_cb_bounds:
  assumes "read_cb source n r = (bs, r1)" "0 < n" "rd_in r \<noteq> []"
  shows "bs \<noteq> [] \<and> length bs \<le> n \<and> rd_in r = bs @ rd_in r1 \<and>
    r1 = r\<lparr>rd_in := rd_in r1, rd_reads := Suc (rd_reads r)\<rparr>"
  using assms by (auto simp: read_cb_def Let_def)

text \<open>The bytes read extend the chunk.\<close>

definition reading :: "chunk \<Rightarrow> nat \<Rightarrow> reader \<Rightarrow> bool" where
  "reading c k r \<longleftrightarrow> \<not> rd_eof r \<and> (rd_obj r = obj_at c k \<or> k = 0 \<and> xb_chunk_tx (rd_obj r))"

definition fresh :: "reader \<Rightarrow> bool" where
  "fresh r \<longleftrightarrow> \<not> rd_eof r \<and> (rd_obj r = xb_new \<or> xb_chunk_tx (rd_obj r))"

lemma fresh_reading: "fresh r = reading c 0 r"
  by (auto simp: fresh_def reading_def obj_at_0)

definition start_of :: "reader \<Rightarrow> reader" where
  "start_of r = (if xb_chunk_tx (rd_obj r) then r\<lparr>rd_obj := xb_new\<rparr> else r)"

lemma obj_at_tx [simp]: "\<not> xb_chunk_tx (obj_at c k)"
  by (simp add: obj_at_def)

lemma start_reading: "reading c k r \<Longrightarrow> start_of r = r\<lparr>rd_obj := obj_at c k\<rparr>"
  by (auto simp: reading_def start_of_def obj_at_0)

lemma xb_call_start: "xb_call source sink r =
  (if xb_filled_size (rd_obj (start_of r)) < xb_chunk_size (rd_obj (start_of r)) then
     (case read_cb source (xb_chunk_size (rd_obj (start_of r)) - xb_filled_size (rd_obj (start_of r))) (start_of r)
        of (bs, r1) \<Rightarrow>
         if bs \<noteq> [] then buffer_updated source sink (r1\<lparr>rd_obj := append_bytes bs (rd_obj r1)\<rparr>)
         else if xb_filled_size (rd_obj r1) \<noteq> 0 then Inl (EOFError, r1\<lparr>rd_eof := True\<rparr>)
         else Inr (r1\<lparr>rd_eof := True\<rparr>))
   else Inr (start_of r))"
  by (simp add: xb_call_def start_of_def Let_def)

lemma call_reads:
  assumes c: "chunk_ok c" and r: "reading c k r" and k: "k < length (chunk_encode c)"
    and d: "rd_in r \<noteq> []" "\<exists>z. rd_in r @ z = drop k (chunk_encode c) @ y"
  obtains bs i r1 where "bs \<noteq> []" "rd_in r = bs @ i" "k + length bs \<le> length (chunk_encode c)"
    "r1 = r\<lparr>rd_in := i, rd_reads := Suc (rd_reads r), rd_obj := obj_at c (k + length bs)\<rparr>"
    "xb_call source sink r = (if k + length bs = length (chunk_encode c)
       then tx_start source sink (count_chunk r1) else Inr r1)"
    "drop k (chunk_encode c) = bs @ drop (k + length bs) (chunk_encode c)"
proof -
  define r0 where "r0 = r\<lparr>rd_obj := obj_at c k\<rparr>"
  have r0: "start_of r = r0" using start_reading [OF r] by (simp add: r0_def)
  have sz: "xb_filled_size (rd_obj r0) = k" "xb_chunk_size (rd_obj r0) = size_at c k"
    by (simp_all add: r0_def obj_at_def)
  note more = size_at_more [OF c k]
  obtain bs r1 where rd: "read_cb source (size_at c k - k) r0 = (bs, r1)"
    by (cases "read_cb source (size_at c k - k) r0") auto
  from read_cb_bounds [OF rd] more d(1)
  have b: "bs \<noteq> []" "length bs \<le> size_at c k - k" "rd_in r = bs @ rd_in r1"
    and r1: "r1 = r0\<lparr>rd_in := rd_in r1, rd_reads := Suc (rd_reads r0)\<rparr>"
    by (auto simp: r0_def)
  have j: "k + length bs \<le> size_at c k" "k + length bs \<le> length (chunk_encode c)" using b(2) more by auto
  have dk: "bs = take (length bs) (drop k (chunk_encode c))"
  proof -
    from d(2) b(3) obtain z where z: "bs @ (rd_in r1 @ z) = drop k (chunk_encode c) @ y" by auto
    have "bs = take (length bs) (drop k (chunk_encode c) @ y)" by (simp flip: z)
    with j(2) show ?thesis by simp
  qed
  have buf: "take k (chunk_encode c) @ bs = take (k + length bs) (chunk_encode c)"
    using dk by (simp add: take_add)
  let ?j = "k + length bs"
  have ap: "append_bytes bs (rd_obj r1) =
      (obj_at c k)\<lparr>xb_buffer := take ?j (chunk_encode c), xb_filled_size := ?j\<rparr>"
    using buf by (subst r1) (simp add: append_bytes_def r0_def obj_at_def)
  note up = update_at [OF c conjunct1 [OF more] j(1) _ j(2), simplified]
  let ?r = "r\<lparr>rd_in := rd_in r1, rd_reads := Suc (rd_reads r), rd_obj := obj_at c ?j\<rparr>"
  have same: "r1\<lparr>rd_obj := obj_at c ?j\<rparr> = ?r" by (subst r1) (simp add: r0_def)
  have "xb_call source sink r = buffer_updated source sink (r1\<lparr>rd_obj := append_bytes bs (rd_obj r1)\<rparr>)"
    unfolding xb_call_start r0 sz rd using more b(1) by simp
  also have "\<dots> = (if ?j = length (chunk_encode c) then tx_start source sink (count_chunk ?r) else Inr ?r)"
    using ready_at [OF c _ j(2)] b(1)
    by (simp add: buffer_updated_def ap up with_obj_def same) (simp add: obj_at_def)
  finally have call: "xb_call source sink r =
      (if ?j = length (chunk_encode c) then tx_start source sink (count_chunk ?r) else Inr ?r)" .
  have "drop k (chunk_encode c) = bs @ drop ?j (chunk_encode c)"
    using dk by (metis add.commute append_take_drop_id drop_drop)
  from that [OF b(1) b(3) j(2) refl call this] show ?thesis .
qed

section \<open>Transmission\<close>

lemma send_step:
  assumes s: "sink_ok sink" and lt: "xb_tx_size (rd_obj r) < xb_chunk_size (rd_obj r)"
  obtains w where "0 < w" "xb_tx_size (rd_obj r) + w \<le> xb_chunk_size (rd_obj r)"
    "send sink r = send sink (r\<lparr>rd_writes := Suc (rd_writes r),
       rd_obj := (rd_obj r)\<lparr>xb_tx_size := xb_tx_size (rd_obj r) + w\<rparr>,
       rd_out := rd_out r @ take w (drop (xb_tx_size (rd_obj r)) (xb_buffer (rd_obj r)))\<rparr>)"
proof -
  define left where "left = xb_chunk_size (rd_obj r) - xb_tx_size (rd_obj r)"
  define w where "w = (case sink (rd_writes r) left of NoAnswer \<Rightarrow> int left | Took k \<Rightarrow> k | NotAnInteger \<Rightarrow> 0)"
  have l: "0 < left" using lt by (simp add: left_def)
  with s have "sink (rd_writes r) left = NoAnswer \<or> (\<exists>k. sink (rd_writes r) left = Took k \<and> 1 \<le> k \<and> k \<le> int left)"
    unfolding sink_ok_def by blast
  with l have w: "0 < w" "w \<le> int left" unfolding w_def by auto
  have "send sink r = send sink (r\<lparr>rd_writes := Suc (rd_writes r),
       rd_obj := (rd_obj r)\<lparr>xb_tx_size := xb_tx_size (rd_obj r) + nat w\<rparr>,
       rd_out := rd_out r @ take (nat w) (drop (xb_tx_size (rd_obj r)) (xb_buffer (rd_obj r)))\<rparr>)"
    using lt w by (subst send.simps) (simp add: Let_def flip: left_def w_def)
  with that [of "nat w"] w l show ?thesis by (simp add: left_def)
qed

lemma send_all:
  assumes s: "sink_ok sink"
  shows "xb_tx_size (rd_obj r) \<le> xb_chunk_size (rd_obj r) \<Longrightarrow>
     xb_chunk_size (rd_obj r) = length (xb_buffer (rd_obj r)) \<Longrightarrow>
     \<exists>w. send sink r = Inr (r\<lparr>rd_writes := w, rd_obj := (rd_obj r)\<lparr>xb_tx_size := xb_chunk_size (rd_obj r)\<rparr>,
       rd_out := rd_out r @ drop (xb_tx_size (rd_obj r)) (xb_buffer (rd_obj r))\<rparr>)"
proof (induction "xb_chunk_size (rd_obj r) - xb_tx_size (rd_obj r)" arbitrary: r rule: less_induct)
  case less
  show ?case
  proof (cases "xb_tx_size (rd_obj r) < xb_chunk_size (rd_obj r)")
    case False
    with less.prems have e: "xb_tx_size (rd_obj r) = xb_chunk_size (rd_obj r)" by simp
    have "send sink r = Inr r" by (subst send.simps) (simp add: e)
    with e less.prems(2) show ?thesis by (intro exI [of _ "rd_writes r"]) simp
  next
    case True
    from send_step [OF s True] obtain w where w: "0 < w" "xb_tx_size (rd_obj r) + w \<le> xb_chunk_size (rd_obj r)"
      and st: "send sink r = send sink (r\<lparr>rd_writes := Suc (rd_writes r),
       rd_obj := (rd_obj r)\<lparr>xb_tx_size := xb_tx_size (rd_obj r) + w\<rparr>,
       rd_out := rd_out r @ take w (drop (xb_tx_size (rd_obj r)) (xb_buffer (rd_obj r)))\<rparr>)" .
    let ?r = "r\<lparr>rd_writes := Suc (rd_writes r),
       rd_obj := (rd_obj r)\<lparr>xb_tx_size := xb_tx_size (rd_obj r) + w\<rparr>,
       rd_out := rd_out r @ take w (drop (xb_tx_size (rd_obj r)) (xb_buffer (rd_obj r)))\<rparr>"
    have "xb_chunk_size (rd_obj ?r) - xb_tx_size (rd_obj ?r) < xb_chunk_size (rd_obj r) - xb_tx_size (rd_obj r)"
      using w True by simp
    from less.hyps [OF this] w less.prems(2) obtain v where
      "send sink ?r = Inr (?r\<lparr>rd_writes := v, rd_obj := (rd_obj ?r)\<lparr>xb_tx_size := xb_chunk_size (rd_obj ?r)\<rparr>,
       rd_out := rd_out ?r @ drop (xb_tx_size (rd_obj ?r)) (xb_buffer (rd_obj ?r))\<rparr>)" by auto
    moreover have "take w (drop t b) @ drop (t + w) b = drop t b" for b :: string and t
      by (metis add.commute append_take_drop_id drop_drop)
    ultimately show ?thesis unfolding st by (intro exI [of _ v]) simp
  qed
qed

text \<open>The object of a chunk at the end of its transmission, and the reader then.\<close>

definition sent_obj :: "bool \<Rightarrow> chunk \<Rightarrow> nat \<Rightarrow> xb" where
  "sent_obj sp c n = (obj_at c (length (chunk_encode c)))\<lparr>xb_chunk_no := n, xb_tx_started := True,
     xb_payload := (if sp then Some (chunk_data c) else None), xb_tx_size := length (chunk_encode c),
     xb_chunk_tx := True\<rparr>"

definition sent_reader :: "chunk \<Rightarrow> reader \<Rightarrow> reader \<Rightarrow> bool" where
  "sent_reader c r r' \<longleftrightarrow> (let n = dgetd (rd_counts r) (Some (chunk_path c)) 0 + 1 in
     rd_counts r' = dset (rd_counts r) (Some (chunk_path c)) n \<and>
     rd_out r' = rd_out r @ chunk_encode c \<and> rd_done r' = rd_done r @ [sent_obj (rd_set_payload r) c n] \<and>
     rd_set_payload r' = rd_set_payload r \<and> fresh r')"

lemma tx_chunk:
  assumes c: "chunk_ok c" and s: "sink_ok sink" and e: "\<not> rd_eof r"
    and o: "rd_obj r = obj_at c (length (chunk_encode c))"
  shows "\<exists>r'. tx_start source sink (count_chunk r) = Inr r' \<and> sent_reader c r r' \<and> rd_in r' = rd_in r"
proof -
  let ?L = "length (chunk_encode c)" and ?n = "dgetd (rd_counts r) (Some (chunk_path c)) 0 + 1"
  have L: "14 \<le> ?L" "size_at c ?L = ?L" using c by (auto simp: length_encode size_at_def)
  have nm: "xb_name (obj_at c ?L) = Some (chunk_path c)" using c by (auto simp: obj_at_def length_encode)
  have sz: "xb_filled_size (obj_at c ?L) = ?L" "xb_chunk_size (obj_at c ?L) = ?L" "xb_tx_size (obj_at c ?L) = 0"
    "xb_buffer (obj_at c ?L) = chunk_encode c" "xb_chunk_path_len (obj_at c ?L) = length (chunk_path c)"
    "xb_payload_size (obj_at c ?L) = length (chunk_data c)"
    using L c by (auto simp: obj_at_def length_encode chunk_data_def is_eof_def split: body.splits)
  define r1 where "r1 = (count_chunk r)\<lparr>rd_obj := (rd_obj (count_chunk r))\<lparr>xb_tx_started := True\<rparr>\<rparr>"
  have f: "fill_chunk source r1 = Inr r1"
    by (subst fill_chunk.simps) (simp add: r1_def count_chunk_def Let_def o sz)
  have r1: "rd_obj r1 = (obj_at c ?L)\<lparr>xb_chunk_no := ?n, xb_tx_started := True\<rparr>"
    "rd_counts r1 = dset (rd_counts r) (Some (chunk_path c)) ?n" "rd_out r1 = rd_out r" "rd_done r1 = rd_done r"
    "rd_set_payload r1 = rd_set_payload r" "rd_eof r1 = False" "rd_in r1 = rd_in r"
    using e by (simp_all add: r1_def count_chunk_def Let_def o nm)
  define r2 where "r2 = set_payload r1"
  have r2: "rd_obj r2 = (obj_at c ?L)\<lparr>xb_chunk_no := ?n, xb_tx_started := True,
      xb_payload := if rd_set_payload r then Some (chunk_data c) else None\<rparr>"
    "rd_counts r2 = dset (rd_counts r) (Some (chunk_path c)) ?n" "rd_out r2 = rd_out r" "rd_done r2 = rd_done r"
    "rd_set_payload r2 = rd_set_payload r" "rd_eof r2 = False" "rd_in r2 = rd_in r"
    using slices(6) [OF c] by (simp_all add: r2_def set_payload_def Let_def r1 sz add_ac)
  have "xb_tx_size (rd_obj r2) \<le> xb_chunk_size (rd_obj r2)" "xb_chunk_size (rd_obj r2) = length (xb_buffer (rd_obj r2))"
    by (simp_all add: r2 sz)
  from send_all [OF s this] obtain w where
    "send sink r2 = Inr (r2\<lparr>rd_writes := w, rd_obj := (rd_obj r2)\<lparr>xb_tx_size := ?L\<rparr>, rd_out := rd_out r @ chunk_encode c\<rparr>)"
    by (auto simp: r2 sz)
  then show ?thesis
    by (simp add: tx_start_def f flip: r1_def r2_def)
      (simp add: sent_reader_def Let_def r2 fresh_def sent_obj_def)
qed


section \<open>Whole streams\<close>

lemma run_step: "\<not> rd_eof r \<Longrightarrow> xb_call source sink r = Inr r' \<Longrightarrow>
   xb_run source sink (Suc n) r = xb_run source sink n r'"
  by (simp add: is_streaming_def)

lemma run_chunk:
  assumes c: "chunk_ok c" and s: "sink_ok sink"
  shows "reading c k r \<Longrightarrow> k < length (chunk_encode c) \<Longrightarrow> rd_in r = drop k (chunk_encode c) @ rest \<Longrightarrow>
    \<exists>m r'. m \<le> length (chunk_encode c) - k \<and> sent_reader c r r' \<and> rd_in r' = rest \<and>
      (\<forall>n. xb_run source sink (m + n) r = xb_run source sink n r')"
proof (induction "length (chunk_encode c) - k" arbitrary: k r rule: less_induct)
  case less
  let ?L = "length (chunk_encode c)"
  have e: "\<not> rd_eof r" using less.prems(1) by (simp add: reading_def)
  have ne: "rd_in r \<noteq> []" and ex: "\<exists>z. rd_in r @ z = drop k (chunk_encode c) @ rest"
    using less.prems(2,3) by auto
  obtain bs i r1 where b: "bs \<noteq> []" "rd_in r = bs @ i" "k + length bs \<le> ?L"
    and r1: "r1 = r\<lparr>rd_in := i, rd_reads := Suc (rd_reads r), rd_obj := obj_at c (k + length bs)\<rparr>"
    and call: "xb_call source sink r = (if k + length bs = ?L
       then tx_start source sink (count_chunk r1) else Inr r1)"
    and dk: "drop k (chunk_encode c) = bs @ drop (k + length bs) (chunk_encode c)"
    by (rule call_reads [OF c less.prems(1,2) ne ex, of source sink])
  have i: "i = drop (k + length bs) (chunk_encode c) @ rest"
    using less.prems(3) b(2) dk by (metis append.assoc same_append_eq)
  have same: "sent_reader c r1 r' = sent_reader c r r'" for r' by (simp add: sent_reader_def r1)
  show ?case
  proof (cases "k + length bs = ?L")
    case True
    have "\<not> rd_eof r1" "rd_obj r1 = obj_at c ?L" using e by (simp_all add: r1 True)
    from tx_chunk [OF c s this, of source] call True obtain r' where
      "xb_call source sink r = Inr r'" "sent_reader c r r'" "rd_in r' = i" by (auto simp: same) (simp add: r1)
    with run_step [OF e, of source sink r'] i True less.prems(2) show ?thesis
      by (intro exI [of _ 1] exI [of _ r']) auto
  next
    case False
    then have lt: "k + length bs < ?L" using b(3) by simp
    have "reading c (k + length bs) r1" using e by (simp add: reading_def r1)
    moreover have "?L - (k + length bs) < ?L - k" using b(1) lt by (cases bs) auto
    ultimately obtain m r' where m: "m \<le> ?L - (k + length bs)" "sent_reader c r r'" "rd_in r' = rest"
      "\<And>n. xb_run source sink (m + n) r1 = xb_run source sink n r'"
      using less.hyps [of "k + length bs" r1] lt i by (auto simp: same) (auto simp: r1)
    have "xb_run source sink (Suc m + n) r = xb_run source sink n r'" for n
      using run_step [OF e, of source sink r1 "m + n"] call False m(4) by simp
    moreover have "Suc m \<le> ?L - k" using m(1) b(1) lt by (cases bs) auto
    ultimately show ?thesis using m(2,3) by blast
  qed
qed

text \<open>The objects of a list of chunks: numbered per path, after the chunks \<open>before\<close>.\<close>

definition chunk_number :: "chunk list \<Rightarrow> string \<Rightarrow> nat" where
  "chunk_number before p = length (filter (\<lambda>d. chunk_path d = p) before)"

fun chunks_sent :: "bool \<Rightarrow> chunk list \<Rightarrow> chunk list \<Rightarrow> xb list" where
  "chunks_sent sp before [] = []"
| "chunks_sent sp before (c # cs) =
     sent_obj sp c (chunk_number before (chunk_path c) + 1) # chunks_sent sp (before @ [c]) cs"

definition encode_all :: "chunk list \<Rightarrow> string" where
  "encode_all cs = concat (map chunk_encode cs)"

definition sent_all :: "chunk list \<Rightarrow> chunk list \<Rightarrow> reader \<Rightarrow> reader \<Rightarrow> bool" where
  "sent_all before cs r r' \<longleftrightarrow> fresh r' \<and> rd_out r' = rd_out r @ encode_all cs \<and>
     rd_done r' = rd_done r @ chunks_sent (rd_set_payload r) before cs \<and> rd_set_payload r' = rd_set_payload r"

lemma encode_nonempty: "0 < length (chunk_encode c)"
  by (simp add: chunk_encode_def flip: length_greater_0_conv)

lemma run_chunks:
  assumes s: "sink_ok sink"
  shows "list_all chunk_ok cs \<Longrightarrow> fresh r \<Longrightarrow> rd_in r = encode_all cs @ rest \<Longrightarrow>
    (\<And>p. dgetd (rd_counts r) (Some p) 0 = chunk_number before p) \<Longrightarrow>
    \<exists>m r'. m \<le> length (encode_all cs) \<and> sent_all before cs r r' \<and> rd_in r' = rest \<and>
      (\<forall>n. xb_run source sink (m + n) r = xb_run source sink n r')"
proof (induction cs arbitrary: r before)
  case Nil
  then show ?case by (intro exI [of _ 0] exI [of _ r]) (simp add: sent_all_def encode_all_def)
next
  case (Cons c cs)
  have c: "chunk_ok c" and r: "reading c 0 r" using Cons.prems fresh_reading [of r c] by auto
  have "rd_in r = drop 0 (chunk_encode c) @ (encode_all cs @ rest)"
    using Cons.prems(3) by (simp add: encode_all_def)
  from run_chunk [OF c s r encode_nonempty this, of source] obtain m r1 where m: "m \<le> length (chunk_encode c)"
    "sent_reader c r r1" "rd_in r1 = encode_all cs @ rest"
    "\<And>n. xb_run source sink (m + n) r = xb_run source sink n r1" by auto
  have cnt: "dgetd (rd_counts r1) (Some p) 0 = chunk_number (before @ [c]) p" for p
    using m(2) Cons.prems(4) [of p] Cons.prems(4) [of "chunk_path c"]
    by (auto simp: sent_reader_def Let_def dgetd_def chunk_number_def)
  have "list_all chunk_ok cs" "fresh r1" using Cons.prems(1) m(2) by (simp_all add: sent_reader_def Let_def)
  from Cons.IH [OF this m(3) cnt] obtain k r' where k: "k \<le> length (encode_all cs)"
    "sent_all (before @ [c]) cs r1 r'" "rd_in r' = rest"
    "\<And>n. xb_run source sink (k + n) r1 = xb_run source sink n r'" by auto
  have "sent_all before (c # cs) r r'"
    using k(2) m(2) Cons.prems(4) by (simp add: sent_all_def sent_reader_def Let_def encode_all_def)
  moreover have "xb_run source sink (m + k + n) r = xb_run source sink n r'" for n
    using m(4) [of "k + n"] k(4) by (simp add: add_ac)
  moreover have "m + k \<le> length (encode_all (c # cs))" using m(1) k(1) by (simp add: encode_all_def)
  ultimately show ?case using k(3) by blast
qed

lemma call_at_end:
  assumes "\<not> rd_eof r" "rd_in r = []" "xb_filled_size (rd_obj (start_of r)) < xb_chunk_size (rd_obj (start_of r))"
  shows "\<exists>r'. rd_eof r' \<and> rd_out r' = rd_out r \<and> rd_done r' = rd_done r \<and>
    xb_call source sink r = (if xb_filled_size (rd_obj (start_of r)) = 0 then Inr r' else Inl (EOFError, r'))"
  using assms by (auto simp: xb_call_start read_cb_def Let_def start_of_def)

lemma run_cut:
  assumes c: "chunk_ok c"
  shows "reading c k r \<Longrightarrow> k + t < length (chunk_encode c) \<Longrightarrow> 0 < k + t \<Longrightarrow>
    rd_in r = take t (drop k (chunk_encode c)) \<Longrightarrow> t < n \<Longrightarrow>
    \<exists>r'. xb_run source sink n r = Inl (EOFError, r') \<and> rd_out r' = rd_out r \<and> rd_done r' = rd_done r"
proof (induction t arbitrary: k r n rule: less_induct)
  case (less t)
  let ?L = "length (chunk_encode c)"
  have e: "\<not> rd_eof r" using less.prems(1) by (simp add: reading_def)
  obtain n' where n: "n = Suc n'" using less.prems(5) by (cases n) auto
  show ?case
  proof (cases "t = 0")
    case True
    have st: "rd_obj (start_of r) = obj_at c k" using start_reading [OF less.prems(1)] by simp
    have "xb_filled_size (rd_obj (start_of r)) = k" "xb_chunk_size (rd_obj (start_of r)) = size_at c k"
      by (simp_all add: st) (simp_all add: obj_at_def)
    with call_at_end [OF e, of source sink] size_at_more [OF c, of k] less.prems True e show ?thesis
      by (auto simp: n is_streaming_def)
  next
    case False
    with less.prems have ne: "rd_in r \<noteq> []" and k: "k < ?L" by auto
    have ex: "\<exists>z. rd_in r @ z = drop k (chunk_encode c) @ []"
      unfolding less.prems(4) by (intro exI [of _ "drop t (drop k (chunk_encode c))"]) (simp del: drop_drop)
    obtain bs i r1 where b: "bs \<noteq> []" "rd_in r = bs @ i"
      and r1: "r1 = r\<lparr>rd_in := i, rd_reads := Suc (rd_reads r), rd_obj := obj_at c (k + length bs)\<rparr>"
      and call: "xb_call source sink r = (if k + length bs = ?L
         then tx_start source sink (count_chunk r1) else Inr r1)"
      and dk: "drop k (chunk_encode c) = bs @ drop (k + length bs) (chunk_encode c)"
      by (rule call_reads [OF c less.prems(1) k ne ex, of source sink])
    have len: "length bs \<le> t" using b(2) less.prems(4) by (metis length_append length_take min.cobounded2 le_add1 order.trans)
    have i: "i = take (t - length bs) (drop (k + length bs) (chunk_encode c))"
      using b(2) less.prems(4) dk len by (metis append_eq_append_conv_if append_eq_conv_conj drop_take take_append)
    have "reading c (k + length bs) r1" using e by (simp add: reading_def r1)
    moreover have "t - length bs < t" using b(1) False by (cases bs) auto
    ultimately have "\<exists>r'. xb_run source sink n' r1 = Inl (EOFError, r') \<and> rd_out r' = rd_out r1 \<and> rd_done r' = rd_done r1"
      using less.prems len b(1) i n by (intro less.IH [of "t - length bs" "k + length bs"]) (auto simp: r1)
    moreover have "xb_call source sink r = Inr r1" using call less.prems(2) len by simp
    ultimately show ?thesis using run_step [OF e] by (simp add: n r1)
  qed
qed

text \<open>
  C12: Reading a well-formed stream, however the input comes in pieces and however the callback takes
  its bytes (any progress it makes being valid): the loop ends at the end of the input, the callback
  has taken exactly the stream, and every chunk was handed on with its path, type, payload and its
  number among the chunks of its file.
\<close>

theorem xbstream_copies:
  assumes "list_all chunk_ok cs" "sink_ok sink" "length (encode_all cs) < n"
  shows "\<exists>r. xb_run source sink n (reader_new sp (encode_all cs)) = Inr r \<and> rd_eof r \<and>
    rd_out r = encode_all cs \<and> rd_done r = chunks_sent sp [] cs"
proof -
  let ?r = "reader_new sp (encode_all cs)"
  have "fresh ?r" "rd_in ?r = encode_all cs @ []" "\<And>p. dgetd (rd_counts ?r) (Some p) 0 = chunk_number [] p"
    by (simp_all add: reader_new_def fresh_def dgetd_def chunk_number_def)
  from run_chunks [OF assms(2,1) this, of source] obtain m r1 where m: "m \<le> length (encode_all cs)"
    "sent_all [] cs ?r r1" "rd_in r1 = []" "\<And>k. xb_run source sink (m + k) ?r = xb_run source sink k r1" by blast
  have f: "fresh r1" using m(2) by (simp add: sent_all_def)
  then have st: "rd_obj (start_of r1) = xb_new" "\<not> rd_eof r1" by (auto simp: fresh_def start_of_def)
  have z: "xb_filled_size xb_new = 0" "xb_chunk_size xb_new = 14" by (simp_all add: xb_new_def)
  from call_at_end [OF st(2) m(3), of source sink] obtain r2 where r2: "rd_eof r2" "rd_out r2 = rd_out r1"
    "rd_done r2 = rd_done r1" "xb_call source sink r1 = Inr r2" by (auto simp: st z)
  obtain k where n: "n = m + Suc k" using assms(3) m(1) less_iff_Suc_add by (metis add_Suc_right le_add_diff_inverse less_imp_Suc_add order_le_less_trans)
  have "xb_run source sink k r2 = Inr r2" using r2(1) by (cases k) (simp_all add: is_streaming_def)
  then have "xb_run source sink n ?r = Inr r2" unfolding n m(4) run_step [OF st(2) r2(4)] .
  with m(2) r2 show ?thesis by (simp add: sent_all_def reader_new_def)
qed

text \<open>
  C13: A stream cut inside a chunk: the chunks before it are handed on, nothing of the cut one is, and
  the reader raises \<^verbatim>\<open>EOFError\<close>.
\<close>

theorem xbstream_truncated:
  assumes "list_all chunk_ok cs" "chunk_ok c" "sink_ok sink" "0 < t" "t < length (chunk_encode c)"
    "length (encode_all cs) + t < n"
  shows "\<exists>r. xb_run source sink n (reader_new sp (encode_all cs @ take t (chunk_encode c))) = Inl (EOFError, r) \<and>
    rd_out r = encode_all cs \<and> rd_done r = chunks_sent sp [] cs"
proof -
  let ?r = "reader_new sp (encode_all cs @ take t (chunk_encode c))"
  have "fresh ?r" "rd_in ?r = encode_all cs @ take t (chunk_encode c)"
    "\<And>p. dgetd (rd_counts ?r) (Some p) 0 = chunk_number [] p"
    by (simp_all add: reader_new_def fresh_def dgetd_def chunk_number_def)
  from run_chunks [OF assms(3,1) this, of source] obtain m r1 where m: "m \<le> length (encode_all cs)"
    "sent_all [] cs ?r r1" "rd_in r1 = take t (chunk_encode c)"
    "\<And>k. xb_run source sink (m + k) ?r = xb_run source sink k r1" by blast
  have f: "reading c 0 r1" using m(2) fresh_reading [of r1 c] by (simp add: sent_all_def)
  have "t < n - m" using m(1) assms(6) by simp
  from run_cut [OF assms(2) f, of t "n - m" source sink] assms(4,5) m(3) this
  obtain r where "xb_run source sink (n - m) r1 = Inl (EOFError, r)" "rd_out r = rd_out r1" "rd_done r = rd_done r1"
    by auto
  moreover have "m \<le> n" using m(1) assms(6) by simp
  ultimately have "xb_run source sink n ?r = Inl (EOFError, r)" "rd_out r = rd_out r1" "rd_done r = rd_done r1"
    using m(4) [of "n - m"] by simp_all
  with m(2) show ?thesis by (simp add: sent_all_def reader_new_def)
qed

definition demo_chunks :: "chunk list" where
  "demo_chunks = [(CHR 0x00, ''db.ibd'', Payload (replicate 8 CHR 0x00) ''abcd'' ''hello''),
     (CHR 0x00, ''db.ibd'', Eof)]"

definition demo_sink :: sink where
  "demo_sink i n = (if i mod 2 = 0 then Took 1 else NoAnswer)"

lemma demo_ok: "list_all chunk_ok demo_chunks" "sink_ok demo_sink" "length (encode_all demo_chunks) = 65"
  by (auto simp: demo_chunks_def chunk_ok_def sink_ok_def demo_sink_def encode_all_def chunk_encode_def
      chunk_path_def chunk_body_def)

theorem xbstream_copies_witness:
  "\<exists>r. xb_run (\<lambda>i n. 1) demo_sink 100 (reader_new True (encode_all demo_chunks)) = Inr r \<and> rd_eof r \<and>
     map xb_chunk_no (rd_done r) = [1, 2]"
  using xbstream_copies [OF demo_ok(1,2), of 100 "\<lambda>i n. 1" True]
  by (auto simp: demo_ok(3)) (auto simp: demo_chunks_def sent_obj_def chunk_number_def chunk_path_def)

theorem xbstream_truncated_witness:
  "\<exists>r. xb_run (\<lambda>i n. 3) demo_sink 100
       (reader_new False (encode_all demo_chunks @ take 15 (chunk_encode (CHR 0x00, ''x'', Payload ''12345678'' ''crcs'' ''y'')))) =
         Inl (EOFError, r) \<and> rd_out r = encode_all demo_chunks"
proof -
  have ok: "chunk_ok (CHR 0x00, ''x'', Payload ''12345678'' ''crcs'' ''y'')" by (simp add: chunk_ok_def)
  have l: "15 < length (chunk_encode (CHR 0x00, ''x'', Payload ''12345678'' ''crcs'' ''y''))"
    by (simp add: length_encode [OF ok] is_eof_def chunk_path_def)
  have "(0::nat) < 15" "length (encode_all demo_chunks) + 15 < 100" by (simp_all add: demo_ok(3))
  from xbstream_truncated [OF demo_ok(1) ok demo_ok(2) this(1) l this(2), of "\<lambda>i n. 3" False]
  show ?thesis by blast
qed

end
