(* ===== verification/Workerpool.thy ===== *)
theory Workerpool
  imports Pystr
begin

text \<open>
  \<^verbatim>\<open>sonicprobe/libs/workerpool.py\<close>. The pool is a record; what a thread does under \<^verbatim>\<open>count_lock\<close> (or in
  one operation of the queue) is one function on it, and the steps of the pool are those functions in
  any order. A worker thread is a record with a program counter. Whether a thread starts is up to the
  operating system: \<open>starts i\<close> is the outcome of the \<open>i\<close>-th start of a call. Clocks are integers.
\<close>

section \<open>Tasks and queue entries\<close>

text \<open>The message that stops a worker, or a task: its name, and an identity standing for the callables.\<close>

datatype task = WorkerExit | Task "string option" nat

text \<open>A priority queue holds \<^verbatim>\<open>(priority, sequence, task)\<close>, a plain queue the task: there the first two
  components are not looked at.\<close>

type_synonym entry = "int \<times> nat \<times> task"

definition DEFAULT_EXIT_PRIORITY :: int where "DEFAULT_EXIT_PRIORITY = -9999"

definition entry_less :: "entry \<Rightarrow> entry \<Rightarrow> bool" where
  "entry_less a b = (fst a < fst b \<or> fst a = fst b \<and> fst (snd a) < fst (snd b))"

fun insert_entry :: "entry \<Rightarrow> entry list \<Rightarrow> entry list" where
  "insert_entry e [] = [e]"
| "insert_entry e (f # fs) = (if entry_less e f then e # f # fs else f # insert_entry e fs)"

section \<open>Workers\<close>

text \<open>Where a worker is in \<^verbatim>\<open>run\<close>: at the loop condition, at \<^verbatim>\<open>tasks.get\<close>, with an entry it has not looked
  at, about to grow the pool, in the task, at the inner \<^verbatim>\<open>finally\<close> (was it counted as working, does it
  leave the loop), at the outer \<^verbatim>\<open>finally\<close>, ended.\<close>

datatype wpc = WCheck | WGet | WGot entry | WGrow task | WRun task | WAck bool bool | WLeave | WDone

record worker =
  w_xid :: int
  w_name :: string
  w_pc :: wpc
  w_life_time :: int
  w_nb_tasks :: nat
  w_task_name :: "string option"

record pool =
  p_tasks :: "entry list"
  p_unfinished :: int
  p_maxsize :: nat
  p_qpriority :: bool
  p_workers :: int
  p_working :: int
  p_max_workers :: int
  p_life_time :: "int option"
  p_name :: "string option"
  p_max_tasks :: "int option"
  p_ids :: "int list"
  p_sequence :: nat
  p_next_id :: int
  p_exit :: bool
  p_kill_event :: bool
  p_threads :: "worker list"

definition pool_new :: "bool \<Rightarrow> nat \<Rightarrow> int \<Rightarrow> int option \<Rightarrow> string option \<Rightarrow> int option \<Rightarrow> pool" where
  "pool_new qpriority maxsize max_workers life_time name max_tasks =
     \<lparr>p_tasks = [], p_unfinished = 0, p_maxsize = maxsize, p_qpriority = qpriority, p_workers = 0,
      p_working = 0, p_max_workers = (if max_workers < 1 then 1 else max_workers),
      p_life_time = life_time, p_name = name, p_max_tasks = max_tasks, p_ids = [], p_sequence = 0,
      p_next_id = 1, p_exit = False, p_kill_event = True, p_threads = []\<rparr>"

definition count_workers :: "pool \<Rightarrow> int" where "count_workers p = p_workers p"
definition count_working :: "pool \<Rightarrow> int" where "count_working p = p_working p"
definition killable :: "pool \<Rightarrow> bool" where "killable p = (p_unfinished p = 0)"

definition get_name :: "pool \<Rightarrow> int \<Rightarrow> string option \<Rightarrow> string" where
  "get_name p xid name = (case name of
       Some (c # n) \<Rightarrow> (c # n) @ '':'' @ show_int xid
     | _ \<Rightarrow> (case p_name p of Some (c # n) \<Rightarrow> (c # n) @ '':'' @ show_int xid
           | _ \<Rightarrow> ''wpool:'' @ show_int xid))"

definition expired :: "int \<Rightarrow> pool \<Rightarrow> worker \<Rightarrow> bool" where
  "expired now p w = (case p_life_time p of None \<Rightarrow> False
     | Some l \<Rightarrow> 0 < l \<and> 0 < w_life_time w \<and> l \<le> now - w_life_time w)"

definition max_tasks_reached :: "pool \<Rightarrow> worker \<Rightarrow> bool" where
  "max_tasks_reached p w = (case p_max_tasks p of None \<Rightarrow> False
     | Some m \<Rightarrow> 0 < m \<and> 0 < w_nb_tasks w \<and> m \<le> int (w_nb_tasks w))"

section \<open>The queue\<close>

definition queue_full :: "pool \<Rightarrow> bool" where
  "queue_full p = (0 < p_maxsize p \<and> p_maxsize p \<le> length (p_tasks p))"

definition queue_put :: "entry \<Rightarrow> pool \<Rightarrow> pool" where
  "queue_put e p = p\<lparr>p_tasks := (if p_qpriority p then insert_entry e (p_tasks p) else p_tasks p @ [e]),
     p_unfinished := p_unfinished p + 1\<rparr>"

definition task_done :: "pool \<Rightarrow> pool" where
  "task_done p = p\<lparr>p_unfinished := p_unfinished p - 1\<rparr>"

section \<open>Starting workers\<close>

definition take_id :: "int option \<Rightarrow> pool \<Rightarrow> int \<times> pool" where
  "take_id xid p = (case xid of
       Some i \<Rightarrow> (i, p)
     | None \<Rightarrow> (case p_ids p of
         i # is \<Rightarrow> (i, p\<lparr>p_ids := is\<rparr>)
       | [] \<Rightarrow> (p_next_id p, p\<lparr>p_next_id := p_next_id p + 1\<rparr>)))"

text \<open>One turn of the loop of \<^verbatim>\<open>add\<close>: the worker starts, or the bookkeeping is rolled back.\<close>

definition start_worker :: "bool \<Rightarrow> int \<Rightarrow> string option \<Rightarrow> int option \<Rightarrow> pool \<Rightarrow> bool \<times> pool" where
  "start_worker started now name xid p0 =
     (case take_id xid p0 of (i, p) \<Rightarrow>
        if started
        then (True, p\<lparr>p_workers := p_workers p + 1, p_kill_event := False,
                p_threads := p_threads p @ [\<lparr>w_xid = i, w_name = get_name p i name, w_pc = WCheck,
                  w_life_time = now, w_nb_tasks = 0, w_task_name = None\<rparr>]\<rparr>)
        else (False, p\<lparr>p_ids := p_ids p @ [i], p_kill_event := (p_workers p = 0)\<rparr>))"

fun add_loop :: "(nat \<Rightarrow> bool) \<Rightarrow> int \<Rightarrow> string option \<Rightarrow> nat \<Rightarrow> nat \<Rightarrow> int option \<Rightarrow> pool \<Rightarrow> bool \<times> pool"
where
  "add_loop starts now name i 0 xid p = (True, p)"
| "add_loop starts now name i (Suc n) xid p =
     (if p_max_workers p \<le> p_workers p then (True, p)
      else (case start_worker (starts i) now name xid p of
              (True, p') \<Rightarrow> add_loop starts now name (Suc i) n None p'
            | (False, p') \<Rightarrow> (False, p')))"

definition pool_add ::
  "(nat \<Rightarrow> bool) \<Rightarrow> int \<Rightarrow> int \<Rightarrow> string option \<Rightarrow> int option \<Rightarrow> pool \<Rightarrow> pyerror option \<times> pool" where
  "pool_add starts now nb name xid p =
     (if p_exit p then (Some (RuntimeError ''Cannot add workers to a stopped pool''), p)
      else (case add_loop starts now name 0 (nat (min (max 1 nb) (p_max_workers p))) xid p of
              (True, p') \<Rightarrow> (None, p')
            | (False, p') \<Rightarrow> (Some (RuntimeError ''can't start new thread''), p')))"

section \<open>Submitting\<close>

datatype put_result = Put | Refused | Retry | PutRaised pyerror

text \<open>One turn of the loop of \<^verbatim>\<open>_put\<close>, under the lock.\<close>

definition pool_put ::
  "(nat \<Rightarrow> bool) \<Rightarrow> int \<Rightarrow> entry \<Rightarrow> bool \<Rightarrow> string option \<Rightarrow> pool \<Rightarrow> put_result \<times> pool" where
  "pool_put starts now e stopping name p =
     (if p_exit p
      then (if stopping then Refused else PutRaised (RuntimeError ''Cannot submit work to a stopped pool''), p)
      else (case (if \<not> stopping \<and> p_workers p = 0 then pool_add starts now 1 name None p else (None, p)) of
              (Some err, p') \<Rightarrow> (PutRaised err, p')
            | (None, p') \<Rightarrow> if queue_full p' then (Retry, p') else (Put, queue_put e p')))"

text \<open>The entry of a task, of a stop message; a priority queue draws a sequence number.\<close>

definition task_entry :: "int \<Rightarrow> int option \<Rightarrow> task \<Rightarrow> pool \<Rightarrow> entry \<times> pool" where
  "task_entry now qpriority t p =
     (if p_qpriority p
      then ((case qpriority of None \<Rightarrow> now | Some q \<Rightarrow> q, p_sequence p, t), p\<lparr>p_sequence := Suc (p_sequence p)\<rparr>)
      else ((0, 0, t), p))"

definition pool_run ::
  "(nat \<Rightarrow> bool) \<Rightarrow> int \<Rightarrow> nat \<Rightarrow> string option \<Rightarrow> int option \<Rightarrow> pool \<Rightarrow> put_result \<times> pool" where
  "pool_run starts now target name qpriority p =
     (case task_entry now qpriority (Task name target) p of (e, p') \<Rightarrow> pool_put starts now e False name p')"

definition exit_entry :: "pool \<Rightarrow> entry \<times> pool" where
  "exit_entry p = task_entry 0 (Some DEFAULT_EXIT_PRIORITY) WorkerExit p"

text \<open>\<^verbatim>\<open>kill(nb)\<close>: how many messages it sends, and the sending of one. \<open>Retry\<close> asks for another turn of
  the loop of \<^verbatim>\<open>_put\<close>, with the same entry.\<close>

definition kill_count :: "int \<Rightarrow> pool \<Rightarrow> int" where
  "kill_count nb p = max 0 (min nb (p_workers p))"

definition pool_kill_one :: "pool \<Rightarrow> put_result \<times> pool" where
  "pool_kill_one p = (case exit_entry p of (e, p') \<Rightarrow> pool_put (\<lambda>_. True) 0 e True None p')"

fun pool_kill :: "nat \<Rightarrow> pool \<Rightarrow> put_result \<times> pool" where
  "pool_kill 0 p = (Put, p)"
| "pool_kill (Suc n) p = (case pool_kill_one p of (Put, p') \<Rightarrow> pool_kill n p' | (r, p') \<Rightarrow> (r, p'))"

text \<open>\<^verbatim>\<open>set_max_workers\<close> up to the \<^verbatim>\<open>kill\<close> of the workers in excess, whose number it returns.\<close>

definition set_max_workers :: "int \<Rightarrow> pool \<Rightarrow> pyerror + int \<times> pool" where
  "set_max_workers nb p =
     (if nb < 1 then Inl (ValueError ''max_workers must be positive'')
      else Inr (max 0 (p_workers p - nb), p\<lparr>p_max_workers := nb\<rparr>))"

text \<open>\<^verbatim>\<open>killall\<close> up to its wait for the event.\<close>

fun drain :: "nat \<Rightarrow> pool \<Rightarrow> pool" where
  "drain 0 p = p"
| "drain (Suc n) p = (case p_tasks p of [] \<Rightarrow> p | e # es \<Rightarrow> drain n (task_done (p\<lparr>p_tasks := es\<rparr>)))"

definition killall_stop :: "pool \<Rightarrow> pool" where
  "killall_stop p = drain (length (p_tasks p)) (p\<lparr>p_exit := True\<rparr>)"

definition killall :: "bool \<Rightarrow> int option \<Rightarrow> pool \<Rightarrow> pyerror + pool" where
  "killall own_worker wait p =
     (if own_worker \<and> (case wait of None \<Rightarrow> True | Some s \<Rightarrow> 0 < s)
      then Inl (RuntimeError ''A worker cannot wait for its own pool to stop'')
      else Inr (killall_stop p))"

section \<open>The worker thread\<close>

definition set_worker :: "nat \<Rightarrow> worker \<Rightarrow> pool \<Rightarrow> pool" where
  "set_worker i w p = p\<lparr>p_threads := (p_threads p)[i := w]\<rparr>"

definition to_pc :: "nat \<Rightarrow> wpc \<Rightarrow> pool \<Rightarrow> pool" where
  "to_pc i pc p = set_worker i ((p_threads p ! i)\<lparr>w_pc := pc\<rparr>) p"

definition worker_check :: "int \<Rightarrow> nat \<Rightarrow> pool \<Rightarrow> pool" where
  "worker_check now i p = (let w = p_threads p ! i in
     to_pc i (if p_exit p \<or> expired now p w \<or> max_tasks_reached p w then WLeave else WGet) p)"

text \<open>\<^verbatim>\<open>tasks.get(timeout=0.1)\<close>: the first entry, or a time-out.\<close>

definition worker_get :: "nat \<Rightarrow> pool \<Rightarrow> pool" where
  "worker_get i p = (case p_tasks p of
       [] \<Rightarrow> to_pc i WCheck p
     | e # es \<Rightarrow> to_pc i (WGot e) (p\<lparr>p_tasks := es\<rparr>))"

definition wants_grow :: "pool \<Rightarrow> bool" where
  "wants_grow p = ((p_tasks p \<noteq> [] \<or> p_workers p \<le> p_working p) \<and> p_workers p < p_max_workers p)"

definition worker_begin :: "nat \<Rightarrow> entry \<Rightarrow> pool \<Rightarrow> pool" where
  "worker_begin i e p =
     (if p_exit p \<or> snd (snd e) = WorkerExit then to_pc i (WAck False True) p
      else (let p1 = p\<lparr>p_working := p_working p + 1\<rparr> in
            to_pc i (if wants_grow p1 then WGrow (snd (snd e)) else WRun (snd (snd e))) p1))"

definition worker_grow :: "(nat \<Rightarrow> bool) \<Rightarrow> int \<Rightarrow> nat \<Rightarrow> task \<Rightarrow> pool \<Rightarrow> pool" where
  "worker_grow starts now i t p = to_pc i (WRun t) (snd (pool_add starts now 1 None None p))"

definition task_name :: "task \<Rightarrow> string option" where
  "task_name t = (case t of Task n _ \<Rightarrow> n | WorkerExit \<Rightarrow> None)"

text \<open>The task runs; \<open>escaped\<close> when an exception it does not catch leaves it.\<close>

definition worker_run :: "bool \<Rightarrow> nat \<Rightarrow> task \<Rightarrow> pool \<Rightarrow> pool" where
  "worker_run escaped i t p = (let w = p_threads p ! i in
     set_worker i (w\<lparr>w_pc := WAck True escaped, w_nb_tasks := Suc (w_nb_tasks w),
       w_task_name := task_name t, w_name := get_name p (w_xid w) (task_name t)\<rparr>) p)"

definition worker_ack :: "nat \<Rightarrow> bool \<Rightarrow> bool \<Rightarrow> pool \<Rightarrow> pool" where
  "worker_ack i working leave p =
     to_pc i (if leave then WLeave else WCheck)
       (task_done (if working then p\<lparr>p_working := p_working p - 1\<rparr> else p))"

definition worker_leave :: "(nat \<Rightarrow> bool) \<Rightarrow> int \<Rightarrow> nat \<Rightarrow> pool \<Rightarrow> pool" where
  "worker_leave starts now i p =
     (let w = p_threads p ! i;
          p1 = to_pc i WDone (p\<lparr>p_workers := p_workers p - 1, p_ids := p_ids p @ [w_xid w]\<rparr>);
          p2 = (if \<not> p_exit p1 \<and> p_tasks p1 \<noteq> [] then snd (pool_add starts now 1 (w_task_name w) None p1) else p1)
      in if p_workers p2 = 0 then p2\<lparr>p_kill_event := True\<rparr> else p2)"

section \<open>Running one task\<close>

text \<open>What a callable does: return, raise what the worker catches (\<^verbatim>\<open>Exception\<close>, \<^verbatim>\<open>SystemExit\<close>), or raise
  another \<^verbatim>\<open>BaseException\<close>. The events are the calls made, with their argument (\<open>None\<close> is \<^verbatim>\<open>None\<close>).\<close>

datatype 'v called = Returns 'v | Raises | Escapes

datatype 'v event = Called | CalledCallback 'v | CalledComplete "'v option"

definition run_callback :: "'v called \<Rightarrow> ('v \<Rightarrow> unit called) option \<Rightarrow> 'v event list \<times> 'v option \<times> bool" where
  "run_callback func cb = (case func of
       Escapes \<Rightarrow> ([Called], None, True)
     | Raises \<Rightarrow> ([Called], None, False)
     | Returns v \<Rightarrow> (case cb of
           None \<Rightarrow> ([Called], Some v, False)
         | Some f \<Rightarrow> ([Called, CalledCallback v], Some v, f v = Escapes)))"

definition run_task ::
  "'v called \<Rightarrow> ('v \<Rightarrow> unit called) option \<Rightarrow> ('v option \<Rightarrow> unit called) option \<Rightarrow> 'v event list \<times> bool" where
  "run_task func cb complete = (case run_callback func cb of (es, ret, escaped) \<Rightarrow>
     (case complete of
        None \<Rightarrow> (es, escaped)
      | Some f \<Rightarrow> (es @ [CalledComplete ret], escaped \<or> f ret = Escapes)))"

section \<open>The steps of a pool\<close>

text \<open>Calls by any thread and the segments of the workers, in any order; \<open>fails\<close> says whether thread
  starts may fail.\<close>

inductive pool_step :: "bool \<Rightarrow> pool \<Rightarrow> pool \<Rightarrow> bool" for fails :: bool where
  step_add: "fails \<or> (\<forall>k. starts k) \<Longrightarrow> pool_step fails p (snd (pool_add starts now nb name xid p))"
| step_draw: "task_entry now q t p = (e, p') \<Longrightarrow> pool_step fails p p'"
| step_put: "fails \<or> (\<forall>k. starts k) \<Longrightarrow> stopping = (snd (snd e) = WorkerExit) \<Longrightarrow>
     pool_step fails p (snd (pool_put starts now e stopping name p))"
| step_set_max: "set_max_workers nb p = Inr (k, p') \<Longrightarrow> pool_step fails p p'"
| step_killall: "killall own wait p = Inr p' \<Longrightarrow> pool_step fails p p'"
| step_check: "i < length (p_threads p) \<Longrightarrow> w_pc (p_threads p ! i) = WCheck \<Longrightarrow>
     pool_step fails p (worker_check now i p)"
| step_get: "i < length (p_threads p) \<Longrightarrow> w_pc (p_threads p ! i) = WGet \<Longrightarrow>
     pool_step fails p (worker_get i p)"
| step_begin: "i < length (p_threads p) \<Longrightarrow> w_pc (p_threads p ! i) = WGot e \<Longrightarrow>
     pool_step fails p (worker_begin i e p)"
| step_grow: "i < length (p_threads p) \<Longrightarrow> w_pc (p_threads p ! i) = WGrow t \<Longrightarrow> fails \<or> (\<forall>k. starts k) \<Longrightarrow>
     pool_step fails p (worker_grow starts now i t p)"
| step_task: "i < length (p_threads p) \<Longrightarrow> w_pc (p_threads p ! i) = WRun t \<Longrightarrow>
     pool_step fails p (worker_run escaped i t p)"
| step_ack: "i < length (p_threads p) \<Longrightarrow> w_pc (p_threads p ! i) = WAck working leave \<Longrightarrow>
     pool_step fails p (worker_ack i working leave p)"
| step_leave: "i < length (p_threads p) \<Longrightarrow> w_pc (p_threads p ! i) = WLeave \<Longrightarrow> fails \<or> (\<forall>k. starts k) \<Longrightarrow>
     pool_step fails p (worker_leave starts now i p)"

definition pool_start :: "pool \<Rightarrow> bool" where
  "pool_start p = (\<exists>q m n l name t. p = pool_new q m n l name t)"

end
