(* ===== verification/Workerpool_Properties.thy ===== *)
theory Workerpool_Properties
  imports Workerpool
begin

text \<open>
  The accounting of the pool in every interleaving, that a stopped pool winds down, and what a task is promised.
\<close>

section \<open>Counting workers\<close>

definition tally :: "(wpc \<Rightarrow> bool) \<Rightarrow> worker list \<Rightarrow> int" where
  "tally P ws = int (length (filter (\<lambda>w. P (w_pc w)) ws))"

definition pc_live :: "wpc \<Rightarrow> bool" where "pc_live c = (c \<noteq> WDone)"

definition pc_busy :: "wpc \<Rightarrow> bool" where
  "pc_busy c = (case c of WGrow _ \<Rightarrow> True | WRun _ \<Rightarrow> True | WAck b _ \<Rightarrow> b | _ \<Rightarrow> False)"

definition pc_holding :: "wpc \<Rightarrow> bool" where
  "pc_holding c = (case c of WGot _ \<Rightarrow> True | WGrow _ \<Rightarrow> True | WRun _ \<Rightarrow> True | WAck _ _ \<Rightarrow> True | _ \<Rightarrow> False)"

lemma tally_Nil [simp]: "tally P [] = 0"
  by (simp add: tally_def)

lemma tally_Cons [simp]: "tally P (w # ws) = (if P (w_pc w) then 1 else 0) + tally P ws"
  by (simp add: tally_def)

lemma tally_append [simp]: "tally P (vs @ ws) = tally P vs + tally P ws"
  by (simp add: tally_def)

lemma tally_update: "i < length ws \<Longrightarrow> tally P (ws[i := w]) =
    tally P ws - (if P (w_pc (ws ! i)) then 1 else 0) + (if P (w_pc w) then 1 else 0)"
  by (induction ws arbitrary: i) (auto split: nat.splits)

lemma tally_ge: "0 \<le> tally P ws"
  by (simp add: tally_def)

lemma tally_pos: "(0 < tally P ws) = (\<exists>w \<in> set ws. P (w_pc w))"
  by (induction ws) (auto simp: add_pos_nonneg tally_ge)

lemma tally_zero: "(tally P ws = 0) = (\<forall>w \<in> set ws. \<not> P (w_pc w))"
  using tally_pos [of P ws] tally_ge [of P ws] by force

section \<open>The invariant\<close>

definition is_work :: "entry \<Rightarrow> bool" where "is_work e = (snd (snd e) \<noteq> WorkerExit)"

definition base_inv :: "pool \<Rightarrow> bool" where
  "base_inv p \<longleftrightarrow> p_workers p = tally pc_live (p_threads p) \<and> p_working p = tally pc_busy (p_threads p) \<and>
     p_unfinished p = int (length (p_tasks p)) + tally pc_holding (p_threads p) \<and> 1 \<le> p_max_workers p \<and>
     (p_exit p \<longrightarrow> p_tasks p = []) \<and> (p_kill_event p \<longrightarrow> p_workers p = 0)"

definition served :: "pool \<Rightarrow> bool" where
  "served p \<longleftrightarrow> (\<not> p_exit p \<and> list_ex is_work (p_tasks p) \<longrightarrow> 0 < p_workers p)"

definition pool_inv :: "bool \<Rightarrow> pool \<Rightarrow> bool" where
  "pool_inv fails p \<longleftrightarrow> base_inv p \<and> (p_kill_event p = (p_workers p = 0)) \<and> (\<not> fails \<longrightarrow> served p)"

text \<open>What adding workers keeps and changes.\<close>

definition added :: "pool \<Rightarrow> pool \<Rightarrow> bool" where
  "added p p' \<longleftrightarrow> base_inv p' \<and> p_tasks p' = p_tasks p \<and> p_exit p' = p_exit p \<and>
     p_unfinished p' = p_unfinished p \<and> p_max_workers p' = p_max_workers p \<and> p_working p' = p_working p \<and>
     p_workers p \<le> p_workers p' \<and> p_workers p' \<le> max (p_workers p) (p_max_workers p) \<and>
     p_qpriority p' = p_qpriority p \<and> p_maxsize p' = p_maxsize p \<and>
     (p_kill_event p = (p_workers p = 0) \<longrightarrow> p_kill_event p' = (p_workers p' = 0)) \<and>
     (\<exists>ws. p_threads p' = p_threads p @ ws \<and> (\<forall>w \<in> set ws. w_pc w = WCheck))"

lemma added_refl: "base_inv p \<Longrightarrow> added p p"
  by (simp add: added_def)

lemma added_trans: "added p q \<Longrightarrow> added q r \<Longrightarrow> added p r"
  unfolding added_def by force

lemma take_id_same: "take_id xid p = (i, p') \<Longrightarrow>
   \<exists>is n. p' = p\<lparr>p_ids := is, p_next_id := n\<rparr>"
  by (auto simp: take_id_def split: option.splits list.splits)
    (metis pool.surjective pool.update_convs(11,13))+

lemma start_added:
  assumes "base_inv p" "p_workers p < p_max_workers p" "start_worker ok now name xid p = (b, p')"
  shows "added p p'" "b = ok" "ok \<Longrightarrow> p_workers p' = p_workers p + 1"
proof -
  obtain i p1 where t: "take_id xid p = (i, p1)" by (cases "take_id xid p") auto
  from take_id_same [OF t] obtain "is" n where p1: "p1 = p\<lparr>p_ids := is, p_next_id := n\<rparr>" by blast
  show "added p p'" "b = ok" "ok \<Longrightarrow> p_workers p' = p_workers p + 1"
    using assms tally_ge [of pc_live "p_threads p"] by (auto simp: start_worker_def t p1 added_def base_inv_def pc_live_def pc_busy_def pc_holding_def
        split: if_splits)
qed

lemma add_loop_added:
  "base_inv p \<Longrightarrow> add_loop starts now name i n xid p = (b, p') \<Longrightarrow> added p p' \<and>
    ((\<forall>k. starts k) \<longrightarrow> b \<and> p_workers p' = max (p_workers p) (min (p_workers p + int n) (p_max_workers p)))"
proof (induction starts now name i n xid p rule: add_loop.induct)
  case (2 starts now name i n xid p)
  show ?case
  proof (cases "p_max_workers p \<le> p_workers p")
    case True
    with "2.prems" show ?thesis by (auto simp: added_refl)
  next
    case False
    then have lt: "p_workers p < p_max_workers p" by simp
    obtain c q where s: "start_worker (starts i) now name xid p = (c, q)"
      by (cases "start_worker (starts i) now name xid p") auto
    note st = start_added [OF "2.prems"(1) lt s]
    show ?thesis
    proof (cases c)
      case True
      then have q: "base_inv q" "p_workers q = p_workers p + 1" "p_max_workers q = p_max_workers p"
        using st by (auto simp: added_def)
      have "add_loop starts now name (Suc i) n None q = (b, p')" using "2.prems"(2) False s True by simp
      moreover have "(True, q) = start_worker (starts i) now name xid p" using s True by simp
      ultimately have "added q p' \<and> ((\<forall>k. starts k) \<longrightarrow> b \<and>
          p_workers p' = max (p_workers q) (min (p_workers q + int n) (p_max_workers q)))"
        using "2.IH" [OF False _ refl q(1)] by blast
      with st(1) q lt show ?thesis
        by (auto intro: added_trans)
    next
      case False
      with "2.prems"(2) \<open>\<not> p_max_workers p \<le> p_workers p\<close> s st show ?thesis by auto
    qed
  qed
qed (auto simp: added_refl)

lemma pool_add_added:
  assumes "base_inv p" "pool_add starts now nb name xid p = (err, p')"
  shows "added p p'" "(\<forall>k. starts k) \<Longrightarrow> \<not> p_exit p \<Longrightarrow> err = None \<and>
      p_workers p' = max (p_workers p) (min (p_workers p + max 1 nb) (p_max_workers p))"
proof -
  obtain b q where a: "add_loop starts now name 0 (nat (min (max 1 nb) (p_max_workers p))) xid p = (b, q)"
    by (cases "add_loop starts now name 0 (nat (min (max 1 nb) (p_max_workers p))) xid p") auto
  have m: "1 \<le> p_max_workers p" "0 \<le> p_workers p" using assms(1) by (auto simp: base_inv_def tally_ge)
  note l = add_loop_added [OF assms(1) a]
  show "added p p'" using assms l by (auto simp: pool_add_def a added_refl split: if_splits bool.splits)
  show "err = None \<and> p_workers p' = max (p_workers p) (min (p_workers p + max 1 nb) (p_max_workers p))"
    if "\<forall>k. starts k" "\<not> p_exit p"
  proof -
    from that assms(2) l m have "err = None" and w: "p_workers p' = max (p_workers p)
        (min (p_workers p + min (max 1 nb) (p_max_workers p)) (p_max_workers p))"
      by (auto simp: pool_add_def a split: bool.splits)
    moreover have "min (w + min (max 1 nb) m) m = min (w + max 1 nb) m" if "0 \<le> w" for w m :: int
      using that by linarith
    ultimately show ?thesis using m(2) by simp
  qed
qed

lemma pool_add_inv:
  "pool_inv fails p \<Longrightarrow> pool_inv fails (snd (pool_add starts now nb name xid p))"
proof -
  assume i: "pool_inv fails p"
  obtain err p' where a: "pool_add starts now nb name xid p = (err, p')"
    by (cases "pool_add starts now nb name xid p") auto
  from pool_add_added(1) [OF _ a] i have "added p p'" by (simp add: pool_inv_def)
  with i show ?thesis by (auto simp: a pool_inv_def added_def served_def)
qed


section \<open>Every step keeps the invariant\<close>

lemmas pc_defs = pc_live_def pc_busy_def pc_holding_def
lemmas inv_defs = pool_inv_def base_inv_def served_def

lemma to_pc_sel [simp]:
  "p_threads (to_pc i c p) = (p_threads p)[i := (p_threads p ! i)\<lparr>w_pc := c\<rparr>]"
  "p_tasks (to_pc i c p) = p_tasks p" "p_unfinished (to_pc i c p) = p_unfinished p"
  "p_workers (to_pc i c p) = p_workers p" "p_working (to_pc i c p) = p_working p"
  "p_max_workers (to_pc i c p) = p_max_workers p" "p_exit (to_pc i c p) = p_exit p"
  "p_kill_event (to_pc i c p) = p_kill_event p" "p_qpriority (to_pc i c p) = p_qpriority p"
  by (simp_all add: to_pc_def set_worker_def)

lemma added_nth: "added p p' \<Longrightarrow> i < length (p_threads p) \<Longrightarrow>
   i < length (p_threads p') \<and> p_threads p' ! i = p_threads p ! i"
  by (auto simp: added_def nth_append)

lemma insert_entry_set: "set (insert_entry e es) = insert e (set es)"
  by (induction e es rule: insert_entry.induct) auto

lemma insert_entry_length: "length (insert_entry e es) = Suc (length es)"
  by (induction e es rule: insert_entry.induct) auto

lemma queue_put_sel [simp]:
  "p_threads (queue_put e p) = p_threads p" "p_unfinished (queue_put e p) = p_unfinished p + 1"
  "length (p_tasks (queue_put e p)) = Suc (length (p_tasks p))"
  "set (p_tasks (queue_put e p)) = insert e (set (p_tasks p))"
  "p_workers (queue_put e p) = p_workers p" "p_working (queue_put e p) = p_working p"
  "p_max_workers (queue_put e p) = p_max_workers p" "p_exit (queue_put e p) = p_exit p"
  "p_kill_event (queue_put e p) = p_kill_event p"
  by (simp_all add: queue_put_def insert_entry_set insert_entry_length)

lemma put_inv:
  assumes i: "pool_inv fails p" and f: "fails \<or> (\<forall>k. starts k)"
    and st: "stopping = (snd (snd e) = WorkerExit)"
  shows "pool_inv fails (snd (pool_put starts now e stopping name p))"
proof (cases "p_exit p")
  case True
  with i show ?thesis by (simp add: pool_put_def)
next
  case False
  define r where "r = (if \<not> stopping \<and> p_workers p = 0 then pool_add starts now 1 name None p else (None, p))"
  obtain err q where q: "r = (err, q)" by (cases r) auto
  have b: "base_inv p" using i by (simp add: pool_inv_def)
  have iq: "pool_inv fails q"
    using i pool_add_inv [OF i, of starts now 1 name None] q by (auto simp: r_def split: if_splits)
  have ex: "\<not> p_exit q" using q False pool_add_added(1) [OF b, of starts now 1 name None err q]
    by (auto simp: r_def added_def split: if_splits)
  have w: "err = None \<Longrightarrow> \<not> stopping \<Longrightarrow> \<not> fails \<Longrightarrow> 0 < p_workers q"
  proof -
    assume "\<not> stopping" "\<not> fails"
    then show "0 < p_workers q"
      using q f False b pool_add_added(2) [OF b, of starts now 1 name None err q]
      by (cases "p_workers p = 0") (auto simp: r_def base_inv_def tally_ge order_less_le)
  qed
  have "pool_inv fails (queue_put e q)" if "err = None"
    using iq ex w [OF that] st by (auto simp: inv_defs list_ex_iff is_work_def)
  moreover have "snd (pool_put starts now e stopping name p) =
      (if err = None \<and> \<not> queue_full q then queue_put e q else q)"
    using False q by (auto simp: pool_put_def r_def split: option.splits)
  ultimately show ?thesis using iq by auto
qed

lemma drain_all:
  "p_tasks p = es \<Longrightarrow> drain (length es) p = p\<lparr>p_tasks := [], p_unfinished := p_unfinished p - int (length es)\<rparr>"
proof (induction es arbitrary: p)
  case (Cons e es)
  have "p_tasks (task_done (p\<lparr>p_tasks := es\<rparr>)) = es" by (simp add: task_done_def)
  from Cons.IH [OF this] Cons.prems show ?case by (simp add: task_done_def)
qed simp

lemma killall_stop_eq: "killall_stop p =
   p\<lparr>p_exit := True, p_tasks := [], p_unfinished := p_unfinished p - int (length (p_tasks p))\<rparr>"
  using drain_all [of "p\<lparr>p_exit := True\<rparr>" "p_tasks p"] by (simp add: killall_stop_def)

lemma api_inv:
  assumes "pool_inv fails p"
  shows "task_entry now q t p = (e, p') \<Longrightarrow> pool_inv fails p'"
    "set_max_workers nb p = Inr (k, p') \<Longrightarrow> pool_inv fails p'"
    "killall own wait p = Inr p' \<Longrightarrow> pool_inv fails p'"
  using assms by (auto simp: task_entry_def set_max_workers_def killall_def killall_stop_eq inv_defs split: if_splits)

lemma check_inv: "pool_inv fails p \<Longrightarrow> i < length (p_threads p) \<Longrightarrow> w_pc (p_threads p ! i) = WCheck \<Longrightarrow>
    pool_inv fails (worker_check now i p)"
  by (auto simp: worker_check_def Let_def inv_defs tally_update pc_defs)

lemma get_inv: "pool_inv fails p \<Longrightarrow> i < length (p_threads p) \<Longrightarrow> w_pc (p_threads p ! i) = WGet \<Longrightarrow>
    pool_inv fails (worker_get i p)"
  by (auto simp: worker_get_def inv_defs tally_update pc_defs split: list.splits)

lemma begin_inv: "pool_inv fails p \<Longrightarrow> i < length (p_threads p) \<Longrightarrow> w_pc (p_threads p ! i) = WGot e \<Longrightarrow>
    pool_inv fails (worker_begin i e p)"
  by (auto simp: worker_begin_def Let_def inv_defs tally_update pc_defs)

lemma task_inv: "pool_inv fails p \<Longrightarrow> i < length (p_threads p) \<Longrightarrow> w_pc (p_threads p ! i) = WRun t \<Longrightarrow>
    pool_inv fails (worker_run escaped i t p)"
  by (auto simp: worker_run_def set_worker_def Let_def inv_defs tally_update pc_defs)

lemma ack_inv: "pool_inv fails p \<Longrightarrow> i < length (p_threads p) \<Longrightarrow> w_pc (p_threads p ! i) = WAck b l \<Longrightarrow>
    pool_inv fails (worker_ack i b l p)"
  by (auto simp: worker_ack_def task_done_def inv_defs tally_update pc_defs)

lemma grow_inv:
  assumes "pool_inv fails p" "i < length (p_threads p)" "w_pc (p_threads p ! i) = WGrow t"
  shows "pool_inv fails (worker_grow starts now i t p)"
proof -
  obtain err q where a: "pool_add starts now 1 None None p = (err, q)"
    by (cases "pool_add starts now 1 None None p") auto
  have "added p q" using pool_add_added(1) [OF _ a] assms(1) by (simp add: pool_inv_def)
  from added_nth [OF this assms(2)] pool_add_inv [OF assms(1), of starts now 1 None None] assms(3)
  show ?thesis by (auto simp: worker_grow_def a inv_defs tally_update pc_defs)
qed

lemma leave_inv:
  assumes i: "pool_inv fails p" and n: "i < length (p_threads p)" "w_pc (p_threads p ! i) = WLeave"
    and f: "fails \<or> (\<forall>k. starts k)"
  shows "pool_inv fails (worker_leave starts now i p)"
proof -
  define p1 where "p1 = to_pc i WDone (p\<lparr>p_workers := p_workers p - 1, p_ids := p_ids p @ [w_xid (p_threads p ! i)]\<rparr>)"
  have "0 < tally pc_live (p_threads p)"
    unfolding tally_pos using n nth_mem [OF n(1)] by (intro bexI [of _ "p_threads p ! i"]) (simp_all add: pc_live_def)
  then have ev: "\<not> p_kill_event p" using i by (auto simp: inv_defs)
  have b1: "base_inv p1" "\<not> p_kill_event p1"
    using i n ev by (auto simp: inv_defs p1_def tally_update pc_defs)
  obtain err q where a: "pool_add starts now 1 (w_task_name (p_threads p ! i)) None p1 = (err, q)"
    by (cases "pool_add starts now 1 (w_task_name (p_threads p ! i)) None p1") auto
  have e1: "p_exit p1 = p_exit p" "p_tasks p1 = p_tasks p" by (simp_all add: p1_def)
  define p2 where "p2 = (if \<not> p_exit p1 \<and> p_tasks p1 \<noteq> [] then q else p1)"
  note ad = pool_add_added [OF b1(1) a]
  have b2: "base_inv p2" using b1 ad(1) by (auto simp: p2_def added_def)
  have s2: "\<not> fails \<Longrightarrow> served p2"
  proof (cases "\<not> p_exit p1 \<and> p_tasks p1 \<noteq> []")
    case True
    assume "\<not> fails"
    with f ad(2) True have "p_workers q = max (p_workers p1) (min (p_workers p1 + max 1 1) (p_max_workers p1))"
      by blast
    moreover have "0 \<le> p_workers p1" "1 \<le> p_max_workers p1" using b1(1) by (auto simp: base_inv_def tally_ge)
    ultimately have "0 < p_workers q" by linarith
    with True show ?thesis by (simp add: p2_def served_def)
  qed (auto simp: p2_def served_def)
  have "worker_leave starts now i p = (if p_workers p2 = 0 then p2\<lparr>p_kill_event := True\<rparr> else p2)"
    by (simp add: worker_leave_def Let_def a p2_def e1 flip: p1_def)
  moreover have "p_workers p2 \<noteq> 0 \<Longrightarrow> \<not> p_kill_event p2" using b2 by (auto simp: base_inv_def)
  ultimately show ?thesis using b2 s2 by (auto simp: pool_inv_def base_inv_def served_def)
qed

lemma pool_step_inv: "pool_step fails p p' \<Longrightarrow> pool_inv fails p \<Longrightarrow> pool_inv fails p'"
  by (induction rule: pool_step.induct)
    (auto intro: pool_add_inv put_inv api_inv check_inv get_inv begin_inv grow_inv task_inv ack_inv leave_inv)

lemma pool_start_inv: "pool_start p \<Longrightarrow> pool_inv fails p"
  by (auto simp: pool_start_def pool_new_def inv_defs)

interpretation wpool: invariant_system pool_start "pool_step fails" "pool_inv fails"
  by unfold_locales (erule pool_start_inv, erule pool_step_inv, assumption)

section \<open>Accounting\<close>

lemma workerpool_accounting_event:
  "reach pool_start (pool_step True) p \<Longrightarrow> p_kill_event p = (\<forall>w \<in> set (p_threads p). w_pc w = WDone)"
  using wpool.reach_inv [of True p] by (simp add: inv_defs) (simp add: tally_zero pc_live_def)

text \<open>
  C14: In every reachable state, whatever the interleaving and even when thread starts fail, the number
  of workers is the number of live threads, the number of working ones is the number of threads
  between taking a task and acknowledging it, the unfinished count is the queued entries and those
  held by a worker (\<^verbatim>\<open>killable\<close> says there are none), the event is set exactly when no thread is alive,
  and a stopped pool has an empty queue.
\<close>

theorem workerpool_accounting:
  assumes "reach pool_start (pool_step True) p"
  shows "count_workers p = tally pc_live (p_threads p) \<and> count_working p = tally pc_busy (p_threads p) \<and>
    killable p = (p_tasks p = [] \<and> (\<forall>w \<in> set (p_threads p). \<not> pc_holding (w_pc w))) \<and>
    p_kill_event p = (\<forall>w \<in> set (p_threads p). w_pc w = WDone) \<and> (p_exit p \<longrightarrow> p_tasks p = [])"
proof (intro conjI impI)
  from wpool.reach_inv [OF assms] have i: "pool_inv True p" .
  then show "count_workers p = tally pc_live (p_threads p)" "count_working p = tally pc_busy (p_threads p)"
    "p_exit p \<Longrightarrow> p_tasks p = []" by (auto simp: inv_defs count_workers_def count_working_def)
  have "killable p = (int (length (p_tasks p)) + tally pc_holding (p_threads p) = 0)"
    using i by (simp add: killable_def inv_defs)
  also have "\<dots> = (p_tasks p = [] \<and> tally pc_holding (p_threads p) = 0)"
    using tally_ge [of pc_holding "p_threads p"] by (cases "p_tasks p") auto
  finally show "killable p = (p_tasks p = [] \<and> (\<forall>w \<in> set (p_threads p). \<not> pc_holding (w_pc w)))"
    by (simp add: tally_zero)
  show "p_kill_event p = (\<forall>w \<in> set (p_threads p). w_pc w = WDone)"
    by (rule workerpool_accounting_event [OF assms])
qed

text \<open>A pool of one worker that took the first of two tasks.\<close>

definition demo_pool :: pool where
  "demo_pool = (let p0 = pool_new False 0 2 None None None;
     p1 = snd (pool_put (\<lambda>_. True) 5 (0, 0, Task None 7) False None p0);
     p2 = snd (pool_put (\<lambda>_. True) 5 (0, 0, Task None 8) False None p1) in
     worker_get 0 (worker_check 6 0 p2))"

lemmas pool_eval = pool_new_def pool_put_def pool_add_def start_worker_def take_id_def get_name_def
  queue_full_def queue_put_def worker_check_def to_pc_def set_worker_def expired_def max_tasks_reached_def
  worker_get_def

lemma demo_pool_eq: "p_tasks demo_pool = [(0, 0, Task None 8)]" "p_workers demo_pool = 1" "p_exit demo_pool = False"
  "map w_pc (p_threads demo_pool) = [WGot (0, 0, Task None 7)]" "p_kill_event demo_pool = False"
  "p_max_workers demo_pool = 2" "p_working demo_pool = 0"
  by (simp_all add: demo_pool_def pool_eval Let_def)

lemma demo_pool_reach: "reach pool_start (pool_step fails) demo_pool"
proof -
  let ?p0 = "pool_new False 0 2 None None None"
  let ?p1 = "snd (pool_put (\<lambda>_. True) 5 (0, 0, Task None 7) False None ?p0)"
  let ?p2 = "snd (pool_put (\<lambda>_. True) 5 (0, 0, Task None 8) False None ?p1)"
  have "reach pool_start (pool_step fails) ?p0" by (rule reach_init) (unfold pool_start_def, blast)
  then have "reach pool_start (pool_step fails) ?p1" by (rule reach_step) (rule step_put; simp)
  then have "reach pool_start (pool_step fails) ?p2" by (rule reach_step) (rule step_put; simp)
  then have "reach pool_start (pool_step fails) (worker_check 6 0 ?p2)"
    by (rule reach_step) (rule step_check; simp add: pool_eval)
  then have "reach pool_start (pool_step fails) (worker_get 0 (worker_check 6 0 ?p2))"
    by (rule reach_step) (rule step_get; simp add: pool_eval Let_def)
  then show ?thesis by (simp add: demo_pool_def Let_def)
qed

theorem workerpool_accounting_witness:
  "count_workers demo_pool = 1 \<and> \<not> killable demo_pool \<and> \<not> p_kill_event demo_pool"
  using workerpool_accounting [OF demo_pool_reach] demo_pool_eq by (auto simp: count_workers_def)

section \<open>Stopping\<close>

text \<open>How many segments a worker still has before it, once the pool is stopped.\<close>

definition pc_rank :: "wpc \<Rightarrow> nat" where
  "pc_rank c = (case c of WDone \<Rightarrow> 0 | WLeave \<Rightarrow> 1 | WCheck \<Rightarrow> 2 | WGet \<Rightarrow> 3 | WAck _ _ \<Rightarrow> 3 | WRun _ \<Rightarrow> 4
     | WGrow _ \<Rightarrow> 5 | WGot _ \<Rightarrow> 6)"

definition segments_left :: "pool \<Rightarrow> nat" where
  "segments_left p = sum_list (map (pc_rank \<circ> w_pc) (p_threads p))"

lemma pc_rank_zero: "(pc_rank c = 0) = (c = WDone)" "(0 = pc_rank c) = (c = WDone)"
  by (cases c; simp add: pc_rank_def)+

lemma segments_update: "i < length (p_threads p) \<Longrightarrow>
    sum_list (map (pc_rank \<circ> w_pc) ((p_threads p)[i := w])) + pc_rank (w_pc (p_threads p ! i)) =
    segments_left p + pc_rank (w_pc w)"
proof -
  have "i < length ws \<Longrightarrow> sum_list (map (pc_rank \<circ> w_pc) (ws[i := w])) + pc_rank (w_pc (ws ! i)) =
      sum_list (map (pc_rank \<circ> w_pc) ws) + pc_rank (w_pc w)" for ws
    by (induction ws arbitrary: i) (auto split: nat.splits)
  then show "i < length (p_threads p) \<Longrightarrow> ?thesis" by (simp add: segments_left_def)
qed

lemma stopped_api:
  "p_exit p \<Longrightarrow> snd (pool_add starts now nb name xid p) = p"
  "p_exit p \<Longrightarrow> snd (pool_put starts now e stopping name p) = p"
  "task_entry now q t p = (e, p') \<Longrightarrow> p_threads p' = p_threads p \<and> p_exit p' = p_exit p"
  "set_max_workers nb p = Inr (k, p') \<Longrightarrow> p_threads p' = p_threads p \<and> p_exit p' = p_exit p"
  "killall own wait p = Inr p' \<Longrightarrow> p_threads p' = p_threads p \<and> p_exit p'"
  by (auto simp: pool_add_def pool_put_def task_entry_def set_max_workers_def killall_def killall_stop_eq split: if_splits)

text \<open>The segments of a worker of a stopped pool move it towards its end.\<close>

lemma stopped_worker:
  assumes "p_exit p" "p_tasks p = []" "i < length (p_threads p)"
  defines "c \<equiv> w_pc (p_threads p ! i)"
  shows "c = WCheck \<Longrightarrow> p_exit (worker_check now i p) \<and> segments_left (worker_check now i p) < segments_left p"
    "c = WGet \<Longrightarrow> p_exit (worker_get i p) \<and> segments_left (worker_get i p) < segments_left p"
    "c = WGot e \<Longrightarrow> p_exit (worker_begin i e p) \<and> segments_left (worker_begin i e p) < segments_left p"
    "c = WGrow t \<Longrightarrow> p_exit (worker_grow starts now i t p) \<and> segments_left (worker_grow starts now i t p) < segments_left p"
    "c = WRun t \<Longrightarrow> p_exit (worker_run escaped i t p) \<and> segments_left (worker_run escaped i t p) < segments_left p"
    "c = WAck b l \<Longrightarrow> p_exit (worker_ack i b l p) \<and> segments_left (worker_ack i b l p) < segments_left p"
    "c = WLeave \<Longrightarrow> p_exit (worker_leave starts now i p) \<and> segments_left (worker_leave starts now i p) < segments_left p"
proof -
  have up: "segments_left q < segments_left p"
    if "p_threads q = (p_threads p)[i := w]" "pc_rank (w_pc w) < pc_rank c" for q w
    using segments_update [OF assms(3), of w] that by (simp add: segments_left_def c_def)
  note defs = worker_check_def worker_get_def worker_begin_def worker_grow_def worker_run_def worker_ack_def
    worker_leave_def Let_def stopped_api(1) assms(1,2) set_worker_def task_done_def pc_rank_def
  show "c = WCheck \<Longrightarrow> p_exit (worker_check now i p) \<and> segments_left (worker_check now i p) < segments_left p"
    by (intro conjI up [where w = "(p_threads p ! i)\<lparr>w_pc := WLeave\<rparr>"]) (simp_all add: defs)
  show "c = WGet \<Longrightarrow> p_exit (worker_get i p) \<and> segments_left (worker_get i p) < segments_left p"
    by (intro conjI up [where w = "(p_threads p ! i)\<lparr>w_pc := WCheck\<rparr>"]) (simp_all add: defs)
  show "c = WGot e \<Longrightarrow> p_exit (worker_begin i e p) \<and> segments_left (worker_begin i e p) < segments_left p"
    by (intro conjI up [where w = "(p_threads p ! i)\<lparr>w_pc := WAck False True\<rparr>"]) (simp_all add: defs)
  show "c = WGrow t \<Longrightarrow> p_exit (worker_grow starts now i t p) \<and> segments_left (worker_grow starts now i t p) < segments_left p"
    by (intro conjI up [where w = "(p_threads p ! i)\<lparr>w_pc := WRun t\<rparr>"]) (simp_all add: defs)
  show "c = WRun t \<Longrightarrow> p_exit (worker_run escaped i t p) \<and> segments_left (worker_run escaped i t p) < segments_left p"
    by (intro conjI up [where w = "(p_threads p ! i)\<lparr>w_pc := WAck True escaped, w_nb_tasks := Suc (w_nb_tasks (p_threads p ! i)),
         w_task_name := task_name t, w_name := get_name p (w_xid (p_threads p ! i)) (task_name t)\<rparr>"])
      (simp_all add: defs)
  show "c = WAck b l \<Longrightarrow> p_exit (worker_ack i b l p) \<and> segments_left (worker_ack i b l p) < segments_left p"
    by (intro conjI up [where w = "(p_threads p ! i)\<lparr>w_pc := if l then WLeave else WCheck\<rparr>"])
      (simp_all add: defs)
  show "c = WLeave \<Longrightarrow> p_exit (worker_leave starts now i p) \<and> segments_left (worker_leave starts now i p) < segments_left p"
    by (intro conjI up [where w = "(p_threads p ! i)\<lparr>w_pc := WDone\<rparr>"]) (simp_all add: defs)
qed

lemma segments_left_threads: "p_threads q = p_threads p \<Longrightarrow> segments_left q = segments_left p"
  by (simp add: segments_left_def)

text \<open>No step restarts a stopped pool or brings a thread further from its end; a live thread has a step
  that brings it nearer.\<close>

lemma stopped_step:
  assumes "p_exit p" "p_tasks p = []" "pool_step True p p'"
  shows "p_exit p' \<and> segments_left p' \<le> segments_left p"
proof -
  note wk = stopped_worker [OF assms(1,2)]
  show ?thesis using assms(3)
  proof cases
    case (step_draw now q t e)
    then show ?thesis using assms(1) stopped_api(3) [of now q t p e p'] segments_left_threads [of p' p] by simp
  next
    case (step_set_max nb k)
    then show ?thesis using assms(1) stopped_api(4) [of nb p k p'] segments_left_threads [of p' p] by simp
  next
    case (step_killall own wait)
    then show ?thesis using stopped_api(5) [of own wait p p'] segments_left_threads [of p' p] by simp
  next
    case (step_add starts now nb name xid)
    then show ?thesis using assms(1) stopped_api(1) by simp
  next
    case (step_put starts stopping e now name)
    then show ?thesis using assms(1) stopped_api(2) by simp
  next
    case (step_check i now)
    then show ?thesis using wk(1) [of i now] by simp
  next
    case (step_get i)
    then show ?thesis using wk(2) [of i] by simp
  next
    case (step_begin i e)
    then show ?thesis using wk(3) [of i e] by simp
  next
    case (step_grow i t starts now)
    then show ?thesis using wk(4) [of i t starts now] by simp
  next
    case (step_task i t escaped)
    then show ?thesis using wk(5) [of i t escaped] by simp
  next
    case (step_ack i b l)
    then show ?thesis using wk(6) [of i b l] by simp
  next
    case (step_leave i starts now)
    then show ?thesis using wk(7) [of i starts now] by simp
  qed
qed

lemma stopped_progress:
  assumes "p_exit p" "p_tasks p = []" "segments_left p \<noteq> 0"
  shows "\<exists>p'. pool_step True p p' \<and> segments_left p' < segments_left p"
proof -
  note wk = stopped_worker [OF assms(1,2)]
  from assms(3) obtain w where "w \<in> set (p_threads p)" "w_pc w \<noteq> WDone"
    by (auto simp: segments_left_def pc_rank_zero)
  then obtain i where i: "i < length (p_threads p)" "w_pc (p_threads p ! i) \<noteq> WDone"
    by (auto simp: in_set_conv_nth)
  note n = i(1)
  show ?thesis
  proof (cases "w_pc (p_threads p ! i)")
    case WCheck
    show ?thesis using wk(1) [OF n WCheck, of 0] step_check [OF n WCheck, of True 0] by auto
  next
    case WGet
    show ?thesis using wk(2) [OF n WGet] step_get [OF n WGet, of True] by auto
  next
    case (WGot e)
    show ?thesis using wk(3) [OF n WGot] step_begin [OF n WGot, of True] by auto
  next
    case (WGrow t)
    show ?thesis
      using wk(4) [OF n WGrow, of "\<lambda>_. True" 0] step_grow [OF n WGrow, of True "\<lambda>_. True" 0] by auto
  next
    case (WRun t)
    show ?thesis using wk(5) [OF n WRun, of False] step_task [OF n WRun, of True False] by auto
  next
    case (WAck b l)
    show ?thesis using wk(6) [OF n WAck] step_ack [OF n WAck, of True] by auto
  next
    case WLeave
    show ?thesis
      using wk(7) [OF n WLeave, of "\<lambda>_. True" 0] step_leave [OF n WLeave, of True "\<lambda>_. True" 0] by auto
  qed (use i(2) in simp)
qed

text \<open>
  C16: A stopped pool winds down: no step restarts it or adds work for its threads, as long as a thread
  is alive one can take a step that brings it nearer its end, the number of such steps is bounded by
  the number of segments left, and when none is left (and only then) the event \<^verbatim>\<open>killall\<close> waits for is
  set, with an empty queue and nothing unfinished.
\<close>

theorem workerpool_winds_down:
  assumes "reach pool_start (pool_step True) p" "p_exit p"
  shows "(pool_step True p p' \<longrightarrow> p_exit p' \<and> segments_left p' \<le> segments_left p) \<and>
    (segments_left p \<noteq> 0 \<longrightarrow> (\<exists>p'. pool_step True p p' \<and> segments_left p' < segments_left p)) \<and>
    (segments_left p = 0) = p_kill_event p \<and> (p_kill_event p \<longrightarrow> p_tasks p = [] \<and> killable p)"
proof (intro conjI impI)
  from wpool.reach_inv [OF assms(1)] have t: "p_tasks p = []" using assms(2) by (simp add: inv_defs)
  show "p_exit p'" "segments_left p' \<le> segments_left p" if "pool_step True p p'"
    using stopped_step [OF assms(2) t that] by auto
  show "segments_left p \<noteq> 0 \<Longrightarrow> \<exists>p'. pool_step True p p' \<and> segments_left p' < segments_left p"
    by (rule stopped_progress [OF assms(2) t])
  have "(segments_left p = 0) = (\<forall>w \<in> set (p_threads p). w_pc w = WDone)"
    by (auto simp: segments_left_def pc_rank_zero)
  then show "(segments_left p = 0) = p_kill_event p" using workerpool_accounting_event [OF assms(1)] by simp
  show "killable p" if "p_kill_event p"
    using that t workerpool_accounting_event [OF assms(1)] wpool.reach_inv [OF assms(1)]
    by (auto simp: killable_def inv_defs tally_zero pc_live_def pc_holding_def)
  show "p_tasks p = []" by (rule t)
qed

theorem workerpool_winds_down_witness:
  "\<exists>p'. pool_step True (killall_stop demo_pool) p' \<and> segments_left p' < segments_left (killall_stop demo_pool)"
proof -
  have r: "reach pool_start (pool_step True) (killall_stop demo_pool)"
    by (rule reach_step [OF demo_pool_reach]) (rule step_killall [of True "Some 0"], simp add: killall_def)
  have "p_threads (killall_stop demo_pool) = p_threads demo_pool" "p_exit (killall_stop demo_pool)"
    by (simp_all add: killall_stop_eq)
  moreover from this(1) have "map w_pc (p_threads (killall_stop demo_pool)) = [WGot (0, 0, Task None 7)]"
    by (simp add: demo_pool_eq)
  then have "segments_left (killall_stop demo_pool) \<noteq> 0"
    by (simp add: segments_left_def pc_rank_def flip: map_map)
  ultimately show ?thesis using workerpool_winds_down [OF r] by blast
qed

section \<open>Bounds and single tasks\<close>

text \<open>
  \<^verbatim>\<open>add(nb)\<close> starts exactly the workers asked for (at least one), up to the maximum, never beyond it;
  when a start fails the workers started before it stay, the books are as if the failed one had never
  been counted, and a stopped pool is left as it was.
\<close>

theorem workerpool_add_bounds:
  assumes "reach pool_start (pool_step True) p" "pool_add starts now nb name xid p = (err, p')"
  shows "p_workers p \<le> p_workers p' \<and> p_workers p' \<le> max (p_workers p) (p_max_workers p) \<and>
    p_workers p' = tally pc_live (p_threads p') \<and> p_kill_event p' = (p_workers p' = 0) \<and>
    ((\<forall>k. starts k) \<and> \<not> p_exit p \<longrightarrow>
       err = None \<and> p_workers p' = max (p_workers p) (min (p_workers p + max 1 nb) (p_max_workers p))) \<and>
    (p_exit p \<longrightarrow> err \<noteq> None \<and> p' = p)"
proof (intro conjI impI)
  from wpool.reach_inv [OF assms(1)] have i: "pool_inv True p" .
  then have b: "base_inv p" by (simp add: pool_inv_def)
  note a = pool_add_added [OF b assms(2)]
  from a(1) i show "p_workers p \<le> p_workers p'" "p_workers p' \<le> max (p_workers p) (p_max_workers p)"
    "p_workers p' = tally pc_live (p_threads p')" "p_kill_event p' = (p_workers p' = 0)"
    by (auto simp: added_def base_inv_def pool_inv_def)
  show "err = None" "p_workers p' = max (p_workers p) (min (p_workers p + max 1 nb) (p_max_workers p))"
    if "(\<forall>k. starts k) \<and> \<not> p_exit p" using a(2) that by blast+
  show "err \<noteq> None" "p' = p" if "p_exit p" using assms(2) that by (auto simp: pool_add_def)
qed

theorem workerpool_add_bounds_witness:
  "p_workers (snd (pool_add (\<lambda>_. True) 9 5 None None demo_pool)) = 2"
proof -
  obtain err p' where a: "pool_add (\<lambda>_. True) 9 5 None None demo_pool = (err, p')"
    by (cases "pool_add (\<lambda>_. True) 9 5 None None demo_pool") auto
  from workerpool_add_bounds [OF demo_pool_reach a] show ?thesis by (simp add: a demo_pool_eq)
qed

text \<open>
  Whatever the callables of a task do, its function is called first and once, the callback only
  with the value the function returned, and the completion last and exactly once, with that value or
  \<^verbatim>\<open>None\<close>; the worker survives unless one of them raises what it does not catch.
\<close>

theorem task_completion:
  "fst (run_task func cb complete) =
     Called # (case (func, cb) of (Returns v, Some _) \<Rightarrow> [CalledCallback v] | _ \<Rightarrow> []) @
     (case complete of None \<Rightarrow> []
      | Some _ \<Rightarrow> [CalledComplete (case func of Returns v \<Rightarrow> Some v | _ \<Rightarrow> None)]) \<and>
   snd (run_task func cb complete) =
     (func = Escapes \<or> (\<exists>v f. func = Returns v \<and> cb = Some f \<and> f v = Escapes) \<or>
      (\<exists>f. complete = Some f \<and> f (case func of Returns v \<Rightarrow> Some v | _ \<Rightarrow> None) = Escapes))"
  by (cases func; cases cb; cases complete; simp add: run_task_def run_callback_def)+

end
