(* ===== verification/Workerpool_Service.thy ===== *)
theory Workerpool_Service
  imports Workerpool_Properties "HOL-Library.Multiset" "HOL-Library.Sublist"
begin

text \<open>
  What the workers of a pool do by themselves: their segments, each with the tasks it runs, and the runs made of
  such segments. From every state of a pool that is not stopped they empty its queue.
\<close>

section \<open>Segments of workers\<close>

inductive worker_segment :: "nat \<Rightarrow> task list \<Rightarrow> pool \<Rightarrow> pool \<Rightarrow> bool" for i :: nat where
  seg_check: "i < length (p_threads p) \<Longrightarrow> w_pc (p_threads p ! i) = WCheck \<Longrightarrow> worker_segment i [] p (worker_check now i p)"
| seg_get: "i < length (p_threads p) \<Longrightarrow> w_pc (p_threads p ! i) = WGet \<Longrightarrow> worker_segment i [] p (worker_get i p)"
| seg_begin: "i < length (p_threads p) \<Longrightarrow> w_pc (p_threads p ! i) = WGot e \<Longrightarrow> worker_segment i [] p (worker_begin i e p)"
| seg_grow: "i < length (p_threads p) \<Longrightarrow> w_pc (p_threads p ! i) = WGrow t \<Longrightarrow> (\<forall>k. starts k) \<Longrightarrow>
     worker_segment i [] p (worker_grow starts now i t p)"
| seg_task: "i < length (p_threads p) \<Longrightarrow> w_pc (p_threads p ! i) = WRun t \<Longrightarrow> worker_segment i [t] p (worker_run escaped i t p)"
| seg_ack: "i < length (p_threads p) \<Longrightarrow> w_pc (p_threads p ! i) = WAck working leave \<Longrightarrow>
     worker_segment i [] p (worker_ack i working leave p)"
| seg_leave: "i < length (p_threads p) \<Longrightarrow> w_pc (p_threads p ! i) = WLeave \<Longrightarrow> (\<forall>k. starts k) \<Longrightarrow>
     worker_segment i [] p (worker_leave starts now i p)"

lemma segment_step: "worker_segment i ts p p' \<Longrightarrow> pool_step False p p'"
  by (induction rule: worker_segment.induct) (blast intro: pool_step.intros(6-12))+

lemma segment_inv: "worker_segment i ts p p' \<Longrightarrow> pool_inv False p \<Longrightarrow> pool_inv False p'"
  by (blast intro: pool_step_inv segment_step)

inductive workers_run :: "task list \<Rightarrow> pool \<Rightarrow> pool \<Rightarrow> bool" where
  run_none: "workers_run [] p p"
| run_segment: "worker_segment i ts p q \<Longrightarrow> workers_run us q r \<Longrightarrow> workers_run (ts @ us) p r"

lemma run_one: "worker_segment i ts p q \<Longrightarrow> workers_run ts p q"
  using run_segment [OF _ run_none, of i ts p q] by simp

lemma run_trans: "workers_run ts p q \<Longrightarrow> workers_run us q r \<Longrightarrow> workers_run (ts @ us) p r"
  by (induction rule: workers_run.induct) (auto intro: run_segment)

lemma run_reach: "workers_run ts p q \<Longrightarrow> reach pool_start (pool_step False) p \<Longrightarrow> reach pool_start (pool_step False) q"
  by (induction rule: workers_run.induct) (auto intro: reach_step segment_step)

lemma run_keeps_inv: "workers_run ts p q \<Longrightarrow> pool_inv False p \<Longrightarrow> pool_inv False q"
  by (induction rule: workers_run.induct) (auto intro: segment_inv)

section \<open>Tasks are run once\<close>

definition held_tasks :: "wpc \<Rightarrow> task multiset" where
  "held_tasks c = (case c of WGot e \<Rightarrow> if is_work e then {#snd (snd e)#} else {#} | WGrow t \<Rightarrow> {#t#} | WRun t \<Rightarrow> {#t#} | _ \<Rightarrow> {#})"

lemma held_simps [simp]:
  "held_tasks WCheck = {#}" "held_tasks WGet = {#}" "held_tasks (WGot e) = (if is_work e then {#snd (snd e)#} else {#})"
  "held_tasks (WGrow t) = {#t#}" "held_tasks (WRun t) = {#t#}" "held_tasks (WAck b l) = {#}" "held_tasks WLeave = {#}"
  "held_tasks WDone = {#}"
  by (simp_all add: held_tasks_def)

definition queued_tasks :: "pool \<Rightarrow> task list" where
  "queued_tasks p = map (snd \<circ> snd) (filter is_work (p_tasks p))"

definition pending_tasks :: "pool \<Rightarrow> task multiset" where
  "pending_tasks p = mset (queued_tasks p) + (\<Sum>w \<leftarrow> p_threads p. held_tasks (w_pc w))"

lemma held_update: "i < length ws \<Longrightarrow> (\<Sum>w \<leftarrow> ws[i := v]. held_tasks (w_pc w)) + held_tasks (w_pc (ws ! i)) =
    (\<Sum>w \<leftarrow> ws. held_tasks (w_pc w)) + held_tasks (w_pc v)"
  by (induction ws arbitrary: i) (auto split: nat.splits simp: ac_simps)

text \<open>Another worker at most, which has run nothing yet; the queue and the settings stay.\<close>

definition grown :: "pool \<Rightarrow> pool \<Rightarrow> bool" where
  "grown p q \<longleftrightarrow> p_tasks q = p_tasks p \<and> p_exit q = p_exit p \<and> p_max_tasks q = p_max_tasks p \<and>
     (\<exists>ws. p_threads q = p_threads p @ ws \<and> length ws \<le> 1 \<and> (\<forall>w \<in> set ws. w_pc w = WCheck \<and> w_nb_tasks w = 0))"

lemma grown_refl: "grown p p"
  by (simp add: grown_def)

lemma start_grown: "start_worker ok now name xid p = (b, q) \<Longrightarrow> grown p q"
proof -
  assume s: "start_worker ok now name xid p = (b, q)"
  obtain i p1 where t: "take_id xid p = (i, p1)" by (rule prod.exhaust)
  from take_id_same [OF t] obtain "is" n where "p1 = p\<lparr>p_ids := is, p_next_id := n\<rparr>" by blast
  with s t show ?thesis by (auto simp: start_worker_def grown_def split: if_splits)
qed

lemma add_grown: "grown p (snd (pool_add starts now 1 name xid p))"
proof -
  have "nat (min 1 m) \<le> 1" for m :: int by simp
  then have "nat (min (max 1 1) (p_max_workers p)) = 0 \<or> nat (min (max 1 1) (p_max_workers p)) = Suc 0" by (auto simp: le_Suc_eq)
  then show ?thesis
    by (auto simp: pool_add_def grown_refl split: prod.splits bool.splits if_splits dest: start_grown)
qed

lemma grown_held: "grown p q \<Longrightarrow> (\<Sum>w \<leftarrow> p_threads q. held_tasks (w_pc w)) = (\<Sum>w \<leftarrow> p_threads p. held_tasks (w_pc w))"
proof -
  have "(\<forall>w \<in> set ws. w_pc w = WCheck \<and> w_nb_tasks w = 0) \<Longrightarrow> (\<Sum>w \<leftarrow> ws. held_tasks (w_pc w)) = {#}" for ws
    by (induction ws) auto
  then show "grown p q \<Longrightarrow> ?thesis" by (auto simp: grown_def)
qed

lemma grown_pending: "grown p q \<Longrightarrow> pending_tasks q = pending_tasks p"
  by (simp add: pending_tasks_def grown_held queued_tasks_def) (simp add: grown_def)

lemma pending_pc:
  assumes "i < length (p_threads p)" "p_threads q = (p_threads p)[i := w]"
    "mset (queued_tasks q) + held_tasks (w_pc w) + new = mset (queued_tasks p) + held_tasks (w_pc (p_threads p ! i))"
  shows "pending_tasks q + new = pending_tasks p"
proof -
  let ?h = "\<lambda>ws. \<Sum>w \<leftarrow> ws. held_tasks (w_pc w)"
  have "pending_tasks q + new + held_tasks (w_pc (p_threads p ! i)) =
      mset (queued_tasks q) + new + (?h ((p_threads p)[i := w]) + held_tasks (w_pc (p_threads p ! i)))"
    using assms(2) by (simp add: pending_tasks_def ac_simps)
  also have "\<dots> = (mset (queued_tasks q) + held_tasks (w_pc w) + new) + ?h (p_threads p)"
    unfolding held_update [OF assms(1)] by (simp add: ac_simps)
  also have "\<dots> = pending_tasks p + held_tasks (w_pc (p_threads p ! i))"
    unfolding assms(3) by (simp add: pending_tasks_def ac_simps)
  finally show ?thesis by simp
qed

lemma pending_cong: "p_threads q = p_threads p \<Longrightarrow> p_tasks q = p_tasks p \<Longrightarrow> pending_tasks q = pending_tasks p"
  by (simp add: pending_tasks_def queued_tasks_def)

lemma grown_nth: "grown p q \<Longrightarrow> i < length (p_threads p) \<Longrightarrow> i < length (p_threads q) \<and> p_threads q ! i = p_threads p ! i"
  by (auto simp: grown_def nth_append)

text \<open>How a worker leaves, and how it makes the pool grow, in two parts.\<close>

definition worker_gone :: "nat \<Rightarrow> pool \<Rightarrow> pool" where
  "worker_gone i p = to_pc i WDone (p\<lparr>p_workers := p_workers p - 1, p_ids := p_ids p @ [w_xid (p_threads p ! i)]\<rparr>)"

lemma leave_parts:
  assumes "\<not> p_exit p"
  obtains q where "grown (worker_gone i p) q" "p_threads (worker_leave starts now i p) = p_threads q"
    "p_tasks (worker_leave starts now i p) = p_tasks q" "p_exit (worker_leave starts now i p) = p_exit q"
    "p_max_tasks (worker_leave starts now i p) = p_max_tasks q"
proof -
  define q where "q = (if p_tasks (worker_gone i p) \<noteq> [] then snd (pool_add starts now 1 (w_task_name (p_threads p ! i)) None (worker_gone i p)) else worker_gone i p)"
  have e: "\<not> p_exit (worker_gone i p)" "p_tasks (worker_gone i p) = p_tasks p" using assms by (simp_all add: worker_gone_def)
  have w: "worker_leave starts now i p = (if p_workers q = 0 then q\<lparr>p_kill_event := True\<rparr> else q)"
    using e assms by (simp add: worker_leave_def q_def Let_def flip: worker_gone_def)
  have g: "grown (worker_gone i p) q" by (simp add: q_def add_grown grown_refl)
  show ?thesis by (rule that [OF g]) (simp_all add: w)
qed

lemma to_pc_more [simp]: "p_max_tasks (to_pc i c p) = p_max_tasks p"
  by (simp add: to_pc_def set_worker_def)

lemma segment_once:
  assumes "worker_segment i ts p q" "\<not> p_exit p"
  shows "pending_tasks q + mset ts = pending_tasks p \<and> \<not> p_exit q"
  using assms
proof (cases rule: worker_segment.cases)
  case (seg_check now)
  then show ?thesis using assms(2)
    by (auto simp: worker_check_def Let_def queued_tasks_def intro!: pending_pc [where new = "{#}", simplified])
next
  case seg_get
  then show ?thesis using assms(2)
    by (auto simp: worker_get_def queued_tasks_def split: list.splits intro!: pending_pc [where new = "{#}", simplified])
next
  case (seg_begin e)
  then show ?thesis using assms(2)
    by (auto simp: worker_begin_def Let_def is_work_def queued_tasks_def intro!: pending_pc [where new = "{#}", simplified])
next
  case (seg_grow t starts now)
  let ?p = "snd (pool_add starts now 1 None None p)"
  have g: "grown p ?p" by (rule add_grown)
  have "pending_tasks q + {#} = pending_tasks ?p"
    using grown_nth [OF g seg_grow(3)] seg_grow
    by (intro pending_pc [where i = i and w = "(p_threads p ! i)\<lparr>w_pc := WRun t\<rparr>"]) (simp_all add: worker_grow_def queued_tasks_def)
  then show ?thesis using grown_pending [OF g] g assms(2) seg_grow by (simp add: worker_grow_def grown_def)
next
  case (seg_task t escaped)
  then have "pending_tasks q + {#t#} = pending_tasks p"
    by (intro pending_pc [where i = i]) (auto simp: worker_run_def set_worker_def Let_def queued_tasks_def)
  then show ?thesis using seg_task assms(2) by (simp add: worker_run_def set_worker_def Let_def)
next
  case (seg_ack working leave)
  then show ?thesis using assms(2)
    by (auto simp: worker_ack_def task_done_def queued_tasks_def intro!: pending_pc [where new = "{#}", simplified])
next
  case (seg_leave starts now)
  obtain r where r: "grown (worker_gone i p) r" "p_threads q = p_threads r" "p_tasks q = p_tasks r" "p_exit q = p_exit r"
    using leave_parts [OF assms(2), of i starts now] seg_leave by metis
  have "pending_tasks (worker_gone i p) + {#} = pending_tasks p"
    using seg_leave by (intro pending_pc [where i = i and w = "(p_threads p ! i)\<lparr>w_pc := WDone\<rparr>"]) (simp_all add: worker_gone_def queued_tasks_def)
  then show ?thesis using grown_pending [OF r(1)] pending_cong [OF r(2,3)] r assms(2) seg_leave
    by (simp add: grown_def worker_gone_def)
qed

lemma run_once: "workers_run ts p q \<Longrightarrow> \<not> p_exit p \<Longrightarrow> pending_tasks q + mset ts = pending_tasks p \<and> \<not> p_exit q"
  by (induction rule: workers_run.induct) (auto dest!: segment_once simp: ac_simps)

section \<open>The queue is worked off\<close>

text \<open>How far a worker is from asking the queue, if it is not held up by its deadline.\<close>

definition to_get :: "pool \<Rightarrow> worker \<Rightarrow> nat" where
  "to_get p w = (case w_pc w of WDone \<Rightarrow> 0 | WGet \<Rightarrow> 0 | WCheck \<Rightarrow> if max_tasks_reached p w then 3 else 1 | WLeave \<Rightarrow> 2
     | WAck _ _ \<Rightarrow> 4 | WRun _ \<Rightarrow> 5 | WGrow _ \<Rightarrow> 7 | WGot _ \<Rightarrow> 8)"

definition all_to_get :: "pool \<Rightarrow> nat" where
  "all_to_get p = sum_list (map (to_get p) (p_threads p))"

lemma to_get_cong: "p_max_tasks q = p_max_tasks p \<Longrightarrow> to_get q = to_get p"
  by (intro ext) (simp add: to_get_def max_tasks_reached_def)

lemma grown_to_get: "grown p q \<Longrightarrow> all_to_get q \<le> Suc (all_to_get p)"
proof -
  assume g: "grown p q"
  then obtain ws where ws: "p_threads q = p_threads p @ ws" "length ws \<le> 1" "\<forall>w \<in> set ws. w_pc w = WCheck \<and> w_nb_tasks w = 0"
    and m: "p_max_tasks q = p_max_tasks p" by (auto simp: grown_def)
  then have "all_to_get q = all_to_get p + sum_list (map (to_get p) ws)"
    by (simp add: all_to_get_def to_get_cong [OF m])
  moreover have "sum_list (map (to_get p) ws) \<le> 1"
    using ws(2,3) by (cases ws) (auto simp: to_get_def max_tasks_reached_def split: option.splits)
  ultimately show ?thesis by simp
qed

lemma to_get_less:
  assumes "i < length (p_threads p)" "p_threads q = (p_threads p)[i := w]" "p_max_tasks q = p_max_tasks p"
    "to_get p w + k < to_get p (p_threads p ! i)"
  shows "all_to_get q + k < all_to_get p"
proof -
  have "sum_list (map f (ws[i := w])) + f (ws ! i) = sum_list (map f ws) + f w" if "i < length ws" for f :: "worker \<Rightarrow> nat" and ws
    using that by (induction ws arbitrary: i) (auto split: nat.splits)
  from this [OF assms(1), of "to_get p"] assms(2,4) show ?thesis by (simp add: all_to_get_def to_get_cong [OF assms(3)])
qed

lemma segment_forward:
  assumes "\<not> p_exit p" "i < length (p_threads p)" "w_pc (p_threads p ! i) \<noteq> WDone" "w_pc (p_threads p ! i) \<noteq> WGet"
  shows "\<exists>ts q. worker_segment i ts p q \<and> p_tasks q = p_tasks p \<and> all_to_get q < all_to_get p"
proof (cases "w_pc (p_threads p ! i)")
  case WCheck
  let ?q = "worker_check (w_life_time (p_threads p ! i)) i p"
  have "\<not> expired (w_life_time (p_threads p ! i)) p (p_threads p ! i)" by (simp add: expired_def split: option.splits)
  then have "all_to_get ?q + 0 < all_to_get p" using assms(1,2) WCheck
    by (intro to_get_less) (auto simp: worker_check_def Let_def to_get_def max_tasks_reached_def)
  with seg_check [OF assms(2) WCheck] show ?thesis by (fastforce simp: worker_check_def Let_def)
next
  case (WGot e)
  have "all_to_get (worker_begin i e p) + 0 < all_to_get p" using assms(1,2) WGot
    by (intro to_get_less [where i = i and w = "p_threads (worker_begin i e p) ! i"]) (auto simp: worker_begin_def Let_def to_get_def)
  with seg_begin [OF assms(2) WGot] show ?thesis by (fastforce simp: worker_begin_def Let_def)
next
  case (WGrow t)
  let ?p = "snd (pool_add (\<lambda>_. True) 0 1 None None p)"
  have g: "grown p ?p" by (rule add_grown)
  have "all_to_get (worker_grow (\<lambda>_. True) 0 i t p) + 1 < all_to_get ?p"
    using grown_nth [OF g assms(2)] WGrow by (intro to_get_less) (auto simp: worker_grow_def to_get_def)
  with grown_to_get [OF g] seg_grow [OF assms(2) WGrow, of "\<lambda>_. True" 0] g show ?thesis
    by (fastforce simp: worker_grow_def grown_def)
next
  case (WRun t)
  have "all_to_get (worker_run False i t p) + 0 < all_to_get p" using assms(2) WRun
    by (intro to_get_less) (auto simp: worker_run_def set_worker_def Let_def to_get_def)
  with seg_task [OF assms(2) WRun] show ?thesis by (fastforce simp: worker_run_def set_worker_def Let_def)
next
  case (WAck b l)
  have "all_to_get (worker_ack i b l p) + 0 < all_to_get p" using assms(2) WAck
    by (intro to_get_less) (auto simp: worker_ack_def task_done_def to_get_def)
  with seg_ack [OF assms(2) WAck] show ?thesis by (fastforce simp: worker_ack_def task_done_def)
next
  case WLeave
  let ?q = "worker_leave (\<lambda>_. True) 0 i p"
  obtain r where r: "grown (worker_gone i p) r" "p_threads ?q = p_threads r" "p_tasks ?q = p_tasks r" "p_max_tasks ?q = p_max_tasks r"
    using leave_parts [OF assms(1), of i "\<lambda>_. True" 0] by metis
  have "all_to_get (worker_gone i p) + 1 < all_to_get p" using assms(2) WLeave
    by (intro to_get_less) (auto simp: worker_gone_def to_get_def)
  moreover have "all_to_get ?q = all_to_get r" using r(2) by (simp add: all_to_get_def to_get_cong [OF r(4)])
  moreover have "p_tasks ?q = p_tasks p" using r(1,3) by (simp add: grown_def worker_gone_def)
  ultimately show ?thesis using grown_to_get [OF r(1)] seg_leave [OF assms(2) WLeave, of "\<lambda>_. True" 0] by fastforce
qed (use assms in auto)

lemma live_worker: "pool_inv False p \<Longrightarrow> \<not> p_exit p \<Longrightarrow> list_ex is_work (p_tasks p) \<Longrightarrow>
    \<exists>i < length (p_threads p). w_pc (p_threads p ! i) \<noteq> WDone"
proof -
  assume "pool_inv False p" "\<not> p_exit p" "list_ex is_work (p_tasks p)"
  then have "0 < tally pc_live (p_threads p)" by (simp add: inv_defs)
  then obtain w where "w \<in> set (p_threads p)" "w_pc w \<noteq> WDone" by (auto simp: tally_pos pc_live_def)
  then show ?thesis by (metis in_set_conv_nth)
qed

lemma reaches_queue:
  "pool_inv False p \<Longrightarrow> \<not> p_exit p \<Longrightarrow> list_ex is_work (p_tasks p) \<Longrightarrow>
     \<exists>ts q i. workers_run ts p q \<and> pool_inv False q \<and> \<not> p_exit q \<and> p_tasks q = p_tasks p \<and>
       i < length (p_threads q) \<and> w_pc (p_threads q ! i) = WGet"
proof (induction "all_to_get p" arbitrary: p rule: less_induct)
  case less
  from live_worker [OF less.prems] obtain i where i: "i < length (p_threads p)" "w_pc (p_threads p ! i) \<noteq> WDone" by blast
  show ?case
  proof (cases "w_pc (p_threads p ! i) = WGet")
    case True
    then show ?thesis using less.prems i run_none by blast
  next
    case False
    from segment_forward [OF less.prems(2) i False] obtain ts q where
      q: "worker_segment i ts p q" "p_tasks q = p_tasks p" "all_to_get q < all_to_get p" by blast
    have "pool_inv False q" "\<not> p_exit q" "list_ex is_work (p_tasks q)"
      using segment_inv [OF q(1) less.prems(1)] segment_once [OF q(1) less.prems(2)] q(2) less.prems(3) by simp_all
    from less.hyps [OF q(3) this] q show ?thesis by (metis run_segment)
  qed
qed

text \<open>A worker at the queue takes the first entry, and runs it if it is a task.\<close>

lemma takes_first:
  assumes "\<not> p_exit p" "i < length (p_threads p)" "w_pc (p_threads p ! i) = WGet" "p_tasks p = e # es"
  shows "\<exists>q. workers_run (if is_work e then [snd (snd e)] else []) p q \<and> p_tasks q = es"
proof -
  let ?t = "snd (snd e)"
  define p1 where "p1 = worker_get i p"
  define p2 where "p2 = worker_begin i e p1"
  have p1: "i < length (p_threads p1)" "w_pc (p_threads p1 ! i) = WGot e" "p_tasks p1 = es" "\<not> p_exit p1"
    using assms by (simp_all add: p1_def worker_get_def)
  have "workers_run [] p p1" using run_one [OF seg_get [OF assms(2,3)]] by (simp add: p1_def)
  moreover have "workers_run [] p1 p2" using run_one [OF seg_begin [OF p1(1,2)]] by (simp add: p2_def)
  ultimately have start: "workers_run [] p p2" using run_trans by fastforce
  have p2: "i < length (p_threads p2)" "p_tasks p2 = es" using p1 by (auto simp: p2_def worker_begin_def Let_def)
  show ?thesis
  proof (cases "is_work e")
    case False
    with start p2 show ?thesis by auto
  next
    case True
    then have "w_pc (p_threads p2 ! i) = WGrow ?t \<or> w_pc (p_threads p2 ! i) = WRun ?t"
      using p1 by (auto simp: p2_def worker_begin_def Let_def is_work_def)
    then obtain p3 where p3: "workers_run [] p2 p3" "i < length (p_threads p3)" "w_pc (p_threads p3 ! i) = WRun ?t" "p_tasks p3 = es"
    proof (elim disjE)
      assume g: "w_pc (p_threads p2 ! i) = WGrow ?t"
      let ?q = "snd (pool_add (\<lambda>_. True) 0 1 None None p2)"
      have a: "grown p2 ?q" by (rule add_grown)
      have "workers_run [] p2 (worker_grow (\<lambda>_. True) 0 i ?t p2)" using run_one [OF seg_grow [OF p2(1) g]] by simp
      then show ?thesis using grown_nth [OF a p2(1)] a p2(2)
        by (intro that [of "worker_grow (\<lambda>_. True) 0 i ?t p2"]) (simp_all add: worker_grow_def grown_def)
    qed (use p2 run_none that in blast)
    have "workers_run [?t] p3 (worker_run False i ?t p3)" by (rule run_one [OF seg_task [OF p3(2,3)]])
    with run_trans [OF start run_trans [OF p3(1)]] p3(4) True show ?thesis
      by (fastforce simp: worker_run_def set_worker_def Let_def)
  qed
qed

lemma works_off:
  "pool_inv False p \<Longrightarrow> \<not> p_exit p \<Longrightarrow> \<exists>ts q. workers_run ts p q \<and> subseq (queued_tasks p) ts \<and> queued_tasks q = []"
proof (induction "length (p_tasks p)" arbitrary: p rule: less_induct)
  case less
  show ?case
  proof (cases "list_ex is_work (p_tasks p)")
    case False
    then have "queued_tasks p = []" by (simp add: queued_tasks_def list_ex_iff filter_empty_conv)
    then show ?thesis using run_none by fastforce
  next
    case True
    from reaches_queue [OF less.prems True] obtain ts1 q i where q: "workers_run ts1 p q" "pool_inv False q" "\<not> p_exit q"
      "p_tasks q = p_tasks p" "i < length (p_threads q)" "w_pc (p_threads q ! i) = WGet" by blast
    obtain e es where e: "p_tasks p = e # es" using True by (cases "p_tasks p") auto
    let ?new = "if is_work e then [snd (snd e)] else []"
    from takes_first [OF q(3,5,6)] q(4) e obtain r where r: "workers_run ?new q r" "p_tasks r = es" by auto
    have "pool_inv False r" "\<not> p_exit r" using run_keeps_inv [OF r(1) q(2)] run_once [OF r(1) q(3)] by simp_all
    with less.hyps [of r] r(2) e obtain ts2 s where s: "workers_run ts2 r s" "subseq (queued_tasks r) ts2" "queued_tasks s = []"
      by auto
    have "queued_tasks p = ?new @ queued_tasks r" using e r(2) by (simp add: queued_tasks_def)
    then have "subseq (queued_tasks p) (ts1 @ ?new @ ts2)"
      using s(2) by (auto intro!: list_emb_append2 list_emb_append_mono)
    with run_trans [OF q(1) run_trans [OF r(1) s(1)]] s(3) show ?thesis by blast
  qed
qed

lemma worker_enabled:
  assumes "\<not> p_exit p" "i < length (p_threads p)" "w_pc (p_threads p ! i) \<noteq> WDone"
  shows "\<exists>ts q. worker_segment i ts p q"
  using segment_forward [OF assms] seg_get [OF assms(2)] by blast

text \<open>
  C15: With thread starts that succeed, whatever stop messages, deadlines and resizings happened before, in a pool that is
  not stopped: every worker that has not ended can take a step of its own; the workers by themselves can, at some
  readings of the clock, run all the queued tasks in the order of the queue; and however they go on, every task that is
  queued or held by a worker is either run once or still queued or held, and nothing else is run. An accepted task is
  in the queue, one that is refused leaves the queue as it was, and both leave a pool with workers.
\<close>

theorem workerpool_serves:
  assumes "reach pool_start (pool_step False) p" "\<not> p_exit p"
  shows "(\<forall>i < length (p_threads p). w_pc (p_threads p ! i) \<noteq> WDone \<longrightarrow> (\<exists>ts q. worker_segment i ts p q \<and> pool_step False p q)) \<and>
    (\<exists>ts q. workers_run ts p q \<and> reach pool_start (pool_step False) q \<and> subseq (queued_tasks p) ts \<and> queued_tasks q = []) \<and>
    (\<forall>ts q. workers_run ts p q \<longrightarrow> pending_tasks q + mset ts = pending_tasks p) \<and>
    ((\<forall>k. starts k) \<and> pool_put starts now e False name p = (r, p') \<longrightarrow>
       (r = Put \<and> e \<in> set (p_tasks p') \<or> r = Retry \<and> queue_full p' \<and> p_tasks p' = p_tasks p) \<and> 0 < p_workers p')"
proof (intro conjI impI)
  from wpool.reach_inv [OF assms(1)] have i: "pool_inv False p" .
  show "\<forall>i < length (p_threads p). w_pc (p_threads p ! i) \<noteq> WDone \<longrightarrow> (\<exists>ts q. worker_segment i ts p q \<and> pool_step False p q)"
    using worker_enabled [OF assms(2)] segment_step by blast
  show "\<exists>ts q. workers_run ts p q \<and> reach pool_start (pool_step False) q \<and> subseq (queued_tasks p) ts \<and> queued_tasks q = []"
    using works_off [OF i assms(2)] run_reach [OF _ assms(1)] by blast
  show "\<forall>ts q. workers_run ts p q \<longrightarrow> pending_tasks q + mset ts = pending_tasks p"
    using run_once assms(2) by blast
  show "r = Put \<and> e \<in> set (p_tasks p') \<or> r = Retry \<and> queue_full p' \<and> p_tasks p' = p_tasks p" "0 < p_workers p'"
    if "(\<forall>k. starts k) \<and> pool_put starts now e False name p = (r, p')"
  proof -
    from that have s: "\<forall>k. starts k" and r: "pool_put starts now e False name p = (r, p')" by auto
    have b: "base_inv p" "0 \<le> p_workers p" using i by (auto simp: inv_defs tally_ge)
    obtain err q where a: "pool_add starts now 1 name None p = (err, q)"
      by (cases "pool_add starts now 1 name None p") auto
    note ad = pool_add_added [OF b(1) a] 
    have "err = None" "0 < p_workers q" using ad(2) s assms(2) b by (auto simp: base_inv_def)
    with ad(1) r assms(2) a b(2) show "r = Put \<and> e \<in> set (p_tasks p') \<or> r = Retry \<and> queue_full p' \<and> p_tasks p' = p_tasks p"
      "0 < p_workers p'" by (auto simp: pool_put_def added_def split: if_splits)
  qed
qed

theorem workerpool_serves_witness:
  "(\<exists>ts q. workers_run ts demo_pool q \<and> reach pool_start (pool_step False) q \<and> subseq (queued_tasks demo_pool) ts \<and> queued_tasks q = []) \<and> queued_tasks demo_pool \<noteq> [] \<and>
   0 < p_workers (snd (pool_put (\<lambda>_. True) 9 (0, 0, Task None 9) False None demo_pool))"
proof -
  have "\<not> p_exit demo_pool" "queued_tasks demo_pool \<noteq> []" by (simp_all add: demo_pool_eq is_work_def queued_tasks_def)
  note s = workerpool_serves [OF demo_pool_reach this(1)]
  obtain r p' where p: "pool_put (\<lambda>_. True) 9 (0, 0, Task None 9) False None demo_pool = (r, p')" by (rule prod.exhaust)
  show ?thesis using s [of "\<lambda>_. True" 9 "(0, 0, Task None 9)" None r p'] \<open>queued_tasks demo_pool \<noteq> []\<close>
    by (simp add: p)
qed

end
