(* ===== verification/Helpers.thy ===== *)
theory Helpers
  imports Pystr
begin

text \<open>
  The text, value and tree functions of \<^verbatim>\<open>sonicprobe/helpers.py\<close>. Values are \<^typ>\<open>pyval\<close>; the tests of
  \<^verbatim>\<open>str.isdigit\<close>, \<^verbatim>\<open>str.isupper\<close> and their like are modelled on ASCII characters. A function that may
  raise answers \<open>Inl\<close> the exception.
\<close>

section \<open>Values\<close>

definition is_scalar :: "pyval \<Rightarrow> bool" where
  "is_scalar v = (case v of VStr _ \<Rightarrow> True | VBool _ \<Rightarrow> True | VInt _ \<Rightarrow> True | _ \<Rightarrow> False)"

definition show_bool :: "bool \<Rightarrow> string" where
  "show_bool b = (if b then ''True'' else ''False'')"

definition lower :: "string \<Rightarrow> string" where "lower s = map lower_char s"

text \<open>\<^verbatim>\<open>bool(v)\<close>, and \<^verbatim>\<open>int(s)\<close> on digits.\<close>

definition truth :: "pyval \<Rightarrow> bool" where
  "truth v = (case v of VNone \<Rightarrow> False | VBool b \<Rightarrow> b | VInt i \<Rightarrow> i \<noteq> 0 | VStr s \<Rightarrow> s \<noteq> [] | VBytes s \<Rightarrow> s \<noteq> []
     | VList l \<Rightarrow> l \<noteq> [] | VTuple l \<Rightarrow> l \<noteq> [] | VDict d \<Rightarrow> d \<noteq> [])"

definition is_digits :: "string \<Rightarrow> bool" where
  "is_digits s = (s \<noteq> [] \<and> list_all is_digit s)"

definition boolize :: "pyval \<Rightarrow> bool" where
  "boolize v = (case v of
       VStr s \<Rightarrow> if lower s \<in> set [''y'', ''yes'', ''t'', ''true''] then True
                else if \<not> is_digits s then False else digits_val 10 s \<noteq> 0
     | _ \<Rightarrow> truth v)"

text \<open>\<open>has_len(value, default, retvalue)\<close>: the answer is the value as text when it has to be returned.\<close>

definition scalar_text :: "pyval \<Rightarrow> string" where
  "scalar_text v = (case v of VStr s \<Rightarrow> s | VInt i \<Rightarrow> show_int i | VBool b \<Rightarrow> show_int (if b then 1 else 0) | _ \<Rightarrow> [])"

definition has_len :: "pyval \<Rightarrow> pyval \<Rightarrow> pyval \<Rightarrow> pyval" where
  "has_len v dflt retvalue =
     (if \<not> is_scalar v then dflt
      else if scalar_text v = [] then dflt
      else if retvalue = VBool False then VBool True else VStr (scalar_text v))"

definition cmp :: "'a::linorder \<Rightarrow> 'a \<Rightarrow> int" where
  "cmp x y = (if x > y then 1 else 0) - (if x < y then 1 else 0)"

section \<open>Passwords\<close>

definition PUNCT :: string where
  "PUNCT = [CHR 0x21, CHR 0x22, CHR 0x23, CHR 0x24, CHR 0x25, CHR 0x5C, CHR 0x27, CHR 0x26, CHR 0x28, CHR 0x29,
     CHR 0x2A, CHR 0x2B, CHR 0x2C, CHR 0x20, CHR 0x2D, CHR 0x2E, CHR 0x2F, CHR 0x3A, CHR 0x3B, CHR 0x3C,
     CHR 0x3D, CHR 0x3E, CHR 0x3F, CHR 0x40, CHR 0x5B, CHR 0x5D, CHR 0x5E, CHR 0x5F, CHR 0x60, CHR 0x7B,
     CHR 0x7C, CHR 0x7D, CHR 0x7E]"

definition PASSWD_MASK_DIGIT :: nat where "PASSWD_MASK_DIGIT = 1"
definition PASSWD_MASK_UPPER :: nat where "PASSWD_MASK_UPPER = 2"
definition PASSWD_MASK_LOWER :: nat where "PASSWD_MASK_LOWER = 4"
definition PASSWD_MASK_PUNCT :: nat where "PASSWD_MASK_PUNCT = 256"

definition flag :: "nat \<Rightarrow> nat \<Rightarrow> bool" where "flag m f = odd (m div f)"

definition missing :: "nat \<Rightarrow> nat \<Rightarrow> string \<Rightarrow> string \<Rightarrow> bool" where
  "missing m f chars v = (flag m f \<and> \<not> list_ex (\<lambda>c. c \<in> set chars) v)"

text \<open>\<^verbatim>\<open>ensure_text\<close> raises on a scalar that is not text.\<close>

definition password_check :: "pyval \<Rightarrow> nat \<Rightarrow> nat \<Rightarrow> nat \<Rightarrow> pyerror + bool" where
  "password_check value min_len max_len classes =
     (if \<not> is_scalar value then Inr False
      else case value of
        VStr v \<Rightarrow>
          raise_if (py_len v < min_len) (ValueError (''length should be at least '' @ show_nat min_len))
         (raise_if (max_len < py_len v)
            (ValueError (''length should be not be greater than '' @ show_nat max_len))
         (raise_if (missing classes PASSWD_MASK_DIGIT digit_chars v)
            (ValueError ''password should have at least one numeral'')
         (raise_if (missing classes PASSWD_MASK_UPPER upper_chars v)
            (ValueError ''password should have at least one uppercase letter'')
         (raise_if (missing classes PASSWD_MASK_LOWER lower_chars v)
            (ValueError ''password should have at least one lowercase letter'')
         (raise_if (missing classes PASSWD_MASK_PUNCT PUNCT v)
            (ValueError ''password should have at least one of punctuation'')
         (Inr True))))))
      | _ \<Rightarrow> Inl (TypeError ''not expecting type''))"

section \<open>Nested dictionaries\<close>

text \<open>\<open>merge(current, default)\<close>: what the defaults add, at every level.\<close>

function merge :: "pyval \<Rightarrow> pyval \<Rightarrow> pyval"
  and merge_items :: "(pyval, pyval) dict \<Rightarrow> (pyval \<times> pyval) list \<Rightarrow> (pyval, pyval) dict" where
  "merge current dflt = (case (current, dflt) of
       (VDict c, VDict d) \<Rightarrow> VDict (merge_items c d) | _ \<Rightarrow> current)"
| "merge_items c [] = c"
| "merge_items c ((k, v) # d) = (case dget c k of
       None \<Rightarrow> merge_items (dset c k v) d
     | Some x \<Rightarrow> merge_items (dset c k (merge x v)) d)"
  by pat_completeness auto
termination
  by (relation "measure (\<lambda>x. case x of Inl (c, d) \<Rightarrow> 2 * size d | Inr (c, d) \<Rightarrow> 1 + 2 * size_list (size_prod size size) d)")
    (auto split: pyval.splits)

text \<open>\<open>split_to_dict(value, sep)\<close> for a one-character separator: one key after another is put in its place.\<close>

fun put_path :: "pyval \<Rightarrow> string list \<Rightarrow> pyval \<Rightarrow> pyerror + pyval" where
  "put_path ref [] v = Inr ref"
| "put_path ref [k] v = (case ref of
       VDict d \<Rightarrow> Inr (VDict (dset d (VStr k) v)) | _ \<Rightarrow> Inl (TypeError ''item assignment''))"
| "put_path ref (k # l # ks) v = (case ref of
       VDict d \<Rightarrow> bind_sum (put_path (dgetd d (VStr k) (VDict [])) (l # ks) v)
                   (\<lambda>sub. Inr (VDict (dset d (VStr k) sub)))
     | _ \<Rightarrow> Inl (TypeError ''item assignment''))"

fun put_paths :: "char \<Rightarrow> pyval \<Rightarrow> (string \<times> pyval) list \<Rightarrow> pyerror + pyval" where
  "put_paths sep r [] = Inr r"
| "put_paths sep r ((key, val) # items) =
     bind_sum (put_path r (split_on sep key) val) (\<lambda>r'. put_paths sep r' items)"

definition split_to_dict :: "char \<Rightarrow> (string \<times> pyval) list \<Rightarrow> pyerror + pyval" where
  "split_to_dict sep items = put_paths sep (VDict []) items"

section \<open>Arguments and patterns\<close>

text \<open>\<open>escape_parse_args\<close>: the guard on the length holds for every index, so an option of the list in last
  position reads past the end.\<close>

fun escape_args :: "string list \<Rightarrow> bool \<Rightarrow> string list \<Rightarrow> pyerror + string list" where
  "escape_args argslist s [] = Inr []"
| "escape_args argslist True (arg # rest) = escape_args argslist False rest"
| "escape_args argslist False (arg # rest) =
     (if arg \<in> set argslist then
        (case rest of
           [] \<Rightarrow> Inl IndexError
         | next # _ \<Rightarrow> if starts_with ''-'' next
                      then bind_sum (escape_args argslist True rest) (\<lambda>r. Inr ((arg @ ''='' @ next) # r))
                      else bind_sum (escape_args argslist False rest) (\<lambda>r. Inr (arg # r)))
      else bind_sum (escape_args argslist False rest) (\<lambda>r. Inr (arg # r)))"

definition escape_parse_args :: "string list \<Rightarrow> string list \<Rightarrow> pyerror + string list" where
  "escape_parse_args argslist argv = escape_args argslist False argv"

definition ALPHANUM :: string where "ALPHANUM = lower_chars @ upper_chars @ digit_chars"

fun unescape_from :: "bool \<Rightarrow> string \<Rightarrow> string" where
  "unescape_from backslash [] = []"
| "unescape_from backslash (c # s) =
     (if c \<in> set ALPHANUM then c # unescape_from False s
      else if c = CHR 0x5C then (if backslash then c # unescape_from False s else unescape_from True s)
      else c # unescape_from False s)"

definition re_unescape :: "string \<Rightarrow> string" where
  "re_unescape pattern = unescape_from False pattern"

section \<open>Substitution of variables\<close>

datatype subst_state = NORM | ONE | TWO | LIT | TLIT | TRM

definition value_text :: "pyval \<Rightarrow> pyerror + string" where
  "value_text v = (case v of VStr s \<Rightarrow> Inr s | VInt i \<Rightarrow> Inr (show_int i) | VBool b \<Rightarrow> Inr (show_bool b)
     | _ \<Rightarrow> Inl (TypeError ''can only concatenate str''))"

definition variable_text :: "(string, pyval) dict \<Rightarrow> string \<Rightarrow> pyerror + string" where
  "variable_text variables curvar = (case dget variables curvar of None \<Rightarrow> Inr [] | Some v \<Rightarrow> value_text v)"

text \<open>The state, the output and the current variable, one character at a time.\<close>

definition subst_step :: "(string, pyval) dict \<Rightarrow> char \<Rightarrow> subst_state \<times> string \<times> string \<Rightarrow>
    pyerror + subst_state \<times> string \<times> string" where
  "subst_step variables c s = (case s of (st, out, curvar) \<Rightarrow> (case st of
       NORM \<Rightarrow> if c = CHR ''{'' then Inr (ONE, out, curvar)
               else if c = CHR 0x5C then Inr (LIT, out, curvar) else Inr (NORM, out @ [c], curvar)
     | LIT \<Rightarrow> Inr (NORM, out @ [c], curvar)
     | ONE \<Rightarrow> if c = CHR ''{'' then Inr (TWO, out, curvar)
              else if c = CHR 0x5C then Inr (LIT, out @ ''{'', curvar)
              else Inr (NORM, out @ ''{'' @ [c], curvar)
     | TWO \<Rightarrow> if c = CHR 0x5C then Inr (TLIT, out, curvar)
              else if c = CHR ''}'' then Inr (TRM, out, curvar) else Inr (TWO, out, curvar @ [c])
     | TLIT \<Rightarrow> Inr (TWO, out, curvar @ [c])
     | TRM \<Rightarrow> if c = CHR ''}''
               then bind_sum (variable_text variables curvar) (\<lambda>t. Inr (NORM, out @ t, []))
               else if c = CHR 0x5C then Inr (TLIT, out, curvar @ ''}'')
               else Inr (TWO, out, curvar @ ''}'' @ [c])))"

fun subst_chars :: "(string, pyval) dict \<Rightarrow> string \<Rightarrow> subst_state \<times> string \<times> string \<Rightarrow>
    pyerror + subst_state \<times> string \<times> string" where
  "subst_chars variables [] s = Inr s"
| "subst_chars variables (c # cs) s = bind_sum (subst_step variables c s) (subst_chars variables cs)"

definition linesubst :: "string \<Rightarrow> (string, pyval) dict \<Rightarrow> pyerror + string" where
  "linesubst line variables =
     (if find_sub ''{{'' line = None \<and> CHR 0x5C \<notin> set line then Inr line
      else bind_sum (subst_chars variables line (NORM, [], [])) (\<lambda>(st, out, curvar). Inr out))"

definition txtsubst :: "string list \<Rightarrow> (string, pyval) dict \<Rightarrow> pyerror + string list" where
  "txtsubst lines variables = each (\<lambda>line. linesubst line variables) lines"

section \<open>Worker counts\<close>

text \<open>\<open>get_nb_workers\<close>: \<open>percent\<close> is the count a percentage stands for, \<^verbatim>\<open>None\<close> when the text is not a
  number; any other text is asked for its \<^verbatim>\<open>digit\<close> method, which no string has.\<close>

definition get_nb_workers ::
  "nat \<Rightarrow> (string \<Rightarrow> int option) \<Rightarrow> pyval \<Rightarrow> int \<Rightarrow> pyval \<Rightarrow> pyerror + pyval" where
  "get_nb_workers cpus percent value xmin dflt =
     (let finish = (\<lambda>r. Inr (VInt (if r < xmin then xmin else r))) in
      case value of
        VStr s \<Rightarrow>
          if lower s = ''auto'' then finish (int cpus)
          else if CHR 0x25 \<in> set s
          then (case percent s of None \<Rightarrow> Inr (if 0 < xmin then VInt xmin else VBool False) | Some r \<Rightarrow> finish r)
          else Inl AttributeError
      | VInt i \<Rightarrow> finish i
      | VBool b \<Rightarrow> finish (if b then 1 else 0)
      | _ \<Rightarrow> Inr dflt)"

end
