(* ===== verification/Helpers_Properties.thy ===== *)
theory Helpers_Properties
  imports Helpers
begin

text \<open>
  Substitution of variables against the language it reads, escaping and unescaping, and the two
  functions on nested dictionaries: what merging keeps and adds, and nesting as the inverse of
  flattening.
\<close>

section \<open>Substitution\<close>

text \<open>A line as literal text and variables, and how it is written.\<close>

datatype seg = Text string | Var string

definition special :: string where "special = [CHR 0x5C, CHR ''{'', CHR ''}'']"

definition escape_char :: "char \<Rightarrow> string" where
  "escape_char c = (if c \<in> set special then [CHR 0x5C, c] else [c])"

definition escape_text :: "string \<Rightarrow> string" where
  "escape_text s = concat (map escape_char s)"

definition render :: "seg \<Rightarrow> string" where
  "render x = (case x of Text s \<Rightarrow> escape_text s | Var n \<Rightarrow> ''{{'' @ escape_text n @ ''}}'')"

definition seg_value :: "(string, pyval) dict \<Rightarrow> seg \<Rightarrow> pyerror + string" where
  "seg_value variables x = (case x of Text s \<Rightarrow> Inr s | Var n \<Rightarrow> variable_text variables n)"

lemma escape_text_simps [simp]: "escape_text [] = []" "escape_text (c # s) = escape_char c @ escape_text s"
  by (simp_all add: escape_text_def)

lemma special_simps [simp]: "(c \<in> set special) = (c = CHR 0x5C \<or> c = CHR ''{'' \<or> c = CHR ''}'')"
  by (auto simp: special_def)

lemma subst_append: "subst_chars vs (a @ b) s = bind_sum (subst_chars vs a s) (subst_chars vs b)"
  by (induction a arbitrary: s) (auto simp: bind_sum_def split: sum.splits)

lemma subst_text: "subst_chars vs (escape_text s) (NORM, out, []) = Inr (NORM, out @ s, [])"
  by (induction s arbitrary: out) (auto simp: escape_char_def subst_step_def bind_sum_simps)

lemma subst_name: "subst_chars vs (escape_text n) (TWO, out, cv) = Inr (TWO, out, cv @ n)"
  by (induction n arbitrary: cv) (auto simp: escape_char_def subst_step_def bind_sum_simps)

lemma bind_assoc: "bind_sum (bind_sum x f) g = bind_sum x (\<lambda>y. bind_sum (f y) g)"
  by (cases x) (simp_all add: bind_sum_def)

lemma bind_Inr: "bind_sum x Inr = x"
  by (cases x) (simp_all add: bind_sum_def)

lemma subst_render: "subst_chars vs (render x) (NORM, out, []) =
    bind_sum (seg_value vs x) (\<lambda>t. Inr (NORM, out @ t, []))"
proof (cases x)
  case (Text s)
  then show ?thesis by (simp add: render_def seg_value_def subst_text bind_sum_simps)
next
  case (Var n)
  have "subst_chars vs ''{{'' (NORM, out, []) = Inr (TWO, out, [])" by (simp add: subst_step_def bind_sum_simps)
  moreover have "subst_chars vs ''}}'' (TWO, out, n) = bind_sum (variable_text vs n) (\<lambda>t. Inr (NORM, out @ t, []))"
    by (simp add: subst_step_def bind_sum_simps bind_assoc)
  ultimately show ?thesis
    by (simp only: Var render_def seg_value_def seg.case subst_append bind_sum_simps subst_name) simp
qed

lemma subst_segs: "subst_chars vs (concat (map render xs)) (NORM, out, []) =
    bind_sum (each (seg_value vs) xs) (\<lambda>ts. Inr (NORM, out @ concat ts, []))"
proof (induction xs arbitrary: out)
  case Nil
  then show ?case by (simp add: bind_sum_simps)
next
  case (Cons x xs)
  then show ?case by (simp add: subst_append subst_render bind_assoc bind_sum_simps)
qed

lemma find_inside: "find_sub p (a @ p @ b) \<noteq> None"
proof (induction a)
  case Nil
  have "starts_with p (p @ b)" by (simp add: starts_with_def)
  then show ?case by (cases "p @ b") auto
qed auto

lemma plain_segs:
  assumes "find_sub ''{{'' (concat (map render xs)) = None" "CHR 0x5C \<notin> set (concat (map render xs))"
  shows "each (seg_value vs) xs = Inr (map render xs)"
  using assms
proof (induction xs)
  case (Cons x xs)
  have plain: "CHR 0x5C \<notin> set (escape_text s) \<Longrightarrow> escape_text s = s" for s
    by (induction s) (auto simp: escape_char_def split: if_splits)
  have "find_sub ''{{'' (a @ b) = None \<Longrightarrow> find_sub ''{{'' b = None" for a b
    by (induction a) (auto split: if_splits)
  with Cons have "each (seg_value vs) xs = Inr (map render xs)" by simp
  moreover have "seg_value vs x = Inr (render x)"
  proof (cases x)
    case (Text s)
    with Cons.prems(2) plain [of s] show ?thesis by (simp add: seg_value_def render_def)
  next
    case (Var n)
    have "starts_with ''{{'' (render x @ z)" for z by (simp add: Var render_def starts_with_def)
    with Cons.prems(1) find_inside [of "''{{''" "[]" "drop 2 (render x) @ concat (map render xs)"] show ?thesis
      by (simp add: Var render_def)
  qed
  ultimately show ?case by (simp add: bind_sum_simps)
qed simp

text \<open>
  On every line written as literal text (its backslashes and braces escaped) and variables in double
  braces (their names escaped likewise), the machine of \<^verbatim>\<open>linesubst\<close> returns the literal text unchanged
  and each variable replaced by its value (integers as text, unknown ones by nothing), or raises
  what the first value without text raises.
\<close>

theorem linesubst_language:
  "linesubst (concat (map render xs)) variables =
     bind_sum (each (seg_value variables) xs) (\<lambda>ts. Inr (concat ts))"
proof (cases "find_sub ''{{'' (concat (map render xs)) = None \<and> CHR 0x5C \<notin> set (concat (map render xs))")
  case True
  then show ?thesis
    using plain_segs [of xs variables] by (simp add: linesubst_def bind_sum_simps del: find_sub.simps)
next
  case False
  then have "linesubst (concat (map render xs)) variables =
      bind_sum (subst_chars variables (concat (map render xs)) (NORM, [], [])) (\<lambda>(st, out, curvar). Inr out)"
    unfolding linesubst_def by (rule if_not_P)
  then show ?thesis by (simp add: subst_segs bind_assoc bind_sum_simps del: set_concat)
qed

section \<open>Unescaping patterns\<close>

text \<open>
  \<^verbatim>\<open>re_unescape\<close> undoes every escaping that puts a backslash before backslashes and any other
  characters (of a set that depends on the version of \<^verbatim>\<open>re.escape\<close>).
\<close>

theorem re_unescape_escape:
  "re_unescape (concat (map (\<lambda>c. if c = CHR 0x5C \<or> P c then [CHR 0x5C, c] else [c]) s)) = s"
proof -
  have n: "CHR 0x5C \<notin> set ALPHANUM" by code_simp
  have "unescape_from False (concat (map (\<lambda>c. if c = CHR 0x5C \<or> P c then [CHR 0x5C, c] else [c]) s)) = s"
    by (induction s) (auto simp: n)
  then show ?thesis by (simp add: re_unescape_def)
qed

section \<open>Option arguments\<close>

lemma escape_args_skip: "list_all (\<lambda>x. x \<notin> set l) front \<Longrightarrow>
   escape_args l False (front @ rest) = bind_sum (escape_args l False rest) (\<lambda>r. Inr (front @ r))"
  by (induction front) (auto simp: bind_sum_simps bind_assoc bind_Inr)

text \<open>
  \<^verbatim>\<open>escape_parse_args\<close> joins an option of its list with a next argument that looks like an option, and
  leaves other arguments alone; an option of the list in last position is an \<^verbatim>\<open>IndexError\<close>.
\<close>

theorem escape_parse_args_cases:
  assumes "list_all (\<lambda>x. x \<notin> set l) front" "a \<in> set l"
  shows "escape_parse_args l front = Inr front" "escape_parse_args l (front @ [a]) = Inl IndexError"
    "escape_parse_args l (front @ [a, CHR ''-'' # b]) = Inr (front @ [a @ ''='' @ CHR ''-'' # b])"
  using escape_args_skip [OF assms(1), of "[]"] escape_args_skip [OF assms(1), of "[a]"]
    escape_args_skip [OF assms(1), of "[a, CHR ''-'' # b]"] assms(2)
  by (simp_all add: escape_parse_args_def bind_sum_simps starts_with_def)

theorem escape_parse_args_cases_witness:
  "escape_parse_args [''-m''] [''x'', ''-m''] = Inl IndexError \<and>
   escape_parse_args [''-m''] [''x'', ''-m'', ''-3''] = Inr [''x'', ''-m=-3'']"
  using escape_parse_args_cases(2) [of "[''-m'']" "[''x'']" "''-m''"]
    escape_parse_args_cases(3) [of "[''-m'']" "[''x'']" "''-m''" "''3''"] by simp

section \<open>Merging\<close>

text \<open>The value at a path of keys, and well-formed trees (the keys of each dictionary distinct).\<close>

fun look :: "pyval \<Rightarrow> pyval list \<Rightarrow> pyval option" where
  "look t [] = Some t"
| "look (VDict d) (k # p) = (case dget d k of None \<Rightarrow> None | Some x \<Rightarrow> look x p)"
| "look _ (k # p) = None"

definition is_dict :: "pyval \<Rightarrow> bool" where "is_dict v = (\<exists>d. v = VDict d)"

lemma look_Cons: "look (VDict d) (k # p) = Option.bind (dget d k) (\<lambda>x. look x p)"
  by (auto split: option.splits)

lemma merge_items_get:
  "dict_ok d \<Longrightarrow> dget (merge_items c d) k = (case dget d k of
     None \<Rightarrow> dget c k | Some v \<Rightarrow> Some (case dget c k of None \<Rightarrow> v | Some x \<Rightarrow> merge x v))"
proof (induction d arbitrary: c)
  case (Cons e d)
  obtain j v where e: "e = (j, v)" by (cases e) auto
  from Cons.prems have d: "dict_ok d" "dget d j = None"
    by (auto simp: dict_ok_def e dget_def map_of_eq_None_iff)
  show ?case
    using Cons.IH [OF d(1)] d(2) by (auto simp: e dget_Cons simp del: merge.simps split: option.splits)
qed simp

inductive tree_ok :: "pyval \<Rightarrow> bool" where
  "\<not> is_dict v \<Longrightarrow> tree_ok v"
| "dict_ok d \<Longrightarrow> (\<And>k v. dget d k = Some v \<Longrightarrow> tree_ok v) \<Longrightarrow> tree_ok (VDict d)"

inductive_simps tree_ok_dict: "tree_ok (VDict d)"

lemma merge_dict [simp]: "merge (VDict c) (VDict d) = VDict (merge_items c d)"
  by simp

lemma merge_left: "\<not> is_dict c \<Longrightarrow> merge c d = c" and merge_right: "\<not> is_dict d \<Longrightarrow> merge c d = c"
  by (auto simp: is_dict_def split: pyval.splits)

declare merge.simps [simp del]

text \<open>A path is open in a tree when it leaves the tree from a dictionary, where the key is missing.\<close>

fun open_at :: "pyval \<Rightarrow> pyval list \<Rightarrow> bool" where
  "open_at (VDict d) (k # p) = (case dget d k of None \<Rightarrow> True | Some x \<Rightarrow> open_at x p)"
| "open_at _ _ = False"

lemma look_leaf: "\<not> is_dict c \<Longrightarrow> look c (k # p) = None" "\<not> is_dict c \<Longrightarrow> \<not> open_at c p" "\<not> open_at c []"
  by (cases c; simp add: is_dict_def)+

lemma merge_look:
  "tree_ok d \<Longrightarrow> \<not> is_dict v \<Longrightarrow>
   (look (merge c d) p = Some v) = (look c p = Some v \<or> open_at c p \<and> look d p = Some v)"
proof (induction p arbitrary: c d)
  case Nil
  then show ?case
    by (cases "is_dict c"; cases "is_dict d") (auto simp: merge_left merge_right look_leaf is_dict_def)
next
  case (Cons k p)
  show ?case
  proof (cases "is_dict c \<and> is_dict d")
    case True
    then obtain x y where c: "c = VDict x" and d: "d = VDict y" by (auto simp: is_dict_def)
    from Cons.prems(1) have y: "dict_ok y" "\<And>k v. dget y k = Some v \<Longrightarrow> tree_ok v"
      by (auto simp: d tree_ok_dict is_dict_def)
    show ?thesis
      using Cons.IH [OF y(2) Cons.prems(2)]
      by (simp add: c d look_Cons merge_items_get [OF y(1)] split: option.splits)
  next
    case False
    then show ?thesis
      by (cases "is_dict c"; cases "is_dict d") (auto simp: merge_left merge_right look_leaf)
  qed
qed

lemma merge_items_same:
  "list_all (\<lambda>(k, v). \<exists>x. dget c k = Some x \<and> merge x v = x) d \<Longrightarrow> merge_items c d = c"
  by (induction d) (auto simp: dset_same)

lemma dict_all: "dict_ok d \<Longrightarrow> (\<And>k v. dget d k = Some v \<Longrightarrow> P k v) \<Longrightarrow> list_all (\<lambda>(k, v). P k v) d"
  by (auto simp: list_all_iff dict_ok_def dget_def)

lemma merge_again: "tree_ok d \<Longrightarrow> merge d d = d \<and> (\<forall>c. merge (merge c d) d = merge c d)"
proof (induction rule: tree_ok.induct)
  case (1 v)
  then show ?case by (simp add: merge_right)
next
  case (2 d)
  have self: "merge_items d d = d"
    by (rule merge_items_same, rule dict_all [OF "2.hyps"(1)]) (use "2.IH" in auto)
  have "merge_items (merge_items c d) d = merge_items c d" for c
    by (rule merge_items_same, rule dict_all [OF "2.hyps"(1)])
      (use "2.IH" in \<open>auto simp: merge_items_get [OF "2.hyps"(1)] split: option.splits\<close>)
  then have "merge (merge c (VDict d)) (VDict d) = merge c (VDict d)" for c
    by (cases "is_dict c") (auto simp: is_dict_def merge_left)
  with self show ?case by simp
qed

text \<open>
  Merging defaults into a tree: the leaves of the result are the leaves of the current tree, and the
  leaves of the defaults at paths the current tree leaves open; merging the same defaults again
  changes nothing.
\<close>

theorem merge_defaults:
  assumes "tree_ok d"
  shows "(\<not> is_dict v \<longrightarrow>
      (look (merge c d) p = Some v) = (look c p = Some v \<or> open_at c p \<and> look d p = Some v)) \<and>
    merge (merge c d) d = merge c d"
  using merge_look [OF assms] merge_again [OF assms] by auto

theorem merge_defaults_witness:
  "look (merge (VDict [(VStr ''db'', VDict [(VStr ''port'', VInt 1)])])
      (VDict [(VStr ''db'', VDict [(VStr ''port'', VInt 2), (VStr ''host'', VStr ''h'')])]))
      [VStr ''db'', VStr ''host''] = Some (VStr ''h'')"
proof -
  have "tree_ok (VDict [(VStr ''db'', VDict [(VStr ''port'', VInt 2), (VStr ''host'', VStr ''h'')])])"
    by (auto simp: tree_ok_dict is_dict_def dict_ok_def dget_Cons intro!: tree_ok.intros split: if_splits)
  from merge_defaults [OF this] show ?thesis by (simp add: is_dict_def dget_Cons)
qed

section \<open>Flat keys\<close>

text \<open>The paths of a tree to its leaves, in order, and trees that can be written with flat keys: keys
  are text without the separator, no inner dictionary is empty.\<close>

fun paths :: "pyval \<Rightarrow> (string list \<times> pyval) list"
  and item_paths :: "(pyval \<times> pyval) list \<Rightarrow> (string list \<times> pyval) list" where
  "paths (VDict d) = item_paths d"
| "paths v = [([], v)]"
| "item_paths [] = []"
| "item_paths ((k, v) # d) =
     map (\<lambda>(p, x). ((case k of VStr s \<Rightarrow> s | _ \<Rightarrow> []) # p, x)) (paths v) @ item_paths d"

inductive flat_ok :: "char \<Rightarrow> pyval \<Rightarrow> bool" for sep :: char where
  "\<not> is_dict v \<Longrightarrow> flat_ok sep v"
| "d \<noteq> [] \<Longrightarrow> dict_ok d \<Longrightarrow> list_all (\<lambda>(k, v). \<exists>s. k = VStr s \<and> sep \<notin> set s \<and> flat_ok sep v) d \<Longrightarrow>
     flat_ok sep (VDict d)"


lemma leaf_paths: "\<not> is_dict v \<Longrightarrow> paths v = [([], v)]"
  by (cases v) (auto simp: is_dict_def)

fun puts :: "pyval \<Rightarrow> (string list \<times> pyval) list \<Rightarrow> pyerror + pyval" where
  "puts r [] = Inr r"
| "puts r ((p, v) # xs) = bind_sum (put_path r p v) (\<lambda>r'. puts r' xs)"

lemma put_paths_puts: "put_paths sep r items = puts r (map (\<lambda>(k, v). (split_on sep k, v)) items)"
  by (induction sep r items rule: put_paths.induct) (auto simp: bind_sum_def split: sum.splits)

lemma puts_append: "puts r (a @ b) = bind_sum (puts r a) (\<lambda>r'. puts r' b)"
  by (induction a arbitrary: r) (auto simp: bind_sum_simps bind_assoc)

lemma put_path_Cons: "p \<noteq> [] \<Longrightarrow> put_path (VDict d) (k # p) v =
    bind_sum (put_path (dgetd d (VStr k) (VDict [])) p v) (\<lambda>sub. Inr (VDict (dset d (VStr k) sub)))"
  by (cases p) auto

lemma puts_under:
  "ps \<noteq> [] \<Longrightarrow> list_all (\<lambda>(p, x). p \<noteq> []) ps \<Longrightarrow> puts (VDict d) (map (\<lambda>(p, x). (k # p, x)) ps) =
     bind_sum (puts (dgetd d (VStr k) (VDict [])) ps) (\<lambda>sub. Inr (VDict (dset d (VStr k) sub)))"
proof (induction ps arbitrary: d)
  case (Cons y ps)
  obtain p x where y: "y = (p, x)" by (cases y) auto
  show ?case
  proof (cases "ps = []")
    case True
    with Cons.prems show ?thesis by (simp add: y put_path_Cons bind_assoc bind_sum_simps bind_Inr)
  next
    case False
    have "dgetd (dset d (VStr k) s) (VStr k) (VDict []) = s" for s by (simp add: dgetd_def)
    with Cons.IH [OF False] Cons.prems show ?thesis
      by (simp add: y put_path_Cons bind_assoc bind_sum_simps dset_dset_same)
  qed
qed simp

lemma puts_items:
  assumes "\<And>k v. (k, v) \<in> set d \<Longrightarrow> \<exists>s. k = VStr s \<and>
      (is_dict v \<longrightarrow> paths v \<noteq> [] \<and> list_all (\<lambda>(p, x). p \<noteq> []) (paths v) \<and> puts (VDict []) (paths v) = Inr v)"
  shows "dict_ok (a @ d) \<Longrightarrow> puts (VDict a) (item_paths d) = Inr (VDict (a @ d))"
  using assms
proof (induction d arbitrary: a)
  case (Cons e d)
  obtain k v where e: "e = (k, v)" by (cases e) auto
  with Cons.prems(2) [of k v] obtain s where k: "k = VStr s"
    and v: "is_dict v \<Longrightarrow> paths v \<noteq> [] \<and> list_all (\<lambda>(p, x). p \<noteq> []) (paths v) \<and> puts (VDict []) (paths v) = Inr v"
    by auto
  have no: "\<not> dhas a k" using Cons.prems(1) by (auto simp: dhas_keys dkeys_def dict_ok_def e)
  then have g: "dgetd a k (VDict []) = VDict []" "dset a k v = a @ [(k, v)]"
    by (simp_all add: dgetd_def dhas_def dset_absent)
  have "puts (VDict a) (map (\<lambda>(p, x). (s # p, x)) (paths v)) = Inr (VDict (a @ [(k, v)]))"
  proof (cases "is_dict v")
    case True
    with v g k show ?thesis by (simp add: puts_under bind_sum_simps)
  next
    case False
    with g k show ?thesis by (simp add: leaf_paths bind_sum_simps)
  qed
  moreover have "puts (VDict (a @ [(k, v)])) (item_paths d) = Inr (VDict ((a @ [(k, v)]) @ d))"
    using Cons.prems by (intro Cons.IH) (auto simp: e)
  ultimately show ?case by (simp add: e k puts_append bind_sum_simps)
qed simp

lemma flat_paths:
  "flat_ok sep t \<Longrightarrow> list_all (\<lambda>(p, x). list_all (\<lambda>s. sep \<notin> set s) p) (paths t) \<and>
    (is_dict t \<longrightarrow> paths t \<noteq> [] \<and> list_all (\<lambda>(p, x). p \<noteq> []) (paths t) \<and> puts (VDict []) (paths t) = Inr t)"
proof (induction rule: flat_ok.induct)
  case (1 v)
  then show ?case by (simp add: leaf_paths)
next
  case (2 d)
  have i: "\<exists>s. k = VStr s \<and> sep \<notin> set s \<and> list_all (\<lambda>(p, x). list_all (\<lambda>s. sep \<notin> set s) p) (paths v) \<and>
      (is_dict v \<longrightarrow> paths v \<noteq> [] \<and> list_all (\<lambda>(p, x). p \<noteq> []) (paths v) \<and> puts (VDict []) (paths v) = Inr v)"
    if "(k, v) \<in> set d" for k v
    using "2.IH" that by (auto simp: list_all_iff)
  have ne: "paths v \<noteq> []" if "(k, v) \<in> set d" for k v
    using i [OF that] by (cases "is_dict v") (auto simp: leaf_paths)
  have "puts (VDict []) (item_paths d) = Inr (VDict ([] @ d))"
    using i "2.hyps"(2) by (intro puts_items) auto
  moreover have "set es \<subseteq> set d \<Longrightarrow> list_all (\<lambda>(p, x). list_all (\<lambda>s. sep \<notin> set s) p \<and> p \<noteq> []) (item_paths es)" for es
  proof (induction es)
    case (Cons e es)
    obtain k v where e: "e = (k, v)" by (cases e) auto
    with Cons.prems i [of k v] Cons.IH show ?case by (fastforce simp: e list_all_iff split_beta)
  qed simp
  from this [of d] have "list_all (\<lambda>(p, x). list_all (\<lambda>s. sep \<notin> set s) p \<and> p \<noteq> []) (item_paths d)" by simp
  moreover have "item_paths d \<noteq> []"
  proof -
    obtain k v d' where d: "d = (k, v) # d'" using "2.hyps"(1) by (cases d) auto
    with ne [of k v] show ?thesis by simp
  qed
  ultimately show ?case by (auto simp: list_all_iff)
qed

text \<open>
  Nesting undoes flattening: from the flat keys of a tree (its paths joined by the separator, in
  order) \<^verbatim>\<open>split_to_dict\<close> builds the tree again.
\<close>

theorem split_to_dict_flatten:
  assumes "flat_ok sep t" "is_dict t"
  shows "split_to_dict sep (map (\<lambda>(p, v). (join [sep] p, v)) (paths t)) = Inr t"
proof -
  note f = flat_paths [OF assms(1)]
  have "map (\<lambda>(k, v). (split_on sep k, v)) (map (\<lambda>(p, v). (join [sep] p, v)) (paths t)) = paths t"
    unfolding map_map
  proof (rule map_idI)
    fix y
    assume y: "y \<in> set (paths t)"
    obtain p x where p: "y = (p, x)" by (cases y) auto
    with f y assms(2) have "p \<noteq> []" "list_all (\<lambda>s. sep \<notin> set s) p" by (auto simp: list_all_iff)
    then show "((\<lambda>(k, v). (split_on sep k, v)) \<circ> (\<lambda>(p, v). (join [sep] p, v))) y = y"
      by (auto simp: p list_all_iff intro: split_on_join)
  qed
  then show ?thesis using f assms(2) unfolding split_to_dict_def put_paths_puts by simp
qed

theorem split_to_dict_flatten_witness:
  "split_to_dict CHR ''.'' [(''a.b'', VInt 1), (''a.c'', VInt 2), (''d'', VInt 3)] =
     Inr (VDict [(VStr ''a'', VDict [(VStr ''b'', VInt 1), (VStr ''c'', VInt 2)]), (VStr ''d'', VInt 3)])"
proof -
  let ?t = "VDict [(VStr ''a'', VDict [(VStr ''b'', VInt 1), (VStr ''c'', VInt 2)]), (VStr ''d'', VInt 3)]"
  have i: "flat_ok CHR ''.'' (VInt n)" for n by (rule flat_ok.intros) (simp add: is_dict_def)
  have "flat_ok CHR ''.'' (VDict [(VStr ''b'', VInt 1), (VStr ''c'', VInt 2)])"
    by (rule flat_ok.intros(2)) (simp_all add: dict_ok_def i)
  with i have "flat_ok CHR ''.'' ?t" by (intro flat_ok.intros(2)) (simp_all add: dict_ok_def)
  moreover have "is_dict ?t" by (simp add: is_dict_def)
  ultimately have "flat_ok CHR ''.'' ?t" "is_dict ?t" by auto
  from split_to_dict_flatten [OF this] show ?thesis by simp
qed

end
