(* ===== verification/Helpers_Files.thy ===== *)
theory Helpers_Files
  imports Pystr
begin

text \<open>
  The functions of \<^verbatim>\<open>sonicprobe/helpers.py\<close> that read a file by pieces: \<^verbatim>\<open>read_large_file\<close>,
  \<^verbatim>\<open>base64_encode_file\<close>, \<^verbatim>\<open>base64_decode_file\<close>, with the standard library's \<^verbatim>\<open>b64encode\<close> and
  \<^verbatim>\<open>b64decode\<close>. \<open>source i n\<close> is how many bytes the \<open>i\<close>-th \<^verbatim>\<open>read(n)\<close> returns while the file lasts.
\<close>

section \<open>Base 64\<close>

definition b64_chars :: string where
  "b64_chars = ''ABCDEFGHIJKLMNOPQRSTUVWXYZabcdefghijklmnopqrstuvwxyz0123456789+/''"

definition b64_char :: "nat \<Rightarrow> char" where "b64_char n = b64_chars ! n"

definition b64_val :: "char \<Rightarrow> nat option" where
  "b64_val c = map_of (zip b64_chars [0..<64]) c"

abbreviation byte_of :: "char \<Rightarrow> nat" where "byte_of c \<equiv> of_char c"

fun b64encode :: "string \<Rightarrow> string" where
  "b64encode [] = []"
| "b64encode [a] = [b64_char (byte_of a div 4), b64_char (byte_of a mod 4 * 16), CHR ''='', CHR ''='']"
| "b64encode [a, b] = [b64_char (byte_of a div 4), b64_char (byte_of a mod 4 * 16 + byte_of b div 16),
     b64_char (byte_of b mod 16 * 4), CHR ''='']"
| "b64encode (a # b # c # s) =
     [b64_char (byte_of a div 4), b64_char (byte_of a mod 4 * 16 + byte_of b div 16),
      b64_char (byte_of b mod 16 * 4 + byte_of c div 64), b64_char (byte_of c mod 64)] @ b64encode s"

text \<open>The decoder of the library: position in the group of four, bits left over, padding seen; characters
  outside the alphabet are skipped, a complete padding ends the text, and a text that ends inside a
  group is an error.\<close>

fun a2b :: "nat \<Rightarrow> nat \<Rightarrow> nat \<Rightarrow> string \<Rightarrow> string option" where
  "a2b q left pads [] = (if q = 0 then Some [] else None)"
| "a2b q left pads (c # s) =
     (if c = CHR ''='' then
        (if 2 \<le> q then (if 4 \<le> q + Suc pads then Some [] else a2b q left (Suc pads) s)
         else a2b q left pads s)
      else (case b64_val c of
          None \<Rightarrow> a2b q left pads s
        | Some v \<Rightarrow>
            if q = 0 then a2b 1 v 0 s
            else if q = 1 then map_option (Cons (char_of (left * 4 + v div 16))) (a2b 2 (v mod 16) 0 s)
            else if q = 2 then map_option (Cons (char_of (left * 16 + v div 4))) (a2b 3 (v mod 4) 0 s)
            else map_option (Cons (char_of (left * 64 + v))) (a2b 0 0 0 s)))"

definition b64decode :: "string \<Rightarrow> string option" where
  "b64decode s = a2b 0 0 0 s"

section \<open>Reading by pieces\<close>

type_synonym reads = "nat \<Rightarrow> nat \<Rightarrow> nat"

function read_chunks :: "reads \<Rightarrow> nat \<Rightarrow> nat \<Rightarrow> string \<Rightarrow> string list" where
  "read_chunks source n i data =
     (if n = 0 \<or> data = [] then []
      else (let k = min n (max 1 (source i n)) in take k data # read_chunks source n (Suc i) (drop k data)))"
  by pat_completeness auto
termination
  by (relation "measure (\<lambda>(source, n, i, data). length data)") auto

declare read_chunks.simps [simp del]

text \<open>What is read goes to the file \<^verbatim>\<open>dst\<close> when there is one, else it is returned.\<close>

datatype file_result = Written string | Returned string

definition deliver :: "bool \<Rightarrow> string list \<Rightarrow> file_result" where
  "deliver dst chunks = (if dst then Written (concat chunks) else Returned (concat chunks))"

definition read_large_file :: "reads \<Rightarrow> string \<Rightarrow> bool \<Rightarrow> nat \<Rightarrow> pyerror + file_result" where
  "read_large_file source data dst buffer_size =
     raise_if (buffer_size < 1) (ValueError ''buffer_size must be positive'')
       (Inr (deliver dst (read_chunks source buffer_size 0 data)))"

definition base64_encode_file :: "reads \<Rightarrow> string \<Rightarrow> bool \<Rightarrow> nat \<Rightarrow> pyerror + file_result" where
  "base64_encode_file source data dst chunk_size =
     raise_if (chunk_size < 3) (ValueError ''chunk_size must be at least 3'')
       (Inr (deliver dst (map b64encode (read_chunks source (chunk_size - chunk_size mod 3) 0 data))))"

text \<open>ASCII white space, as \<^verbatim>\<open>bytes.split\<close> sees it.\<close>

definition is_bspace :: "char \<Rightarrow> bool" where
  "is_bspace c = (c = CHR '' '' \<or> (9 :: nat) \<le> of_char c \<and> (of_char c :: nat) \<le> 13)"

definition no_space :: "string \<Rightarrow> string" where
  "no_space s = filter (\<lambda>c. \<not> is_bspace c) s"

text \<open>One turn of the decoding loop: whole groups of the pending text are decoded, or all of it at the
  end of the file.\<close>

definition decode_some :: "nat \<Rightarrow> string \<Rightarrow> pyerror + string list" where
  "decode_some whole pending =
     (if whole = 0 then Inr []
      else (case b64decode (take whole pending) of
          None \<Rightarrow> Inl (ValueError ''Incorrect padding'') | Some d \<Rightarrow> Inr [d]))"

fun decode_loop :: "string \<Rightarrow> string list \<Rightarrow> pyerror + string list" where
  "decode_loop pending [] = decode_some (length pending) pending"
| "decode_loop pending (data # ds) =
     (let p = pending @ no_space data; whole = length p div 4 * 4 in
      bind_sum (decode_some whole p) (\<lambda>a. bind_sum (decode_loop (drop whole p) ds) (\<lambda>b. Inr (a @ b))))"

definition base64_decode_file :: "reads \<Rightarrow> string \<Rightarrow> bool \<Rightarrow> nat \<Rightarrow> pyerror + file_result" where
  "base64_decode_file source data dst chunk_size =
     raise_if (chunk_size < 4) (ValueError ''chunk_size must be at least 4'')
       (bind_sum (decode_loop [] (read_chunks source chunk_size 0 data)) (\<lambda>ds. Inr (deliver dst ds)))"

section \<open>The codec\<close>

lemma byte_less: "byte_of c < 256"
  using range_nat_of_char by (auto simp: set_eq_iff)

lemma b64_chars_len: "length b64_chars = 64" and b64_chars_distinct: "distinct b64_chars"
  by (simp add: b64_chars_def, code_simp)

lemma b64_val_char [simp]: "n < 64 \<Longrightarrow> b64_val (b64_char n) = Some n"
  using map_of_zip_nth [of b64_chars "[0..<64]" n] b64_chars_len b64_chars_distinct
  by (simp add: b64_val_def b64_char_def)

lemma b64_char_mem: "n < 64 \<Longrightarrow> b64_char n \<in> set b64_chars"
  by (simp add: b64_char_def b64_chars_len)

lemma b64_char_pad [simp]: "n < 64 \<Longrightarrow> b64_char n \<noteq> CHR ''=''"
  using b64_char_mem [of n] charset_all [of "\<lambda>c. c \<noteq> CHR ''=''" b64_chars "b64_char n"] by (auto simp: b64_chars_def)

lemma bytes_small [simp]:
  "byte_of a div 4 < 64" "byte_of a mod 4 * 16 + byte_of b div 16 < 64" "byte_of a mod 4 * 16 < 64"
  "byte_of a mod 16 * 4 + byte_of b div 64 < 64" "byte_of a mod 16 * 4 < 64" "byte_of a mod 64 < 64"
  using byte_less [of a] byte_less [of b] by linarith+

lemma small_parts [simp]:
  "byte_of b div 16 div 16 = 0" "byte_of b div 64 div 4 = 0"
  "byte_of b div 16 mod 16 = byte_of b div 16" "byte_of b div 64 mod 4 = byte_of b div 64"
proof -
  have "byte_of b div 16 < 16" "byte_of b div 64 < 4" using byte_less [of b] by linarith+
  then show "byte_of b div 16 div 16 = 0" "byte_of b div 64 div 4 = 0"
    "byte_of b div 16 mod 16 = byte_of b div 16" "byte_of b div 64 mod 4 = byte_of b div 64" by simp_all
qed

lemma b64_roundtrip: "b64decode (b64encode s) = Some s"
  unfolding b64decode_def by (induction s rule: b64encode.induct) (simp_all del: mult_Suc)

lemma b64_Nil [simp]: "(b64encode s = []) = (s = [])"
  by (cases s rule: b64encode.cases) auto

lemma b64_append: "length a mod 3 = 0 \<Longrightarrow> b64encode (a @ b) = b64encode a @ b64encode b"
  by (induction a rule: b64encode.induct) (auto simp: mod_Suc split: if_splits)

lemma take_drop_groups:
  "take (4 + n) (a # b # c # d # xs) = a # b # c # d # take n xs" "drop (4 + n) (a # b # c # d # xs) = drop n xs"
  "take (3 + n) (a # b # c # xs) = a # b # c # take n xs" "drop (3 + n) (a # b # c # xs) = drop n xs"
  by (simp_all add: numeral_eq_Suc)

lemma b64_take_drop: "4 * k \<le> length (b64encode s) \<Longrightarrow>
   take (4 * k) (b64encode s) = b64encode (take (3 * k) s) \<and>
   drop (4 * k) (b64encode s) = b64encode (drop (3 * k) s)"
proof (induction s arbitrary: k rule: b64encode.induct)
  case (4 a b c s)
  show ?case
  proof (cases k)
    case (Suc j)
    with "4.prems" have "4 * j \<le> length (b64encode s)" by simp
    from "4.IH" [OF this] show ?thesis by (simp add: Suc take_drop_groups)
  qed simp
next
  case 1
  then show ?case by simp
next
  case (2 a)
  then have "k = 0 \<or> k = 1" by auto
  then show ?case by auto
next
  case (3 a b)
  then have "k = 0 \<or> k = 1" by auto
  then show ?case by auto
qed

lemma b64_length: "length (b64encode s) mod 4 = 0"
  by (induction s rule: b64encode.induct) auto

section \<open>Files\<close>

lemma read_chunks_concat: "0 < n \<Longrightarrow> concat (read_chunks source n i data) = data"
  by (induction source n i data rule: read_chunks.induct) (subst read_chunks.simps, auto simp: Let_def)

text \<open>
  \<^verbatim>\<open>read_large_file\<close> returns (or writes) exactly the file, whatever the buffer size and however short
  its reads.
\<close>

theorem read_large_file_all:
  "read_large_file source data dst n =
     (if n = 0 then Inl (ValueError ''buffer_size must be positive'')
      else Inr (if dst then Written data else Returned data))"
  by (simp add: read_large_file_def raise_if_def deliver_def read_chunks_concat)

lemma encode_chunks: "0 < n \<Longrightarrow> n mod 3 = 0 \<Longrightarrow>
   concat (map b64encode (read_chunks (\<lambda>i n. n) n i data)) = b64encode data"
proof (induction "\<lambda>(i :: nat) (n :: nat). n" n i data rule: read_chunks.induct)
  case (1 n i data)
  show ?case
  proof (cases "data = [] \<or> length data < n")
    case True
    have "read_chunks (\<lambda>i n. n) n (Suc i) [] = []" by (subst read_chunks.simps) simp
    with True "1.prems" show ?thesis by (subst read_chunks.simps) (auto simp: Let_def)
  next
    case False
    with "1.prems" have "concat (map b64encode (read_chunks (\<lambda>i n. n) n (Suc i) (drop n data))) = b64encode (drop n data)"
      by (intro "1.hyps") auto
    moreover have "b64encode (take n data) @ b64encode (drop n data) = b64encode data"
      using b64_append [of "take n data" "drop n data"] False "1.prems" by (simp add: min_absorb2)
    ultimately show ?thesis using False "1.prems" by (subst read_chunks.simps) (auto simp: Let_def)
  qed
qed

lemma no_space_append: "no_space (a @ b) = no_space a @ no_space b"
  by (simp add: no_space_def)

lemma decode_all: "pending @ no_space (concat ds) = b64encode s \<Longrightarrow>
   \<exists>out. decode_loop pending ds = Inr out \<and> concat out = s"
proof (induction ds arbitrary: pending s)
  case Nil
  then have "pending = b64encode s" by (simp add: no_space_def)
  then show ?case using b64_roundtrip [of s] by (auto simp: decode_some_def)
next
  case (Cons data ds)
  define p where "p = pending @ no_space data"
  define k where "k = length p div 4"
  have e: "p @ no_space (concat ds) = b64encode s" using Cons.prems by (simp add: p_def no_space_append)
  then have "length p \<le> length (b64encode s)" by (metis length_append le_add1)
  then have k: "4 * k \<le> length (b64encode s)" "4 * k \<le> length p" unfolding k_def by auto
  have t: "take (4 * k) p = b64encode (take (3 * k) s)"
    using b64_take_drop [OF k(1)] k(2) by (simp flip: e)
  have d: "drop (4 * k) p @ no_space (concat ds) = b64encode (drop (3 * k) s)"
    using b64_take_drop [OF k(1)] k(2) by (simp flip: e)
  obtain out where o: "decode_loop (drop (4 * k) p) ds = Inr out" "concat out = drop (3 * k) s"
    using Cons.IH [OF d] by blast
  have "\<exists>a. decode_some (4 * k) p = Inr a \<and> concat a = take (3 * k) s"
    using t b64_roundtrip [of "take (3 * k) s"] by (simp add: decode_some_def)
  then obtain a where "decode_some (4 * k) p = Inr a" "concat a = take (3 * k) s" by blast
  moreover have "length p div 4 * 4 = 4 * k" by (simp add: k_def)
  ultimately have "decode_loop pending (data # ds) = Inr (a @ out)" "concat (a @ out) = s"
    using o by (simp_all add: Let_def bind_sum_simps mult.commute flip: p_def)
  then show ?case by blast
qed

text \<open>
  C17: Chunked coding is one-shot coding: over full reads \<^verbatim>\<open>base64_encode_file\<close> gives the encoding of the
  whole file for every valid chunk size, and \<^verbatim>\<open>base64_decode_file\<close> gives back the bytes from their
  encoding with any white space in it, whatever the chunk size and however short its reads.
\<close>

theorem base64_files:
  "(3 \<le> n \<longrightarrow> base64_encode_file (\<lambda>i n. n) data False n = Inr (Returned (b64encode data))) \<and>
   (4 \<le> m \<and> no_space text = b64encode data \<longrightarrow>
     base64_decode_file source text False m = Inr (Returned data))"
proof (intro conjI impI)
  show "base64_encode_file (\<lambda>i n. n) data False n = Inr (Returned (b64encode data))" if "3 \<le> n"
  proof -
    have "0 < n - n mod 3" using that by (metis mod_less_eq_dividend le_neq_implies_less mod_less_divisor not_less zero_less_diff zero_less_numeral)
    moreover have "(n - n mod 3) mod 3 = 0" by (simp add: minus_mod_eq_mult_div)
    ultimately show ?thesis
      using that by (simp add: base64_encode_file_def raise_if_def deliver_def encode_chunks)
  qed
  show "base64_decode_file source text False m = Inr (Returned data)"
    if "4 \<le> m \<and> no_space text = b64encode data"
  proof -
    have "[] @ no_space (concat (read_chunks source m 0 text)) = b64encode data"
      using that by (simp add: read_chunks_concat)
    from decode_all [OF this] obtain out where
      "decode_loop [] (read_chunks source m 0 text) = Inr out" "concat out = data" by blast
    with that show ?thesis
      by (simp add: base64_decode_file_def raise_if_def bind_sum_simps deliver_def)
  qed
qed

theorem base64_files_witness:
  "base64_encode_file (\<lambda>i n. n) ''hello'' False 4 = Inr (Returned ''aGVsbG8='') \<and>
   base64_decode_file (\<lambda>i n. 1) ''aGVs bG8='' False 5 = Inr (Returned ''hello'')"
proof -
  have e: "b64encode ''hello'' = ''aGVsbG8=''" by code_simp
  have n: "no_space ''aGVs bG8='' = b64encode ''hello''" unfolding e by (simp add: no_space_def is_bspace_def)
  show ?thesis
    using base64_files [of 4 "''hello''" 5 "''aGVs bG8=''" "\<lambda>i n. 1"] n e by simp
qed

text \<open>
  With short reads (a raw stream, not a regular file) \<^verbatim>\<open>base64_encode_file\<close> pads inside the text: two
  bytes read one at a time are not encoded to what decodes to them.
\<close>

theorem base64_encode_short_reads:
  "base64_encode_file (\<lambda>i n. 1) ''hi'' False 3 = Inr (Returned ''aA==aQ=='')"
  "b64decode ''aA==aQ=='' = Some ''h''" "b64encode ''hi'' \<noteq> ''aA==aQ==''"
  by code_simp+

end
