(* ===== verification/Anysql.thy ===== *)
theory Anysql
  imports Urisup
begin

text \<open>
  \<^verbatim>\<open>sonicprobe/libs/anysql.py\<close>: the registry of database backends, connections that recover from a lost
  link, and cursors over them. The DBAPI driver is a parameter: \<open>driver req w\<close> answers a request in
  the state \<open>w\<close> of the outside world, or raises, and leaves a new state. Connections and cursors of the
  driver are numbers. The database module imported for a URI scheme is a parameter too.
\<close>

section \<open>Parameter styles\<close>

text \<open>\<open>qmark_to_format\<close>: the output so far and the previous character.\<close>

definition qmark_step :: "string \<times> char option \<Rightarrow> char \<Rightarrow> string \<times> char option" where
  "qmark_step st c = (case st of (s, p) \<Rightarrow>
     (if p = Some CHR ''?''
      then (if c = CHR ''?'' then (s @ ''?'', None) else (s @ ''%s'' @ [c], Some c))
      else (if c \<noteq> CHR ''?'' then s @ [c] else s, Some c)))"

definition qmark_to_format :: "string \<Rightarrow> string" where
  "qmark_to_format query = (case foldl qmark_step ([], None) query of (s, p) \<Rightarrow>
     (if p = Some CHR ''?'' then s @ ''%s'' else s))"

section \<open>The registry\<close>

text \<open>Python's order on lists of integers.\<close>

fun list_less :: "int list \<Rightarrow> int list \<Rightarrow> bool" where
  "list_less [] [] = False"
| "list_less [] (y # ys) = True"
| "list_less (x # xs) [] = False"
| "list_less (x # xs) (y # ys) = (x < y \<or> x = y \<and> list_less xs ys)"

definition api_numbers :: "string \<Rightarrow> int list option" where
  "api_numbers s = all_some (map py_int (split_on CHR ''.'' s))"

definition compare_api_level :: "string \<Rightarrow> string \<Rightarrow> int option" where
  "compare_api_level als1 als2 = (case (api_numbers als1, api_numbers als2) of
       (Some lst1, Some lst2) \<Rightarrow>
         Some (if list_less lst1 lst2 then -1 - (if hd lst1 < hd lst2 then 1 else 0)
               else if list_less lst2 lst1 then 1 + (if hd lst2 < hd lst1 then 1 else 0) else 0)
     | _ \<Rightarrow> None)"

definition any_apilevel :: string where "any_apilevel = ''2.0''"
definition any_threadsafety :: int where "any_threadsafety = 1"

text \<open>What a backend registers: the attributes of its module (a missing one is \<open>None\<close>), and the module's
  functions, of any type \<open>'m\<close>.\<close>

record 'm backend =
  b_apilevel :: "string option"
  b_paramstyle :: "string option"
  b_threadsafety :: "int option"
  b_methods :: 'm

datatype sql_error = NotImplemented string | InvalidScheme | UnknownScheme | UriError uri_error
  | SqlTypeError string | SqlValueError string | SqlKeyError | DriverError nat

type_synonym 'm registry = "(string, 'm backend) dict"

definition register_uri_backend :: "string \<Rightarrow> 'm backend \<Rightarrow> 'm registry \<Rightarrow> sql_error + 'm registry" where
  "register_uri_backend uri_scheme b reg =
     (case (Option.bind (b_apilevel b) (\<lambda>l. compare_api_level l any_apilevel), b_paramstyle b, b_threadsafety b) of
        (Some delta_api, Some mod_paramstyle, Some mod_threadsafety) \<Rightarrow>
          raise_if (delta_api < 0 \<or> delta_api > 1) (NotImplemented ''apilevel'')
         (raise_if (mod_paramstyle \<notin> set [''pyformat'', ''format'', ''qmark'']) (NotImplemented ''paramstyle'')
         (raise_if (mod_threadsafety < any_threadsafety) (NotImplemented ''threadsafety'')
         (raise_if (\<not> valid_scheme uri_scheme) InvalidScheme
         (Inr (dset reg uri_scheme b)))))
      | _ \<Rightarrow> Inl (NotImplemented ''non DBAPI service''))"

text \<open>\<open>importer scheme reg\<close>: the registry once the backend module of the scheme is imported; \<open>None\<close> when
  there is no such module. A URI without scheme is asked for as \<^verbatim>\<open>None\<close>.\<close>

type_synonym 'm importer = "string option \<Rightarrow> 'm registry \<Rightarrow> 'm registry option"

definition get_methods_by_uri ::
  "'m importer \<Rightarrow> string \<Rightarrow> 'm registry \<Rightarrow> sql_error + 'm backend \<times> 'm registry" where
  "get_methods_by_uri importer sqluri reg =
     (case uri_help_split sqluri of
        Inl e \<Rightarrow> Inl (UriError e)
      | Inr (scheme, _) \<Rightarrow> (case Option.bind scheme (dget reg) of
          Some b \<Rightarrow> Inr (b, reg)
        | None \<Rightarrow> (case importer scheme reg of
            None \<Rightarrow> Inl UnknownScheme
          | Some reg' \<Rightarrow> (case Option.bind scheme (dget reg') of
              Some b \<Rightarrow> Inr (b, reg') | None \<Rightarrow> Inl SqlKeyError))))"

definition c14n_uri ::
  "'m importer \<Rightarrow> ('m \<Rightarrow> (string \<Rightarrow> string) option) \<Rightarrow> string \<Rightarrow> 'm registry \<Rightarrow> sql_error + string" where
  "c14n_uri importer c14n sqluri reg =
     bind_sum (get_methods_by_uri importer sqluri reg)
       (\<lambda>(b, _). Inr (case c14n (b_methods b) of None \<Rightarrow> sqluri | Some f \<Rightarrow> f sqluri))"

definition connection_mode :: "(string \<times> string) list option \<Rightarrow> string list \<Rightarrow> sql_error + string option" where
  "connection_mode query allowed_modes =
     (let modes = map snd (filter (\<lambda>(k, v). k = ''mode'') (case query of None \<Rightarrow> [] | Some q \<Rightarrow> q)) in
      if modes = [] then Inr None
      else if length modes \<noteq> 1 \<or> hd modes \<notin> set allowed_modes
      then Inl (SqlValueError ''invalid database access mode'')
      else Inr (Some (hd modes)))"

section \<open>The driver\<close>

datatype request =
    Connect string | IsConnected nat | RawCursor nat | Commit nat | Rollback nat | CloseConn nat
  | Execute nat string "pyval option" | ExecuteMany nat string "pyval list"
  | FetchOne nat | FetchMany nat "nat option" | FetchAll nat | CloseCursor nat

datatype response = Handle nat | Connected bool | Row "pyval list option" | Rows "pyval list list" | Done

type_synonym 'w driver = "request \<Rightarrow> 'w \<Rightarrow> (sql_error + response) \<times> 'w"

text \<open>A connection and a cursor over it: the URI, the recovery setting, the driver's connection and
  cursor, the positions of the columns of the last query; and the requests made, in order.\<close>

record 'w session =
  s_uri :: string
  s_auto_reconnect :: bool
  s_format :: bool
  s_conn :: nat
  s_cursor :: nat
  s_columns :: "(string, nat) dict option"
  s_world :: 'w
  s_log :: "request list"

definition ask :: "'w driver \<Rightarrow> request \<Rightarrow> 'w session \<Rightarrow> (sql_error + response) \<times> 'w session" where
  "ask driver req s = (case driver req (s_world s) of (r, w) \<Rightarrow>
     (r, s\<lparr>s_world := w, s_log := s_log s @ [req]\<rparr>))"

definition is_connected :: "'w driver \<Rightarrow> 'w session \<Rightarrow> (sql_error + response) \<times> 'w session" where
  "is_connected driver s = ask driver (IsConnected (s_conn s)) s"

text \<open>\<^verbatim>\<open>reconnect\<close>, and the new raw cursor taken after it.\<close>

definition reconnect :: "'w driver \<Rightarrow> 'w session \<Rightarrow> (sql_error + response) \<times> 'w session" where
  "reconnect driver s = (case ask driver (Connect (s_uri s)) s of
       (Inr (Handle c), s1) \<Rightarrow> (Inr Done, s1\<lparr>s_conn := c\<rparr>)
     | (Inr _, s1) \<Rightarrow> (Inl (SqlTypeError ''connection''), s1)
     | (Inl e, s1) \<Rightarrow> (Inl e, s1))"

definition renew_cursor :: "'w driver \<Rightarrow> 'w session \<Rightarrow> (sql_error + response) \<times> 'w session" where
  "renew_cursor driver s = (case ask driver (RawCursor (s_conn s)) s of
       (Inr (Handle k), s1) \<Rightarrow> (Inr Done, s1\<lparr>s_cursor := k\<rparr>)
     | (Inr _, s1) \<Rightarrow> (Inl (SqlTypeError ''cursor''), s1)
     | (Inl e, s1) \<Rightarrow> (Inl e, s1))"

definition then_ask ::
  "(sql_error + response) \<times> 'w session \<Rightarrow> ('w session \<Rightarrow> (sql_error + response) \<times> 'w session) \<Rightarrow>
   (sql_error + response) \<times> 'w session" where
  "then_ask r f = (case r of (Inl e, s) \<Rightarrow> (Inl e, s) | (Inr _, s) \<Rightarrow> f s)"

text \<open>The recovery of \<^verbatim>\<open>query\<close>, \<^verbatim>\<open>querymany\<close> and the three \<^verbatim>\<open>fetch\<close> methods: a failed request is repeated
  once, on a new connection, when recovery is on and the connection is found dead.\<close>

definition with_recovery ::
  "'w driver \<Rightarrow> (nat \<Rightarrow> request) \<Rightarrow> 'w session \<Rightarrow> (sql_error + response) \<times> 'w session" where
  "with_recovery driver req s = (case ask driver (req (s_cursor s)) s of
       (Inr r, s1) \<Rightarrow> (Inr r, s1)
     | (Inl e, s1) \<Rightarrow>
         if \<not> s_auto_reconnect s1 then (Inl e, s1)
         else (case is_connected driver s1 of
             (Inl d, s2) \<Rightarrow> (Inl d, s2)
           | (Inr (Connected False), s2) \<Rightarrow>
               then_ask (reconnect driver s2)
                 (\<lambda>s3. then_ask (renew_cursor driver s3) (\<lambda>s4. ask driver (req (s_cursor s4)) s4))
           | (Inr _, s2) \<Rightarrow> (Inl e, s2)))"

section \<open>Queries\<close>

text \<open>\<open>s.replace(p, t)\<close> for a nonempty \<open>p\<close>.\<close>

function replace_sub :: "string \<Rightarrow> string \<Rightarrow> string \<Rightarrow> string" where
  "replace_sub p t [] = []"
| "replace_sub p t (c # s) =
     (if p \<noteq> [] \<and> starts_with p (c # s) then t @ replace_sub p t (drop (length p - 1) s)
      else c # replace_sub p t s)"
  by pat_completeness auto
termination by (relation "measure (\<lambda>(p, t, s). length s)") auto

definition COLUMNS :: string where "COLUMNS = ''${columns}''"

definition column_map :: "string list \<Rightarrow> (string, nat) dict" where
  "column_map columns = foldl (\<lambda>d (i, c). dset d c i) [] (zip [0..<length columns] columns)"

text \<open>\<open>escape\<close> is the backend's quoting of a column name.\<close>

definition preparequery ::
  "(string \<Rightarrow> string) \<Rightarrow> string \<Rightarrow> string list \<Rightarrow> 'w session \<Rightarrow> (sql_error + string) \<times> 'w session" where
  "preparequery escape sql_query columns s =
     (if columns = [] then (Inr sql_query, s\<lparr>s_columns := None\<rparr>)
      else if find_sub COLUMNS sql_query = None
      then (Inl (SqlTypeError ''received columns but ${columns} not in query''), s)
      else (Inr (replace_sub COLUMNS (join '','' (map escape columns)) sql_query),
            s\<lparr>s_columns := Some (column_map columns)\<rparr>))"

definition sql_query ::
  "'w driver \<Rightarrow> (string \<Rightarrow> string) \<Rightarrow> string \<Rightarrow> string list \<Rightarrow> pyval option \<Rightarrow> 'w session \<Rightarrow>
   (sql_error + response) \<times> 'w session" where
  "sql_query driver escape query columns parameters s =
     (case preparequery escape query columns s of
        (Inl e, s1) \<Rightarrow> (Inl e, s1)
      | (Inr q, s1) \<Rightarrow>
          with_recovery driver (\<lambda>k. Execute k (if s_format s1 then qmark_to_format q else q) parameters) s1)"

definition sql_querymany ::
  "'w driver \<Rightarrow> (string \<Rightarrow> string) \<Rightarrow> string \<Rightarrow> string \<Rightarrow> string list \<Rightarrow> pyval list \<Rightarrow> 'w session \<Rightarrow>
   (sql_error + response) \<times> 'w session" where
  "sql_querymany driver escape paramstyle query columns seq s =
     (case preparequery escape query columns s of
        (Inl e, s1) \<Rightarrow> (Inl e, s1)
      | (Inr q, s1) \<Rightarrow>
          if paramstyle = ''qmark'' then (Inl (NotImplemented ''qmark isn't fully supported''), s1)
          else with_recovery driver (\<lambda>k. ExecuteMany k q seq) s1)"

definition sql_commit :: "'w driver \<Rightarrow> 'w session \<Rightarrow> (sql_error + response) \<times> 'w session" where
  "sql_commit driver s = (case ask driver (Commit (s_conn s)) s of
       (Inr r, s1) \<Rightarrow> (Inr r, s1)
     | (Inl e, s1) \<Rightarrow>
         if \<not> s_auto_reconnect s1 then (Inl e, s1)
         else then_ask (reconnect driver s1) (\<lambda>s2. ask driver (Commit (s_conn s2)) s2))"

definition sql_rollback :: "'w driver \<Rightarrow> 'w session \<Rightarrow> (sql_error + response) \<times> 'w session" where
  "sql_rollback driver s = ask driver (Rollback (s_conn s)) s"

definition sql_close :: "'w driver \<Rightarrow> 'w session \<Rightarrow> (sql_error + response) \<times> 'w session" where
  "sql_close driver s = ask driver (CloseConn (s_conn s)) s"

section \<open>Rows\<close>

text \<open>A row answers to positions and to the names of the columns of its query.\<close>

datatype sql_row = PlainRow "pyval list" | NamedRow "(string, nat) dict option" "pyval list"

datatype sql_rows = NoRow | OneRow sql_row | ManyRows "sql_row list"

definition row_at :: "pyval list \<Rightarrow> int \<Rightarrow> sql_error + pyval" where
  "row_at vs i = (let j = (if i < 0 then i + int (length vs) else i) in
     if 0 \<le> j \<and> j < int (length vs) then Inr (vs ! nat j) else Inl (SqlValueError ''list index out of range''))"

definition row_get :: "sql_row \<Rightarrow> int + string \<Rightarrow> sql_error + pyval" where
  "row_get row k = (case row of
       PlainRow vs \<Rightarrow> (case k of Inl i \<Rightarrow> row_at vs i | Inr _ \<Rightarrow> Inl (SqlTypeError ''indices must be integers''))
     | NamedRow cols vs \<Rightarrow> (case k of
         Inl i \<Rightarrow> row_at vs i
       | Inr c \<Rightarrow> (case cols of None \<Rightarrow> Inl (SqlTypeError ''not subscriptable'')
          | Some m \<Rightarrow> (case dget m c of None \<Rightarrow> Inl SqlKeyError | Some i \<Rightarrow> row_at vs (int i)))))"

text \<open>The pairs of \<^verbatim>\<open>iteritems\<close>, in the order of the columns.\<close>

definition row_items :: "sql_row \<Rightarrow> sql_error + (string \<times> pyval) list" where
  "row_items row = (case row of
       NamedRow (Some m) vs \<Rightarrow> each (\<lambda>(k, i). bind_sum (row_at vs (int i)) (\<lambda>v. Inr (k, v))) m
     | _ \<Rightarrow> Inl (SqlTypeError ''no columns''))"

definition sql_fetchone ::
  "'w driver \<Rightarrow> bool \<Rightarrow> 'w session \<Rightarrow> (sql_error + sql_rows) \<times> 'w session" where
  "sql_fetchone driver raw s = (case with_recovery driver FetchOne s of
       (Inl e, s1) \<Rightarrow> (Inl e, s1)
     | (Inr (Row (Some vs)), s1) \<Rightarrow>
         (Inr (OneRow (if raw \<or> vs = [] then PlainRow vs else NamedRow (s_columns s1) vs)), s1)
     | (Inr _, s1) \<Rightarrow> (Inr NoRow, s1))"

definition name_rows :: "bool \<Rightarrow> 'w session \<Rightarrow> pyval list list \<Rightarrow> sql_rows" where
  "name_rows raw s rows = ManyRows (map (if raw then PlainRow else NamedRow (s_columns s)) rows)"

definition sql_fetchmany ::
  "'w driver \<Rightarrow> nat option \<Rightarrow> bool \<Rightarrow> 'w session \<Rightarrow> (sql_error + sql_rows) \<times> 'w session" where
  "sql_fetchmany driver nrows raw s = (case with_recovery driver (\<lambda>k. FetchMany k nrows) s of
       (Inl e, s1) \<Rightarrow> (Inl e, s1)
     | (Inr (Rows rows), s1) \<Rightarrow> (Inr (name_rows raw s1 rows), s1)
     | (Inr _, s1) \<Rightarrow> (Inr NoRow, s1))"

definition sql_fetchall :: "'w driver \<Rightarrow> bool \<Rightarrow> 'w session \<Rightarrow> (sql_error + sql_rows) \<times> 'w session" where
  "sql_fetchall driver raw s = (case with_recovery driver FetchAll s of
       (Inl e, s1) \<Rightarrow> (Inl e, s1)
     | (Inr (Rows rows), s1) \<Rightarrow> (Inr (name_rows raw s1 rows), s1)
     | (Inr _, s1) \<Rightarrow> (Inr NoRow, s1))"

section \<open>Connecting\<close>

text \<open>\<^verbatim>\<open>connect_by_uri\<close> and the cursor taken from the connection. \<open>start\<close> is the state of the world.\<close>

definition connect_by_uri ::
  "'m importer \<Rightarrow> ('m \<Rightarrow> 'w driver) \<Rightarrow> string \<Rightarrow> pyval \<Rightarrow> 'm registry \<Rightarrow> 'w \<Rightarrow> (sql_error + 'w session) \<times> 'm registry"
where
  "connect_by_uri importer driver_of sqluri auto_reconnect reg start = (case auto_reconnect of
       VBool auto \<Rightarrow> (case get_methods_by_uri importer sqluri reg of
           Inl e \<Rightarrow> (Inl e, reg)
         | Inr (b, reg') \<Rightarrow>
             (let s = \<lparr>s_uri = sqluri, s_auto_reconnect = auto,
                       s_format = (b_paramstyle b = Some ''format'' \<or> b_paramstyle b = Some ''pyformat''),
                       s_conn = 0, s_cursor = 0, s_columns = None, s_world = start, s_log = []\<rparr> in
              case then_ask (reconnect (driver_of (b_methods b)) s) (renew_cursor (driver_of (b_methods b))) of
                (Inl e, _) \<Rightarrow> (Inl e, reg') | (Inr _, s1) \<Rightarrow> (Inr s1, reg')))
     | _ \<Rightarrow> (Inl (SqlValueError ''auto_reconnect must be a boolean''), reg))"

end
