(* ===== verification/Anysql_Properties.thy ===== *)
theory Anysql_Properties
  imports Anysql
begin

text \<open>
  What the SQL layer promises: how far automatic recovery goes, which drivers may register, what
  becomes of question marks, and rows that answer to the names of their columns.
\<close>

section \<open>Recovery\<close>

lemma ask_sel [simp]:
  "ask driver req s = (fst (driver req (s_world s)),
     s\<lparr>s_world := snd (driver req (s_world s)), s_log := s_log s @ [req]\<rparr>)"
  by (simp add: ask_def split: prod.splits)

definition recovery_requests :: "(nat \<Rightarrow> request) \<Rightarrow> 'w session \<Rightarrow> nat \<Rightarrow> nat \<Rightarrow> request list" where
  "recovery_requests req s c k =
     [req (s_cursor s), IsConnected (s_conn s), Connect (s_uri s), RawCursor c, req k]"

text \<open>What the driver answers to requests made one after the other, and the state it is left in.\<close>

fun answers_to :: "'w driver \<Rightarrow> 'w \<Rightarrow> request list \<Rightarrow> (sql_error + response) list" where
  "answers_to driver w [] = []"
| "answers_to driver w (q # qs) = fst (driver q w) # answers_to driver (snd (driver q w)) qs"

fun world_after :: "'w driver \<Rightarrow> 'w \<Rightarrow> request list \<Rightarrow> 'w" where
  "world_after driver w [] = w"
| "world_after driver w (q # qs) = world_after driver (snd (driver q w)) qs"

text \<open>
  The \<open>n\<close>-th request is made exactly when the answers before it ask for it; \<open>c\<close> is the handle of the new
  connection, \<open>k\<close> the one of the new cursor.
\<close>

definition recovery_goes_on :: "bool \<Rightarrow> (sql_error + response) list \<Rightarrow> nat \<Rightarrow> nat \<Rightarrow> nat \<Rightarrow> bool" where
  "recovery_goes_on auto got c k n \<longleftrightarrow> 1 \<le> n \<and> n \<le> 5 \<and>
     (1 < n \<longleftrightarrow> isl (got ! 0) \<and> auto) \<and>
     (2 < n \<longleftrightarrow> 1 < n \<and> got ! 1 = Inr (Connected False)) \<and>
     (3 < n \<longleftrightarrow> 2 < n \<and> (\<exists>h. got ! 2 = Inr (Handle h))) \<and> (3 < n \<longrightarrow> got ! 2 = Inr (Handle c)) \<and>
     (4 < n \<longleftrightarrow> 3 < n \<and> (\<exists>h. got ! 3 = Inr (Handle h))) \<and> (4 < n \<longrightarrow> got ! 3 = Inr (Handle k))"

text \<open>A recovery that made \<open>n\<close> requests: what was asked, the session after it, and the result.\<close>

definition recovered ::
  "'w driver \<Rightarrow> (nat \<Rightarrow> request) \<Rightarrow> 'w session \<Rightarrow> nat \<Rightarrow> nat \<Rightarrow> nat \<Rightarrow> sql_error + response \<Rightarrow> 'w session \<Rightarrow> bool" where
  "recovered driver req s c k n r s' \<longleftrightarrow>
     (let made = take n (recovery_requests req s c k); got = answers_to driver (s_world s) made in
        recovery_goes_on (s_auto_reconnect s) got c k n \<and>
        s_log s' = s_log s @ made \<and> s_world s' = world_after driver (s_world s) made \<and>
        s_conn s' = (if 3 < n then c else s_conn s) \<and> s_cursor s' = (if 4 < n then k else s_cursor s) \<and>
        (n = 1 \<longrightarrow> r = got ! 0) \<and> (n = 2 \<longrightarrow> r = (if isl (got ! 1) then got ! 1 else got ! 0)) \<and>
        (n = 3 \<or> n = 4 \<longrightarrow> isl r \<and> (isl (got ! (n - 1)) \<longrightarrow> r = got ! (n - 1))) \<and> (n = 5 \<longrightarrow> r = got ! 4))"

lemmas recovery_run = with_recovery_def is_connected_def reconnect_def renew_cursor_def then_ask_def
lemmas recovery_spec = recovered_def recovery_requests_def recovery_goes_on_def Let_def

lemma recovery_renews:
  assumes "with_recovery driver req s = (r, s')" "s_auto_reconnect s"
    "driver (req (s_cursor s)) (s_world s) = (Inl e, w0)" "driver (IsConnected (s_conn s)) w0 = (Inr (Connected False), w1)"
  shows "\<exists>c k n. recovered driver req s c k n r s'"
proof -
  obtain a2 w2 where 2: "driver (Connect (s_uri s)) w1 = (a2, w2)" by (rule prod.exhaust)
  show ?thesis
  proof (cases "\<exists>h. a2 = Inr (Handle h)")
    case False
    with 2 assms have "isl r" "isl a2 \<Longrightarrow> r = a2"
        "s' = s\<lparr>s_world := w2, s_log := s_log s @ [req (s_cursor s), IsConnected (s_conn s), Connect (s_uri s)]\<rparr>"
      by (auto simp: recovery_run split: sum.splits response.splits)
    with False 2 assms(2-4) show ?thesis
      by (intro exI [of _ 0] exI [of _ 0] exI [of _ 3]) (simp add: recovery_spec eval_nat_numeral)
  next
    case True
    then obtain c where c: "a2 = Inr (Handle c)" by blast
    obtain a3 w3 where 3: "driver (RawCursor c) w2 = (a3, w3)" by (rule prod.exhaust)
    show ?thesis
    proof (cases "\<exists>h. a3 = Inr (Handle h)")
      case False
      with c 2 3 assms have "isl r" "isl a3 \<Longrightarrow> r = a3" "s' = s\<lparr>s_conn := c, s_world := w3, s_log := s_log s @
          [req (s_cursor s), IsConnected (s_conn s), Connect (s_uri s), RawCursor c]\<rparr>"
        by (auto simp: recovery_run split: sum.splits response.splits)
      with c False 2 3 assms(2-4) show ?thesis
        by (intro exI [of _ c] exI [of _ 0] exI [of _ 4]) (simp add: recovery_spec eval_nat_numeral)
    next
      case True
      then obtain k where k: "a3 = Inr (Handle k)" by blast
      obtain a4 w4 where 4: "driver (req k) w3 = (a4, w4)" by (rule prod.exhaust)
      with c k 2 3 assms have "r = a4" "s' = s\<lparr>s_conn := c, s_cursor := k, s_world := w4, s_log := s_log s @
          [req (s_cursor s), IsConnected (s_conn s), Connect (s_uri s), RawCursor c, req k]\<rparr>"
        by (simp_all add: recovery_run)
      with c k 2 3 4 assms(2-4) show ?thesis
        by (intro exI [of _ c] exI [of _ k] exI [of _ 5]) (simp add: recovery_spec eval_nat_numeral)
    qed
  qed
qed

text \<open>
  C18: Recovery of a query or a fetch. The requests made are a beginning of: the statement, the question whether the
  connection is alive, a new connection, a cursor of that new connection, the statement again on the new cursor. Each is
  made exactly when the answers before it call for it: the second when the statement failed and recovery is on, the third
  when the connection was found dead, the others when the driver gave a new handle, which is the one they use and the
  session keeps. So a statement is sent twice at most, the second time on the new connection. What the caller gets is
  the outcome of the statement, of the repeated one if there is one, or the error that ended the recovery.
\<close>

theorem sql_recovery:
  assumes "with_recovery driver req s = (r, s')"
  shows "\<exists>c k n. recovered driver req s c k n r s'"
proof -
  obtain a0 w0 where 0: "driver (req (s_cursor s)) (s_world s) = (a0, w0)" by (rule prod.exhaust)
  obtain a1 w1 where 1: "driver (IsConnected (s_conn s)) w0 = (a1, w1)" by (rule prod.exhaust)
  show ?thesis
  proof (cases "isl a0 \<and> s_auto_reconnect s")
    case False
    with 0 assms have "r = a0" "s' = s\<lparr>s_world := w0, s_log := s_log s @ [req (s_cursor s)]\<rparr>"
      by (auto simp: recovery_run split: sum.splits)
    with False 0 show ?thesis by (intro exI [of _ 0] exI [of _ 0] exI [of _ 1]) (simp add: recovery_spec)
  next
    case go: True
    then obtain e where e: "a0 = Inl e" by (cases a0) auto
    show ?thesis
    proof (cases "a1 = Inr (Connected False)")
      case False
      with go e 0 1 assms have "r = (if isl a1 then a1 else a0)"
          "s' = s\<lparr>s_world := w1, s_log := s_log s @ [req (s_cursor s), IsConnected (s_conn s)]\<rparr>"
        by (auto simp: recovery_run split: sum.splits response.splits bool.splits)
      with go e False 0 1 show ?thesis
        by (intro exI [of _ 0] exI [of _ 0] exI [of _ 2]) (simp add: recovery_spec numeral_2_eq_2)
    next
      case True
      with recovery_renews [OF assms] go e 0 1 show ?thesis by blast
    qed
  qed
qed

text \<open>A driver whose state is the number of connections made; statements fail on the first one.\<close>

definition demo_driver :: "nat driver" where
  "demo_driver req w = (case req of
       Connect _ \<Rightarrow> (Inr (Handle (Suc w)), Suc w)
     | RawCursor c \<Rightarrow> (Inr (Handle (10 * c)), w)
     | IsConnected c \<Rightarrow> (Inr (Connected (1 < w)), w)
     | Execute k _ _ \<Rightarrow> (if k = 20 then Inr Done else Inl (DriverError 7), w)
     | _ \<Rightarrow> (Inr Done, w))"

definition demo_session :: "nat session" where
  "demo_session = \<lparr>s_uri = ''db://x'', s_auto_reconnect = True, s_format = False, s_conn = 1, s_cursor = 10,
     s_columns = None, s_world = 1, s_log = []\<rparr>"

lemma answers_to_nth: "i < n \<Longrightarrow> i < length qs \<Longrightarrow> answers_to driver w (take n qs) ! i = answers_to driver w qs ! i"
proof (induction qs arbitrary: i n w)
  case (Cons q qs)
  then show ?case by (cases n; cases i) auto
qed simp

lemma demo_driver_answers:
  "demo_driver (Execute 10 ''Q'' None) (Suc 0) = (Inl (DriverError 7), Suc 0)"
  "demo_driver (IsConnected (Suc 0)) (Suc 0) = (Inr (Connected False), Suc 0)"
  "demo_driver (Connect ''db://x'') (Suc 0) = (Inr (Handle 2), 2)" "demo_driver (RawCursor 2) 2 = (Inr (Handle 20), 2)"
  "demo_driver (Execute 20 ''Q'' None) 2 = (Inr Done, 2)"
  by (simp_all add: demo_driver_def)

theorem sql_recovery_witness:
  "\<exists>r s'. with_recovery demo_driver (\<lambda>k. Execute k ''Q'' None) demo_session = (r, s') \<and> s_conn s' = 2 \<and> s_cursor s' = 20 \<and>
     s_log s' = [Execute 10 ''Q'' None, IsConnected 1, Connect ''db://x'', RawCursor 2, Execute 20 ''Q'' None] \<and> r = Inr Done"
proof -
  obtain r s' where w: "with_recovery demo_driver (\<lambda>k. Execute k ''Q'' None) demo_session = (r, s')" by (rule prod.exhaust)
  from sql_recovery [OF w] obtain c k n where n: "recovered demo_driver (\<lambda>k. Execute k ''Q'' None) demo_session c k n r s'" by blast
  define got where "got = answers_to demo_driver (s_world demo_session) (take n (recovery_requests (\<lambda>k. Execute k ''Q'' None) demo_session c k))"
  from n have g: "recovery_goes_on True got c k n"
    unfolding recovered_def Let_def got_def [symmetric] by (simp add: demo_session_def)
  have nth: "i < n \<Longrightarrow> i < 5 \<Longrightarrow> got ! i = answers_to demo_driver 1 [Execute 10 ''Q'' None, IsConnected 1, Connect ''db://x'', RawCursor c,
      Execute k ''Q'' None] ! i" for i
    by (simp add: got_def answers_to_nth recovery_requests_def demo_session_def)
  from g have "got ! 0 = Inl (DriverError 7)" using nth [of 0] by (simp add: recovery_goes_on_def demo_driver_answers)
  with g have 1: "1 < n" by (simp add: recovery_goes_on_def)
  with g nth [of 1] have 2: "2 < n" by (simp add: recovery_goes_on_def demo_driver_answers)
  with nth [of 2] have "got ! 2 = Inr (Handle 2)" by (simp add: demo_driver_answers)
  with g 2 have 3: "3 < n" "c = 2" by (simp_all add: recovery_goes_on_def)
  with nth [of 3] have "got ! 3 = Inr (Handle 20)" by (simp add: demo_driver_answers)
  with g 3 have 4: "4 < n" "k = 20" by (simp_all add: recovery_goes_on_def)
  with g have "n = 5" by (simp add: recovery_goes_on_def)
  with n 3 4 nth [of 4] w show ?thesis
    unfolding recovered_def Let_def got_def [symmetric] by (simp add: demo_session_def recovery_requests_def demo_driver_answers)
qed

text \<open>A commit does not ask whether the connection is alive: the transaction lost with a connection is
  replaced by an empty one, whose commit succeeds.\<close>

theorem commit_hides_failure:
  "driver (Commit c) w = (Inl e, w1) \<Longrightarrow> driver (Connect uri) w1 = (Inr (Handle d), w2) \<Longrightarrow>
   driver (Commit d) w2 = (Inr Done, w3) \<Longrightarrow>
   fst (sql_commit driver \<lparr>s_uri = uri, s_auto_reconnect = True, s_format = f, s_conn = c, s_cursor = k,
     s_columns = cols, s_world = w, s_log = l\<rparr>) = Inr Done"
  by (simp add: sql_commit_def reconnect_def then_ask_def)

section \<open>Registration\<close>

lemma list_less_Nil [simp]: "\<not> list_less xs []"
  by (cases xs) auto

lemma all_some_length: "all_some xs = Some ys \<Longrightarrow> length ys = length xs"
  by (induction xs arbitrary: ys rule: all_some.induct) auto

lemma api_delta: "compare_api_level l any_apilevel = Some d \<Longrightarrow>
   (d = 0 \<or> d = 1) = (\<exists>y r. api_numbers l = Some (2 # y # r) \<and> 0 \<le> y)"
proof -
  assume c: "compare_api_level l any_apilevel = Some d"
  have a: "api_numbers any_apilevel = Some [2, 0]" by code_simp
  from c obtain xs where x: "api_numbers l = Some xs" by (auto simp: compare_api_level_def split: option.splits)
  then have "length xs = length (split_on CHR ''.'' l)" by (auto simp: api_numbers_def dest: all_some_length)
  then have "xs \<noteq> []" using split_on_ne [of "CHR ''.''" l] by auto
  then show ?thesis
    using c x by (cases xs; cases "tl xs") (auto simp: compare_api_level_def a split: if_splits)
qed

text \<open>
  A backend is registered exactly when its module announces an API level 2.y with a nonnegative y
  (and possibly more numbers), a parameter style among \<^verbatim>\<open>format\<close>, \<^verbatim>\<open>pyformat\<close> and \<^verbatim>\<open>qmark\<close>, a thread safety
  of at least one, and its URI scheme is valid; then its scheme leads to it and no other scheme changes.
\<close>

theorem register_backend:
  "register_uri_backend scheme b reg = Inr reg' \<longleftrightarrow> reg' = dset reg scheme b \<and>
     (\<exists>l y r. b_apilevel b = Some l \<and> api_numbers l = Some (2 # y # r) \<and> 0 \<le> y) \<and>
     (\<exists>p \<in> {''pyformat'', ''format'', ''qmark''}. b_paramstyle b = Some p) \<and>
     (\<exists>t \<ge> 1. b_threadsafety b = Some t) \<and> valid_scheme scheme"
proof (cases "Option.bind (b_apilevel b) (\<lambda>l. compare_api_level l any_apilevel)")
  case None
  have a: "api_numbers any_apilevel = Some [2, 0]" by code_simp
  from None have "b_apilevel b = Some l \<Longrightarrow> api_numbers l = None" for l
    by (auto simp: compare_api_level_def a split: option.splits)
  with None show ?thesis by (auto simp: register_uri_backend_def)
next
  case (Some d)
  then obtain l where l: "b_apilevel b = Some l" "compare_api_level l any_apilevel = Some d"
    by (cases "b_apilevel b") auto
  have "\<bar>d\<bar> \<le> 2" using l(2) by (auto simp: compare_api_level_def split: option.splits if_splits)
  then have "\<not> (d < 0 \<or> d > 1) \<longleftrightarrow> d = 0 \<or> d = 1" by auto
  with api_delta [OF l(2)] l Some show ?thesis
    by (auto simp: register_uri_backend_def raise_if_iff any_threadsafety_def split: option.splits)
qed

section \<open>Question marks\<close>

text \<open>A query as plain characters, parameters and doubled question marks.\<close>

datatype qtok = Plain char | Param | Quest

definition qtok_text :: "qtok \<Rightarrow> string" where
  "qtok_text t = (case t of Plain c \<Rightarrow> [c] | Param \<Rightarrow> ''?'' | Quest \<Rightarrow> ''??'')"

definition qtok_format :: "qtok \<Rightarrow> string" where
  "qtok_format t = (case t of Plain c \<Rightarrow> [c] | Param \<Rightarrow> ''%s'' | Quest \<Rightarrow> ''?'')"

text \<open>The reading of a query: a question mark is doubled as soon as it can be.\<close>

fun qtok_ok :: "qtok list \<Rightarrow> bool" where
  "qtok_ok [] = True"
| "qtok_ok (Plain c # ts) = (c \<noteq> CHR ''?'' \<and> qtok_ok ts)"
| "qtok_ok (Quest # ts) = qtok_ok ts"
| "qtok_ok (Param # ts) = (qtok_ok ts \<and> (case ts of [] \<Rightarrow> True | Plain _ # _ \<Rightarrow> True | _ \<Rightarrow> False))"

fun qtok_read :: "string \<Rightarrow> qtok list" where
  "qtok_read [] = []"
| "qtok_read [c] = [if c = CHR ''?'' then Param else Plain c]"
| "qtok_read (c # d # s) = (if c = CHR ''?'' then (if d = CHR ''?'' then Quest # qtok_read s
     else Param # qtok_read (d # s)) else Plain c # qtok_read (d # s))"

lemma qtok_read_ok: "qtok_ok (qtok_read s) \<and> concat (map qtok_text (qtok_read s)) = s"
  by (induction s rule: qtok_read.induct) (auto simp: qtok_text_def split: list.splits qtok.splits)

lemma qmark_run: "p \<noteq> Some CHR ''?'' \<Longrightarrow>
   (case foldl qmark_step (out, p) s of (r, q) \<Rightarrow> if q = Some CHR ''?'' then r @ ''%s'' else r) =
   out @ concat (map qtok_format (qtok_read s))"
proof (induction s arbitrary: out p rule: qtok_read.induct)
  case (3 c d s)
  show ?case
    using 3(1) [of None "out @ ''?''"] 3(2) [of None "out @ ''%s''"] 3(3) [of "Some c" "out @ [c]"] 3(4)
    by (auto simp: qmark_step_def qtok_format_def)
qed (auto simp: qmark_step_def qtok_format_def)

text \<open>
  \<^verbatim>\<open>qmark_to_format\<close> reads the query from the left as plain characters, doubled question marks and
  single ones (the reading is unambiguous and gives back the query), writes a doubled one as one
  question mark, a single one as \<^verbatim>\<open>%s\<close>, and nothing else changes.
\<close>

theorem qmark_to_format_tokens:
  "qmark_to_format query = concat (map qtok_format (qtok_read query)) \<and>
   concat (map qtok_text (qtok_read query)) = query \<and> qtok_ok (qtok_read query)"
  using qmark_run [of None "[]" query] qtok_read_ok [of query]
  by (simp add: qmark_to_format_def split: prod.splits)

end
