(* ===== verification/Xys.thy ===== *)
theory Xys
  imports Helpers Regex
begin

text \<open>
  \<^verbatim>\<open>sonicprobe/libs/xys.py\<close>, the compiler: schemas as PyYAML builds them, the notation of keys
  (\<^verbatim>\<open>RE_MATCH_CSTR\<close>) and of occurrence bounds (\<^verbatim>\<open>RE_MATCH_VALIDATOR_CSTR\<close>), the registries and tags, and
  \<^verbatim>\<open>_transschema\<close>. A schema is a finite tree, so the cycle check of \<^verbatim>\<open>_transschema\<close> has nothing to
  find; floats are not among the values.
\<close>

section \<open>Schemas\<close>

datatype vfun = F_enum | F_ienum | F_seqlen | F_between | F_fixed | F_startswith | F_prefixedDec
  | F_isBool | F_isFloat | F_digit | F_uint | F_callback | F_isIn | F_regex | F_custom string

text \<open>A validator function with the parameters of its tag; without them, the function itself.\<close>

datatype validator = Plain vfun | Param vfun "pyval list"

datatype vmode = Generic | MandatoryMode | OptionalMode

datatype fkind = OptionalField | OptionalNullField | MandatoryField

text \<open>\<^verbatim>\<open>SNode\<close> is a \<^verbatim>\<open>ValidatorNode\<close> (content, validator, mode, min, max); \<^verbatim>\<open>SField\<close> an \<^verbatim>\<open>Optional\<close>,
  \<^verbatim>\<open>OptionalNull\<close> or \<^verbatim>\<open>Mandatory\<close> (content, \<^verbatim>\<open>min_len\<close>, \<^verbatim>\<open>max_len\<close>, modifiers).\<close>

datatype schema =
    SAny | SScalar | SVal pyval
  | SList "schema list"
  | SDict "(schema \<times> schema) list"
  | SNode schema validator vmode "int option" "int option"
  | SField fkind schema "int option" "int option" "string list"

text \<open>Objects that equal nothing but themselves: \<^verbatim>\<open>Any()\<close>, \<^verbatim>\<open>Scalar()\<close> and the function built for each
  use of a parameterized tag. A key with one of them is never found in a dictionary again.\<close>

fun fresh_key :: "schema \<Rightarrow> bool" where
  "fresh_key SAny = True"
| "fresh_key SScalar = True"
| "fresh_key (SNode c v m lo hi) = (fresh_key c \<or> (case v of Param _ _ \<Rightarrow> True | Plain _ \<Rightarrow> False))"
| "fresh_key _ = False"

definition skey_in :: "schema \<Rightarrow> (schema, 'v) dict \<Rightarrow> bool" where
  "skey_in k d = (\<not> fresh_key k \<and> dhas d k)"

definition skey_set :: "(schema, 'v) dict \<Rightarrow> schema \<Rightarrow> 'v \<Rightarrow> (schema, 'v) dict" where
  "skey_set d k v = (if fresh_key k then d @ [(k, v)] else dset d k v)"

text \<open>\<^verbatim>\<open>SchemaLoader.construct_mapping\<close>: the explicit keys, merge keys marked, before YAML expands them.\<close>

fun unhashable :: "schema \<Rightarrow> bool" where
  "unhashable (SList _) = True"
| "unhashable (SDict _) = True"
| "unhashable (SNode c v m lo hi) = unhashable c"
| "unhashable _ = False"

fun check_mapping_keys :: "schema list \<Rightarrow> (bool \<times> schema) list \<Rightarrow> pyerror + unit" where
  "check_mapping_keys seen [] = Inr ()"
| "check_mapping_keys seen ((merged, k) # ks) =
     (if merged then check_mapping_keys seen ks
      else raise_if (unhashable k) (ValueError ''Unhashable XYS schema key'')
          (raise_if (\<not> fresh_key k \<and> k \<in> set seen) (ValueError ''Duplicate XYS schema key'')
            (check_mapping_keys (k # seen) ks)))"

section \<open>The notation of keys\<close>

definition LINE_FEED :: char where "LINE_FEED = CHR 0x0A"

text \<open>Where \<^verbatim>\<open>$\<close> matches.\<close>

definition at_end :: "string \<Rightarrow> bool" where "at_end s = (s = [] \<or> s = [LINE_FEED])"

text \<open>The groups \<open>([0-9]+)|([0-9]*),([0-9]*)\<close> and the closing bracket after them.\<close>

datatype bounds = NoBounds | Exactly string | Interval string string | Repeated char

definition bounds_until :: "char \<Rightarrow> string \<Rightarrow> (bounds \<times> string) option" where
  "bounds_until close s = (let d = takeWhile is_digit s; r = dropWhile is_digit s in
     (case r of
        [] \<Rightarrow> None
      | c # t \<Rightarrow>
          if c = close \<and> d \<noteq> [] then Some (Exactly d, t)
          else if c = CHR '','' then
            (let e = takeWhile is_digit t in (case dropWhile is_digit t of
                [] \<Rightarrow> None
              | x # u \<Rightarrow> if x = close then Some (Interval d e, u) else None))
          else None))"

text \<open>The ways each optional part of the pattern can match a rest, the preferred one first.\<close>

definition bounds_alts :: "string \<Rightarrow> (bounds \<times> string) list" where
  "bounds_alts s = (case s of
       [] \<Rightarrow> []
     | c # t \<Rightarrow>
         if c = CHR ''['' then (case bounds_until CHR '']'' t of None \<Rightarrow> [] | Some x \<Rightarrow> [x])
         else if c \<in> set ''*+?'' then [(Repeated c, t)] else []) @ [(NoBounds, s)]"

definition qual_alts :: "string \<Rightarrow> ((char option \<times> bounds) \<times> string) list" where
  "qual_alts s = (case s of
       [] \<Rightarrow> []
     | c # t \<Rightarrow> if c \<in> set ''?!+*'' then map (\<lambda>(b, r). ((Some c, b), r)) (bounds_alts t) else [])
     @ [((None, NoBounds), s)]"

definition word_chars :: string where
  "word_chars = lower_chars @ upper_chars @ digit_chars @ ''_''"

definition MOD_NAME :: regex where
  "MOD_NAME = Seq (Opt (Seq (Chars word_chars) (Star (Chars (word_chars @ ''-.''))))) (Chars word_chars)"

definition MOD_NAMES :: regex where
  "MOD_NAMES = Seq MOD_NAME (Star (Seq (Lit CHR '','') MOD_NAME))"

definition mods_alts :: "string \<Rightarrow> (string option \<times> string) list" where
  "mods_alts s = (case s of
       [] \<Rightarrow> []
     | c # t \<Rightarrow> if c = CHR ''|''
         then map (\<lambda>n. (Some (take n t), drop n t))
                (filter (\<lambda>n. full_match MOD_NAMES (take n t)) (rev [0..<Suc (length t)]))
         else [])
     @ [(None, s)]"

definition strip_alts :: "string \<Rightarrow> (bool \<times> string) list" where
  "strip_alts s = (case s of [] \<Rightarrow> [] | c # t \<Rightarrow> if c = CHR ''-'' then [(True, t)] else []) @ [(False, s)]"

record key_tail =
  kt_qual :: "char option"
  kt_bounds :: bounds
  kt_mods :: "string option"
  kt_strip :: bool

definition tail_matches :: "string \<Rightarrow> key_tail list" where
  "tail_matches s =
     concat (map (\<lambda>((q, b), r1).
       concat (map (\<lambda>(m, r2).
         map (\<lambda>(st, r3). \<lparr>kt_qual = q, kt_bounds = b, kt_mods = m, kt_strip = st\<rparr>)
           (filter (\<lambda>(st, r3). at_end r3) (strip_alts r2)))
       (mods_alts r1)))
     (qual_alts s))"

text \<open>The name is the shortest that lets the rest match (\<^verbatim>\<open>.+?\<close>); the dot does not match a line feed.\<close>

definition key_splits :: "string \<Rightarrow> nat list" where
  "key_splits s =
     filter (\<lambda>n. LINE_FEED \<notin> set (take n s) \<and> tail_matches (drop n s) \<noteq> []) [1..<Suc (length s)]"

definition match_key :: "string \<Rightarrow> (string \<times> key_tail) option" where
  "match_key s = (case key_splits s of
       [] \<Rightarrow> None
     | n # _ \<Rightarrow> Some (take n s, hd (tail_matches (drop n s))))"

section \<open>Qualified keys\<close>

definition digits_int :: "string \<Rightarrow> int" where "digits_int d = int (digits_val 10 d)"

definition field_bounds :: "bounds \<Rightarrow> int option \<times> int option" where
  "field_bounds b = (case b of
       Exactly d \<Rightarrow> (Some (digits_int d), Some (digits_int d))
     | Interval d e \<Rightarrow> (Some (if d \<noteq> [] then digits_int d else 0), if e \<noteq> [] then Some (digits_int e) else None)
     | Repeated c \<Rightarrow> if c = CHR ''*'' then (Some 0, None)
                     else if c = CHR ''+'' then (Some 1, None)
                     else if c = CHR ''?'' then (Some 0, Some 1) else (None, None)
     | NoBounds \<Rightarrow> (None, None))"

definition above :: "int option \<Rightarrow> int option \<Rightarrow> bool" where
  "above lo hi = (case (lo, hi) of (Some a, Some b) \<Rightarrow> b < a | _ \<Rightarrow> False)"

definition field_kind :: "char option \<Rightarrow> fkind" where
  "field_kind q = (if q = Some CHR ''*'' then OptionalNullField
     else if q = Some CHR ''?'' then OptionalField else MandatoryField)"

definition field_mods :: "key_tail \<Rightarrow> string list" where
  "field_mods t = (case kt_mods t of None \<Rightarrow> [] | Some m \<Rightarrow> if m = [] then [] else split_on CHR '','' m) @
     (if kt_strip t then [''strip''] else [])"

definition qualify_map :: "schema \<Rightarrow> schema \<Rightarrow> pyerror + (schema \<times> schema)" where
  "qualify_map key content = (case key of
       SVal (VStr s) \<Rightarrow>
         (case match_key s of
            None \<Rightarrow> Inl KeyError
          | Some (name, t) \<Rightarrow> (case field_bounds (kt_bounds t) of (lo, hi) \<Rightarrow>
              raise_if (above lo hi) (ValueError ''Invalid XYS field length bounds'')
                (Inr (SVal (VStr name), SField (field_kind (kt_qual t)) content lo hi (field_mods t)))))
     | _ \<Rightarrow> Inr (key, content))"

fun transschema :: "schema \<Rightarrow> pyerror + schema"
  and trans_list :: "schema list \<Rightarrow> pyerror + schema list"
  and trans_dict :: "(schema, schema) dict \<Rightarrow> (schema \<times> schema) list \<Rightarrow> pyerror + (schema, schema) dict" where
  "transschema (SNode c v m lo hi) = bind_sum (transschema c) (\<lambda>c'. Inr (SNode c' v m lo hi))"
| "transschema (SField k c lo hi ms) = bind_sum (transschema c) (\<lambda>c'. Inr (SField k c' lo hi ms))"
| "transschema (SDict es) = bind_sum (trans_dict [] es) (\<lambda>d. Inr (SDict d))"
| "transschema (SList ss) = bind_sum (trans_list ss) (\<lambda>l. Inr (SList l))"
| "transschema SAny = Inr SAny"
| "transschema SScalar = Inr SScalar"
| "transschema (SVal v) = Inr (SVal v)"
| "trans_list [] = Inr []"
| "trans_list (s # ss) = bind_sum (transschema s) (\<lambda>t. bind_sum (trans_list ss) (\<lambda>ts. Inr (t # ts)))"
| "trans_dict result [] = Inr result"
| "trans_dict result ((k, s) # es) = bind_sum (transschema s) (\<lambda>t. bind_sum (qualify_map k t) (\<lambda>(k', t').
     raise_if (skey_in k' result) (ValueError ''Duplicate qualified XYS schema key'')
       (trans_dict (skey_set result k' t') es)))"

text \<open>\<^verbatim>\<open>load\<close>: PyYAML, a parameter, builds the tree of the text.\<close>

definition load_schema :: "(string \<Rightarrow> pyerror + schema) \<Rightarrow> string \<Rightarrow> pyerror + schema" where
  "load_schema load_yaml src = bind_sum (load_yaml src) transschema"

section \<open>Tags of validators\<close>

text \<open>\<^verbatim>\<open>\s+\<close> or \<^verbatim>\<open>\s*\<close>, then \<open>(.+)$\<close>: as much white space as leaves a character of one last line.\<close>

definition last_line :: "string \<Rightarrow> string option" where
  "last_line s = (let l = takeWhile (\<lambda>c. c \<noteq> LINE_FEED) s in
     if l \<noteq> [] \<and> at_end (drop (length l) s) then Some l else None)"

definition after_space :: "nat \<Rightarrow> string \<Rightarrow> string option" where
  "after_space least s =
     (case filter (\<lambda>n. last_line (drop n s) \<noteq> None) (rev [least..<Suc (length (takeWhile is_space s))]) of
        [] \<Rightarrow> None
      | n # _ \<Rightarrow> last_line (drop n s))"

definition match_occurs :: "string \<Rightarrow> (bounds \<times> string) option" where
  "match_occurs s =
     (let plain = map_option (\<lambda>g. (NoBounds, g)) (after_space 0 s) in
      case s of
        [] \<Rightarrow> plain
      | c # t \<Rightarrow>
          if c = CHR ''('' then
            (case bounds_until CHR '')'' t of
               None \<Rightarrow> plain
             | Some (b, r) \<Rightarrow> (case after_space 1 r of Some g \<Rightarrow> Some (b, g) | None \<Rightarrow> plain))
          else plain)"

text \<open>A \<^verbatim>\<open>ConstructorValidatorNode\<close>, and the parse of the occurrence bounds on its private copy.\<close>

record ctor =
  ct_tag :: string
  ct_base_tag :: string
  ct_validator :: validator
  ct_mode :: vmode
  ct_min :: "int option"
  ct_max :: "int option"

definition ctor_bounds :: "bounds \<Rightarrow> ctor \<Rightarrow> ctor" where
  "ctor_bounds b c = (case b of
       Exactly d \<Rightarrow> c\<lparr>ct_min := Some (digits_int d), ct_max := Some (digits_int d)\<rparr>
     | Interval d e \<Rightarrow> c\<lparr>ct_min := Some (if d \<noteq> [] then digits_int d else 0),
                     ct_max := (if e \<noteq> [] then Some (digits_int e) else ct_max c)\<rparr>
     | _ \<Rightarrow> c)"

definition ctor_mode :: "ctor \<Rightarrow> pyerror + ctor" where
  "ctor_mode c = (case (ct_mode c, ct_min c) of
       (Generic, _) \<Rightarrow> Inr c
     | (_, None) \<Rightarrow> Inl (TypeError ''comparison with None'')
     | (MandatoryMode, Some n) \<Rightarrow> Inr (if n < 1 then c\<lparr>ct_min := Some 1\<rparr> else c)
     | (OptionalMode, Some n) \<Rightarrow> Inr (if 0 < n then c\<lparr>ct_mode := MandatoryMode\<rparr> else c))"

definition ctor_parser :: "string \<Rightarrow> ctor \<Rightarrow> pyerror + string \<times> ctor" where
  "ctor_parser value c = (case match_occurs value of
       None \<Rightarrow> Inr (value, c)
     | Some (b, rest) \<Rightarrow> bind_sum (ctor_mode (ctor_bounds b c)) (\<lambda>c'. Inr (rest, c')))"

text \<open>\<^verbatim>\<open>__call__\<close>: \<open>text\<close> is the value of a scalar node, \<open>construct\<close> builds its content with PyYAML.\<close>

definition ctor_call :: "ctor \<Rightarrow> string option \<Rightarrow> (string option \<Rightarrow> string \<Rightarrow> pyerror + schema) \<Rightarrow> pyerror + schema" where
  "ctor_call c value construct =
     bind_sum (case value of None \<Rightarrow> Inr (None, c)
               | Some s \<Rightarrow> bind_sum (ctor_parser s c) (\<lambda>(s', c'). Inr (Some s', c'))) (\<lambda>(value', c').
       raise_if (above (ct_min c') (ct_max c')) (ValueError ''Invalid XYS validator bounds'')
         (bind_sum (construct value' (ct_base_tag c')) (\<lambda>content.
           Inr (SNode content (ct_validator c') (ct_mode c') (ct_min c') (ct_max c')))))"

text \<open>\<^verbatim>\<open>_construct_node\<close>: the longest handle of the loader's table that starts the base tag.\<close>

definition best_tag :: "(string \<times> string) list \<Rightarrow> string \<Rightarrow> string" where
  "best_tag default_tags base = snd (foldl (\<lambda>(fit, best) (key, v).
     if length key \<le> fit then (fit, best)
     else if starts_with key base then (length key, v @ drop (length key) base) else (fit, best))
     (0, base) default_tags)"

definition maybe_int :: "string \<Rightarrow> pyval" where
  "maybe_int s = (if full_match (Seq (Opt (Chars ''+-'')) (Plus (Chars digit_chars))) s
     then (case py_int s of Some i \<Rightarrow> VInt i | None \<Rightarrow> VStr s) else VStr s)"

definition split_params :: "string \<Rightarrow> bool \<Rightarrow> pyerror + pyval list" where
  "split_params suffix numeric =
     raise_if (suffix = [] \<or> last suffix \<noteq> CHR '')'') (ValueError ''unbalanced parenthesis in type'')
    (let params = split_on CHR '','' (butlast suffix) in
     raise_if ([] \<in> set params) (ValueError ''Empty XYS validator parameter'')
      (Inr (map (if numeric then maybe_int else VStr) params)))"

definition VALIDATOR_MODES :: "(string \<times> vmode \<times> int option \<times> int option) list" where
  "VALIDATOR_MODES = [(''+'', MandatoryMode, Some 1, None), (''?'', OptionalMode, Some 0, None),
     ('''', OptionalMode, Some 0, None)]"

text \<open>The constructors \<^verbatim>\<open>add_validator\<close> registers for a function named \<open>name\<close>.\<close>

definition add_validator :: "vfun \<Rightarrow> string \<Rightarrow> string \<Rightarrow> string option \<Rightarrow> ctor list" where
  "add_validator f name base tag =
     (let t = (case tag of Some (c # s) \<Rightarrow> c # s | _ \<Rightarrow> ''!~'' @ name) in
      map (\<lambda>(xid, mode, lo, hi). \<lparr>ct_tag = t @ xid, ct_base_tag = base, ct_validator = Plain f,
         ct_mode = mode, ct_min = lo, ct_max = hi\<rparr>) VALIDATOR_MODES)"

text \<open>The constructor of a tag \<open>prefix@suffix\<close> of \<^verbatim>\<open>add_parameterized_validator\<close>.\<close>

definition parameterized_ctor :: "vfun \<Rightarrow> string \<Rightarrow> string \<Rightarrow> pyerror + ctor" where
  "parameterized_ctor f base suffix =
     bind_sum (split_params suffix (f \<noteq> F_enum \<and> f \<noteq> F_ienum)) (\<lambda>params.
       Inr \<lparr>ct_tag = base, ct_base_tag = base, ct_validator = Param f params,
         ct_mode = Generic, ct_min = None, ct_max = None\<rparr>)"

section \<open>Registries\<close>

text \<open>\<open>fits\<close> says whether the value is callable, iterable, a match function.\<close>

definition add_entry :: "string \<Rightarrow> bool \<Rightarrow> pyval \<Rightarrow> 'a \<Rightarrow> (pyval, 'a) dict \<Rightarrow> pyerror + (pyval, 'a) dict" where
  "add_entry wrong fits name value reg =
     raise_if (\<not> fits) (TypeError wrong)
    (raise_if (dhas reg name) (ValueError ''is already registered'') (Inr (dset reg name value)))"

text \<open>What the functions of an application do is a parameter: a callback and a match function answer
  yes or no, a list is asked for a member, a modifier gives a new value; \<^verbatim>\<open>xv_method\<close> is the method of a
  value with a name, if it has one; \<^verbatim>\<open>xv_custom\<close> the validators an application adds; \<^verbatim>\<open>xv_float\<close> whether
  \<^verbatim>\<open>float\<close> takes a text.\<close>

record xenv =
  xv_callbacks :: "(pyval, pyval \<Rightarrow> pyerror + bool) dict"
  xv_lists :: "(pyval, pyval \<Rightarrow> pyerror + bool) dict"
  xv_modifiers :: "(pyval, pyval \<Rightarrow> pyerror + pyval) dict"
  xv_regexs :: "(pyval, pyval \<Rightarrow> pyerror + bool) dict"
  xv_method :: "pyval \<Rightarrow> string \<Rightarrow> (pyerror + pyval) option"
  xv_custom :: "string \<Rightarrow> pyval \<Rightarrow> schema \<Rightarrow> pyerror + bool"
  xv_float :: "string \<Rightarrow> bool"

definition add_callback :: "bool \<Rightarrow> pyval \<Rightarrow> (pyval \<Rightarrow> pyerror + bool) \<Rightarrow> xenv \<Rightarrow> pyerror + xenv" where
  "add_callback fits name f env = bind_sum (add_entry ''is not callable'' fits name f (xv_callbacks env))
     (\<lambda>r. Inr (env\<lparr>xv_callbacks := r\<rparr>))"

definition add_list :: "bool \<Rightarrow> pyval \<Rightarrow> (pyval \<Rightarrow> pyerror + bool) \<Rightarrow> xenv \<Rightarrow> pyerror + xenv" where
  "add_list fits name f env = bind_sum (add_entry ''is not iterable'' fits name f (xv_lists env))
     (\<lambda>r. Inr (env\<lparr>xv_lists := r\<rparr>))"

definition add_modifier :: "bool \<Rightarrow> pyval \<Rightarrow> (pyval \<Rightarrow> pyerror + pyval) \<Rightarrow> xenv \<Rightarrow> pyerror + xenv" where
  "add_modifier fits name f env = bind_sum (add_entry ''is not callable'' fits name f (xv_modifiers env))
     (\<lambda>r. Inr (env\<lparr>xv_modifiers := r\<rparr>))"

definition add_regex :: "bool \<Rightarrow> pyval \<Rightarrow> (pyval \<Rightarrow> pyerror + bool) \<Rightarrow> xenv \<Rightarrow> pyerror + xenv" where
  "add_regex fits name f env = bind_sum (add_entry ''is not a match regep'' fits name f (xv_regexs env))
     (\<lambda>r. Inr (env\<lparr>xv_regexs := r\<rparr>))"

end
