(* ===== verification/Xys_Validate.thy ===== *)
theory Xys_Validate
  imports Xys
begin

text \<open>
  \<^verbatim>\<open>sonicprobe/libs/xys.py\<close>, the validator: the built-in validators and \<^verbatim>\<open>validate\<close>. Validation may change
  the document in place (modifiers), so it returns the answer with the document; what an exception
  leaves behind is not described. The document is a tree, and the functions of the application do not
  change what they are given.
\<close>

section \<open>Validators\<close>

definition py_lower :: "pyval \<Rightarrow> pyerror + string" where
  "py_lower v = (case v of VStr s \<Rightarrow> Inr (lower s) | _ \<Rightarrow> Inl AttributeError)"

definition has_length :: "pyval \<Rightarrow> nat option" where
  "has_length v = (case v of
       VStr s \<Rightarrow> Some (py_len s) | VBytes b \<Rightarrow> Some (length b) | VList l \<Rightarrow> Some (length l)
     | VTuple l \<Rightarrow> Some (length l) | VDict d \<Rightarrow> Some (length d) | _ \<Rightarrow> None)"

definition param_text :: "pyval \<Rightarrow> string" where
  "param_text v = (case v of VStr s \<Rightarrow> s | VInt i \<Rightarrow> show_int i | _ \<Rightarrow> [])"

definition enum :: "pyval \<Rightarrow> pyval list \<Rightarrow> pyerror + bool" where
  "enum nstr symbols = Inr (nstr \<in> set (map (\<lambda>s. VStr (param_text s)) symbols))"

definition ienum :: "pyval \<Rightarrow> pyval list \<Rightarrow> pyerror + bool" where
  "ienum nstr symbols = bind_sum (py_lower nstr) (\<lambda>s. Inr (s \<in> set (map (lower \<circ> param_text) symbols)))"

text \<open>A number as comparisons see it.\<close>

definition py_number :: "pyval \<Rightarrow> pyerror + int" where
  "py_number v = (case v of VInt i \<Rightarrow> Inr i | VBool b \<Rightarrow> Inr (if b then 1 else 0)
     | _ \<Rightarrow> Inl (TypeError ''not supported between instances''))"

definition py_between :: "pyval \<Rightarrow> pyval \<Rightarrow> pyval \<Rightarrow> pyerror + bool" where
  "py_between lo v hi = bind_sum (py_number lo) (\<lambda>a. bind_sum (py_number v) (\<lambda>x.
     if \<not> a \<le> x then Inr False else bind_sum (py_number hi) (\<lambda>b. Inr (x \<le> b))))"

definition seqlen :: "pyval \<Rightarrow> pyval \<Rightarrow> pyval \<Rightarrow> pyerror + bool" where
  "seqlen lst min_len max_len = (case has_length lst of
       None \<Rightarrow> Inl (TypeError ''object has no len()'')
     | Some n \<Rightarrow> py_between min_len (VInt (int n)) max_len)"

definition between :: "pyval \<Rightarrow> pyval \<Rightarrow> pyval \<Rightarrow> pyerror + bool" where
  "between x min_val max_val = py_between min_val x max_val"

text \<open>The content of the node as a value; only validators of strings and integers look at it.\<close>

definition content_is :: "schema \<Rightarrow> pyval \<Rightarrow> bool" where
  "content_is content v = (content = SVal v)"

definition startswith :: "pyval \<Rightarrow> schema \<Rightarrow> pyerror + bool" where
  "startswith nstr content = (case nstr of
       VStr s \<Rightarrow> (case content of SVal (VStr p) \<Rightarrow> Inr (starts_with p s)
                  | _ \<Rightarrow> Inl (TypeError ''startswith first arg must be str''))
     | _ \<Rightarrow> Inl AttributeError)"

definition prefixedDec :: "pyval \<Rightarrow> schema \<Rightarrow> pyerror + bool" where
  "prefixedDec nstr content = bind_sum (startswith nstr content) (\<lambda>b.
     if \<not> b then Inr False
     else (case (nstr, content) of
         (VStr s, SVal (VStr p)) \<Rightarrow> Inr (py_int (drop (length p) s) \<noteq> None)
       | _ \<Rightarrow> Inl AttributeError))"

definition isBool :: "pyval \<Rightarrow> pyerror + bool" where
  "isBool v = Inr (v \<in> {VStr ''0'', VStr ''1'', VBool False, VBool True, VInt 0, VInt 1})"

definition isFloat :: "(string \<Rightarrow> bool) \<Rightarrow> pyval \<Rightarrow> pyerror + bool" where
  "isFloat float_ok v = Inr (case v of VInt _ \<Rightarrow> True | VBool _ \<Rightarrow> True | VStr s \<Rightarrow> float_ok s | _ \<Rightarrow> False)"

definition str_isdigit :: "string \<Rightarrow> bool" where
  "str_isdigit s = (s \<noteq> [] \<and> list_all is_digit s)"

definition digit :: "pyval \<Rightarrow> pyerror + bool" where
  "digit v = Inr (case v of VInt i \<Rightarrow> str_isdigit (show_int i) | VBool b \<Rightarrow> str_isdigit (show_bool b)
     | VStr s \<Rightarrow> str_isdigit s | _ \<Rightarrow> False)"

definition uint :: "pyval \<Rightarrow> pyerror + bool" where
  "uint v = Inr (case v of
       VStr s \<Rightarrow> str_isdigit s \<and> (case py_int s of None \<Rightarrow> False | Some i \<Rightarrow> 0 < i)
     | VInt i \<Rightarrow> 0 < i | VBool b \<Rightarrow> b | _ \<Rightarrow> False)"

text \<open>The name of a registered function: the parameter, or the content of the node, which has to be
  hashable to be looked up.\<close>

definition registry_name :: "pyval option \<Rightarrow> schema \<Rightarrow> pyerror + pyval option" where
  "registry_name name content = (case name of
       Some n \<Rightarrow> Inr (Some n)
     | None \<Rightarrow> (case content of SVal v \<Rightarrow> Inr (Some v)
               | _ \<Rightarrow> if unhashable content then Inl (TypeError ''unhashable type'') else Inr None))"

definition ask_registry :: "(pyval, pyval \<Rightarrow> pyerror + bool) dict \<Rightarrow> pyval option \<Rightarrow> schema \<Rightarrow> pyval \<Rightarrow>
    pyerror + bool" where
  "ask_registry reg name content v = bind_sum (registry_name name content) (\<lambda>n.
     case n of None \<Rightarrow> Inr False
     | Some n \<Rightarrow> (case dget reg n of None \<Rightarrow> Inr False | Some f \<Rightarrow> f v))"

definition no_type_error :: "pyerror + bool \<Rightarrow> pyerror + bool" where
  "no_type_error r = (case r of Inl (TypeError _) \<Rightarrow> Inr False | _ \<Rightarrow> r)"

definition callback :: "xenv \<Rightarrow> pyval \<Rightarrow> schema \<Rightarrow> pyval option \<Rightarrow> pyerror + bool" where
  "callback env v content name = ask_registry (xv_callbacks env) name content v"

text \<open>The \<^verbatim>\<open>try\<close> of \<^verbatim>\<open>isIn\<close> and \<^verbatim>\<open>regex\<close> covers the call, not the lookup.\<close>

definition isIn :: "xenv \<Rightarrow> pyval \<Rightarrow> schema \<Rightarrow> pyval option \<Rightarrow> pyerror + bool" where
  "isIn env v content name =
     ask_registry (map (\<lambda>(n, f). (n, no_type_error \<circ> f)) (xv_lists env)) name content v"

definition regex_validator :: "xenv \<Rightarrow> pyval \<Rightarrow> schema \<Rightarrow> pyval option \<Rightarrow> pyerror + bool" where
  "regex_validator env v content name =
     ask_registry (map (\<lambda>(n, f). (n, no_type_error \<circ> f)) (xv_regexs env)) name content v"

text \<open>A validator called with a document and the content of its node. A wrong number of parameters is a
  \<^verbatim>\<open>TypeError\<close>.\<close>

definition wrong_arity :: "pyerror + bool" where
  "wrong_arity = Inl (TypeError ''wrong number of arguments'')"

definition call_plain :: "xenv \<Rightarrow> vfun \<Rightarrow> pyval \<Rightarrow> schema \<Rightarrow> pyerror + bool" where
  "call_plain env f v content = (case f of
       F_fixed \<Rightarrow> Inr (content_is content v)
     | F_startswith \<Rightarrow> startswith v content
     | F_prefixedDec \<Rightarrow> prefixedDec v content
     | F_isBool \<Rightarrow> isBool v
     | F_isFloat \<Rightarrow> isFloat (xv_float env) v
     | F_digit \<Rightarrow> digit v
     | F_uint \<Rightarrow> uint v
     | F_callback \<Rightarrow> callback env v content None
     | F_isIn \<Rightarrow> isIn env v content None
     | F_regex \<Rightarrow> regex_validator env v content None
     | F_enum \<Rightarrow> enum v []
     | F_ienum \<Rightarrow> ienum v []
     | F_custom n \<Rightarrow> xv_custom env n v content
     | F_seqlen \<Rightarrow> wrong_arity
     | F_between \<Rightarrow> wrong_arity)"

definition call_param :: "xenv \<Rightarrow> vfun \<Rightarrow> pyval list \<Rightarrow> pyval \<Rightarrow> schema \<Rightarrow> pyerror + bool" where
  "call_param env f params v content = (case (f, params) of
       (F_enum, _) \<Rightarrow> enum v params
     | (F_ienum, _) \<Rightarrow> ienum v params
     | (F_seqlen, [a, b]) \<Rightarrow> seqlen v a b
     | (F_between, [a, b]) \<Rightarrow> between v a b
     | (F_callback, [n]) \<Rightarrow> callback env v content (Some n)
     | (F_isIn, [n]) \<Rightarrow> isIn env v content (Some n)
     | (F_regex, [n]) \<Rightarrow> regex_validator env v content (Some n)
     | (F_custom n, _) \<Rightarrow> xv_custom env n v content
     | _ \<Rightarrow> wrong_arity)"

definition call_validator :: "xenv \<Rightarrow> validator \<Rightarrow> pyval \<Rightarrow> schema \<Rightarrow> pyerror + bool" where
  "call_validator env w v content = (case w of
       Plain f \<Rightarrow> call_plain env f v content
     | Param f params \<Rightarrow> call_param env f params v content)"

section \<open>Fields\<close>

type_synonym outcome = "pyerror + bool \<times> pyval"

text \<open>\<^verbatim>\<open>_valid_len\<close>; \<open>None\<close> when there is no minimum to check.\<close>

definition valid_len :: "pyval \<Rightarrow> int option \<Rightarrow> int option \<Rightarrow> bool option" where
  "valid_len v min_len max_len = (case min_len of
       None \<Rightarrow> None
     | Some lo \<Rightarrow> (case has_length v of
           None \<Rightarrow> Some False
         | Some n \<Rightarrow> Some (\<not> int n < lo \<and> (case max_len of None \<Rightarrow> True | Some hi \<Rightarrow> \<not> hi < int n))))"

fun apply_modifiers :: "xenv \<Rightarrow> string list \<Rightarrow> pyval \<Rightarrow> pyerror + pyval" where
  "apply_modifiers env [] v = Inr v"
| "apply_modifiers env (name # names) v =
     bind_sum (case dget (xv_modifiers env) (VStr name) of
         Some f \<Rightarrow> f v
       | None \<Rightarrow> (case xv_method env v name of Some r \<Rightarrow> r | None \<Rightarrow> Inr v))
       (apply_modifiers env names)"

definition skips :: "fkind \<Rightarrow> int option \<Rightarrow> pyval \<Rightarrow> bool" where
  "skips kind min_len v = (kind = OptionalNullField \<and> v = VNone \<or>
     kind \<noteq> MandatoryField \<and> min_len = Some 0 \<and> v = VStr [])"

text \<open>\<^verbatim>\<open>_validate_field\<close> on the value of a key, given \<^verbatim>\<open>validate\<close>: the answer and the value the document has
  there afterwards.\<close>

definition field_value :: "xenv \<Rightarrow> (pyval \<Rightarrow> schema \<Rightarrow> outcome) \<Rightarrow> pyval \<Rightarrow> schema \<Rightarrow> outcome" where
  "field_value env check v s = (case s of
       SField kind content lo hi mods \<Rightarrow>
         if skips kind lo v then Inr (True, v)
         else bind_sum (apply_modifiers env mods v) (\<lambda>w.
           if skips kind lo w then Inr (True, w)
           else if valid_len w lo hi = Some False then Inr (False, w)
           else check w content)
     | _ \<Rightarrow> check v s)"

section \<open>Dictionaries\<close>

type_synonym document = "(pyval, pyval) dict"

text \<open>The loop of \<^verbatim>\<open>_validate_key_group\<close>: the keys that match, \<open>None\<close> when a field is refused.\<close>

fun group_loop :: "xenv \<Rightarrow> (pyval \<Rightarrow> schema \<Rightarrow> outcome) \<Rightarrow> schema \<Rightarrow> schema \<Rightarrow> document \<Rightarrow>
    (pyval \<times> pyval) list \<Rightarrow> pyerror + pyval list option \<times> document" where
  "group_loop env check ks vs document [] = Inr (Some [], document)"
| "group_loop env check ks vs document ((k, v) # items) = bind_sum (check k ks) (\<lambda>(b, _).
     if \<not> b then group_loop env check ks vs document items
     else bind_sum (field_value env check v vs) (\<lambda>(ok, w).
       if \<not> ok then Inr (None, dset document k w)
       else bind_sum (group_loop env check ks vs (dset document k w) items) (\<lambda>(m, d).
         Inr (map_option (Cons k) m, d))))"

text \<open>How many keys a \<^verbatim>\<open>ValidatorNode\<close> in key position has to match.\<close>

definition group_minimum :: "vmode \<Rightarrow> int option \<Rightarrow> int" where
  "group_minimum mode lo = (let m = (case lo of None \<Rightarrow> 0 | Some n \<Rightarrow> n) in
     if mode = MandatoryMode then max 1 m else m)"

definition count_ok :: "vmode \<Rightarrow> int option \<Rightarrow> int option \<Rightarrow> nat \<Rightarrow> bool" where
  "count_ok mode lo hi n = (\<not> int n < group_minimum mode lo \<and> (case hi of None \<Rightarrow> True | Some m \<Rightarrow> int n \<le> m))"

definition key_count_ok :: "schema \<Rightarrow> nat \<Rightarrow> bool" where
  "key_count_ok ks n = (case ks of SNode c v mode lo hi \<Rightarrow> count_ok mode lo hi n | _ \<Rightarrow> n = 1)"

definition is_node :: "schema \<Rightarrow> bool" where
  "is_node s = (case s of SNode _ _ _ _ _ \<Rightarrow> True | _ \<Rightarrow> False)"

definition is_optional :: "schema \<Rightarrow> bool" where
  "is_optional s = (case s of SField kind _ _ _ _ \<Rightarrow> kind \<noteq> MandatoryField | _ \<Rightarrow> False)"

text \<open>What one step of the validation of a dictionary leaves: the answer, the document, the keys left.\<close>

type_synonym dict_state = "bool \<times> document \<times> document"

definition key_group :: "xenv \<Rightarrow> (pyval \<Rightarrow> schema \<Rightarrow> outcome) \<Rightarrow> schema \<Rightarrow> schema \<Rightarrow> document \<Rightarrow> document \<Rightarrow>
    pyerror + dict_state" where
  "key_group env check ks vs document remaining =
     bind_sum (group_loop env check ks vs document remaining) (\<lambda>(m, d). case m of
        None \<Rightarrow> Inr (False, d, remaining)
      | Some matched \<Rightarrow>
          if key_count_ok ks (length matched) then Inr (True, d, fold (\<lambda>k r. ddel r k) matched remaining)
          else Inr (False, d, remaining))"

text \<open>A key that is not a validator is looked up; a fresh object is no key of a document.\<close>

definition literal_key :: "schema \<Rightarrow> pyval option" where
  "literal_key s = (case s of SVal v \<Rightarrow> Some v | _ \<Rightarrow> None)"

definition required_key :: "xenv \<Rightarrow> (pyval \<Rightarrow> schema \<Rightarrow> outcome) \<Rightarrow> schema \<Rightarrow> schema \<Rightarrow> document \<Rightarrow> document \<Rightarrow>
    pyerror + dict_state" where
  "required_key env check ks vs document remaining =
     (case literal_key ks of None \<Rightarrow> Inr (False, document, remaining)
      | Some k \<Rightarrow> (case dget remaining k of None \<Rightarrow> Inr (False, document, remaining)
          | Some v \<Rightarrow> bind_sum (field_value env check v vs) (\<lambda>(ok, w).
              Inr (ok, dset document k w, if ok then ddel remaining k else remaining))))"

definition one_entry :: "xenv \<Rightarrow> (pyval \<Rightarrow> schema \<Rightarrow> outcome) \<Rightarrow> schema \<Rightarrow> schema \<Rightarrow> document \<Rightarrow> document \<Rightarrow>
    pyerror + dict_state" where
  "one_entry env check ks vs document remaining =
     (if is_node ks then key_group env check ks vs document remaining
      else required_key env check ks vs document remaining)"

text \<open>The loops over the mandatory entries and over the generic groups.\<close>

fun entries_loop :: "xenv \<Rightarrow> (pyval \<Rightarrow> schema \<Rightarrow> outcome) \<Rightarrow> (schema \<times> schema) list \<Rightarrow> document \<Rightarrow> document \<Rightarrow>
    pyerror + dict_state" where
  "entries_loop env check [] document remaining = Inr (True, document, remaining)"
| "entries_loop env check ((ks, vs) # es) document remaining =
     bind_sum (one_entry env check ks vs document remaining) (\<lambda>(ok, d, r).
       if ok then entries_loop env check es d r else Inr (False, d, r))"

definition lookup_optional :: "(schema \<times> schema) list \<Rightarrow> pyval \<Rightarrow> schema option" where
  "lookup_optional optional k = dget optional (SVal k)"

fun optional_loop :: "xenv \<Rightarrow> (pyval \<Rightarrow> schema \<Rightarrow> outcome) \<Rightarrow> (schema \<times> schema) list \<Rightarrow> document \<Rightarrow>
    (pyval \<times> pyval) list \<Rightarrow> pyerror + bool \<times> document" where
  "optional_loop env check optional document [] = Inr (True, document)"
| "optional_loop env check optional document ((k, v) # items) =
     (case lookup_optional optional k of
        None \<Rightarrow> Inr (False, document)
      | Some vs \<Rightarrow> bind_sum (field_value env check v vs) (\<lambda>(ok, w).
          if ok then optional_loop env check optional (dset document k w) items
          else Inr (False, dset document k w)))"

text \<open>The three groups of the entries of a schema, each in the order of the schema.\<close>

definition mandatory_entry :: "schema \<times> schema \<Rightarrow> bool" where
  "mandatory_entry e = (case fst e of SNode c v mode lo hi \<Rightarrow> mode = MandatoryMode
     | _ \<Rightarrow> \<not> is_optional (snd e))"

definition generic_entry :: "schema \<times> schema \<Rightarrow> bool" where
  "generic_entry e = (is_node (fst e) \<and> \<not> mandatory_entry e)"

definition optional_entry :: "schema \<times> schema \<Rightarrow> bool" where
  "optional_entry e = (\<not> is_node (fst e) \<and> is_optional (snd e))"

definition check_dict :: "xenv \<Rightarrow> (pyval \<Rightarrow> schema \<Rightarrow> outcome) \<Rightarrow> (schema \<times> schema) list \<Rightarrow> document \<Rightarrow>
    pyerror + bool \<times> document" where
  "check_dict env check es document =
     bind_sum (entries_loop env check (filter mandatory_entry es @ filter generic_entry es) document document)
       (\<lambda>(ok, d, remaining).
          if ok then optional_loop env check (filter optional_entry es) d remaining else Inr (False, d))"

section \<open>Lists\<close>

fun merge_schemas :: "(schema, schema) dict \<Rightarrow> schema list \<Rightarrow> pyerror + (schema, schema) dict" where
  "merge_schemas d [] = Inr d"
| "merge_schemas d (s # ss) = (case s of
       SDict es \<Rightarrow> merge_schemas (foldl (\<lambda>d (k, v). skey_set d k v) d es) ss
     | _ \<Rightarrow> Inl (ValueError ''XYS mapping list schemas require mapping entries''))"

text \<open>The schema of the items of a list; \<open>None\<close> when the list has to be empty.\<close>

definition item_schema :: "schema list \<Rightarrow> pyerror + schema option" where
  "item_schema ss = (case ss of
       [] \<Rightarrow> Inr None
     | SDict es # s # ss' \<Rightarrow> bind_sum (merge_schemas [] (SDict es # s # ss')) (\<lambda>d. Inr (Some (SDict d)))
     | s # _ \<Rightarrow> Inr (Some s))"

fun items_loop :: "(pyval \<Rightarrow> outcome) \<Rightarrow> pyval list \<Rightarrow> pyerror + bool \<times> pyval list" where
  "items_loop check [] = Inr (True, [])"
| "items_loop check (v # vs) = bind_sum (check v) (\<lambda>(ok, w).
     if ok then bind_sum (items_loop check vs) (\<lambda>(ok', ws). Inr (ok', w # ws)) else Inr (False, w # vs))"

section \<open>validate\<close>

text \<open>The schemas the entries of a dictionary ask for.\<close>

definition parts :: "(schema \<times> schema) list \<Rightarrow> schema set" where
  "parts es = (\<Union>(ks, vs) \<in> set es. {ks, vs, case vs of SField _ c _ _ _ \<Rightarrow> c | _ \<Rightarrow> vs})"

lemma parts_simps [simp]:
  "parts [] = {}"
  "parts ((ks, vs) # es) = {ks, vs, case vs of SField _ c _ _ _ \<Rightarrow> c | _ \<Rightarrow> vs} \<union> parts es"
  "parts (as @ bs) = parts as \<union> parts bs"
  by (simp_all add: parts_def)

lemma parts_filter: "s \<in> parts (filter P es) \<Longrightarrow> s \<in> parts es"
  by (auto simp: parts_def)

lemma field_value_cong:
  assumes "\<And>w s. s \<in> {vs, case vs of SField _ c _ _ _ \<Rightarrow> c | _ \<Rightarrow> vs} \<Longrightarrow> f w s = g w s"
  shows "field_value env f v vs = field_value env g v vs"
  using assms by (cases vs) (auto simp: field_value_def bind_sum_def split: sum.splits)

lemma group_loop_cong:
  assumes "\<And>w s. s \<in> parts [(ks, vs)] \<Longrightarrow> f w s = g w s"
  shows "group_loop env f ks vs d items = group_loop env g ks vs d items"
proof (induction items arbitrary: d)
  case (Cons a items)
  have "f (fst a) ks = g (fst a) ks" using assms by simp
  moreover have "field_value env f (snd a) vs = field_value env g (snd a) vs"
    by (rule field_value_cong) (use assms in auto)
  ultimately show ?case using Cons.IH by (cases a) (simp add: bind_sum_def split: sum.splits)
qed simp

lemma one_entry_cong:
  assumes "\<And>w s. s \<in> parts [(ks, vs)] \<Longrightarrow> f w s = g w s"
  shows "one_entry env f ks vs d r = one_entry env g ks vs d r"
proof -
  have "field_value env f v vs = field_value env g v vs" for v
    by (rule field_value_cong) (use assms in auto)
  moreover have "group_loop env f ks vs d r = group_loop env g ks vs d r"
    by (rule group_loop_cong [OF assms])
  ultimately show ?thesis by (simp add: one_entry_def key_group_def required_key_def cong: option.case_cong)
qed

lemma entries_loop_cong:
  assumes "\<And>w s. s \<in> parts es \<Longrightarrow> f w s = g w s"
  shows "entries_loop env f es d r = entries_loop env g es d r"
  using assms
proof (induction es arbitrary: d r)
  case (Cons e es)
  obtain ks vs where e: "e = (ks, vs)" by (cases e)
  have "one_entry env f ks vs d r = one_entry env g ks vs d r" for d r
    by (rule one_entry_cong) (use Cons.prems e in auto)
  moreover have "entries_loop env f es d r = entries_loop env g es d r" for d r
    by (rule Cons.IH) (use Cons.prems e in auto)
  ultimately show ?case by (simp add: e cong: if_cong)
qed simp

lemma lookup_optional_parts: "lookup_optional es k = Some vs \<Longrightarrow> (SVal k, vs) \<in> set es"
  by (auto simp: lookup_optional_def dget_def dest: map_of_SomeD)

lemma optional_loop_cong:
  assumes "\<And>w s. s \<in> parts es \<Longrightarrow> f w s = g w s"
  shows "optional_loop env f es d items = optional_loop env g es d items"
proof (induction items arbitrary: d)
  case (Cons a items)
  have "field_value env f v vs = field_value env g v vs" if "lookup_optional es k = Some vs" for k v vs
    by (rule field_value_cong) (use assms lookup_optional_parts [OF that] in \<open>force simp: parts_def\<close>)
  with Cons.IH show ?case by (cases a) (simp cong: option.case_cong if_cong)
qed simp

lemma check_dict_cong [fundef_cong]:
  assumes "env = env'" "es = es'" "d = d'" "\<And>w s. s \<in> parts es' \<Longrightarrow> f w s = g w s"
  shows "check_dict env f es d = check_dict env' g es' d'"
proof -
  let ?o = "filter mandatory_entry es' @ filter generic_entry es'"
  have "entries_loop env' f ?o d' d' = entries_loop env' g ?o d' d'"
    by (rule entries_loop_cong, rule assms(4)) (auto dest: parts_filter)
  moreover have "optional_loop env' f (filter optional_entry es') d r = optional_loop env' g (filter optional_entry es') d r" for d r
    by (rule optional_loop_cong, rule assms(4)) (auto dest: parts_filter)
  ultimately show ?thesis by (simp add: check_dict_def assms(1-3) cong: if_cong)
qed

lemma items_loop_cong [fundef_cong]:
  "vs = vs' \<Longrightarrow> (\<And>v. v \<in> set vs' \<Longrightarrow> f v = g v) \<Longrightarrow> items_loop f vs = items_loop g vs'"
  by (induction vs arbitrary: vs') (auto cong: if_cong)

text \<open>Sizes: the parts of a dictionary and the item schema of a list are smaller.\<close>

lemma parts_size: "s \<in> parts es \<Longrightarrow> size s < size (SDict es)"
  by (induction es) (auto split: schema.splits)

lemma size_dset: "size_list (size_prod size size) (dset d k v) \<le>
    size_list (size_prod size size) d + size_list (size_prod size size) [(k, v)]"
  for d :: "(schema, schema) dict"
  by (induction d) (auto simp: dset_Cons)

lemma size_skey_set: "size_list (size_prod size size) (skey_set d k v) \<le>
    size_list (size_prod size size) d + size_list (size_prod size size) [(k, v)]"
  for d :: "(schema, schema) dict"
  using size_dset [of d k v] by (simp add: skey_set_def)

lemma size_update: "size_list (size_prod size size) (foldl (\<lambda>d (k, v). skey_set d k v) d es) \<le>
    size_list (size_prod size size) d + size_list (size_prod size size) es"
  for d :: "(schema, schema) dict"
proof (induction es arbitrary: d)
  case (Cons e es)
  show ?case using Cons.IH [of "skey_set d (fst e) (snd e)"] size_skey_set [of d "fst e" "snd e"]
    by (cases e) simp
qed simp

lemma size_merge: "merge_schemas d ss = Inr d' \<Longrightarrow>
    size_list (size_prod size size) d' + length ss \<le> size_list (size_prod size size) d + size_list size ss"
proof (induction d ss arbitrary: d' rule: merge_schemas.induct)
  case (2 d s ss)
  then obtain es where s: "s = SDict es"
    and "merge_schemas (foldl (\<lambda>d (k, v). skey_set d k v) d es) ss = Inr d'"
    by (auto split: schema.splits)
  from "2.IH" [OF this] size_update [of d es] show ?case by (simp add: s)
qed simp

lemma item_schema_size: "item_schema ss = Inr (Some s) \<Longrightarrow> size s < size (SList ss)"
  by (auto simp: item_schema_def err_simps simp del: merge_schemas.simps split: list.splits schema.splits
      dest!: size_merge)

text \<open>\<open>schema.__class__ == document.__class__\<close> for the values of a schema.\<close>

definition same_class :: "pyval \<Rightarrow> pyval \<Rightarrow> bool" where
  "same_class a b = (case (a, b) of (VNone, VNone) \<Rightarrow> True | (VBool _, VBool _) \<Rightarrow> True
     | (VInt _, VInt _) \<Rightarrow> True | (VStr _, VStr _) \<Rightarrow> True | (VBytes _, VBytes _) \<Rightarrow> True
     | (VList _, VList _) \<Rightarrow> True | (VTuple _, VTuple _) \<Rightarrow> True | (VDict _, VDict _) \<Rightarrow> True | _ \<Rightarrow> False)"

function validate :: "xenv \<Rightarrow> pyval \<Rightarrow> schema \<Rightarrow> outcome" where
  "validate env v (SNode content w mode lo hi) =
     (case validate env v content of
        Inl e \<Rightarrow> Inl e
      | Inr (ok, v') \<Rightarrow> if \<not> ok then Inr (False, v')
          else bind_sum (call_validator env w v' content) (\<lambda>b. Inr (b, v')))"
| "validate env v (SDict es) =
     (case v of
        VDict d \<Rightarrow> bind_sum (check_dict env (validate env) es d) (\<lambda>(ok, d'). Inr (ok, VDict d'))
      | _ \<Rightarrow> Inr (False, v))"
| "validate env v (SList ss) =
     (case v of
        VList vs \<Rightarrow> (case item_schema ss of
            Inl e \<Rightarrow> Inl e
          | Inr None \<Rightarrow> Inr (vs = [], v)
          | Inr (Some s) \<Rightarrow> bind_sum (items_loop (\<lambda>x. validate env x s) vs) (\<lambda>(ok, ws). Inr (ok, VList ws)))
      | _ \<Rightarrow> Inr (False, v))"
| "validate env v SAny = Inr (True, v)"
| "validate env v SScalar = Inr (is_scalar v, v)"
| "validate env v (SVal x) = Inr (same_class x v, v)"
| "validate env v (SField kind c lo hi mods) = Inr (False, v)"
  by pat_completeness auto
termination
  by (relation "measure (\<lambda>(env, v, s). size s)") (auto dest: parts_size item_schema_size)

end
