(* ===== verification/Xys_Properties.thy ===== *)
theory Xys_Properties
  imports Xys_Validate
begin

text \<open>
  What schemas mean: a dictionary is accepted exactly when its keys can be shared out among the entries
  of the schema, each taken by the first entry that accepts it; validation without modifiers leaves the
  document alone; compiled schemas are well formed; and the notation of keys is read as it is written.
\<close>

section \<open>Documents and their updates\<close>

text \<open>New values for some keys of a document, all its keys staying where they are.\<close>

definition overwrite :: "document \<Rightarrow> (pyval \<Rightarrow> pyval option) \<Rightarrow> document" where
  "overwrite d f = map (\<lambda>(k, v). (k, case f k of None \<Rightarrow> v | Some w \<Rightarrow> w)) d"

lemma overwrite_simps [simp]:
  "overwrite [] f = []"
  "overwrite ((k, v) # d) f = (k, case f k of None \<Rightarrow> v | Some w \<Rightarrow> w) # overwrite d f"
  by (simp_all add: overwrite_def)

lemma overwrite_None: "overwrite d (\<lambda>k. None) = d"
  by (auto simp: overwrite_def intro: map_idI)

lemma overwrite_keys [simp]: "dkeys (overwrite d f) = dkeys d" "dhas (overwrite d f) k = dhas d k"
    "dict_ok (overwrite d f) = dict_ok d"
proof -
  have m: "map fst (overwrite d f) = map fst d" by (auto simp: overwrite_def)
  then show k: "dkeys (overwrite d f) = dkeys d" by (simp add: dkeys_def)
  then show "dhas (overwrite d f) k = dhas d k" by (simp add: dhas_keys)
  show "dict_ok (overwrite d f) = dict_ok d" by (simp add: dict_ok_def m)
qed

lemma overwrite_twice: "overwrite (overwrite d f) g = overwrite d (f ++ g)"
  by (auto simp: overwrite_def map_add_def split: option.splits)

lemma overwrite_cong: "(\<And>k. k \<in> set (dkeys d) \<Longrightarrow> f k = g k) \<Longrightarrow> overwrite d f = overwrite d g"
  by (force simp: overwrite_def dkeys_def)

lemma dset_overwrite: "dict_ok d \<Longrightarrow> dhas d k \<Longrightarrow> dset d k w = overwrite d [k \<mapsto> w]"
proof (induction d)
  case (Cons a d)
  obtain j v where a: "a = (j, v)" by (cases a)
  from Cons.prems(1) have d: "dict_ok d" "j \<notin> set (dkeys d)" by (auto simp: a dict_ok_def dkeys_def)
  show ?case
  proof (cases "j = k")
    case True
    have "overwrite d [k \<mapsto> w] = overwrite d (\<lambda>k. None)"
      by (rule overwrite_cong) (use d True in auto)
    then show ?thesis using True by (simp add: a dset_Cons overwrite_None fun_upd_def)
  next
    case False
    with Cons d show ?thesis by (simp add: a dset_Cons dhas_Cons)
  qed
qed simp

lemma dict_ok_Cons: "dict_ok ((k, v) # d) = (k \<notin> set (dkeys d) \<and> dict_ok d)"
  by (auto simp: dict_ok_def dkeys_def)

lemma dict_ok_filter: "dict_ok d \<Longrightarrow> dict_ok (filter P d)"
  by (auto simp: dict_ok_def intro: distinct_map_filter)

lemma dhas_filter: "dhas (filter P d) k \<Longrightarrow> dhas d k"
  by (auto simp: dhas_keys dkeys_def)

lemma dget_in: "dict_ok d \<Longrightarrow> (dget d k = Some v) = ((k, v) \<in> set d)"
  by (simp add: dget_def dict_ok_def)

lemma dget_filter: "dict_ok d \<Longrightarrow> dget (filter P d) k =
    (case dget d k of None \<Rightarrow> None | Some v \<Rightarrow> if P (k, v) then Some v else None)"
  by (induction d) (auto simp: dget_Cons dict_ok_Cons dhas_keys [symmetric] dhas_def split: option.splits if_splits)

lemma ddel_filter: "dict_ok d \<Longrightarrow> ddel d k = filter (\<lambda>(j, v). j \<noteq> k) d"
  by (simp add: ddel_def AList.delete_eq split_def eq_commute [of k])

section \<open>Which entry takes a key\<close>

definition takes :: "(pyval \<Rightarrow> schema \<Rightarrow> outcome) \<Rightarrow> schema \<Rightarrow> pyval \<Rightarrow> pyerror + bool" where
  "takes check ks k = (if is_node ks then bind_sum (check k ks) (\<lambda>(b, _). Inr b)
     else Inr (literal_key ks = Some k))"

text \<open>The first of the entries that takes a key, the answers before it being no.\<close>

fun claimant :: "(pyval \<Rightarrow> schema \<Rightarrow> outcome) \<Rightarrow> (schema \<times> schema) list \<Rightarrow> pyval \<Rightarrow> pyerror + nat option" where
  "claimant check [] k = Inr None"
| "claimant check (e # es) k = bind_sum (takes check (fst e) k) (\<lambda>b.
     if b then Inr (Some 0) else bind_sum (claimant check es k) (\<lambda>c. Inr (map_option Suc c)))"

definition claimed :: "(pyval \<Rightarrow> schema \<Rightarrow> outcome) \<Rightarrow> (schema \<times> schema) list \<Rightarrow> document \<Rightarrow> nat \<Rightarrow> nat" where
  "claimed check es d i = length (filter (\<lambda>(k, v). claimant check es k = Inr (Some i)) d)"

text \<open>The check of a value by the entry that takes its key; \<open>None\<close> when no entry does.\<close>

definition entry_value :: "xenv \<Rightarrow> (pyval \<Rightarrow> schema \<Rightarrow> outcome) \<Rightarrow> (schema \<times> schema) list \<Rightarrow> pyval \<Rightarrow> pyval \<Rightarrow>
    outcome option" where
  "entry_value env check es k v = (case claimant check es k of
       Inl e \<Rightarrow> Some (Inl e) | Inr None \<Rightarrow> None | Inr (Some i) \<Rightarrow> Some (field_value env check v (snd (es ! i))))"

definition accepted :: "outcome \<Rightarrow> pyval option" where
  "accepted r = (case r of Inr (True, w) \<Rightarrow> Some w | _ \<Rightarrow> None)"

lemma accepted_iff: "(accepted r = Some w) = (r = Inr (True, w))" "(accepted r = None) = (\<forall>w. r \<noteq> Inr (True, w))"
  by (auto simp: accepted_def split: sum.splits bool.splits)

lemma entry_value_simps:
  "entry_value env check [] k v = None"
  "entry_value env check (e # es) k v = (case takes check (fst e) k of
      Inl x \<Rightarrow> Some (Inl x) | Inr b \<Rightarrow> if b then Some (field_value env check v (snd e)) else entry_value env check es k v)"
  by (auto simp: entry_value_def bind_sum_def split: sum.splits option.splits)

lemma claimed_simps:
  "claimed check (e # es) d 0 = length (filter (\<lambda>(k, v). takes check (fst e) k = Inr True) d)"
  "claimed check (e # es) d (Suc i) =
     claimed check es (filter (\<lambda>(k, v). takes check (fst e) k = Inr False) d) i"
proof -
  show "claimed check (e # es) d 0 = length (filter (\<lambda>(k, v). takes check (fst e) k = Inr True) d)"
    unfolding claimed_def by (rule arg_cong [where f = length], rule filter_cong) (auto simp: err_simps)
  show "claimed check (e # es) d (Suc i) =
      claimed check es (filter (\<lambda>(k, v). takes check (fst e) k = Inr False) d) i"
    unfolding claimed_def filter_filter
    by (rule arg_cong [where f = length], rule filter_cong) (auto simp: err_simps)
qed

section \<open>The loops, one by one\<close>

abbreviation taken :: "(pyval \<Rightarrow> schema \<Rightarrow> outcome) \<Rightarrow> schema \<Rightarrow> pyval \<Rightarrow> bool" where
  "taken check ks k \<equiv> takes check ks k = Inr True"

text \<open>The values an entry gives to the keys it takes.\<close>

definition entry_map :: "xenv \<Rightarrow> (pyval \<Rightarrow> schema \<Rightarrow> outcome) \<Rightarrow> schema \<Rightarrow> schema \<Rightarrow> document \<Rightarrow> pyval \<Rightarrow> pyval option" where
  "entry_map env check ks vs items k = (case dget items k of None \<Rightarrow> None
     | Some v \<Rightarrow> if taken check ks k then accepted (field_value env check v vs) else None)"

definition entry_fine :: "xenv \<Rightarrow> (pyval \<Rightarrow> schema \<Rightarrow> outcome) \<Rightarrow> schema \<Rightarrow> schema \<Rightarrow> pyval \<times> pyval \<Rightarrow> bool" where
  "entry_fine env check ks vs = (\<lambda>(k, v). takes check ks k = Inr False \<or>
     taken check ks k \<and> accepted (field_value env check v vs) \<noteq> None)"

lemma group_loop_iff:
  assumes "is_node ks" "dict_ok items" "dict_ok document" "\<And>k. dhas items k \<Longrightarrow> dhas document k"
  shows "group_loop env check ks vs document items = Inr (Some m, d') \<longleftrightarrow>
    list_all (entry_fine env check ks vs) items \<and> m = map fst (filter (\<lambda>(k, v). taken check ks k) items) \<and>
    d' = overwrite document (entry_map env check ks vs items)"
  using assms(2-)
proof (induction items arbitrary: document m d')
  case Nil
  then show ?case by (auto simp: entry_map_def overwrite_None)
next
  case (Cons a items)
  obtain k v where a: "a = (k, v)" by (cases a)
  have nk: "dget items k = None" and ok: "dict_ok items"
    using Cons.prems(1) by (auto simp: a dict_ok_Cons dhas_keys [symmetric] dhas_def)
  have hk: "dhas document k" and hs: "\<And>j. dhas items j \<Longrightarrow> dhas document j"
    using Cons.prems(3) by (auto simp: a dhas_Cons)
  consider (err) e where "takes check ks k = Inl e" | (no) "takes check ks k = Inr False"
    | (yes) "takes check ks k = Inr True" by (cases "takes check ks k") auto
  then show ?case
  proof cases
    case err
    then show ?thesis using assms(1)
      by (auto simp: a takes_def entry_fine_def bind_sum_def split: sum.splits)
  next
    case no
    then obtain x where c: "check k ks = Inr (False, x)" using assms(1) by (auto simp: takes_def err_simps)
    have "entry_map env check ks vs (a # items) = entry_map env check ks vs items"
      using no nk by (auto simp: entry_map_def a dget_Cons fun_eq_iff)
    then show ?thesis using no Cons.IH [OF ok Cons.prems(2) hs]
      by (simp add: a c bind_sum_simps entry_fine_def)
  next
    case yes
    then obtain x where c: "check k ks = Inr (True, x)" using assms(1) by (auto simp: takes_def err_simps)
    show ?thesis
    proof (cases "accepted (field_value env check v vs)")
      case None
      then show ?thesis using yes
        by (auto simp: a c err_simps entry_fine_def accepted_iff split: if_splits)
    next
      case (Some w)
      then have f: "field_value env check v vs = Inr (True, w)" by (simp add: accepted_iff)
      have "overwrite (dset document k w) (entry_map env check ks vs items) =
          overwrite document (entry_map env check ks vs (a # items))"
        unfolding dset_overwrite [OF Cons.prems(2) hk] overwrite_twice
        by (rule overwrite_cong) (auto simp: entry_map_def a dget_Cons map_add_def yes nk Some split: option.splits)
      moreover have "entry_fine env check ks vs a" using yes Some by (simp add: entry_fine_def a)
      moreover have "group_loop env check ks vs document (a # items) = Inr (Some m, d') \<longleftrightarrow>
          (\<exists>m'. m = k # m' \<and> group_loop env check ks vs (dset document k w) items = Inr (Some m', d'))"
        by (auto simp: a c f bind_sum_simps err_simps)
      moreover have "dhas (dset document k w) j" if "dhas items j" for j using hs [OF that] by simp
      ultimately show ?thesis using yes Cons.IH [OF ok _, of "dset document k w"] Cons.prems(2)
        by (auto simp: a)
    qed
  qed
qed

lemma fold_ddel: "dict_ok d \<Longrightarrow> fold (\<lambda>k r. ddel r k) ks d = filter (\<lambda>(j, v). j \<notin> set ks) d"
proof (induction ks arbitrary: d)
  case (Cons k ks)
  have "fold (\<lambda>k r. ddel r k) ks (ddel d k) = filter (\<lambda>(j, v). j \<notin> set ks) (ddel d k)"
    by (rule Cons.IH) (use Cons.prems in simp)
  then show ?case by (simp add: ddel_filter [OF Cons.prems] case_prod_unfold conj_commute)
qed simp

lemma fine_takes: "entry_fine env check ks vs (k, v) \<Longrightarrow> takes check ks k = Inr False \<or> taken check ks k"
  by (auto simp: entry_fine_def)

lemma key_group_iff:
  assumes n: "is_node ks" and r: "dict_ok r" "dict_ok d" "\<And>k. dhas r k \<Longrightarrow> dhas d k"
  shows "key_group env check ks vs d r = Inr (True, d', r') \<longleftrightarrow>
    list_all (entry_fine env check ks vs) r \<and>
    key_count_ok ks (length (filter (\<lambda>(k, v). taken check ks k) r)) \<and>
    r' = filter (\<lambda>(k, v). \<not> taken check ks k) r \<and> d' = overwrite d (entry_map env check ks vs r)"
proof -
  have "fold (\<lambda>k r. ddel r k) (map fst (filter (\<lambda>(k, v). taken check ks k) r)) r =
      filter (\<lambda>(k, v). \<not> taken check ks k) r"
    unfolding fold_ddel [OF r(1)] by (rule filter_cong) force+
  moreover have "key_group env check ks vs d r = Inr (True, d', r') \<longleftrightarrow>
     (\<exists>m. group_loop env check ks vs d r = Inr (Some m, d') \<and> key_count_ok ks (length m) \<and>
        r' = fold (\<lambda>k r. ddel r k) m r)"
    by (auto simp: key_group_def err_simps split: option.splits if_splits)
  ultimately show ?thesis by (auto simp: group_loop_iff [OF n r])
qed

lemma count_key: "dict_ok r \<Longrightarrow> length (filter (\<lambda>(j, v). j = k) r) = (if dhas r k then 1 else 0)"
  by (induction r) (auto simp: dict_ok_Cons dhas_Cons dhas_keys [symmetric])

lemma required_key_iff:
  assumes n: "\<not> is_node ks" and r: "dict_ok r" "dict_ok d" "\<And>k. dhas r k \<Longrightarrow> dhas d k"
  shows "required_key env check ks vs d r = Inr (True, d', r') \<longleftrightarrow>
    list_all (entry_fine env check ks vs) r \<and>
    key_count_ok ks (length (filter (\<lambda>(k, v). taken check ks k) r)) \<and>
    r' = filter (\<lambda>(k, v). \<not> taken check ks k) r \<and> d' = overwrite d (entry_map env check ks vs r)"
proof -
  have c: "key_count_ok ks m = (m = 1)" for m using n by (auto simp: key_count_ok_def is_node_def split: schema.splits)
  have t: "takes check ks k = Inr (literal_key ks = Some k)" for k using n by (simp add: takes_def)
  show ?thesis
  proof (cases "literal_key ks")
    case None
    then show ?thesis by (simp add: required_key_def c t)
  next
    case (Some k)
    have one: "length (filter (\<lambda>(j, v). taken check ks j) r) = (if dhas r k then 1 else 0)"
      using count_key [OF r(1), of k] Some by (simp add: t eq_commute [of k])
    show ?thesis
    proof (cases "dget r k")
      case None
      then show ?thesis using Some by (simp add: required_key_def c one dhas_def)
    next
      case v: (Some v)
      have "list_all (entry_fine env check ks vs) r = (accepted (field_value env check v vs) \<noteq> None)"
        using v dget_in [OF r(1)] Some
        by (auto simp: list_all_iff entry_fine_def t split: prod.splits) (metis option.inject)
      moreover have "dset d k w = overwrite d (entry_map env check ks vs r)"
        if a: "accepted (field_value env check v vs) = Some w" for w
      proof -
        have h: "dhas d k" using r(3) [of k] v by (simp add: dhas_def)
        show ?thesis unfolding dset_overwrite [OF r(2) h]
          by (rule overwrite_cong) (auto simp: entry_map_def t v a Some split: option.splits)
      qed
      ultimately show ?thesis using Some v
        using count_key [OF r(1), of k]
        by (auto simp: required_key_def c dhas_def err_simps accepted_iff t ddel_filter [OF r(1)]
            eq_commute [of k] split: if_splits)
    qed
  qed
qed

lemma one_entry_iff:
  assumes r: "dict_ok r" "dict_ok d" "\<And>k. dhas r k \<Longrightarrow> dhas d k"
  shows "one_entry env check ks vs d r = Inr (True, d', r') \<longleftrightarrow>
    list_all (entry_fine env check ks vs) r \<and>
    key_count_ok ks (length (filter (\<lambda>(k, v). taken check ks k) r)) \<and>
    r' = filter (\<lambda>(k, v). \<not> taken check ks k) r \<and> d' = overwrite d (entry_map env check ks vs r)"
  using key_group_iff [OF _ r] required_key_iff [OF _ r] by (cases "is_node ks") (auto simp: one_entry_def)

text \<open>What the entries leave: every key is taken by no entry, or by one that accepts its value.\<close>

definition entries_fine :: "xenv \<Rightarrow> (pyval \<Rightarrow> schema \<Rightarrow> outcome) \<Rightarrow> (schema \<times> schema) list \<Rightarrow> pyval \<times> pyval \<Rightarrow> bool" where
  "entries_fine env check es = (\<lambda>(k, v). case entry_value env check es k v of None \<Rightarrow> True
     | Some r \<Rightarrow> accepted r \<noteq> None)"

definition entries_map :: "xenv \<Rightarrow> (pyval \<Rightarrow> schema \<Rightarrow> outcome) \<Rightarrow> (schema \<times> schema) list \<Rightarrow> document \<Rightarrow> pyval \<Rightarrow> pyval option" where
  "entries_map env check es r k = (case dget r k of None \<Rightarrow> None
     | Some v \<Rightarrow> (case entry_value env check es k v of None \<Rightarrow> None | Some x \<Rightarrow> accepted x))"

definition counts_ok :: "(pyval \<Rightarrow> schema \<Rightarrow> outcome) \<Rightarrow> (schema \<times> schema) list \<Rightarrow> document \<Rightarrow> bool" where
  "counts_ok check es r = (\<forall>i < length es. key_count_ok (fst (es ! i)) (claimed check es r i))"

lemma counts_ok_Cons: "counts_ok check (e # es) r =
    (key_count_ok (fst e) (length (filter (\<lambda>(k, v). taken check (fst e) k) r)) \<and>
     counts_ok check es (filter (\<lambda>(k, v). takes check (fst e) k = Inr False) r))"
  by (simp add: counts_ok_def claimed_simps All_less_Suc2)

lemma entries_fine_Cons: "entries_fine env check ((ks, vs) # es) (k, v) = (case takes check ks k of Inl x \<Rightarrow> False
    | Inr b \<Rightarrow> if b then accepted (field_value env check v vs) \<noteq> None else entries_fine env check es (k, v))"
  by (simp add: entries_fine_def entry_value_simps accepted_def split: sum.splits)

lemma entries_loop_iff:
  assumes "dict_ok r" "dict_ok d" "\<And>k. dhas r k \<Longrightarrow> dhas d k"
  shows "entries_loop env check es d r = Inr (True, d', r') \<longleftrightarrow>
    list_all (entries_fine env check es) r \<and> counts_ok check es r \<and>
    r' = filter (\<lambda>(k, v). entry_value env check es k v = None) r \<and>
    d' = overwrite d (entries_map env check es r)"
  using assms
proof (induction es arbitrary: d r)
  case Nil
  have "entries_map env check [] r = (\<lambda>k. None)"
    by (auto simp: entries_map_def entry_value_simps fun_eq_iff split: option.splits)
  then show ?case
    by (auto simp: entries_fine_def entry_value_simps counts_ok_def overwrite_None list_all_iff)
next
  case (Cons e es)
  obtain ks vs where e: "e = (ks, vs)" by (cases e)
  let ?r = "filter (\<lambda>(k, v). \<not> taken check ks k) r" and ?d = "overwrite d (entry_map env check ks vs r)"
  have step: "entries_loop env check (e # es) d r = Inr (True, d', r') \<longleftrightarrow>
     list_all (entry_fine env check ks vs) r \<and>
     key_count_ok ks (length (filter (\<lambda>(k, v). taken check ks k) r)) \<and>
     entries_loop env check es ?d ?r = Inr (True, d', r')"
    using one_entry_iff [OF Cons.prems, of env check ks vs] by (auto simp: e err_simps split: if_splits)
  show ?case
  proof (cases "list_all (entry_fine env check ks vs) r")
    case False
    then have "\<not> list_all (entries_fine env check (e # es)) r"
      by (force simp: list_all_iff entries_fine_Cons entry_fine_def e split: sum.splits)
    with step False show ?thesis by simp
  next
    case True
    have t: "takes check ks k = Inr False \<or> taken check ks k" if "(k, v) \<in> set r" for k v
      using True that fine_takes by (fastforce simp: list_all_iff)
    have f: "filter (\<lambda>(k, v). takes check ks k = Inr False) r = ?r"
      by (rule filter_cong) (use t in auto)
    have fine: "list_all (entries_fine env check (e # es)) r = list_all (entries_fine env check es) ?r"
      using True by (force simp: list_all_iff entries_fine_Cons entry_fine_def e split: sum.splits if_splits)
    have left: "filter (\<lambda>(k, v). entry_value env check es k v = None) ?r =
        filter (\<lambda>(k, v). entry_value env check (e # es) k v = None) r"
      unfolding filter_filter by (rule filter_cong) (use t in \<open>force simp: entry_value_simps e split: sum.splits if_splits\<close>)+
    have over: "overwrite ?d (entries_map env check es ?r) = overwrite d (entries_map env check (e # es) r)"
      unfolding overwrite_twice
    proof (rule overwrite_cong)
      fix k
      show "(entry_map env check ks vs r ++ entries_map env check es ?r) k = entries_map env check (e # es) r k"
      proof (cases "dget r k")
        case None
        then show ?thesis by (simp add: map_add_def entries_map_def entry_map_def dget_filter [OF Cons.prems(1)])
      next
        case (Some v)
        then have "(k, v) \<in> set r" using dget_in [OF Cons.prems(1)] by simp
        from t [OF this] Some show ?thesis
          by (auto simp: map_add_def entries_map_def entry_map_def dget_filter [OF Cons.prems(1)]
              entry_value_simps e split: option.splits)
      qed
    qed
    have h: "dhas ?d k" if "dhas ?r k" for k
      using dhas_filter [OF that] Cons.prems(3) by simp
    have "entries_loop env check es ?d ?r = Inr (True, d', r') \<longleftrightarrow>
        list_all (entries_fine env check es) ?r \<and> counts_ok check es ?r \<and>
        r' = filter (\<lambda>(k, v). entry_value env check es k v = None) ?r \<and>
        d' = overwrite ?d (entries_map env check es ?r)"
      by (rule Cons.IH) (use Cons.prems h dict_ok_filter in auto)
    moreover have "counts_ok check (e # es) r =
        (key_count_ok ks (length (filter (\<lambda>(k, v). taken check ks k) r)) \<and> counts_ok check es ?r)"
      unfolding counts_ok_Cons e fst_conv f ..
    ultimately show ?thesis unfolding left over step fine using True by auto
  qed
qed

definition optional_fine :: "xenv \<Rightarrow> (pyval \<Rightarrow> schema \<Rightarrow> outcome) \<Rightarrow> (schema \<times> schema) list \<Rightarrow> pyval \<times> pyval \<Rightarrow> pyval option" where
  "optional_fine env check os = (\<lambda>(k, v). case lookup_optional os k of None \<Rightarrow> None
     | Some vs \<Rightarrow> accepted (field_value env check v vs))"

lemma optional_loop_iff:
  assumes "dict_ok r" "dict_ok d" "\<And>k. dhas r k \<Longrightarrow> dhas d k"
  shows "optional_loop env check os d r = Inr (True, d') \<longleftrightarrow>
    list_all (\<lambda>a. optional_fine env check os a \<noteq> None) r \<and>
    d' = overwrite d (\<lambda>k. case dget r k of None \<Rightarrow> None | Some v \<Rightarrow> optional_fine env check os (k, v))"
  using assms
proof (induction r arbitrary: d)
  case Nil
  then show ?case by (auto simp: overwrite_None)
next
  case (Cons a r)
  obtain k v where a: "a = (k, v)" by (cases a)
  have nk: "dget r k = None" and ok: "dict_ok r"
    using Cons.prems(1) by (auto simp: a dict_ok_Cons dhas_keys [symmetric] dhas_def)
  have hk: "dhas d k" and hs: "\<And>j. dhas r j \<Longrightarrow> dhas d j" using Cons.prems(3) by (auto simp: a dhas_Cons)
  show ?case
  proof (cases "optional_fine env check os (k, v)")
    case None
    then show ?thesis
      by (auto simp: a optional_fine_def err_simps accepted_iff split: option.splits if_splits)
  next
    case (Some w)
    then obtain vs where vs: "lookup_optional os k = Some vs" "field_value env check v vs = Inr (True, w)"
      by (auto simp: optional_fine_def accepted_iff split: option.splits)
    have "overwrite (dset d k w) (\<lambda>j. case dget r j of None \<Rightarrow> None | Some v \<Rightarrow> optional_fine env check os (j, v)) =
        overwrite d (\<lambda>j. case dget (a # r) j of None \<Rightarrow> None | Some v \<Rightarrow> optional_fine env check os (j, v))"
      unfolding dset_overwrite [OF Cons.prems(2) hk] overwrite_twice
      by (rule overwrite_cong) (auto simp: a dget_Cons map_add_def nk Some split: option.splits)
    moreover have "optional_loop env check os (dset d k w) r = Inr (True, d') \<longleftrightarrow>
        list_all (\<lambda>a. optional_fine env check os a \<noteq> None) r \<and>
        d' = overwrite (dset d k w) (\<lambda>j. case dget r j of None \<Rightarrow> None | Some v \<Rightarrow> optional_fine env check os (j, v))"
      by (rule Cons.IH) (use ok Cons.prems(2) hs in auto)
    ultimately show ?thesis using vs Some by (simp add: a bind_sum_simps)
  qed
qed

section \<open>What a dictionary schema means\<close>

text \<open>The entries that take keys in turn: literal mandatory keys and mandatory groups in the order of the
  schema, then the other groups; the optional keys get what is left.\<close>

definition in_order :: "(schema \<times> schema) list \<Rightarrow> (schema \<times> schema) list" where
  "in_order es = filter mandatory_entry es @ filter generic_entry es"

definition key_result :: "xenv \<Rightarrow> (pyval \<Rightarrow> schema \<Rightarrow> outcome) \<Rightarrow> (schema \<times> schema) list \<Rightarrow> pyval \<Rightarrow> pyval \<Rightarrow> outcome" where
  "key_result env check es k v = (case entry_value env check (in_order es) k v of
       Some r \<Rightarrow> r
     | None \<Rightarrow> (case lookup_optional (filter optional_entry es) k of
           None \<Rightarrow> Inr (False, v) | Some vs \<Rightarrow> field_value env check v vs))"

lemma check_dict_iff:
  assumes "dict_ok d"
  shows "check_dict env check es d = Inr (True, d') \<longleftrightarrow>
    list_all (\<lambda>(k, v). accepted (key_result env check es k v) \<noteq> None) d \<and> counts_ok check (in_order es) d \<and>
    d' = overwrite d (\<lambda>k. case dget d k of None \<Rightarrow> None | Some v \<Rightarrow> accepted (key_result env check es k v))"
proof -
  let ?os = "filter optional_entry es" and ?f = "entries_map env check (in_order es) d"
  let ?r = "filter (\<lambda>(k, v). entry_value env check (in_order es) k v = None) d"
  have opt: "optional_fine env check ?os (k, v) = accepted (key_result env check es k v)"
    if "entry_value env check (in_order es) k v = None" for k v
    using that by (auto simp: optional_fine_def key_result_def accepted_def split: option.splits)
  have fine: "entries_fine env check (in_order es) (k, v) = (accepted (key_result env check es k v) \<noteq> None)"
    if "entry_value env check (in_order es) k v \<noteq> None" for k v
    using that by (auto simp: entries_fine_def key_result_def)
  have all: "(list_all (entries_fine env check (in_order es)) d \<and>
      list_all (\<lambda>a. optional_fine env check ?os a \<noteq> None) ?r) =
      list_all (\<lambda>(k, v). accepted (key_result env check es k v) \<noteq> None) d"
    using opt fine by (fastforce simp: list_all_iff entries_fine_def split: option.splits)
  have over: "overwrite (overwrite d ?f) (\<lambda>k. case dget ?r k of None \<Rightarrow> None | Some v \<Rightarrow> optional_fine env check ?os (k, v)) =
      overwrite d (\<lambda>k. case dget d k of None \<Rightarrow> None | Some v \<Rightarrow> accepted (key_result env check es k v))"
    unfolding overwrite_twice
    by (rule overwrite_cong)
      (auto simp: map_add_def entries_map_def dget_filter [OF assms] opt key_result_def split: option.splits)
  have "optional_loop env check ?os (overwrite d ?f) ?r = Inr (True, d') \<longleftrightarrow>
      list_all (\<lambda>a. optional_fine env check ?os a \<noteq> None) ?r \<and>
      d' = overwrite (overwrite d ?f) (\<lambda>k. case dget ?r k of None \<Rightarrow> None | Some v \<Rightarrow> optional_fine env check ?os (k, v))"
    by (rule optional_loop_iff) (use assms dict_ok_filter dhas_filter in auto)
  moreover have "check_dict env check es d = Inr (True, d') \<longleftrightarrow>
      list_all (entries_fine env check (in_order es)) d \<and> counts_ok check (in_order es) d \<and>
      optional_loop env check ?os (overwrite d ?f) ?r = Inr (True, d')"
    using entries_loop_iff [OF assms assms, of env check "in_order es"]
    by (auto simp: check_dict_def in_order_def [symmetric] err_simps split: if_splits)
  ultimately show ?thesis using all over by auto
qed

lemma pointwise_overwrite:
  assumes "\<And>k v. (k, v) \<in> set d \<Longrightarrow> f k = accepted (R k v)"
  shows "list_all2 (\<lambda>(k, v) (k', w). k' = k \<and> R k v = Inr (True, w)) d d' \<longleftrightarrow>
    list_all (\<lambda>(k, v). accepted (R k v) \<noteq> None) d \<and> d' = overwrite d f"
  using assms
proof (induction d arbitrary: d')
  case (Cons a d)
  obtain k v where a: "a = (k, v)" by (cases a)
  have f: "f k = accepted (R k v)" using Cons.prems [of k v] by (simp add: a)
  have "list_all2 (\<lambda>(k, v) (k', w). k' = k \<and> R k v = Inr (True, w)) d d'' \<longleftrightarrow>
      list_all (\<lambda>(k, v). accepted (R k v) \<noteq> None) d \<and> d'' = overwrite d f" for d''
    by (rule Cons.IH) (use Cons.prems in simp)
  note IH = this
  have head: "R k v = Inr (True, w) \<longleftrightarrow> accepted (R k v) = Some w" for w by (simp add: accepted_iff)
  show ?case
  proof (cases "accepted (R k v)")
    case None
    then show ?thesis by (simp add: a list_all2_Cons1 head split_def)
  next
    case (Some w)
    then have "list_all2 (\<lambda>(k, v) (k', w). k' = k \<and> R k v = Inr (True, w)) (a # d) d' \<longleftrightarrow>
        (\<exists>d''. d' = (k, w) # d'' \<and> list_all2 (\<lambda>(k, v) (k', w). k' = k \<and> R k v = Inr (True, w)) d d'')"
      by (force simp: a list_all2_Cons1 head)
    also have "\<dots> \<longleftrightarrow> list_all (\<lambda>(k, v). accepted (R k v) \<noteq> None) d \<and> d' = (k, w) # overwrite d f"
      using IH by auto
    finally show ?thesis using Some by (simp add: a f)
  qed
qed auto

text \<open>
  C19: Validation of a dictionary refines a plain specification. The entries of the schema are put in
  order (required keys and mandatory groups, then the other groups), every key of the document is
  taken by the first entry that accepts it, or else by the optional entry of that name; the document is
  accepted exactly when every key is taken and its value passes the check of what takes it, and every
  entry gets as many keys as it asks for (a required key one, a group between its bounds). The
  document then keeps its keys, each with the value the check of its field leaves.
\<close>

theorem xys_dict_refines:
  assumes "dict_ok d"
  shows "validate env (VDict d) (SDict es) = Inr (True, VDict d') \<longleftrightarrow>
    list_all2 (\<lambda>(k, v) (k', w). k' = k \<and> key_result env (validate env) es k v = Inr (True, w)) d d' \<and>
    counts_ok (validate env) (in_order es) d"
proof -
  let ?f = "\<lambda>k. case dget d k of None \<Rightarrow> None | Some v \<Rightarrow> accepted (key_result env (validate env) es k v)"
  have "?f k = accepted (key_result env (validate env) es k v)" if "(k, v) \<in> set d" for k v
    using that dget_in [OF assms, of k v] by simp
  note p = pointwise_overwrite [where R = "key_result env (validate env) es", OF this]
  have "validate env (VDict d) (SDict es) = Inr (True, VDict d') \<longleftrightarrow>
      check_dict env (validate env) es d = Inr (True, d')"
    by (auto simp: err_simps)
  then show ?thesis using check_dict_iff [OF assms] p by auto
qed

definition demo_env :: xenv where
  "demo_env = \<lparr>xv_callbacks = [], xv_lists = [], xv_modifiers = [], xv_regexs = [],
     xv_method = (\<lambda>v name. case v of VStr s \<Rightarrow> if name = ''strip'' then Some (Inr (VStr (strip s))) else None
        | _ \<Rightarrow> None),
     xv_custom = (\<lambda>_ _ _. Inr True), xv_float = (\<lambda>_. False)\<rparr>"

theorem xys_dict_refines_witness:
  "list_all2 (\<lambda>(k, v) (k', w). k' = k \<and>
       key_result demo_env (validate demo_env) [(SVal (VStr ''name''), SField MandatoryField (SVal (VStr [])) None None [''strip''])]
         k v = Inr (True, w))
     [(VStr ''name'', VStr '' a'')] [(VStr ''name'', VStr ''a'')]"
proof -
  let ?es = "[(SVal (VStr ''name''), SField MandatoryField (SVal (VStr [])) None None [''strip''])]"
  have "dict_ok [(VStr ''name'', VStr '' a'')]" by (simp add: dict_ok_def)
  moreover have "strip '' a'' = ''a''" by (simp add: strip_def is_space_def)
  then have "validate demo_env (VDict [(VStr ''name'', VStr '' a'')]) (SDict ?es) = Inr (True, VDict [(VStr ''name'', VStr ''a'')])"
    by (simp add: check_dict_def mandatory_entry_def generic_entry_def optional_entry_def is_optional_def is_node_def
        one_entry_def required_key_def literal_key_def field_value_def skips_def valid_len_def demo_env_def
        same_class_def bind_sum_simps dget_Cons dset_Cons ddel_Cons)
  ultimately show ?thesis using xys_dict_refines by blast
qed

section \<open>Validation without modifiers\<close>

fun no_modifiers :: "schema \<Rightarrow> bool" where
  "no_modifiers (SField kind c lo hi mods) = (mods = [] \<and> no_modifiers c)"
| "no_modifiers (SNode c w mode lo hi) = no_modifiers c"
| "no_modifiers (SDict es) = list_all (\<lambda>(k, s). no_modifiers s) es"
| "no_modifiers (SList ss) = list_all no_modifiers ss"
| "no_modifiers _ = True"

text \<open>Values in which every dictionary has distinct keys.\<close>

fun value_ok :: "pyval \<Rightarrow> bool" where
  "value_ok (VList vs) = list_all value_ok vs"
| "value_ok (VDict d) = (dict_ok d \<and> list_all (\<lambda>(k, v). value_ok v) d)"
| "value_ok _ = True"

lemma no_modifiers_update: "list_all (\<lambda>(k, s). no_modifiers s) d \<Longrightarrow> list_all (\<lambda>(k, s). no_modifiers s) es \<Longrightarrow>
    list_all (\<lambda>(k, s). no_modifiers s) (foldl (\<lambda>d (k, v). skey_set d k v) d es)"
proof (induction es arbitrary: d)
  case (Cons e es)
  have "list_all (\<lambda>(k, s). no_modifiers s) (dset d k v)" if "no_modifiers v" for k v
    using Cons.prems(1) that by (induction d) (auto simp: dset_Cons)
  with Cons show ?case by (cases e) (simp add: skey_set_def)
qed simp

lemma no_modifiers_merge: "merge_schemas d ss = Inr d' \<Longrightarrow> list_all (\<lambda>(k, s). no_modifiers s) d \<Longrightarrow>
    list_all no_modifiers ss \<Longrightarrow> list_all (\<lambda>(k, s). no_modifiers s) d'"
  by (induction d ss arbitrary: d' rule: merge_schemas.induct) (auto split: schema.splits intro: no_modifiers_update)

lemma no_modifiers_item: "item_schema ss = Inr (Some s) \<Longrightarrow> list_all no_modifiers ss \<Longrightarrow> no_modifiers s"
  by (auto simp: item_schema_def err_simps simp del: merge_schemas.simps split: list.splits schema.splits
      dest: no_modifiers_merge)

text \<open>A check that leaves every value alone, on the parts of some entries.\<close>

definition leaves :: "(pyval \<Rightarrow> schema \<Rightarrow> outcome) \<Rightarrow> schema set \<Rightarrow> bool" where
  "leaves check S \<longleftrightarrow> (\<forall>s v ok w. s \<in> S \<longrightarrow> no_modifiers s \<longrightarrow> value_ok v \<longrightarrow> check v s = Inr (ok, w) \<longrightarrow> w = v)"

lemma field_value_leaves:
  assumes "leaves check {vs, case vs of SField _ c _ _ _ \<Rightarrow> c | _ \<Rightarrow> vs}" "no_modifiers vs" "value_ok v"
    "field_value env check v vs = Inr (ok, w)"
  shows "w = v"
  using assms by (cases vs) (auto simp: field_value_def leaves_def bind_sum_simps split: if_splits)

lemma group_loop_leaves:
  assumes "leaves check (parts [(ks, vs)])" "no_modifiers vs"
    "\<And>k v. (k, v) \<in> set items \<Longrightarrow> dget d k = Some v \<and> value_ok v"
    "group_loop env check ks vs d items = Inr (m, d')"
  shows "d' = d"
  using assms(3,4)
proof (induction items arbitrary: m d')
  case (Cons a items)
  obtain k v where a: "a = (k, v)" by (cases a)
  have kv: "dget d k = Some v" "value_ok v" using Cons.prems(1) [of k v] by (simp_all add: a)
  have "w = v" if "field_value env check v vs = Inr (ok, w)" for ok w
    by (rule field_value_leaves [OF _ assms(2) kv(2) that]) (use assms(1) in \<open>auto simp: leaves_def\<close>)
  then have same: "dset d k w = d" if "field_value env check v vs = Inr (ok, w)" for ok w
    using that dset_same [OF kv(1)] by metis
  have IH: "group_loop env check ks vs d items = Inr (m, d') \<Longrightarrow> d' = d" for m d'
    by (rule Cons.IH) (use Cons.prems(1) in auto)
  from Cons.prems(2) obtain b x where c: "check k ks = Inr (b, x)" by (auto simp: a err_simps)
  show ?case
  proof (cases b)
    case False
    then show ?thesis using Cons.prems(2) c IH by (simp add: a bind_sum_simps)
  next
    case True
    then obtain ok w where f: "field_value env check v vs = Inr (ok, w)"
      using Cons.prems(2) c by (auto simp: a err_simps)
    note s = same [OF f]
    show ?thesis using Cons.prems(2) c True f IH
      by (cases ok) (auto simp: a bind_sum_simps s err_simps)
  qed
qed auto

lemma one_entry_leaves:
  assumes "leaves check (parts [(ks, vs)])" "no_modifiers vs"
    and items: "\<And>k v. dget r k = Some v \<Longrightarrow> dget d k = Some v \<and> value_ok v" "dict_ok r"
    and e: "one_entry env check ks vs d r = Inr (ok, d', r')"
  shows "d' = d \<and> dict_ok r' \<and> (\<forall>k v. dget r' k = Some v \<longrightarrow> dget r k = Some v)"
proof (cases "is_node ks")
  case True
  then have g: "key_group env check ks vs d r = Inr (ok, d', r')" using e by (simp add: one_entry_def)
  then obtain m where m: "group_loop env check ks vs d r = Inr (m, d')"
    and "r' = r \<or> (\<exists>ks. r' = fold (\<lambda>k r. ddel r k) ks r)"
    by (auto simp: key_group_def err_simps split: option.splits if_splits)
  then have "r' = r \<or> (\<exists>P. r' = filter P r)" using fold_ddel [OF items(2)] by metis
  then have "dict_ok r' \<and> (\<forall>k v. dget r' k = Some v \<longrightarrow> dget r k = Some v)"
    using items(2) by (auto simp: dict_ok_filter dget_filter split: option.splits if_splits)
  moreover have "d' = d"
  proof (rule group_loop_leaves [OF assms(1,2) _ m])
    show "dget d k = Some v \<and> value_ok v" if "(k, v) \<in> set r" for k v
      using items(1) [of k v] dget_in [OF items(2), of k v] that by simp
  qed
  ultimately show ?thesis by simp
next
  case False
  then have q: "required_key env check ks vs d r = Inr (ok, d', r')" using e by (simp add: one_entry_def)
  have "dset d k w = d" if "dget r k = Some v" "field_value env check v vs = Inr (ok, w)" for k v w
  proof -
    have "w = v" by (rule field_value_leaves [OF _ assms(2) _ that(2)])
      (use assms(1) items(1) [OF that(1)] in \<open>auto simp: leaves_def\<close>)
    then show ?thesis using items(1) [OF that(1)] by (simp add: dset_same)
  qed
  with q items(2) show ?thesis
    by (auto simp: required_key_def err_simps split: option.splits if_splits)
qed

lemma leaves_mono: "leaves check S \<Longrightarrow> T \<subseteq> S \<Longrightarrow> leaves check T"
  by (auto simp: leaves_def)

lemma entries_loop_leaves:
  assumes "leaves check (parts es)" "list_all (\<lambda>(k, s). no_modifiers s) es"
    "\<And>k v. dget r k = Some v \<Longrightarrow> dget d k = Some v \<and> value_ok v" "dict_ok r"
    "entries_loop env check es d r = Inr (ok, d', r')"
  shows "d' = d \<and> dict_ok r' \<and> (\<forall>k v. dget r' k = Some v \<longrightarrow> dget r k = Some v)"
  using assms
proof (induction es arbitrary: r)
  case (Cons e es)
  obtain ks vs where e: "e = (ks, vs)" by (cases e)
  from Cons.prems(5) obtain b d1 r1 where o: "one_entry env check ks vs d r = Inr (b, d1, r1)"
    by (auto simp: e err_simps)
  have "leaves check (parts [(ks, vs)])" "no_modifiers vs"
    using Cons.prems(1,2) by (auto simp: e intro: leaves_mono)
  from one_entry_leaves [OF this Cons.prems(3,4) o] have s: "d1 = d" "dict_ok r1"
    "\<And>k v. dget r1 k = Some v \<Longrightarrow> dget r k = Some v" by auto
  show ?case
  proof (cases b)
    case False
    then show ?thesis using Cons.prems(5) o s by (simp add: e bind_sum_simps)
  next
    case True
    have "d' = d \<and> dict_ok r' \<and> (\<forall>k v. dget r' k = Some v \<longrightarrow> dget r1 k = Some v)"
    proof (rule Cons.IH)
      show "leaves check (parts es)" using Cons.prems(1) by (auto simp: e intro: leaves_mono)
      show "entries_loop env check es d r1 = Inr (ok, d', r')"
        using Cons.prems(5) o s(1) True by (simp add: e bind_sum_simps)
    qed (use Cons.prems(2,3) s in \<open>auto simp: e\<close>)
    with s show ?thesis by blast
  qed
qed simp

lemma optional_loop_leaves:
  assumes "leaves check (parts os)" "list_all (\<lambda>(k, s). no_modifiers s) os"
    "\<And>k v. (k, v) \<in> set items \<Longrightarrow> dget d k = Some v \<and> value_ok v"
    "optional_loop env check os d items = Inr (ok, d')"
  shows "d' = d"
  using assms(3,4)
proof (induction items)
  case (Cons a items)
  obtain k v where a: "a = (k, v)" by (cases a)
  have kv: "dget d k = Some v" "value_ok v" using Cons.prems(1) [of k v] by (simp_all add: a)
  show ?case
  proof (cases "lookup_optional os k")
    case None
    then show ?thesis using Cons.prems(2) by (simp add: a)
  next
    case (Some vs)
    then obtain b w where f: "field_value env check v vs = Inr (b, w)"
      using Cons.prems(2) by (auto simp: a err_simps)
    have m: "(SVal k, vs) \<in> set os" by (rule lookup_optional_parts [OF Some])
    have "w = v"
    proof (rule field_value_leaves [OF _ _ kv(2) f])
      show "leaves check {vs, case vs of SField _ c _ _ _ \<Rightarrow> c | _ \<Rightarrow> vs}"
        by (rule leaves_mono [OF assms(1)]) (use m in \<open>force simp: parts_def\<close>)
      show "no_modifiers vs" using assms(2) m by (auto simp: list_all_iff)
    qed
    with kv(1) have s: "dset d k w = d" by (simp add: dset_same)
    show ?thesis using Cons.prems Cons.IH Some f s by (cases b) (auto simp: a bind_sum_simps)
  qed
qed simp

lemma check_dict_leaves:
  assumes "leaves check (parts es)" "list_all (\<lambda>(k, s). no_modifiers s) es"
    "dict_ok d" "list_all (\<lambda>(k, v). value_ok v) d" "check_dict env check es d = Inr (ok, d')"
  shows "d' = d"
proof -
  let ?es = "filter mandatory_entry es @ filter generic_entry es"
  from assms(5) obtain b d1 r where e: "entries_loop env check ?es d d = Inr (b, d1, r)"
    and o: "if b then optional_loop env check (filter optional_entry es) d1 r = Inr (ok, d') else d' = d1"
    by (auto simp: check_dict_def err_simps split: if_splits)
  have v: "value_ok v" if "dget d k = Some v" for k v
    using assms(4) that dget_in [OF assms(3)] by (auto simp: list_all_iff)
  have s: "d1 = d \<and> dict_ok r \<and> (\<forall>k v. dget r k = Some v \<longrightarrow> dget d k = Some v)"
  proof (rule entries_loop_leaves [OF _ _ _ assms(3) e])
    show "leaves check (parts ?es)" by (rule leaves_mono [OF assms(1)]) (auto dest: parts_filter)
  qed (use assms(2) v in \<open>auto simp: list_all_iff\<close>)
  show ?thesis
  proof (cases b)
    case True
    show ?thesis
    proof (rule optional_loop_leaves [where items = r])
      show "leaves check (parts (filter optional_entry es))"
        by (rule leaves_mono [OF assms(1)]) (auto dest: parts_filter)
      show "optional_loop env check (filter optional_entry es) d r = Inr (ok, d')" using o s True by simp
      show "dget d k = Some v \<and> value_ok v" if "(k, v) \<in> set r" for k v
        using that s v [of k v] dget_in [of r k v] by auto
    qed (use assms(2) in \<open>auto simp: list_all_iff\<close>)
  next
    case False
    then show ?thesis using o s by simp
  qed
qed

lemma items_loop_leaves:
  assumes "\<And>v ok w. v \<in> set vs \<Longrightarrow> f v = Inr (ok, w) \<Longrightarrow> w = v" "items_loop f vs = Inr (ok, ws)"
  shows "ws = vs"
  using assms
proof (induction vs arbitrary: ok ws)
  case (Cons v vs)
  from Cons.prems(2) obtain b w where f: "f v = Inr (b, w)" by (auto simp: err_simps)
  with Cons.prems(1) have w: "w = v" by simp
  show ?case
  proof (cases b)
    case True
    with Cons.prems(2) f obtain ok' ws' where i: "items_loop f vs = Inr (ok', ws')" "ws = w # ws'"
      by (auto simp: err_simps)
    with Cons.IH [OF _ i(1)] Cons.prems(1) w show ?thesis by auto
  next
    case False
    then show ?thesis using Cons.prems(2) f w by (simp add: bind_sum_simps)
  qed
qed simp

text \<open>
  C20: A schema without modifiers never changes a document: whatever the answer of \<^verbatim>\<open>validate\<close>, and at any
  depth, the document is afterwards what it was. (With modifiers it may, and a refused document keeps
  the changes made before the refusal.)
\<close>

theorem xys_leaves_document:
  assumes "no_modifiers s" "value_ok v" "validate env v s = Inr (ok, w)"
  shows "w = v"
  using assms
proof (induction s arbitrary: v ok w rule: measure_induct_rule [where f = size])
  case (less s)
  have IH: "leaves (validate env) {t. size t < size s}"
    using less.IH by (auto simp: leaves_def)
  show ?case
  proof (cases s)
    case (SNode c f mode lo hi)
    then show ?thesis using less.prems IH
      by (auto simp: leaves_def err_simps split: sum.splits if_splits)
  next
    case (SDict es)
    have "leaves (validate env) (parts es)" by (rule leaves_mono [OF IH]) (auto simp: SDict dest: parts_size)
    from check_dict_leaves [OF this] show ?thesis using less.prems
      by (auto simp: SDict err_simps split: pyval.splits)
  next
    case (SList ss)
    have "validate env x t = Inr (b, y) \<Longrightarrow> y = x" if "item_schema ss = Inr (Some t)" "value_ok x" for t x b y
      using IH item_schema_size [OF that(1)] no_modifiers_item [OF that(1)] that(2) less.prems(1)
      by (auto simp: leaves_def SList)
    then show ?thesis using less.prems
      by (auto simp: SList err_simps list_all_iff split: pyval.splits sum.splits option.splits dest: items_loop_leaves [rotated])
  qed (use less.prems in auto)
qed

theorem xys_leaves_document_witness:
  "snd (projr (validate demo_env (VDict [(VStr ''n'', VInt 1), (VStr ''x'', VInt 2)])
     (SDict [(SVal (VStr ''n''), SField MandatoryField (SVal (VInt 0)) None None [])]))) =
   VDict [(VStr ''n'', VInt 1), (VStr ''x'', VInt 2)]"
proof -
  let ?s = "SDict [(SVal (VStr ''n''), SField MandatoryField (SVal (VInt 0)) None None [])]"
  let ?v = "VDict [(VStr ''n'', VInt 1), (VStr ''x'', VInt 2)]"
  have r: "validate demo_env ?v ?s = Inr (False, ?v)"
    by (simp add: check_dict_def mandatory_entry_def generic_entry_def optional_entry_def is_optional_def is_node_def
        one_entry_def required_key_def literal_key_def field_value_def skips_def valid_len_def
        same_class_def bind_sum_simps dget_Cons dset_Cons ddel_Cons lookup_optional_def)
  moreover have "no_modifiers ?s" "value_ok ?v" by (simp_all add: dict_ok_def)
  ultimately show ?thesis using xys_leaves_document [OF _ _ r] by simp
qed

section \<open>Compiled schemas\<close>

fun raw_schema :: "schema \<Rightarrow> bool" where
  "raw_schema (SField kind c lo hi mods) = False"
| "raw_schema (SNode c w mode lo hi) = raw_schema c"
| "raw_schema (SDict es) = list_all (\<lambda>(k, s). raw_schema s) es"
| "raw_schema (SList ss) = list_all raw_schema ss"
| "raw_schema _ = True"

definition entry_ok :: "schema \<Rightarrow> schema \<Rightarrow> bool" where
  "entry_ok k s = (case k of
       SVal (VStr n) \<Rightarrow> n \<noteq> [] \<and> (case s of SField kind c lo hi mods \<Rightarrow> \<not> above lo hi | _ \<Rightarrow> False)
     | _ \<Rightarrow> (case s of SField _ _ _ _ _ \<Rightarrow> False | _ \<Rightarrow> True))"

text \<open>Every value of a dictionary is a qualified field with ordered bounds exactly when its key is a
  string, the names are nonempty, and no key stands twice.\<close>

fun compiled :: "schema \<Rightarrow> bool" where
  "compiled (SField kind c lo hi mods) = compiled c"
| "compiled (SNode c w mode lo hi) = compiled c"
| "compiled (SDict es) = (list_all (\<lambda>(k, s). compiled s \<and> entry_ok k s) es \<and>
     distinct (filter (\<lambda>k. \<not> fresh_key k) (map fst es)))"
| "compiled (SList ss) = list_all compiled ss"
| "compiled _ = True"

lemma match_key_name:
  assumes "match_key s = Some (name, t)"
  shows "name \<noteq> []"
proof -
  from assms obtain n ns where n: "key_splits s = n # ns" "name = take n s"
    by (auto simp: match_key_def split: list.splits)
  then have "n \<in> set (key_splits s)" by simp
  then have "1 \<le> n" "n \<le> length s" by (auto simp: key_splits_def)
  then show ?thesis using n(2) by auto
qed

lemma qualify_map_entry:
  assumes "qualify_map k s = Inr (k', s')" "case s of SField _ _ _ _ _ \<Rightarrow> False | _ \<Rightarrow> True" "compiled s"
  shows "compiled s' \<and> entry_ok k' s'"
proof (cases "\<exists>n. k = SVal (VStr n)")
  case True
  then obtain n where k: "k = SVal (VStr n)" by blast
  with assms(1) obtain name t where "match_key n = Some (name, t)"
    by (cases "match_key n") (auto simp: qualify_map_def)
  with assms(1,3) k match_key_name show ?thesis
    by (auto simp: qualify_map_def err_simps entry_ok_def split: prod.splits)
next
  case False
  then have e: "entry_ok k s = (case s of SField _ _ _ _ _ \<Rightarrow> False | _ \<Rightarrow> True)"
    by (auto simp: entry_ok_def split: schema.splits pyval.splits)
  from False have "qualify_map k s = Inr (k, s)"
    by (auto simp: qualify_map_def split: schema.splits pyval.splits)
  with assms e show ?thesis by simp
qed

lemma skey_set_distinct:
  assumes "distinct (filter (\<lambda>k. \<not> fresh_key k) (map fst d))" "\<not> skey_in k d"
  shows "distinct (filter (\<lambda>k. \<not> fresh_key k) (map fst (skey_set d k v)))"
  using assms by (auto simp: skey_set_def skey_in_def dset_absent dhas_keys dkeys_def)

lemma transschema_field: "transschema s = Inr t \<Longrightarrow> raw_schema s \<Longrightarrow> case t of SField _ _ _ _ _ \<Rightarrow> False | _ \<Rightarrow> True"
  by (cases s) (auto simp: err_simps)

lemma trans_compiled:
  "transschema s = Inr t \<Longrightarrow> raw_schema s \<Longrightarrow> compiled t"
  "trans_list ss = Inr ts \<Longrightarrow> list_all raw_schema ss \<Longrightarrow> list_all compiled ts"
  "trans_dict result es = Inr d \<Longrightarrow> list_all (\<lambda>(k, s). raw_schema s) es \<Longrightarrow> compiled (SDict result) \<Longrightarrow>
     compiled (SDict d)"
proof (induction s and ss and result es arbitrary: t and ts and d rule: transschema_trans_list_trans_dict.induct)
  case (11 result k s es)
  from "11.prems"(1) obtain t k' t' where t: "transschema s = Inr t" and q: "qualify_map k t = Inr (k', t')"
    and n: "\<not> skey_in k' result" and r: "trans_dict (skey_set result k' t') es = Inr d"
    by (auto simp: err_simps)
  have "compiled t" using "11.IH"(1) [OF t] "11.prems"(2) by simp
  with qualify_map_entry [OF q] transschema_field [OF t] "11.prems"(2) have e: "compiled t' \<and> entry_ok k' t'" by simp
  have "compiled (SDict (skey_set result k' t'))"
    using "11.prems"(3) e n skey_set_distinct [OF _ n]
    by (auto simp: skey_set_def skey_in_def dset_absent)
  with "11.IH"(2) [OF r] "11.prems"(2) show ?case by simp
qed (auto simp: err_simps)

text \<open>
  C21: What \<^verbatim>\<open>load\<close> returns is well formed, at every depth: a value of a dictionary is a qualified field
  exactly when its key is a string, its length bounds are ordered and its name is not empty, and no key
  appears twice (keys that differ only in their qualifiers are refused).
\<close>

theorem xys_compiled_wf:
  assumes "load_schema yaml src = Inr t" "\<And>s. yaml src = Inr s \<Longrightarrow> raw_schema s"
  shows "compiled t"
  using assms by (auto simp: load_schema_def err_simps intro: trans_compiled(1))

theorem xys_compiled_wf_witness:
  "compiled (SDict [(SVal (VStr ''a''), SField OptionalField (SVal (VInt 0)) (Some 1) (Some 3) [''strip''])])"
proof -
  let ?raw = "SDict [(SVal (VStr ''a?[1,3]-''), SVal (VInt 0))]"
  have "match_key ''a?[1,3]-'' = Some (''a'', \<lparr>kt_qual = Some CHR ''?'', kt_bounds = Interval ''1'' ''3'',
      kt_mods = None, kt_strip = True\<rparr>)" by code_simp
  moreover have "digits_int ''1'' = 1 \<and> digits_int ''3'' = 3" by code_simp
  ultimately have "load_schema (\<lambda>_. Inr ?raw) [] =
      Inr (SDict [(SVal (VStr ''a''), SField OptionalField (SVal (VInt 0)) (Some 1) (Some 3) [''strip''])])"
    by (simp add: load_schema_def bind_sum_simps qualify_map_def field_bounds_def above_def field_kind_def
        field_mods_def skey_in_def skey_set_def)
  from xys_compiled_wf [OF this] show ?thesis by simp
qed

section \<open>The notation of keys\<close>

definition render_bounds :: "bounds \<Rightarrow> string" where
  "render_bounds b = (case b of NoBounds \<Rightarrow> [] | Exactly d \<Rightarrow> ''['' @ d @ '']''
     | Interval d e \<Rightarrow> ''['' @ d @ '','' @ e @ '']'' | Repeated c \<Rightarrow> [c])"

definition render_tail :: "key_tail \<Rightarrow> string" where
  "render_tail t =
     (case kt_qual t of None \<Rightarrow> [] | Some c \<Rightarrow> c # render_bounds (kt_bounds t)) @
     (case kt_mods t of None \<Rightarrow> [] | Some m \<Rightarrow> CHR ''|'' # m) @ (if kt_strip t then ''-'' else [])"

text \<open>The qualifiers a key may be written with, and names that do not read as one.\<close>

definition bounds_ok :: "bounds \<Rightarrow> bool" where
  "bounds_ok b = (case b of NoBounds \<Rightarrow> True | Exactly d \<Rightarrow> d \<noteq> [] \<and> list_all is_digit d
     | Interval d e \<Rightarrow> list_all is_digit d \<and> list_all is_digit e | Repeated c \<Rightarrow> c \<in> set ''*+?'')"

definition tail_ok :: "key_tail \<Rightarrow> bool" where
  "tail_ok t = ((case kt_qual t of None \<Rightarrow> kt_bounds t = NoBounds | Some c \<Rightarrow> c \<in> set ''?!+*'') \<and>
     bounds_ok (kt_bounds t) \<and> (case kt_mods t of None \<Rightarrow> True | Some m \<Rightarrow> full_match MOD_NAMES m))"

definition name_ok :: "string \<Rightarrow> bool" where
  "name_ok s = (s \<noteq> [] \<and> set s \<inter> set (''?!+*|'' @ [LINE_FEED]) = {} \<and> last s \<noteq> CHR ''-'')"

lemma take_digits: "list_all is_digit d \<Longrightarrow> \<not> is_digit c \<Longrightarrow>
    takeWhile is_digit (d @ c # s) = d \<and> dropWhile is_digit (d @ c # s) = c # s"
  by (induction d) auto

lemma not_digits [simp]: "\<not> is_digit CHR '']''" "\<not> is_digit CHR '',''" "\<not> is_digit CHR '')''"
  by (simp_all add: is_digit_def digit_chars_def)

lemma bounds_until_render:
  "list_all is_digit d \<Longrightarrow> d \<noteq> [] \<Longrightarrow> bounds_until CHR '']'' (d @ CHR '']'' # s) = Some (Exactly d, s)"
  "list_all is_digit d \<Longrightarrow> list_all is_digit e \<Longrightarrow>
     bounds_until CHR '']'' (d @ CHR '','' # e @ CHR '']'' # s) = Some (Interval d e, s)"
  using take_digits [of d "CHR '']''" s] take_digits [of d "CHR '',''" "e @ CHR '']'' # s"] take_digits [of e "CHR '']''" s]
  by (simp_all add: bounds_until_def Let_def)

text \<open>What may follow a qualifier: modifiers, a dash, the end.\<close>

definition quiet :: "string \<Rightarrow> bool" where
  "quiet s = (case s of [] \<Rightarrow> True | c # _ \<Rightarrow> c = CHR ''|'' \<or> c = CHR ''-'')"

lemma bounds_alts_render: "bounds_ok b \<Longrightarrow> quiet s \<Longrightarrow> \<exists>rest. bounds_alts (render_bounds b @ s) = (b, s) # rest"
  using bounds_until_render [of _ s] bounds_until_render(2) [of _ _ s]
  by (cases b; cases s) (auto simp: bounds_alts_def render_bounds_def bounds_ok_def quiet_def)

lemma qual_alts_render:
  assumes "case q of None \<Rightarrow> b = NoBounds | Some c \<Rightarrow> c \<in> set ''?!+*''" "bounds_ok b" "quiet s"
  shows "\<exists>rest. qual_alts ((case q of None \<Rightarrow> [] | Some c \<Rightarrow> c # render_bounds b) @ s) = ((q, b), s) # rest"
proof (cases q)
  case None
  then show ?thesis using assms(1,3) by (cases s) (auto simp: qual_alts_def quiet_def)
next
  case (Some c)
  with bounds_alts_render [OF assms(2,3)] assms(1) show ?thesis by (auto simp: qual_alts_def)
qed

text \<open>Names of modifiers end in a letter, a digit or an underscore.\<close>

lemma star_last:
  "denotes q v \<Longrightarrow> q = Star r \<Longrightarrow> (\<And>w. denotes r w \<Longrightarrow> w \<noteq> [] \<and> last w \<in> S) \<Longrightarrow> v = [] \<or> last v \<in> S"
proof (induction rule: denotes.induct)
  case (star_cons p u w)
  then have "u \<noteq> [] \<and> last u \<in> S" "w = [] \<or> last w \<in> S" by auto
  then show ?case by (cases "w = []") auto
qed auto

lemma mod_name_last: "denotes MOD_NAME u \<Longrightarrow> u \<noteq> [] \<and> last u \<in> set word_chars"
  by (auto simp: MOD_NAME_def denotes_seq)

lemma mod_names_last: "full_match MOD_NAMES m \<Longrightarrow> m \<noteq> [] \<and> last m \<in> set word_chars"
proof -
  assume "full_match MOD_NAMES m"
  then obtain u v where m: "m = u @ v" "denotes MOD_NAME u" "denotes (Star (Seq (Lit CHR '','') MOD_NAME)) v"
    by (auto simp: full_match_denotes MOD_NAMES_def denotes_seq)
  have "w \<noteq> [] \<and> last w \<in> set word_chars" if "denotes (Seq (Lit CHR '','') MOD_NAME) w" for w
    using that mod_name_last by (auto simp: denotes_seq)
  from star_last [OF m(3) refl this] mod_name_last [OF m(2)] m(1) show ?thesis by (cases "v = []") auto
qed

lemma not_word_chars: "CHR ''-'' \<notin> set word_chars" "LINE_FEED \<notin> set word_chars"
  by (simp_all add: word_chars_def lower_chars_def upper_chars_def digit_chars_def LINE_FEED_def)

definition dash :: "bool \<Rightarrow> string" where "dash st = (if st then ''-'' else [])"

lemma mods_alts_render:
  assumes "case m of None \<Rightarrow> True | Some x \<Rightarrow> full_match MOD_NAMES x"
  shows "\<exists>rest. mods_alts ((case m of None \<Rightarrow> [] | Some x \<Rightarrow> CHR ''|'' # x) @ dash st) = (m, dash st) # rest"
proof (cases m)
  case None
  then show ?thesis by (simp add: mods_alts_def dash_def)
next
  case (Some x)
  then have x: "full_match MOD_NAMES x" using assms by simp
  let ?t = "x @ dash st"
  have no: "\<not> full_match MOD_NAMES (x @ ''-'')" using mod_names_last [of "x @ ''-''"] not_word_chars by auto
  have up: "rev [0..<Suc (length ?t)] = (if st then [length ?t] else []) @ length x # rev [0..<length x]"
    by (simp add: dash_def)
  have "filter (\<lambda>n. full_match MOD_NAMES (take n ?t)) (rev [0..<Suc (length ?t)]) =
      length x # filter (\<lambda>n. full_match MOD_NAMES (take n ?t)) (rev [0..<length x])"
    unfolding up using x no by (simp add: dash_def)
  then show ?thesis by (simp add: Some mods_alts_def del: upt_Suc rev.simps)
qed

lemma strip_alts_render: "\<exists>rest. strip_alts (dash st) = (st, []) # rest"
  by (simp add: strip_alts_def dash_def)

lemma tail_matches_render:
  assumes "tail_ok t"
  shows "\<exists>rest. tail_matches (render_tail t) = t # rest"
proof -
  let ?m = "(case kt_mods t of None \<Rightarrow> [] | Some m \<Rightarrow> CHR ''|'' # m) @ dash (kt_strip t)"
  have r: "render_tail t = (case kt_qual t of None \<Rightarrow> [] | Some c \<Rightarrow> c # render_bounds (kt_bounds t)) @ ?m"
    by (simp add: render_tail_def dash_def)
  have "quiet ?m" by (auto simp: quiet_def dash_def split: option.splits)
  then obtain rest where q: "qual_alts (render_tail t) = ((kt_qual t, kt_bounds t), ?m) # rest"
    using qual_alts_render [where q = "kt_qual t" and b = "kt_bounds t" and s = ?m] assms unfolding r by (auto simp: tail_ok_def)
  obtain rest' where m: "mods_alts ?m = (kt_mods t, dash (kt_strip t)) # rest'"
    using mods_alts_render [of "kt_mods t" "kt_strip t"] assms by (auto simp: tail_ok_def)
  obtain rest'' where "strip_alts (dash (kt_strip t)) = (kt_strip t, []) # rest''"
    using strip_alts_render by blast
  then show ?thesis by (simp add: tail_matches_def q m at_end_def)
qed

text \<open>Inside a name the rest never reads as qualifiers.\<close>

lemma tail_matches_inside:
  assumes "c \<notin> set (''?!+*|'' @ [LINE_FEED])" "c = CHR ''-'' \<Longrightarrow> s \<noteq> [] \<and> hd s \<noteq> LINE_FEED"
  shows "tail_matches (c # s) = []"
proof -
  have "qual_alts (c # s) = [((None, NoBounds), c # s)]" using assms(1) by (auto simp: qual_alts_def)
  moreover have "mods_alts (c # s) = [(None, c # s)]" using assms(1) by (auto simp: mods_alts_def)
  moreover have "filter (\<lambda>(st, r). at_end r) (strip_alts (c # s)) = []"
    using assms by (cases s) (auto simp: strip_alts_def at_end_def)
  ultimately show ?thesis by (simp add: tail_matches_def)
qed

lemma key_splits_render:
  assumes "name_ok name" "tail_ok t"
  shows "\<exists>rest. key_splits (name @ render_tail t) = length name # rest"
proof -
  let ?s = "name @ render_tail t"
  have inside: "tail_matches (drop n ?s) = []" if n: "1 \<le> n" "n < length name" for n
  proof -
    have d: "drop n ?s = name ! n # drop (Suc n) name @ render_tail t"
      using n by (simp add: Cons_nth_drop_Suc [symmetric])
    show ?thesis unfolding d
    proof (rule tail_matches_inside)
      show "name ! n \<notin> set (''?!+*|'' @ [LINE_FEED])"
        using assms(1) nth_mem [OF n(2)] unfolding name_ok_def by blast
      assume dash: "name ! n = CHR ''-''"
      have "Suc n \<noteq> length name" using dash assms(1) n
        by (metis diff_Suc_1 last_conv_nth name_ok_def)
      then have m: "Suc n < length name" using n by simp
      then have "drop (Suc n) name = name ! Suc n # drop (Suc (Suc n)) name" by (simp add: Cons_nth_drop_Suc)
      moreover have "name ! Suc n \<noteq> LINE_FEED" using assms(1) nth_mem [OF m] by (auto simp: name_ok_def)
      ultimately show "drop (Suc n) name @ render_tail t \<noteq> [] \<and> hd (drop (Suc n) name @ render_tail t) \<noteq> LINE_FEED"
        by simp
    qed
  qed
  have ne: "name \<noteq> []" "LINE_FEED \<notin> set name" using assms(1) by (auto simp: name_ok_def)
  have up: "[1..<Suc (length ?s)] = [1..<length name] @ length name # [Suc (length name)..<Suc (length ?s)]"
  proof -
    have "[1..<Suc (length ?s)] = [1..<length name] @ [length name..<Suc (length ?s)]"
      using ne(1) upt_add_eq_append [of 1 "length name" "Suc (length (render_tail t))"]
      by (simp add: Suc_leI del: upt_Suc)
    then show ?thesis by (simp add: upt_conv_Cons del: upt_Suc)
  qed
  obtain rest where "tail_matches (render_tail t) = t # rest" using tail_matches_render [OF assms(2)] by blast
  then have here: "LINE_FEED \<notin> set (take (length name) ?s) \<and> tail_matches (drop (length name) ?s) \<noteq> []"
    using ne by simp
  show ?thesis unfolding key_splits_def up using inside here
    by (simp add: filter_empty_conv del: upt_Suc)
qed

text \<open>
  The notation of keys is read as it is written: a name with a qualifier, length bounds, modifiers
  and a final dash gives back exactly those parts, for every name that is not empty, has none of the
  special characters and does not end in a dash (it may contain dashes), and whatever pattern of
  length the bounds have.
\<close>

theorem xys_key_notation:
  assumes "name_ok name" "tail_ok t"
  shows "match_key (name @ render_tail t) = Some (name, t)"
proof -
  obtain rest where k: "key_splits (name @ render_tail t) = length name # rest"
    using key_splits_render [OF assms] by blast
  obtain rest' where "tail_matches (render_tail t) = t # rest'" using tail_matches_render [OF assms(2)] by blast
  then show ?thesis by (simp add: match_key_def k)
qed

theorem xys_key_notation_witness:
  "match_key ''first-name?[0,64]|strip,lower-'' =
     Some (''first-name'', \<lparr>kt_qual = Some CHR ''?'', kt_bounds = Interval ''0'' ''64'',
       kt_mods = Some ''strip,lower'', kt_strip = True\<rparr>)"
proof -
  let ?t = "\<lparr>kt_qual = Some CHR ''?'', kt_bounds = Interval ''0'' ''64'', kt_mods = Some ''strip,lower'', kt_strip = True\<rparr>"
  have "full_match MOD_NAMES ''strip,lower''" by code_simp
  then have t: "tail_ok ?t" by (simp add: tail_ok_def bounds_ok_def is_digit_def digit_chars_def)
  have "name_ok ''first-name''" by (simp add: name_ok_def LINE_FEED_def)
  from xys_key_notation [OF this t] show ?thesis by (simp add: render_tail_def render_bounds_def)
qed

end
