(* ===== verification/Pidfile.thy ===== *)
theory Pidfile
  imports Pystr
begin

text \<open>
  The PID-file lock of \<^verbatim>\<open>sonicprobe/libs/daemonize.py\<close>: \<^verbatim>\<open>remove_if_stale_pidfile\<close>, \<^verbatim>\<open>take_file_lock\<close>,
  \<^verbatim>\<open>lock_pidfile\<close> and \<^verbatim>\<open>unlock_pidfile\<close>, run by any number of processes of the program for one lock file.
  Each system call is a step of its own, so the steps of processes interleave between calls; a process
  may die at any point and its PID be used again. What the system shows in \<^verbatim>\<open>/proc\<close> of processes that
  are not the program's, and the failures of calls, are chosen freely; \<open>argv0\<close> is \<^verbatim>\<open>sys.argv[0]\<close>.
\<close>

section \<open>Files\<close>

datatype fname = LockFile | TmpFile nat

type_synonym files = "(fname, string) dict"

definition own_content :: "nat \<Rightarrow> string" where "own_content pid = show_nat pid @ [CHR 0x0A]"

text \<open>\<^verbatim>\<open>os.link\<close>: atomic, refused when the name exists; \<^verbatim>\<open>None\<close> also when there is nothing to link.\<close>

datatype link_result = Linked files | Exists | LinkError

definition sys_link :: "fname \<Rightarrow> fname \<Rightarrow> files \<Rightarrow> link_result" where
  "sys_link a b fs = (case dget fs a of None \<Rightarrow> LinkError
     | Some c \<Rightarrow> if dhas fs b then Exists else Linked (dset fs b c))"

section \<open>Where a process is\<close>

datatype pc =
    Absent | Outside
  | ReadStale                \<comment> \<open>about to read the file an earlier owner may have left\<close>
  | LookCmdline int          \<comment> \<open>about to read \<^verbatim>\<open>/proc/<pid>/cmdline\<close>\<close>
  | LookExe int              \<comment> \<open>about to read the link \<^verbatim>\<open>/proc/<pid>/exe\<close>\<close>
  | UnlinkStale              \<comment> \<open>about to remove the file\<close>
  | WriteTmp | LinkTmp
  | UnlinkTmp bool           \<comment> \<open>the \<^verbatim>\<open>finally\<close> of \<^verbatim>\<open>take_file_lock\<close>; whether the link was made\<close>
  | Verify                   \<comment> \<open>about to read the lock back\<close>
  | Holding
  | UnlockRead | UnlockUnlink

definition after_stale :: pc where "after_stale = WriteTmp"

text \<open>\<^verbatim>\<open>int(stream.readline().strip())\<close>\<close>

definition pid_in_file :: "string \<Rightarrow> int option" where
  "pid_in_file s = py_int (takeWhile (\<lambda>c. c \<noteq> CHR 0x0A) s)"

text \<open>\<^verbatim>\<open>remove_if_stale_pidfile\<close>, call by call. Every exception is logged and dropped.\<close>

definition stale_read :: "files \<Rightarrow> pc" where
  "stale_read fs = (case dget fs LockFile of
       None \<Rightarrow> after_stale
     | Some s \<Rightarrow> (case pid_in_file s of None \<Rightarrow> after_stale | Some q \<Rightarrow> LookCmdline q))"

text \<open>\<^verbatim>\<open>c14n_prog_name\<close>: a final \<^verbatim>\<open>.py\<close> (also before a last line feed) and the directories are cut off.\<close>

definition ends_with :: "string \<Rightarrow> string \<Rightarrow> bool" where
  "ends_with suffix s = (length suffix \<le> length s \<and> drop (length s - length suffix) s = suffix)"

definition strip_py :: "string \<Rightarrow> string" where
  "strip_py s = (if ends_with ''.py'' s then take (length s - 3) s
     else if ends_with (''.py'' @ [CHR 0x0A]) s then take (length s - 4) s @ [CHR 0x0A] else s)"

definition basename :: "string \<Rightarrow> string" where "basename s = last (split_on (CHR ''/'') s)"

definition c14n_prog_name :: "string \<Rightarrow> string" where "c14n_prog_name arg = basename (strip_py arg)"

text \<open>What \<^verbatim>\<open>/proc\<close> shows of the process; a command line is its arguments, each ended by a null byte.\<close>

datatype proc_view = NoProcess | ReadError | Cmdline string

definition cmdline_args :: "string \<Rightarrow> string list" where
  "cmdline_args s = (let parts = split_on (CHR 0x00) s in if last parts = [] then butlast parts else parts)"

definition stale_cmdline :: "string \<Rightarrow> int \<Rightarrow> proc_view \<Rightarrow> pc" where
  "stale_cmdline argv0 q v = (case v of
       NoProcess \<Rightarrow> UnlinkStale
     | ReadError \<Rightarrow> after_stale
     | Cmdline s \<Rightarrow> if c14n_prog_name argv0 \<in> set (map c14n_prog_name (cmdline_args s)) then after_stale else LookExe q)"

datatype exe_view = ExeDenied | ExeError | Exe string

definition stale_exe :: "string \<Rightarrow> exe_view \<Rightarrow> pc" where
  "stale_exe argv0 v = (case v of
       ExeDenied \<Rightarrow> UnlinkStale
     | ExeError \<Rightarrow> after_stale
     | Exe full_pgm \<Rightarrow> if c14n_prog_name argv0 = basename full_pgm then after_stale else UnlinkStale)"

definition stale_unlink :: "files \<Rightarrow> files" where
  "stale_unlink fs = ddel fs LockFile"

text \<open>\<^verbatim>\<open>lock_pidfile\<close> and \<^verbatim>\<open>take_file_lock\<close>: the temporary file, the link, its removal, the check.\<close>

definition write_tmp :: "nat \<Rightarrow> files \<Rightarrow> files" where
  "write_tmp pid fs = dset fs (TmpFile pid) (own_content pid)"

definition take_link :: "nat \<Rightarrow> files \<Rightarrow> pc \<times> files" where
  "take_link pid fs = (case sys_link (TmpFile pid) LockFile fs of
       Linked fs' \<Rightarrow> (UnlinkTmp True, fs')
     | Exists \<Rightarrow> (UnlinkTmp False, fs)
     | LinkError \<Rightarrow> (UnlinkTmp False, fs))"

definition take_unlink :: "nat \<Rightarrow> bool \<Rightarrow> files \<Rightarrow> pc \<times> files" where
  "take_unlink pid linked fs = (if linked then Verify else Outside, ddel fs (TmpFile pid))"

definition take_verify :: "nat \<Rightarrow> files \<Rightarrow> pc" where
  "take_verify pid fs = (if dget fs LockFile = Some (own_content pid) then Holding else Outside)"

text \<open>\<^verbatim>\<open>unlock_pidfile\<close>\<close>

definition unlock_read :: "nat \<Rightarrow> files \<Rightarrow> pc" where
  "unlock_read pid fs = (if dget fs LockFile = Some (own_content pid) then UnlockUnlink else Outside)"

definition unlock_unlink :: "files \<Rightarrow> files" where
  "unlock_unlink fs = ddel fs LockFile"

section \<open>Steps\<close>

record system =
  sy_files :: files
  sy_pc :: "nat \<Rightarrow> pc"

definition goto :: "nat \<Rightarrow> pc \<Rightarrow> system \<Rightarrow> system" where
  "goto p c s = s\<lparr>sy_pc := (sy_pc s)(p := c)\<rparr>"

text \<open>A live process of the program shows the program's command line; other PIDs show anything.\<close>

definition can_show :: "string \<Rightarrow> system \<Rightarrow> int \<Rightarrow> proc_view \<Rightarrow> bool" where
  "can_show argv0 s q v = ((\<exists>p. q = int p \<and> sy_pc s p \<noteq> Absent) \<longrightarrow>
     (\<exists>text. v = Cmdline text \<and> argv0 \<in> set (cmdline_args text)))"

text \<open>\<open>removes\<close> says whether the removal of a file taken for stale may happen.\<close>

inductive pid_step :: "bool \<Rightarrow> string \<Rightarrow> system \<Rightarrow> system \<Rightarrow> bool" for removes :: bool and argv0 :: string where
  start: "sy_pc s p = Absent \<Longrightarrow> pid_step removes argv0 s (goto p Outside s)"
| die: "pid_step removes argv0 s (goto p Absent s)"
| lock: "sy_pc s p = Outside \<Longrightarrow> pid_step removes argv0 s (goto p ReadStale s)"
| read_stale: "sy_pc s p = ReadStale \<Longrightarrow> pid_step removes argv0 s (goto p (stale_read (sy_files s)) s)"
| read_fails: "sy_pc s p = ReadStale \<Longrightarrow> pid_step removes argv0 s (goto p after_stale s)"
| cmdline: "sy_pc s p = LookCmdline q \<Longrightarrow> can_show argv0 s q v \<Longrightarrow> pid_step removes argv0 s (goto p (stale_cmdline argv0 q v) s)"
| exe: "sy_pc s p = LookExe q \<Longrightarrow> pid_step removes argv0 s (goto p (stale_exe argv0 v) s)"
| unlink_stale: "removes \<Longrightarrow> sy_pc s p = UnlinkStale \<Longrightarrow>
     pid_step removes argv0 s (goto p after_stale (s\<lparr>sy_files := stale_unlink (sy_files s)\<rparr>))"
| unlink_fails: "sy_pc s p = UnlinkStale \<Longrightarrow> pid_step removes argv0 s (goto p after_stale s)"
| tmp: "sy_pc s p = WriteTmp \<Longrightarrow>
     pid_step removes argv0 s (goto p LinkTmp (s\<lparr>sy_files := write_tmp p (sy_files s)\<rparr>))"
| tmp_fails: "sy_pc s p = WriteTmp \<Longrightarrow>
     pid_step removes argv0 s (goto p Outside (s\<lparr>sy_files := ddel (sy_files s) (TmpFile p)\<rparr>))"
| open_fails: "sy_pc s p = WriteTmp \<Longrightarrow> pid_step removes argv0 s (goto p Outside s)"
| link: "sy_pc s p = LinkTmp \<Longrightarrow> take_link p (sy_files s) = (c, fs) \<Longrightarrow>
     pid_step removes argv0 s (goto p c (s\<lparr>sy_files := fs\<rparr>))"
| unlink_tmp: "sy_pc s p = UnlinkTmp b \<Longrightarrow> take_unlink p b (sy_files s) = (c, fs) \<Longrightarrow>
     pid_step removes argv0 s (goto p c (s\<lparr>sy_files := fs\<rparr>))"
| unlink_tmp_fails: "sy_pc s p = UnlinkTmp b \<Longrightarrow> pid_step removes argv0 s (goto p Outside s)"
| verify: "sy_pc s p = Verify \<Longrightarrow> pid_step removes argv0 s (goto p (take_verify p (sy_files s)) s)"
| verify_fails: "sy_pc s p = Verify \<Longrightarrow> pid_step removes argv0 s (goto p Outside s)"
| unlock: "sy_pc s p = Holding \<Longrightarrow> pid_step removes argv0 s (goto p UnlockRead s)"
| unlock_read: "sy_pc s p = UnlockRead \<Longrightarrow> pid_step removes argv0 s (goto p (unlock_read p (sy_files s)) s)"
| unlock_unlink: "sy_pc s p = UnlockUnlink \<Longrightarrow>
     pid_step removes argv0 s (goto p Outside (s\<lparr>sy_files := unlock_unlink (sy_files s)\<rparr>))"
| unlock_fails: "sy_pc s p = UnlockRead \<or> sy_pc s p = UnlockUnlink \<Longrightarrow> pid_step removes argv0 s (goto p Outside s)"

definition pid_start :: "system \<Rightarrow> bool" where
  "pid_start s = (dict_ok (sy_files s) \<and> (\<forall>p. sy_pc s p = Absent \<or> sy_pc s p = Outside))"

end
