(* ===== verification/Pidfile_Properties.thy ===== *)
theory Pidfile_Properties
  imports Pidfile
begin

text \<open>
  The PID file excludes other holders as long as no file taken for stale is removed, and the race that
  the removal opens.
\<close>

section \<open>Exclusion\<close>

lemma own_content_inj: "(own_content p = own_content q) = (p = q)"
proof -
  have "show_nat p = show_nat q \<Longrightarrow> p = q" by (metis digits_val_show)
  then show ?thesis by (auto simp only: own_content_def append1_eq_conv)
qed

lemma own_content_line: "pid_in_file (own_content p) = Some (int p)"
proof -
  have "CHR 0x0A \<notin> set (show_nat p)" using show_nat_digits(1) [of p] by (auto simp: digit_chars_def)
  then have "takeWhile (\<lambda>c. c \<noteq> CHR 0x0A) (own_content p) = show_nat p"
    unfolding own_content_def by (subst takeWhile_append2) auto
  then show ?thesis by (simp add: pid_in_file_def py_int_show)
qed

text \<open>A PID of a live process of the program is never taken for stale.\<close>

lemma live_not_stale:
  "can_show argv0 s q v \<Longrightarrow> q = int p \<Longrightarrow> sy_pc s p \<noteq> Absent \<Longrightarrow> stale_cmdline argv0 q v = after_stale"
  unfolding can_show_def stale_cmdline_def by fastforce

text \<open>Where the lock file is a process's own.\<close>

definition claims :: "pc \<Rightarrow> bool" where
  "claims c = (c = UnlinkTmp True \<or> c = Verify \<or> c = Holding \<or> c = UnlockRead \<or> c = UnlockUnlink)"

definition pid_inv :: "system \<Rightarrow> bool" where
  "pid_inv s \<longleftrightarrow> (\<forall>p. claims (sy_pc s p) \<longrightarrow> dget (sy_files s) LockFile = Some (own_content p)) \<and>
     (\<forall>p. sy_pc s p = LinkTmp \<longrightarrow> dget (sy_files s) (TmpFile p) = Some (own_content p))"

lemma stale_pcs [simp]:
  "\<not> claims (stale_read fs)" "stale_read fs \<noteq> LinkTmp" "\<not> claims (stale_cmdline a q v)" "stale_cmdline a q v \<noteq> LinkTmp"
  "\<not> claims (stale_exe a w)" "stale_exe a w \<noteq> LinkTmp"
  by (auto simp: stale_read_def stale_cmdline_def stale_exe_def after_stale_def claims_def
      split: option.splits proc_view.splits exe_view.splits)

lemma goto_simps [simp]:
  "sy_files (goto p c s) = sy_files s" "sy_pc (goto p c s) q = (if q = p then c else sy_pc s q)"
  by (simp_all add: goto_def)

lemma claims_simps [simp]:
  "claims (UnlinkTmp True)" "claims Verify" "claims Holding" "claims UnlockRead" "claims UnlockUnlink"
  "\<not> claims Absent" "\<not> claims Outside" "\<not> claims ReadStale" "\<not> claims WriteTmp" "\<not> claims LinkTmp"
  "\<not> claims UnlinkStale" "\<not> claims (UnlinkTmp False)" "\<not> claims (LookCmdline q)" "\<not> claims (LookExe q)"
  by (simp_all add: claims_def)

lemma claims_unique: "pid_inv s \<Longrightarrow> claims (sy_pc s p) \<Longrightarrow> claims (sy_pc s q) \<Longrightarrow> p = q"
  by (metis own_content_inj option.inject pid_inv_def)

text \<open>A step that keeps the files a process relies on keeps the invariant.\<close>

lemma pid_invI:
  assumes "pid_inv s"
    and "\<And>q. q \<noteq> p \<Longrightarrow> claims (sy_pc s q) \<Longrightarrow> dget fs LockFile = dget (sy_files s) LockFile"
    and "\<And>q. q \<noteq> p \<Longrightarrow> dget fs (TmpFile q) = dget (sy_files s) (TmpFile q)"
    and "claims c \<Longrightarrow> dget fs LockFile = Some (own_content p)"
    and "c = LinkTmp \<Longrightarrow> dget fs (TmpFile p) = Some (own_content p)"
  shows "pid_inv (goto p c (s\<lparr>sy_files := fs\<rparr>))"
  using assms unfolding pid_inv_def by auto

lemma pid_inv_goto:
  "pid_inv s \<Longrightarrow> (claims c \<Longrightarrow> claims (sy_pc s p)) \<Longrightarrow> c \<noteq> LinkTmp \<Longrightarrow> pid_inv (goto p c s)"
  unfolding pid_inv_def by simp

lemma pid_inv_step:
  assumes "pid_inv s" "pid_step False argv0 s t"
  shows "pid_inv t"
  using assms(2)
proof cases
  case (link p c fs)
  show ?thesis unfolding link(1)
    by (rule pid_invI [OF assms(1)])
      (use link(2,3) assms(1) in \<open>auto simp: take_link_def sys_link_def dhas_def pid_inv_def
        split: link_result.splits option.splits if_splits\<close>)
next
  case (unlink_tmp p b c fs)
  show ?thesis unfolding unlink_tmp(1)
    by (rule pid_invI [OF assms(1)])
      (use unlink_tmp(2,3) assms(1) in \<open>auto simp: take_unlink_def pid_inv_def split: if_splits\<close>)
next
  case (unlock_unlink p)
  show ?thesis unfolding unlock_unlink(1)
    by (rule pid_invI [OF assms(1)])
      (use unlock_unlink(2) claims_unique [OF assms(1), of p] in \<open>auto simp: unlock_unlink_def\<close>)
next
  case (tmp p)
  show ?thesis unfolding tmp(1) by (rule pid_invI [OF assms(1)]) (auto simp: write_tmp_def)
next
  case (tmp_fails p)
  show ?thesis unfolding tmp_fails(1) by (rule pid_invI [OF assms(1)]) auto
qed (use assms(1) in \<open>auto simp: take_verify_def unlock_read_def after_stale_def intro!: pid_inv_goto\<close>)

interpretation pidlock: invariant_system pid_start "pid_step False argv0" pid_inv for argv0
proof
  show "pid_inv s" if "pid_start s" for s
  proof -
    have "\<not> claims (sy_pc s p) \<and> sy_pc s p \<noteq> LinkTmp" for p
      using that unfolding pid_start_def by (metis claims_simps(6,7) pc.distinct)
    then show ?thesis by (simp add: pid_inv_def)
  qed
qed (rule pid_inv_step)

text \<open>
  C22: Unless a file taken for stale is removed, the PID file excludes: in every interleaving of the
  system calls of any number of processes, also when processes die and PIDs are used again, at most
  one process is between the creation of the link and its removal; the file then holds that process's
  PID, every other link is refused, and only the removal by the holder itself deletes the file.
\<close>

theorem pidfile_exclusive:
  assumes "reach pid_start (pid_step False argv0) s" "sy_pc s p = Holding"
  shows "(claims (sy_pc s q) \<longrightarrow> q = p) \<and> dget (sy_files s) LockFile = Some (own_content p) \<and>
    (sy_pc s q = LinkTmp \<longrightarrow> take_link q (sy_files s) = (UnlinkTmp False, sy_files s)) \<and>
    (pid_step False argv0 s t \<longrightarrow> dget (sy_files t) LockFile = Some (own_content p))"
proof -
  have i: "pid_inv s" by (rule pidlock.reach_inv [OF assms(1)])
  then have f: "dget (sy_files s) LockFile = Some (own_content p)" using assms(2) by (simp add: pid_inv_def)
  have only: "claims (sy_pc s r) \<longrightarrow> r = p" for r using claims_unique [OF i, of r p] assms(2) by simp
  have "take_link q (sy_files s) = (UnlinkTmp False, sy_files s)" if "sy_pc s q = LinkTmp"
    using i that f by (simp add: take_link_def sys_link_def dhas_def pid_inv_def)
  moreover have "dget (sy_files t) LockFile = Some (own_content p)" if "pid_step False argv0 s t"
    using that
  proof cases
    case (link q c fs)
    then show ?thesis using f i
      by (auto simp: take_link_def sys_link_def dhas_def pid_inv_def split: link_result.splits option.splits if_splits)
  next
    case (unlock_unlink q)
    then show ?thesis using only [of q] assms(2) by simp
  qed (use f in \<open>auto simp: take_unlink_def write_tmp_def split: if_splits\<close>)
  ultimately show ?thesis using f only by simp
qed

section \<open>A run of one process\<close>

text \<open>A process that is about to write its temporary file gets a free lock when left alone.\<close>

lemma lock_run_free:
  assumes r: "reach pid_start (pid_step b argv0) s" and w: "sy_pc s p = WriteTmp"
    and free: "\<not> dhas (sy_files s) LockFile"
  shows "\<exists>s'. reach pid_start (pid_step b argv0) s' \<and> sy_pc s' p = Holding \<and> (\<forall>q. q \<noteq> p \<longrightarrow> sy_pc s' q = sy_pc s q) \<and>
    dget (sy_files s') LockFile = Some (own_content p)"
proof -
  define f1 where "f1 = write_tmp p (sy_files s)"
  define s1 where "s1 = goto p LinkTmp (s\<lparr>sy_files := f1\<rparr>)"
  define f2 where "f2 = dset f1 LockFile (own_content p)"
  define s2 where "s2 = goto p (UnlinkTmp True) (s1\<lparr>sy_files := f2\<rparr>)"
  define f3 where "f3 = ddel f2 (TmpFile p)"
  define s3 where "s3 = goto p Verify (s2\<lparr>sy_files := f3\<rparr>)"
  define s4 where "s4 = goto p (take_verify p (sy_files s3)) s3"
  have r1: "reach pid_start (pid_step b argv0) s1" unfolding s1_def f1_def by (rule reach_step [OF r]) (rule tmp [OF w])
  have pc1: "sy_pc s1 p = LinkTmp" "sy_files s1 = f1" by (simp_all add: s1_def)
  have "take_link p (sy_files s1) = (UnlinkTmp True, f2)"
    using free by (simp add: pc1 take_link_def sys_link_def f1_def f2_def write_tmp_def dhas_def)
  then have r2: "reach pid_start (pid_step b argv0) s2" unfolding s2_def by (rule reach_step [OF r1 link [OF pc1(1)]])
  have pc2: "sy_pc s2 p = UnlinkTmp True" "sy_files s2 = f2" by (simp_all add: s2_def)
  have "take_unlink p True (sy_files s2) = (Verify, f3)" by (simp add: pc2 take_unlink_def f3_def)
  then have r3: "reach pid_start (pid_step b argv0) s3" unfolding s3_def by (rule reach_step [OF r2 unlink_tmp [OF pc2(1)]])
  have f3: "dget f3 LockFile = Some (own_content p)" by (simp add: f3_def f2_def)
  have "sy_pc s3 p = Verify" by (simp add: s3_def)
  then have r4: "reach pid_start (pid_step b argv0) s4" unfolding s4_def by (rule reach_step [OF r3 verify])
  have "sy_pc s4 p = Holding" "dget (sy_files s4) LockFile = Some (own_content p)"
    using f3 by (simp_all add: s4_def s3_def take_verify_def)
  moreover have "sy_pc s4 q = sy_pc s q" if "q \<noteq> p" for q using that by (simp add: s4_def s3_def s2_def s1_def)
  ultimately show ?thesis using r4 by (intro exI [of _ s4]) simp
qed

text \<open>A process that finds the file of a dead one is about to remove it.\<close>

lemma find_stale:
  assumes "reach pid_start (pid_step b argv0) s" "sy_pc s p = Outside" "dget (sy_files s) LockFile = Some (own_content d)"
    "sy_pc s d = Absent" "p \<noteq> d"
  shows "\<exists>s'. reach pid_start (pid_step b argv0) s' \<and> sy_pc s' p = UnlinkStale \<and> (\<forall>q. q \<noteq> p \<longrightarrow> sy_pc s' q = sy_pc s q) \<and>
    sy_files s' = sy_files s"
proof -
  let ?s1 = "goto p ReadStale s"
  let ?s2 = "goto p (LookCmdline (int d)) ?s1"
  let ?s3 = "goto p UnlinkStale ?s2"
  have r1: "reach pid_start (pid_step b argv0) ?s1" by (rule reach_step [OF assms(1)]) (rule lock [OF assms(2)])
  have "stale_read (sy_files ?s1) = LookCmdline (int d)"
    using assms(3) by (simp add: stale_read_def own_content_line)
  then have r2: "reach pid_start (pid_step b argv0) ?s2" using reach_step [OF r1 read_stale [of ?s1 p b argv0]] by simp
  have "can_show argv0 ?s2 (int d) NoProcess" using assms(4,5) by (auto simp: can_show_def)
  then have r3: "reach pid_start (pid_step b argv0) ?s3"
    using reach_step [OF r2 cmdline [of ?s2 p "int d" argv0 NoProcess b]] by (simp add: stale_cmdline_def)
  show ?thesis by (rule exI [of _ ?s3]) (use r3 in auto)
qed

theorem pidfile_exclusive_witness:
  "\<exists>s :: system. sy_pc s 1 = Holding \<and> dget (sy_files s) LockFile = Some (own_content 1) \<and>
     (claims (sy_pc s 2) \<longrightarrow> 2 = (1 :: nat))"
proof -
  let ?s = "\<lparr>sy_files = [], sy_pc = (\<lambda>_. Outside)\<rparr>"
  have "reach pid_start (pid_step False argv0) ?s" by (rule reach_init) (simp add: pid_start_def)
  from reach_step [OF this lock [of ?s 1]] have "reach pid_start (pid_step False argv0) (goto 1 ReadStale ?s)" by simp
  from reach_step [OF this read_fails [of _ 1]]
  have "reach pid_start (pid_step False argv0) (goto 1 after_stale (goto 1 ReadStale ?s))" by simp
  from lock_run_free [OF this, of 1] obtain s' where "reach pid_start (pid_step False argv0) s'" "sy_pc s' 1 = Holding"
    by (auto simp: after_stale_def)
  note r = this
  show ?thesis
  proof (intro exI [of _ s'] conjI)
    show "dget (sy_files s') LockFile = Some (own_content 1)" "claims (sy_pc s' 2) \<longrightarrow> 2 = (1 :: nat)"
      using pidfile_exclusive [OF r, of 2] by simp_all
  qed (rule r(2))
qed

text \<open>
  C0: The removal of a stale file is a race: two processes that both find the file of a dead process may
  end up holding the lock at the same time, because the second removal takes away the lock the first
  process has just created.
\<close>

theorem pidfile_stale_race:
  "\<exists>s p q. reach pid_start (pid_step True argv0) s \<and> p \<noteq> q \<and> sy_pc s p = Holding \<and> sy_pc s q = Holding"
proof -
  let ?s0 = "\<lparr>sy_files = [(LockFile, own_content 9)], sy_pc = (\<lambda>p. if p = 9 then Absent else Outside)\<rparr>"
  have r0: "reach pid_start (pid_step True argv0) ?s0" by (rule reach_init) (simp add: pid_start_def dict_ok_def)
  obtain s1 where s1: "reach pid_start (pid_step True argv0) s1" "sy_pc s1 1 = UnlinkStale" "sy_pc s1 2 = Outside"
    "sy_pc s1 9 = Absent" "sy_files s1 = sy_files ?s0"
    using find_stale [OF r0, of 1 9] by (auto simp: dget_Cons)
  obtain s2 where s2: "reach pid_start (pid_step True argv0) s2" "sy_pc s2 1 = UnlinkStale" "sy_pc s2 2 = UnlinkStale"
    using find_stale [OF s1(1), of 2 9] s1 by (auto simp: dget_Cons)
  let ?s3 = "goto 2 after_stale (s2\<lparr>sy_files := stale_unlink (sy_files s2)\<rparr>)"
  have r3: "reach pid_start (pid_step True argv0) ?s3" by (rule reach_step [OF s2(1)], rule unlink_stale) (use s2 in auto)
  obtain s4 where s4: "reach pid_start (pid_step True argv0) s4" "sy_pc s4 2 = Holding" "sy_pc s4 1 = UnlinkStale"
    using lock_run_free [OF r3, of 2] s2 by (auto simp: after_stale_def stale_unlink_def)
  let ?s5 = "goto 1 after_stale (s4\<lparr>sy_files := stale_unlink (sy_files s4)\<rparr>)"
  have r5: "reach pid_start (pid_step True argv0) ?s5" by (rule reach_step [OF s4(1)], rule unlink_stale) (use s4 in auto)
  obtain s6 where "reach pid_start (pid_step True argv0) s6" "sy_pc s6 1 = Holding" "sy_pc s6 2 = Holding"
    using lock_run_free [OF r5, of 1] s4 by (auto simp: after_stale_def stale_unlink_def)
  then show ?thesis by (intro exI [of _ s6] exI [of _ 1] exI [of _ 2]) simp
qed

end
