(* ===== verification/Transactions.thy ===== *)
theory Transactions
  imports Prelude
begin

text \<open>
  The class \<^verbatim>\<open>SQLiteTransactions\<close> of \<^verbatim>\<open>sonicprobe/libs/sqlite_transactions.py\<close>. The SQLite driver is a
  parameter: a function that runs a command on the driver's state and may raise. The body of a block
  is a function on the state as well, so blocks nest the way \<^verbatim>\<open>with\<close> statements do. The lock of the
  domain is held from the entry of a block to its exit, so one thread at a time runs what follows.
\<close>

section \<open>State\<close>

text \<open>\<open>Plain\<close> is an instance of \<^verbatim>\<open>Exception\<close>, \<open>Base\<close> of \<^verbatim>\<open>BaseException\<close> only (such as an interrupt).\<close>

datatype exc = Plain string | Base string

datatype command = Begin | Begin_Immediate | Commit | Rollback

text \<open>What is recorded: a boundary command with the error it raised, and the end of an outermost block.\<close>

datatype tx_event = Ran command "exc option" | Ended "exc option"

type_synonym 'd boundary = "command \<Rightarrow> 'd \<Rightarrow> exc option \<times> 'd"

text \<open>
  \<open>tx_same\<close>: \<^verbatim>\<open>connection.driver_connection is self._driver\<close>; \<open>tx_manual\<close>: its \<^verbatim>\<open>isolation_level\<close> is
  \<^verbatim>\<open>None\<close>. \<open>tx_log\<close> records the boundary commands sent to the driver and how outermost blocks ended.
\<close>

record 'd domain =
  tx_active :: bool
  tx_read_only :: bool
  tx_failed :: bool
  tx_same :: bool
  tx_manual :: bool
  tx_log :: "tx_event list"
  tx_driver :: 'd

type_synonym ('d, 'a) tx_body = "'d domain \<Rightarrow> (exc + 'a) \<times> 'd domain"

text \<open>\<^verbatim>\<open>__init__\<close>\<close>

definition tx_new :: "bool \<Rightarrow> bool \<Rightarrow> bool \<Rightarrow> 'd \<Rightarrow> exc + 'd domain" where
  "tx_new auto_reconnect is_sqlite manual d =
     (if auto_reconnect then Inl (Plain ''ValueError: SQLite transactions require auto_reconnect=False'')
      else if \<not> is_sqlite then Inl (Plain ''TypeError: SQLite transactions require a SQLite connection'')
      else if \<not> manual then Inl (Plain ''ValueError: SQLite transactions require isolation_level=None'')
      else Inr \<lparr>tx_active = False, tx_read_only = False, tx_failed = False, tx_same = True, tx_manual = True,
        tx_log = [], tx_driver = d\<rparr>)"

section \<open>Blocks\<close>

text \<open>\<^verbatim>\<open>self._driver.execute(...)\<close>\<close>

definition execute :: "'d boundary \<Rightarrow> command \<Rightarrow> 'd domain \<Rightarrow> exc option \<times> 'd domain" where
  "execute drv c s = (case drv c (tx_driver s) of
     (e, d) \<Rightarrow> (e, s\<lparr>tx_driver := d, tx_log := tx_log s @ [Ran c e]\<rparr>))"

text \<open>The part of \<^verbatim>\<open>_transaction\<close> before the first \<^verbatim>\<open>yield\<close>; \<^verbatim>\<open>Inr True\<close> joins the outer block.\<close>

definition tx_enter :: "'d boundary \<Rightarrow> bool \<Rightarrow> 'd domain \<Rightarrow> (exc + bool) \<times> 'd domain" where
  "tx_enter drv read_only s =
     (if tx_failed s then (Inl (Plain ''RuntimeError: SQLite transaction domain requires a new connection''), s)
      else if \<not> tx_same s \<or> \<not> tx_manual s then (Inl (Plain ''ValueError: SQLite transaction connection changed''), s)
      else if tx_active s then
        (if \<not> read_only \<and> tx_read_only s then (Inl (Plain ''ValueError: write_inside_read_snapshot''), s)
         else (Inr True, s))
      else (case execute drv (if read_only then Begin else Begin_Immediate) s of
          (Some e, s') \<Rightarrow> (Inl e, s')
        | (None, s') \<Rightarrow> (Inr False, s'\<lparr>tx_active := True, tx_read_only := read_only\<rparr>)))"

text \<open>The \<^verbatim>\<open>except BaseException\<close> clause: roll back, then raise the first error again.\<close>

definition tx_abort :: "'d boundary \<Rightarrow> exc \<Rightarrow> 'd domain \<Rightarrow> exc \<times> 'd domain" where
  "tx_abort drv failure s = (case execute drv Rollback s of
       (None, s') \<Rightarrow> (failure, s')
     | (Some (Plain _), s') \<Rightarrow> (failure, s'\<lparr>tx_failed := True\<rparr>)
     | (Some (Base e), s') \<Rightarrow> (Base e, s'))"

text \<open>The part after the \<^verbatim>\<open>yield\<close> of an outermost block, given how the body ended.\<close>

definition tx_commit :: "'d boundary \<Rightarrow> exc + 'a \<Rightarrow> 'd domain \<Rightarrow> (exc + 'a) \<times> 'd domain" where
  "tx_commit drv r s = (case r of
       Inl e \<Rightarrow> (Inl e, s)
     | Inr a \<Rightarrow>
         if \<not> tx_same s then (Inl (Plain ''ValueError: SQLite transaction connection changed''), s)
         else (case execute drv Commit s of (Some e, s') \<Rightarrow> (Inl e, s') | (None, s') \<Rightarrow> (Inr a, s')))"

definition tx_leave :: "'d boundary \<Rightarrow> exc + 'a \<Rightarrow> 'd domain \<Rightarrow> (exc + 'a) \<times> 'd domain" where
  "tx_leave drv r s =
     (let (r1, s1) = (case tx_commit drv r s of
            (Inr a, s') \<Rightarrow> (Inr a, s')
          | (Inl e, s') \<Rightarrow> (case tx_abort drv e s' of (e', s'') \<Rightarrow> (Inl e', s'')))
      in (r1, s1\<lparr>tx_active := False, tx_read_only := False,
            tx_log := tx_log s1 @ [Ended (case r1 of Inl e \<Rightarrow> Some e | Inr _ \<Rightarrow> None)]\<rparr>))"

text \<open>\<^verbatim>\<open>with domain._transaction(read_only): body\<close>\<close>

definition tx_block :: "'d boundary \<Rightarrow> bool \<Rightarrow> ('d, 'a) tx_body \<Rightarrow> ('d, 'a) tx_body" where
  "tx_block drv read_only body s = (case tx_enter drv read_only s of
       (Inl e, s1) \<Rightarrow> (Inl e, s1)
     | (Inr nested, s1) \<Rightarrow> (case body s1 of (r, s2) \<Rightarrow> if nested then (r, s2) else tx_leave drv r s2))"

definition transaction :: "'d boundary \<Rightarrow> ('d, 'a) tx_body \<Rightarrow> ('d, 'a) tx_body" where
  "transaction drv = tx_block drv False"

definition read_snapshot :: "'d boundary \<Rightarrow> ('d, 'a) tx_body \<Rightarrow> ('d, 'a) tx_body" where
  "read_snapshot drv = tx_block drv True"

section \<open>Client code\<close>

text \<open>
  Code that uses the domain as its documentation asks, without boundary commands of its own: statements
  (chosen by the caller, with the driver's answer), reconnections and changes of the isolation level it
  should not make, errors, sequences, \<^verbatim>\<open>try\<close> statements that catch \<^verbatim>\<open>Exception\<close> or everything, blocks.
\<close>

datatype 'd code =
    Statement "'d \<Rightarrow> exc option \<times> 'd"
  | Reconnect | Isolation bool
  | Throw exc
  | Then "'d code" "'d code"
  | Catch bool "'d code" "'d code"
  | Block bool "'d code"

definition catches :: "bool \<Rightarrow> exc \<Rightarrow> bool" where
  "catches everything e = (everything \<or> (case e of Plain _ \<Rightarrow> True | Base _ \<Rightarrow> False))"

primrec run_code :: "'d boundary \<Rightarrow> 'd code \<Rightarrow> ('d, unit) tx_body" where
  "run_code drv (Statement f) = (\<lambda>s. case f (tx_driver s) of
     (None, d) \<Rightarrow> (Inr (), s\<lparr>tx_driver := d\<rparr>) | (Some e, d) \<Rightarrow> (Inl e, s\<lparr>tx_driver := d\<rparr>))"
| "run_code drv Reconnect = (\<lambda>s. (Inr (), s\<lparr>tx_same := False\<rparr>))"
| "run_code drv (Isolation manual) = (\<lambda>s. (Inr (), s\<lparr>tx_manual := manual\<rparr>))"
| "run_code drv (Throw e) = (\<lambda>s. (Inl e, s))"
| "run_code drv (Then p q) = (\<lambda>s. case run_code drv p s of
     (Inl e, s') \<Rightarrow> (Inl e, s') | (Inr u, s') \<Rightarrow> run_code drv q s')"
| "run_code drv (Catch everything p q) = (\<lambda>s. case run_code drv p s of
     (Inl e, s') \<Rightarrow> if catches everything e then run_code drv q s' else (Inl e, s') | (Inr u, s') \<Rightarrow> (Inr u, s'))"
| "run_code drv (Block read_only p) = tx_block drv read_only (run_code drv p)"

end
