(* ===== verification/Transactions_Properties.thy ===== *)
theory Transactions_Properties
  imports Transactions
begin

text \<open>
  The boundary commands of \<^verbatim>\<open>SQLiteTransactions\<close>: whatever the client code does, and whatever the driver
  answers, they come in complete brackets, and a block ends the way its last command says.
\<close>

section \<open>Inside a block\<close>

lemma execute_fields:
  assumes "execute drv c s = (e, s')"
  shows "tx_log s' = tx_log s @ [Ran c e]" "tx_active s' = tx_active s" "tx_read_only s' = tx_read_only s"
    "tx_failed s' = tx_failed s" "tx_same s' = tx_same s" "tx_manual s' = tx_manual s"
  using assms by (auto simp: execute_def split: prod.splits)

text \<open>What client code keeps: the flags of the domain and, inside a block, the log.\<close>

definition stays :: "'d domain \<Rightarrow> 'd domain \<Rightarrow> bool" where
  "stays s s' \<longleftrightarrow> tx_active s' = tx_active s \<and> tx_read_only s' = tx_read_only s \<and> tx_failed s' = tx_failed s \<and>
     tx_log s' = tx_log s"

lemma stays_refl [simp]: "stays s s" by (simp add: stays_def)

lemma stays_trans [trans]: "stays a b \<Longrightarrow> stays b c \<Longrightarrow> stays a c" by (simp add: stays_def)

definition joins :: "('d, 'a) tx_body \<Rightarrow> bool" where
  "joins body \<longleftrightarrow> (\<forall>s. tx_active s \<longrightarrow> stays s (snd (body s)))"

lemma joins_block: "joins body \<Longrightarrow> joins (tx_block drv read_only body)"
  unfolding joins_def by (simp add: tx_block_def tx_enter_def split: prod.splits sum.splits)

lemma joins_then:
  fixes f :: "('d, 'a) tx_body" and g :: "exc + 'a \<Rightarrow> ('d, 'b) tx_body"
  assumes "joins f" "\<And>x. joins (g x)"
  shows "joins (\<lambda>s. case f s of (r, s') \<Rightarrow> g r s')"
  unfolding joins_def
proof (intro allI impI)
  fix s :: "'d domain" assume "tx_active s"
  obtain r s' where f: "f s = (r, s')" by fastforce
  with assms(1) \<open>tx_active s\<close> have s: "stays s s'" unfolding joins_def by (metis snd_conv)
  with \<open>tx_active s\<close> have "tx_active s'" by (simp add: stays_def)
  with assms(2) have "stays s' (snd (g r s'))" unfolding joins_def by blast
  with s show "stays s (snd (case f s of (r, s') \<Rightarrow> g r s'))" by (auto simp: f intro: stays_trans)
qed

lemma joins_pure: "joins (\<lambda>s. (f s, s))"
  by (simp add: joins_def)

lemma joins_code: "joins (run_code drv p)"
proof (induction p)
  case (Then p q)
  have "joins (\<lambda>s. case r of Inl e \<Rightarrow> (Inl e, s) | Inr u \<Rightarrow> run_code drv q s)" for r :: "exc + unit"
    using Then.IH(2) by (cases r) (auto simp: joins_pure)
  from joins_then [OF Then.IH(1) this] show ?case by (simp add: joins_def split: prod.splits sum.splits)
next
  case (Catch x p q)
  have "joins (\<lambda>s. case r of Inl e \<Rightarrow> if catches x e then run_code drv q s else (Inl e, s) | Inr u \<Rightarrow> (Inr u, s))"
    for r :: "exc + unit"
    using Catch.IH(2) by (cases r) (auto simp: joins_pure joins_def)
  from joins_then [OF Catch.IH(1) this] show ?case by (simp add: joins_def split: prod.splits sum.splits)
next
  case (Block x p)
  then show ?case by (simp add: joins_block)
qed (auto simp: joins_def stays_def split: prod.splits option.splits)

section \<open>One outermost block\<close>

text \<open>
  How an outermost block may end, with its result and what is recorded of it: its beginning failed; or it committed; or
  it was rolled back, after an error of the body (\<open>first\<close>) or one of \<^verbatim>\<open>COMMIT\<close>. The error is the first one, unless
  the \<^verbatim>\<open>ROLLBACK\<close> raised what is not an \<^verbatim>\<open>Exception\<close>.
\<close>

definition begin_of :: "bool \<Rightarrow> command" where
  "begin_of read_only = (if read_only then Begin else Begin_Immediate)"

definition block_end :: "bool \<Rightarrow> exc + 'a \<Rightarrow> tx_event list \<Rightarrow> bool" where
  "block_end read_only r l \<longleftrightarrow>
     (case r of
       Inr a \<Rightarrow> l = [Ran (begin_of read_only) None, Ran Commit None, Ended None]
     | Inl e \<Rightarrow> l = [Ran (begin_of read_only) (Some e)] \<or>
         (\<exists>first c x. (c = [] \<or> c = [Ran Commit (Some first)]) \<and>
            l = Ran (begin_of read_only) None # c @ [Ran Rollback x, Ended (Some e)] \<and>
            e = (case x of Some (Base b) \<Rightarrow> Base b | _ \<Rightarrow> first)))"

text \<open>A block that closes the domain: its \<^verbatim>\<open>ROLLBACK\<close> failed with an \<^verbatim>\<open>Exception\<close>.\<close>

definition closing :: "tx_event list \<Rightarrow> bool" where
  "closing l \<longleftrightarrow> (\<exists>m. Ran Rollback (Some (Plain m)) \<in> set l)"

lemma abort_end:
  assumes "tx_abort drv e s = (e', s')" "\<not> tx_failed s"
  obtains x where "tx_log s' = tx_log s @ [Ran Rollback x]" "e' = (case x of Some (Base b) \<Rightarrow> Base b | _ \<Rightarrow> e)"
    "tx_failed s' \<longleftrightarrow> (\<exists>m. x = Some (Plain m))"
proof -
  obtain x s1 where x: "execute drv Rollback s = (x, s1)" by fastforce
  note f = execute_fields [OF x]
  show ?thesis using assms x f by (intro that [of x]) (auto simp: tx_abort_def split: option.splits exc.splits)
qed

lemma commit_end:
  assumes "tx_commit drv r s = (r', s')"
  obtains (ended) a where "r' = Inr a" "tx_log s' = tx_log s @ [Ran Commit None]" "tx_failed s' = tx_failed s"
  | (broken) e c where "r' = Inl e" "c = [] \<or> c = [Ran Commit (Some e)]" "tx_log s' = tx_log s @ c" "tx_failed s' = tx_failed s"
proof (cases "r")
  case (Inl e)
  then show ?thesis using assms by (intro broken [of e "[]"]) (auto simp: tx_commit_def)
next
  case (Inr a)
  obtain x s1 where x: "execute drv Commit s = (x, s1)" by fastforce
  note f = execute_fields [OF x]
  show ?thesis
  proof (cases "tx_same s")
    case False
    with Inr assms show ?thesis by (intro broken [of _ "[]"]) (auto simp: tx_commit_def)
  next
    case True
    with Inr assms x f show ?thesis
      by (cases x) (auto simp: tx_commit_def intro: ended broken)
  qed
qed

text \<open>An outermost block in a usable domain: one beginning, and one end that fits the result.\<close>

definition usable :: "'d domain \<Rightarrow> bool" where
  "usable s \<longleftrightarrow> \<not> tx_failed s \<and> tx_same s \<and> tx_manual s"

lemma block_refused:
  assumes "\<not> usable s"
  shows "\<exists>e. tx_block drv read_only body s = (Inl (Plain e), s)"
  using assms by (auto simp: tx_block_def tx_enter_def usable_def)

lemma block_ends:
  assumes idle: "\<not> tx_active s" and u: "usable s" and j: "joins body"
    and run: "tx_block drv read_only body s = (r, s')"
  shows "\<not> tx_active s' \<and> (\<exists>l. tx_log s' = tx_log s @ l \<and> block_end read_only r l \<and> tx_failed s' = closing l)"
proof -
  obtain x s1 where x: "execute drv (begin_of read_only) s = (x, s1)" by fastforce
  note f1 = execute_fields [OF x]
  show ?thesis
  proof (cases x)
    case (Some e)
    then show ?thesis using idle u run x f1
      by (auto simp: tx_block_def tx_enter_def usable_def begin_of_def block_end_def closing_def)
  next
    case None
    let ?s1 = "s1\<lparr>tx_active := True, tx_read_only := read_only\<rparr>"
    obtain q s2 where b: "body ?s1 = (q, s2)" by fastforce
    have "stays ?s1 (snd (body ?s1))" using j by (simp add: joins_def)
    then have st: "stays ?s1 s2" by (simp add: b)
    have lv: "tx_leave drv q s2 = (r, s')"
      using idle u run x None b by (simp add: tx_block_def tx_enter_def usable_def begin_of_def)
    have l2: "tx_log s2 = tx_log s @ [Ran (begin_of read_only) None]" "\<not> tx_failed s2"
      using st f1 None u by (simp_all add: stays_def usable_def)
    obtain r' s3 where c: "tx_commit drv q s2 = (r', s3)" by fastforce
    from c show ?thesis
    proof (cases rule: commit_end)
      case (ended a)
      then show ?thesis using lv c l2 by (auto simp: tx_leave_def block_end_def closing_def)
    next
      case (broken e k)
      obtain e' s4 where a: "tx_abort drv e s3 = (e', s4)" by fastforce
      have "\<not> tx_failed s3" using broken l2 by simp
      from abort_end [OF a this] obtain y where y: "tx_log s4 = tx_log s3 @ [Ran Rollback y]"
        "e' = (case y of Some (Base b) \<Rightarrow> Base b | _ \<Rightarrow> e)" "tx_failed s4 \<longleftrightarrow> (\<exists>m. y = Some (Plain m))" by blast
      let ?l = "Ran (begin_of read_only) None # k @ [Ran Rollback y, Ended (Some e')]"
      have "r = Inl e'" "tx_log s' = tx_log s @ ?l" "\<not> tx_active s'" "tx_failed s' = tx_failed s4"
        using lv c broken(1,3) a y(1) l2(1) by (auto simp: tx_leave_def)
      moreover have "block_end read_only (Inl e') ?l" using broken(2) y(2) unfolding block_end_def by auto
      moreover have "closing ?l = tx_failed s4" using broken(2) y(3) by (auto simp: closing_def begin_of_def)
      ultimately show ?thesis by blast
    qed
  qed
qed

section \<open>Properties\<close>

text \<open>What is recorded of a run of blocks, one list per outermost block that was begun; a closed domain begins none.\<close>

fun sent :: "bool \<Rightarrow> tx_event list list \<Rightarrow> bool \<Rightarrow> bool" where
  "sent closed [] closed' = (closed' = closed)"
| "sent closed (l # ls) closed' =
     (\<not> closed \<and> (\<exists>read_only (r :: exc + unit). block_end read_only r l) \<and> sent (closing l) ls closed')"

lemma sent_append: "sent a ls b \<Longrightarrow> sent b ls' c \<Longrightarrow> sent a (ls @ ls') c"
  by (induction ls arbitrary: a) auto

definition brackets :: "'d domain \<Rightarrow> 'd domain \<Rightarrow> bool" where
  "brackets s s' \<longleftrightarrow> (\<not> tx_active s \<longrightarrow>
     \<not> tx_active s' \<and> (\<exists>ls. tx_log s' = tx_log s @ concat ls \<and> sent (tx_failed s) ls (tx_failed s')))"

lemma bracketsI:
  "(\<not> tx_active s \<Longrightarrow> \<not> tx_active s') \<Longrightarrow> tx_log s' = tx_log s @ concat ls \<Longrightarrow>
    sent (tx_failed s) ls (tx_failed s') \<Longrightarrow> brackets s s'"
  unfolding brackets_def by blast

lemma brackets_refl [simp]: "brackets s s"
  by (rule bracketsI [where ls = "[]"]) simp_all

lemma brackets_trans:
  assumes "brackets a b" "brackets b c"
  shows "brackets a c"
proof (cases "tx_active a")
  case False
  then obtain ls where a: "\<not> tx_active b" "tx_log b = tx_log a @ concat ls" "sent (tx_failed a) ls (tx_failed b)"
    using assms(1) unfolding brackets_def by blast
  then obtain ls' where "\<not> tx_active c" "tx_log c = tx_log b @ concat ls'" "sent (tx_failed b) ls' (tx_failed c)"
    using assms(2) unfolding brackets_def by blast
  with a show ?thesis by (intro bracketsI [where ls = "ls @ ls'"]) (auto intro: sent_append)
qed (simp add: brackets_def)

lemma brackets_block:
  assumes "run_code drv (Block read_only p) s = (r, s')"
  shows "brackets s s'"
proof (cases "tx_active s")
  case False
  have run: "tx_block drv read_only (run_code drv p) s = (r, s')" using assms by simp
  show ?thesis
  proof (cases "usable s")
    case True
    from block_ends [OF False True joins_code run] obtain l where
      "\<not> tx_active s'" "tx_log s' = tx_log s @ l" "block_end read_only r l" "tx_failed s' = closing l" by blast
    with True show ?thesis by (intro bracketsI [where ls = "[l]"]) (auto simp: usable_def)
  next
    case False
    then show ?thesis using block_refused [of s drv read_only "run_code drv p"] run by auto
  qed
qed (simp add: brackets_def)

lemma brackets_code: "brackets s (snd (run_code drv p s))"
proof (induction p arbitrary: s)
  case (Then p q)
  obtain x s1 where x: "run_code drv p s = (x, s1)" by fastforce
  with Then.IH(1) [of s] have "brackets s s1" by simp
  then show ?case using x Then.IH(2) [of s1] by (auto intro: brackets_trans split: sum.splits)
next
  case (Catch c p q)
  obtain x s1 where x: "run_code drv p s = (x, s1)" by fastforce
  with Catch.IH(1) [of s] have "brackets s s1" by simp
  then show ?case using x Catch.IH(2) [of s1] by (auto intro: brackets_trans split: sum.splits)
next
  case (Block b p)
  show ?case using brackets_block [of drv b p s] by (metis prod.collapse)
qed (auto simp: brackets_def split: prod.splits option.splits intro: exI [of _ "[]"])

text \<open>
  C23: Boundary commands of \<^verbatim>\<open>SQLiteTransactions\<close>, for every client code (statements, reconnections, changes of
  the isolation level, errors, handlers, blocks nested to any depth) and every driver. Outside blocks the domain is
  idle. What is recorded is one list per outermost block that was begun: a beginning that failed, alone; a beginning
  and one \<^verbatim>\<open>COMMIT\<close>, both successful, and a block that returned; or a beginning, at most one failed \<^verbatim>\<open>COMMIT\<close>, one
  \<^verbatim>\<open>ROLLBACK\<close>, and a block that raised the first error (the one of a \<^verbatim>\<open>ROLLBACK\<close> that raised no \<^verbatim>\<open>Exception\<close> instead).
  The domain is closed exactly when a \<^verbatim>\<open>ROLLBACK\<close> failed with an \<^verbatim>\<open>Exception\<close>, and then no command is sent again. A
  block by itself, in a usable domain, leaves one such list, which ends with its own result: it returns exactly when
  its \<^verbatim>\<open>COMMIT\<close> succeeded.
\<close>

theorem sqlite_brackets:
  assumes "\<not> tx_active s" "run_code drv p s = (r, s')"
  shows "\<not> tx_active s' \<and>
    (\<exists>ls. tx_log s' = tx_log s @ concat ls \<and> sent (tx_failed s) ls (tx_failed s')) \<and>
    (tx_failed s \<longrightarrow> tx_failed s' \<and> tx_log s' = tx_log s) \<and>
    (\<forall>read_only q. p = Block read_only q \<and> usable s \<longrightarrow>
       (\<exists>l. tx_log s' = tx_log s @ l \<and> block_end read_only r l \<and> tx_failed s' = closing l))"
proof -
  have "brackets s s'" using brackets_code [of s drv p] assms(2) by simp
  then obtain ls where ls: "\<not> tx_active s'" "tx_log s' = tx_log s @ concat ls" "sent (tx_failed s) ls (tx_failed s')"
    using assms(1) unfolding brackets_def by blast
  moreover have "ls = []" if "tx_failed s" using ls(3) that by (cases ls) auto
  moreover have "\<exists>l. tx_log s' = tx_log s @ l \<and> block_end read_only r l \<and> tx_failed s' = closing l"
    if "p = Block read_only q" "usable s" for read_only q
    using block_ends [OF assms(1) that(2) joins_code] assms(2) that(1) by auto
  ultimately show ?thesis using ls(3) by auto
qed

text \<open>
  The other \<^verbatim>\<open>with\<close> blocks. An unusable domain (closed, reconnected, or with an isolation level) refuses without
  sending anything. Inside a block another one joins it and sends nothing, except that a write block is
  refused inside a read snapshot.
\<close>

theorem sqlite_block_joins:
  assumes "run_code drv (Block read_only p) s = (r, s')"
  shows "(\<not> usable s \<longrightarrow> s' = s \<and> (\<exists>e. r = Inl (Plain e))) \<and>
    (usable s \<and> tx_active s \<longrightarrow> tx_active s' \<and> tx_log s' = tx_log s \<and>
       (if tx_read_only s \<and> \<not> read_only then s' = s \<and> r = Inl (Plain ''ValueError: write_inside_read_snapshot'')
        else run_code drv p s = (r, s')))"
proof (intro conjI impI)
  assume "\<not> usable s"
  from block_refused [OF this, of drv read_only "run_code drv p"] show "s' = s" "\<exists>e. r = Inl (Plain e)"
    using assms by auto
next
  assume u: "usable s \<and> tx_active s"
  have "stays s s'" using joins_code [of drv "Block read_only p"] u assms unfolding joins_def by (metis snd_conv)
  with u show "tx_active s'" "tx_log s' = tx_log s" by (simp_all add: stays_def)
  show "if tx_read_only s \<and> \<not> read_only then s' = s \<and> r = Inl (Plain ''ValueError: write_inside_read_snapshot'')
        else run_code drv p s = (r, s')"
    using u assms by (auto simp: tx_block_def tx_enter_def usable_def split: prod.splits)
qed

text \<open>A driver whose second \<^verbatim>\<open>COMMIT\<close> fails; its state counts the commands.\<close>

definition demo_boundary :: "nat boundary" where
  "demo_boundary c n = (if c = Commit \<and> n = 3 then Some (Plain ''disk'') else None, n + 1)"

definition demo_code :: "nat code" where
  "demo_code = Then (Block False (Block True (Statement (\<lambda>n. (None, n)))))
     (Catch False (Block False (Then (Statement (\<lambda>n. (None, n))) (Block True (Statement (\<lambda>n. (None, n))))))
        (Block True (Throw (Base ''interrupt''))))"

definition demo_domain :: "nat domain" where
  "demo_domain = \<lparr>tx_active = False, tx_read_only = False, tx_failed = False, tx_same = True, tx_manual = True,
     tx_log = [], tx_driver = 0\<rparr>"

lemmas demo_defs = demo_boundary_def demo_code_def demo_domain_def tx_block_def tx_enter_def tx_leave_def
  tx_commit_def tx_abort_def execute_def catches_def

theorem sqlite_brackets_witness:
  "\<exists>s' ls. run_code demo_boundary demo_code demo_domain = (Inl (Base ''interrupt''), s') \<and> \<not> tx_active s' \<and>
     tx_log s' = concat ls \<and> sent False ls (tx_failed s') \<and>
     tx_log s' = [Ran Begin_Immediate None, Ran Commit None, Ended None,
       Ran Begin_Immediate None, Ran Commit (Some (Plain ''disk'')), Ran Rollback None, Ended (Some (Plain ''disk'')),
       Ran Begin None, Ran Rollback None, Ended (Some (Base ''interrupt''))]"
proof -
  obtain s' where run: "run_code demo_boundary demo_code demo_domain = (Inl (Base ''interrupt''), s')"
    and l: "tx_log s' = [Ran Begin_Immediate None, Ran Commit None, Ended None,
       Ran Begin_Immediate None, Ran Commit (Some (Plain ''disk'')), Ran Rollback None, Ended (Some (Plain ''disk'')),
       Ran Begin None, Ran Rollback None, Ended (Some (Base ''interrupt''))]"
    by (simp add: demo_defs)
  have "\<not> tx_active demo_domain" "tx_log demo_domain = []" "\<not> tx_failed demo_domain"
    by (simp_all add: demo_domain_def)
  with sqlite_brackets [OF this(1) run] run l show ?thesis by auto
qed

text \<open>
  A \<^verbatim>\<open>ROLLBACK\<close> cut short by an interrupt: the first error is lost and the domain stays open, with the
  transaction perhaps still there.
\<close>

lemma sqlite_interrupted_rollback:
  "\<exists>drv. case run_code drv (Block False (Throw (Plain ''first''))) demo_domain of (r, s') \<Rightarrow>
     r = Inl (Base ''interrupt'') \<and> usable s' \<and> tx_log s' =
       [Ran Begin_Immediate None, Ran Rollback (Some (Base ''interrupt'')), Ended (Some (Base ''interrupt''))]"
  by (rule exI [of _ "\<lambda>c n. (if c = Rollback then Some (Base ''interrupt'') else None, n)"])
    (simp add: demo_defs usable_def)

end
