(* ===== verification/Server.thy ===== *)
theory Server
  imports Prelude "HOL-Library.Multiset"
begin

text \<open>
  \<^verbatim>\<open>KillableThreadingTCPServer\<close> of \<^verbatim>\<open>sonicprobe/libs/threading_tcp_server.py\<close> (the UDP module repeats it): a
  bounded queue of accepted requests, a fixed number of worker threads, and \<^verbatim>\<open>kill\<close>. A thread's step ends
  where the next shared operation begins; what runs under \<^verbatim>\<open>_request_lock\<close> is one step, except the loop of
  \<^verbatim>\<open>kill\<close>, which keeps the lock while workers go on taking requests. The socket and the request handler are
  chosen freely: a connection may come or fail, a handler may end or let a \<^verbatim>\<open>BaseException\<close> escape. A
  request is the number of its acceptance.
\<close>

section \<open>State\<close>

text \<open>The thread in \<^verbatim>\<open>serve_until_killed\<close>: at the loop condition, in \<^verbatim>\<open>get_request\<close>, with a request before
  \<^verbatim>\<open>verify_request\<close>, at the lock with a verified one, ended.\<close>

datatype apc = ALoop | AGet | AGot nat | APut nat | AEnd

text \<open>A worker in \<^verbatim>\<open>process_request_thread\<close>: at the loop condition, at the life time, at \<^verbatim>\<open>requests.get\<close>, with
  a request before the lock, about to close it, in the handler, at \<^verbatim>\<open>task_done\<close> (leaving or not), at the
  limits, about to be replaced (before and after the look at the flag), ended.\<close>

datatype kpc = KLoop | KAge | KGet | KGot nat | KClose nat | KServe nat | KDone bool | KCount | KReplace | KAdd | KEnd

record kworker =
  k_pc :: kpc
  k_born :: int
  k_requests :: nat

record server =
  sv_killed :: bool
  sv_killing :: bool
  sv_max_workers :: nat
  sv_max_requests :: int
  sv_max_life_time :: int
  sv_queue :: "nat list"
  sv_unfinished :: int
  sv_acceptors :: "apc list"
  sv_workers :: "kworker list"
  sv_accepted :: nat
  sv_closed :: "nat list"      \<comment> \<open>shut down without being handled\<close>
  sv_handled :: "nat list"     \<comment> \<open>handed to the handler, which shuts them down itself\<close>

section \<open>Operations\<close>

text \<open>\<^verbatim>\<open>add_worker\<close> with one outcome per thread start; the first failure ends the loop with its error.\<close>

fun add_worker :: "int \<Rightarrow> bool list \<Rightarrow> server \<Rightarrow> bool \<times> server" where
  "add_worker now [] s = (True, s)"
| "add_worker now (started # rest) s =
     (if started
      then add_worker now rest (s\<lparr>sv_workers := sv_workers s @ [\<lparr>k_pc = KLoop, k_born = now, k_requests = 0\<rparr>]\<rparr>)
      else (False, s))"

text \<open>\<^verbatim>\<open>__init__\<close>, with one thread that is going to serve.\<close>

definition server_new :: "int \<Rightarrow> int \<Rightarrow> int \<Rightarrow> int \<Rightarrow> server" where
  "server_new now max_workers max_requests max_life_time =
     (let n = (if max_workers < 1 then 1 else nat max_workers) in
      snd (add_worker now (replicate n True)
        \<lparr>sv_killed = False, sv_killing = False, sv_max_workers = n, sv_max_requests = max_requests,
         sv_max_life_time = max_life_time, sv_queue = [], sv_unfinished = 0, sv_acceptors = [ALoop],
         sv_workers = [], sv_accepted = 0, sv_closed = [], sv_handled = []\<rparr>))"

definition requests_full :: "server \<Rightarrow> bool" where
  "requests_full s = (0 < sv_max_workers s \<and> sv_max_workers s \<le> length (sv_queue s))"

definition requests_done :: "server \<Rightarrow> server" where
  "requests_done s = s\<lparr>sv_unfinished := sv_unfinished s - 1\<rparr>"

definition shutdown_request :: "nat \<Rightarrow> server \<Rightarrow> server" where
  "shutdown_request r s = s\<lparr>sv_closed := sv_closed s @ [r]\<rparr>"

definition acc_to :: "nat \<Rightarrow> apc \<Rightarrow> server \<Rightarrow> server" where
  "acc_to i c s = s\<lparr>sv_acceptors := (sv_acceptors s)[i := c]\<rparr>"

definition wrk_to :: "nat \<Rightarrow> kpc \<Rightarrow> server \<Rightarrow> server" where
  "wrk_to i c s = s\<lparr>sv_workers := (sv_workers s)[i := (sv_workers s ! i)\<lparr>k_pc := c\<rparr>]\<rparr>"

text \<open>\<^verbatim>\<open>serve_until_killed\<close> and \<^verbatim>\<open>handle_request\<close>\<close>

definition serve_loop :: "nat \<Rightarrow> server \<Rightarrow> server" where
  "serve_loop i s = acc_to i (if sv_killed s then AEnd else AGet) s"

definition get_request :: "bool \<Rightarrow> nat \<Rightarrow> server \<Rightarrow> server" where
  "get_request ok i s = (if ok then acc_to i (AGot (sv_accepted s)) (s\<lparr>sv_accepted := Suc (sv_accepted s)\<rparr>)
     else acc_to i ALoop s)"

text \<open>\<^verbatim>\<open>verify_request\<close> answers, or raises: then the error leaves \<^verbatim>\<open>serve_until_killed\<close>.\<close>

definition verify_request :: "bool option \<Rightarrow> nat \<Rightarrow> nat \<Rightarrow> server \<Rightarrow> server" where
  "verify_request answer i r s = (case answer of
       None \<Rightarrow> acc_to i AEnd (shutdown_request r s)
     | Some True \<Rightarrow> acc_to i (APut r) s
     | Some False \<Rightarrow> acc_to i ALoop (shutdown_request r s))"

text \<open>One turn of the loop that queues a verified request.\<close>

definition queue_request :: "nat \<Rightarrow> nat \<Rightarrow> server \<Rightarrow> server" where
  "queue_request i r s =
     (if sv_killed s then acc_to i ALoop (shutdown_request r s)
      else if requests_full s then s
      else acc_to i ALoop (s\<lparr>sv_queue := sv_queue s @ [r], sv_unfinished := sv_unfinished s + 1\<rparr>))"

text \<open>\<^verbatim>\<open>kill\<close>: the flag, then one turn of its loop; an error of \<^verbatim>\<open>shutdown_request\<close> leaves the loop.\<close>

definition kill_begin :: "server \<Rightarrow> server" where
  "kill_begin s = s\<lparr>sv_killed := True, sv_killing := True\<rparr>"

definition kill_turn :: "bool \<Rightarrow> server \<Rightarrow> server" where
  "kill_turn raised s = (case sv_queue s of
       [] \<Rightarrow> s\<lparr>sv_killing := False\<rparr>
     | r # rs \<Rightarrow> (let s' = requests_done (shutdown_request r (s\<lparr>sv_queue := rs\<rparr>)) in
         if raised then s'\<lparr>sv_killing := False\<rparr> else s'))"

text \<open>\<^verbatim>\<open>process_request_thread\<close>\<close>

definition wrk_loop :: "nat \<Rightarrow> server \<Rightarrow> server" where
  "wrk_loop i s = wrk_to i (if sv_killed s then KEnd else KAge) s"

definition wrk_age :: "int \<Rightarrow> nat \<Rightarrow> server \<Rightarrow> server" where
  "wrk_age now i s = wrk_to i (if 0 < sv_max_life_time s \<and> sv_max_life_time s \<le> now - k_born (sv_workers s ! i)
     then KReplace else KGet) s"

definition wrk_get :: "nat \<Rightarrow> server \<Rightarrow> server" where
  "wrk_get i s = (case sv_queue s of
       [] \<Rightarrow> wrk_to i KLoop s
     | r # rs \<Rightarrow> wrk_to i (KGot r) (s\<lparr>sv_queue := rs\<rparr>))"

definition wrk_cancelled :: "nat \<Rightarrow> nat \<Rightarrow> server \<Rightarrow> server" where
  "wrk_cancelled i r s = wrk_to i (if sv_killed s then KClose r else KServe r) s"

definition wrk_close :: "nat \<Rightarrow> nat \<Rightarrow> server \<Rightarrow> server" where
  "wrk_close i r s = wrk_to i (KDone True) (shutdown_request r s)"

definition wrk_serve :: "bool \<Rightarrow> nat \<Rightarrow> nat \<Rightarrow> server \<Rightarrow> server" where
  "wrk_serve escaped i r s = wrk_to i (KDone escaped) (s\<lparr>sv_handled := sv_handled s @ [r]\<rparr>)"

definition wrk_done :: "bool \<Rightarrow> nat \<Rightarrow> server \<Rightarrow> server" where
  "wrk_done leave i s = wrk_to i (if leave then KEnd else KCount) (requests_done s)"

definition wrk_count :: "nat \<Rightarrow> server \<Rightarrow> server" where
  "wrk_count i s = (let w = sv_workers s ! i; n = Suc (k_requests w) in
     s\<lparr>sv_workers := (sv_workers s)[i := w\<lparr>k_requests := n,
       k_pc := (if 0 < sv_max_requests s \<and> sv_max_requests s \<le> int n then KReplace else KLoop)\<rparr>]\<rparr>)"

definition wrk_replace :: "nat \<Rightarrow> server \<Rightarrow> server" where
  "wrk_replace i s = wrk_to i (if sv_killed s then KEnd else KAdd) s"

definition wrk_add :: "bool \<Rightarrow> int \<Rightarrow> nat \<Rightarrow> server \<Rightarrow> server" where
  "wrk_add started now i s = wrk_to i KEnd (snd (add_worker now [started] s))"

section \<open>Steps\<close>

text \<open>\<open>harsh\<close> allows thread starts that fail, handlers that let an error escape, and shut-downs that raise.\<close>

definition wrk_at :: "kpc \<Rightarrow> nat \<Rightarrow> server \<Rightarrow> bool" where
  "wrk_at c i s = (i < length (sv_workers s) \<and> k_pc (sv_workers s ! i) = c)"

definition acc_at :: "apc \<Rightarrow> nat \<Rightarrow> server \<Rightarrow> bool" where
  "acc_at c i s = (i < length (sv_acceptors s) \<and> sv_acceptors s ! i = c)"

text \<open>The steps of the threads of the server.\<close>

inductive thread_step :: "bool \<Rightarrow> server \<Rightarrow> server \<Rightarrow> bool" for harsh :: bool where
  s_loop: "acc_at ALoop i s \<Longrightarrow> thread_step harsh s (serve_loop i s)"
| s_get: "acc_at AGet i s \<Longrightarrow> thread_step harsh s (get_request ok i s)"
| s_verify: "acc_at (AGot r) i s \<Longrightarrow> thread_step harsh s (verify_request answer i r s)"
| s_queue: "acc_at (APut r) i s \<Longrightarrow> \<not> sv_killing s \<Longrightarrow> sv_killed s \<or> \<not> requests_full s \<Longrightarrow>
     thread_step harsh s (queue_request i r s)"
| s_kill_turn: "sv_killing s \<Longrightarrow> raised \<longrightarrow> harsh \<Longrightarrow> thread_step harsh s (kill_turn raised s)"
| s_wloop: "wrk_at KLoop i s \<Longrightarrow> thread_step harsh s (wrk_loop i s)"
| s_age: "wrk_at KAge i s \<Longrightarrow> thread_step harsh s (wrk_age now i s)"
| s_wget: "wrk_at KGet i s \<Longrightarrow> thread_step harsh s (wrk_get i s)"
| s_cancelled: "wrk_at (KGot r) i s \<Longrightarrow> \<not> sv_killing s \<Longrightarrow> thread_step harsh s (wrk_cancelled i r s)"
| s_close: "wrk_at (KClose r) i s \<Longrightarrow> thread_step harsh s (wrk_close i r s)"
| s_serve: "wrk_at (KServe r) i s \<Longrightarrow> escaped \<longrightarrow> harsh \<Longrightarrow> thread_step harsh s (wrk_serve escaped i r s)"
| s_done: "wrk_at (KDone leave) i s \<Longrightarrow> thread_step harsh s (wrk_done leave i s)"
| s_count: "wrk_at KCount i s \<Longrightarrow> thread_step harsh s (wrk_count i s)"
| s_replace: "wrk_at KReplace i s \<Longrightarrow> thread_step harsh s (wrk_replace i s)"
| s_add: "wrk_at KAdd i s \<Longrightarrow> \<not> started \<longrightarrow> harsh \<Longrightarrow> thread_step harsh s (wrk_add started now i s)"

text \<open>And a call of \<^verbatim>\<open>kill\<close> by anyone, which waits for the lock.\<close>

inductive server_step :: "bool \<Rightarrow> server \<Rightarrow> server \<Rightarrow> bool" for harsh :: bool where
  by_thread: "thread_step harsh s t \<Longrightarrow> server_step harsh s t"
| by_kill: "\<not> sv_killing s \<Longrightarrow> server_step harsh s (kill_begin s)"

definition server_start :: "server \<Rightarrow> bool" where
  "server_start s = (\<exists>now workers requests life. s = server_new now workers requests life)"

end
