(* ===== verification/Dynserver.thy ===== *)
theory Dynserver
  imports Server Workerpool
begin

text \<open>
  \<^verbatim>\<open>KillableDynThreadingTCPServer\<close> of \<^verbatim>\<open>sonicprobe/libs/threading_tcp_server.py\<close> (the UDP module repeats it),
  composed with the pool of \<^verbatim>\<open>Workerpool\<close>: a verified request is noted as pending and handed to the pool as
  a task, the task takes it from the pending ones before it handles it, and \<^verbatim>\<open>kill\<close> takes what is left. The
  task that stands for \<^verbatim>\<open>_process_queued_request\<close> of a request is \<open>Task None r\<close>.
\<close>

section \<open>State\<close>

text \<open>A call of \<^verbatim>\<open>kill\<close>: before \<^verbatim>\<open>workerpool.killall\<close>, closing what it took, ended; or ended by an error of
  \<^verbatim>\<open>shutdown_request\<close>, with the requests it no longer closes.\<close>

datatype killer = Killall "nat list" | Closing "nat list" | Failed "nat list"

record dyn =
  dy_killed :: bool
  dy_pending :: "nat list"
  dy_pool :: pool
  dy_acceptors :: "apc list"
  dy_killers :: "killer list"
  dy_accepted :: nat
  dy_serving :: "nat list"     \<comment> \<open>taken by a task and not yet handled\<close>
  dy_closed :: "nat list"
  dy_handled :: "nat list"

definition dyn_new :: "int \<Rightarrow> int \<Rightarrow> int \<Rightarrow> string option \<Rightarrow> dyn" where
  "dyn_new max_workers max_requests max_life_time name =
     \<lparr>dy_killed = False, dy_pending = [],
      dy_pool = pool_new False 0 (if max_workers < 1 then 1 else max_workers) (Some max_life_time) name (Some max_requests),
      dy_acceptors = [ALoop], dy_killers = [], dy_accepted = 0, dy_serving = [], dy_closed = [], dy_handled = []\<rparr>"

section \<open>Operations\<close>

definition dyn_to :: "nat \<Rightarrow> apc \<Rightarrow> dyn \<Rightarrow> dyn" where
  "dyn_to i c s = s\<lparr>dy_acceptors := (dy_acceptors s)[i := c]\<rparr>"

definition dyn_shutdown :: "nat \<Rightarrow> dyn \<Rightarrow> dyn" where
  "dyn_shutdown r s = s\<lparr>dy_closed := dy_closed s @ [r]\<rparr>"

text \<open>\<^verbatim>\<open>serve_until_killed\<close> and \<^verbatim>\<open>handle_request\<close> up to the answer of \<^verbatim>\<open>verify_request\<close>\<close>

definition dyn_loop :: "nat \<Rightarrow> dyn \<Rightarrow> dyn" where
  "dyn_loop i s = dyn_to i (if dy_killed s then AEnd else AGet) s"

definition dyn_get :: "bool \<Rightarrow> nat \<Rightarrow> dyn \<Rightarrow> dyn" where
  "dyn_get ok i s = (if ok then dyn_to i (AGot (dy_accepted s)) (s\<lparr>dy_accepted := Suc (dy_accepted s)\<rparr>)
     else dyn_to i ALoop s)"

definition dyn_verify :: "bool option \<Rightarrow> nat \<Rightarrow> nat \<Rightarrow> dyn \<Rightarrow> dyn" where
  "dyn_verify answer i r s = (case answer of
       None \<Rightarrow> dyn_to i AEnd (dyn_shutdown r s)
     | Some True \<Rightarrow> dyn_to i (APut r) s
     | Some False \<Rightarrow> dyn_to i ALoop (dyn_shutdown r s))"

text \<open>The part of \<^verbatim>\<open>handle_request\<close> under the lock: what the pool refuses is closed and its error raised.\<close>

definition dyn_submit :: "(nat \<Rightarrow> bool) \<Rightarrow> int \<Rightarrow> nat \<Rightarrow> nat \<Rightarrow> dyn \<Rightarrow> dyn" where
  "dyn_submit starts now i r s =
     (if dy_killed s then dyn_to i ALoop (dyn_shutdown r s)
      else (let s1 = s\<lparr>dy_pending := dy_pending s @ [r]\<rparr> in
        case pool_run starts now r None None (dy_pool s1) of
          (Put, p) \<Rightarrow> dyn_to i ALoop (s1\<lparr>dy_pool := p\<rparr>)
        | (_, p) \<Rightarrow> dyn_to i AEnd (dyn_shutdown r (s1\<lparr>dy_pool := p, dy_pending := remove1 r (dy_pending s1)\<rparr>))))"

text \<open>\<^verbatim>\<open>_process_queued_request\<close> by the \<open>i\<close>-th worker: the look at the pending requests, the handling.\<close>

definition dyn_take :: "nat \<Rightarrow> dyn \<Rightarrow> dyn" where
  "dyn_take r s = s\<lparr>dy_pending := remove1 r (dy_pending s), dy_serving := dy_serving s @ [r]\<rparr>"

definition dyn_process :: "bool \<Rightarrow> nat \<Rightarrow> task \<Rightarrow> nat \<Rightarrow> dyn \<Rightarrow> dyn" where
  "dyn_process escaped i t r s =
     (let s1 = s\<lparr>dy_pool := worker_run escaped i t (dy_pool s)\<rparr> in
      if r \<in> set (dy_serving s) then s1\<lparr>dy_serving := remove1 r (dy_serving s), dy_handled := dy_handled s @ [r]\<rparr>
      else s1)"

text \<open>\<^verbatim>\<open>kill\<close>: the part under the lock, the pool, the closing of one request.\<close>

definition dyn_kill :: "dyn \<Rightarrow> dyn" where
  "dyn_kill s = s\<lparr>dy_killed := True, dy_killers := dy_killers s @ [Killall (dy_pending s)], dy_pending := []\<rparr>"

definition dyn_killall :: "nat \<Rightarrow> nat list \<Rightarrow> dyn \<Rightarrow> dyn" where
  "dyn_killall j rs s = s\<lparr>dy_pool := killall_stop (dy_pool s), dy_killers := (dy_killers s)[j := Closing rs]\<rparr>"

definition dyn_close :: "bool \<Rightarrow> nat \<Rightarrow> nat \<Rightarrow> nat list \<Rightarrow> dyn \<Rightarrow> dyn" where
  "dyn_close raised j r rs s =
     dyn_shutdown r (s\<lparr>dy_killers := (dy_killers s)[j := (if raised then Failed rs else Closing rs)]\<rparr>)"

section \<open>Steps\<close>

text \<open>The steps of the pool's own threads, but for the run of a task.\<close>

inductive worker_move :: "pool \<Rightarrow> pool \<Rightarrow> bool" where
  m_check: "i < length (p_threads p) \<Longrightarrow> w_pc (p_threads p ! i) = WCheck \<Longrightarrow> worker_move p (worker_check now i p)"
| m_get: "i < length (p_threads p) \<Longrightarrow> w_pc (p_threads p ! i) = WGet \<Longrightarrow> worker_move p (worker_get i p)"
| m_begin: "i < length (p_threads p) \<Longrightarrow> w_pc (p_threads p ! i) = WGot e \<Longrightarrow> worker_move p (worker_begin i e p)"
| m_grow: "i < length (p_threads p) \<Longrightarrow> w_pc (p_threads p ! i) = WGrow t \<Longrightarrow>
     worker_move p (worker_grow starts now i t p)"
| m_ack: "i < length (p_threads p) \<Longrightarrow> w_pc (p_threads p ! i) = WAck working leave \<Longrightarrow>
     worker_move p (worker_ack i working leave p)"
| m_leave: "i < length (p_threads p) \<Longrightarrow> w_pc (p_threads p ! i) = WLeave \<Longrightarrow>
     worker_move p (worker_leave starts now i p)"

definition dyn_at :: "apc \<Rightarrow> nat \<Rightarrow> dyn \<Rightarrow> bool" where
  "dyn_at c i s = (i < length (dy_acceptors s) \<and> dy_acceptors s ! i = c)"

definition killer_at :: "killer \<Rightarrow> nat \<Rightarrow> dyn \<Rightarrow> bool" where
  "killer_at k j s = (j < length (dy_killers s) \<and> dy_killers s ! j = k)"

definition runs_at :: "task \<Rightarrow> nat \<Rightarrow> pool \<Rightarrow> bool" where
  "runs_at t i p = (i < length (p_threads p) \<and> w_pc (p_threads p ! i) = WRun t)"

inductive dyn_step :: "dyn \<Rightarrow> dyn \<Rightarrow> bool" where
  d_loop: "dyn_at ALoop i s \<Longrightarrow> dyn_step s (dyn_loop i s)"
| d_get: "dyn_at AGet i s \<Longrightarrow> dyn_step s (dyn_get ok i s)"
| d_verify: "dyn_at (AGot r) i s \<Longrightarrow> dyn_step s (dyn_verify answer i r s)"
| d_submit: "dyn_at (APut r) i s \<Longrightarrow> dyn_step s (dyn_submit starts now i r s)"
| d_worker: "worker_move (dy_pool s) p \<Longrightarrow> dyn_step s (s\<lparr>dy_pool := p\<rparr>)"
| d_take: "runs_at (Task n r) i (dy_pool s) \<Longrightarrow> r \<in> set (dy_pending s) \<Longrightarrow> dyn_step s (dyn_take r s)"
| d_process: "runs_at (Task n r) i (dy_pool s) \<Longrightarrow> r \<notin> set (dy_pending s) \<Longrightarrow>
     dyn_step s (dyn_process escaped i (Task n r) r s)"
| d_kill: "dyn_step s (dyn_kill s)"
| d_killall: "killer_at (Killall rs) j s \<Longrightarrow> dyn_step s (dyn_killall j rs s)"
| d_close: "killer_at (Closing (r # rs)) j s \<Longrightarrow> dyn_step s (dyn_close raised j r rs s)"

definition dyn_start :: "dyn \<Rightarrow> bool" where
  "dyn_start s = (\<exists>workers requests life name. s = dyn_new workers requests life name)"

end
