(* ===== verification/Server_Properties.thy ===== *)
theory Server_Properties
  imports Server
begin

text \<open>
  What the killable server keeps: every accepted request is in one place and ends handled or closed,
  once; the workers stay as many as configured; and a killed server winds down.
\<close>

section \<open>Counting\<close>

definition many :: "('a \<Rightarrow> bool) \<Rightarrow> 'a list \<Rightarrow> int" where "many P xs = int (length (filter P xs))"

lemma many_simps [simp]:
  "many P [] = 0" "many P (x # xs) = (if P x then 1 else 0) + many P xs" "many P (xs @ ys) = many P xs + many P ys"
  by (simp_all add: many_def)

lemma many_update: "i < length xs \<Longrightarrow>
    many P (xs[i := x]) = many P xs - (if P (xs ! i) then 1 else 0) + (if P x then 1 else 0)"
  by (induction xs arbitrary: i) (auto split: nat.splits)

lemma many_ge: "0 \<le> many P xs" by (simp add: many_def)

lemma many_zero: "many P xs = 0 \<longleftrightarrow> (\<forall>x \<in> set xs. \<not> P x)"
  by (simp add: many_def filter_empty_conv)

lemma many_one:
  assumes "many (\<lambda>q. q = r) xs + many (\<lambda>q. q = r) ys = 1"
  shows "(r \<in> set ys) \<noteq> (r \<in> set xs)"
proof -
  have m: "(r \<in> set zs) = (many (\<lambda>q. q = r) zs \<noteq> 0)" for zs by (auto simp: many_zero)
  show ?thesis unfolding m using assms many_ge [of "\<lambda>q. q = r" xs] many_ge [of "\<lambda>q. q = r" ys] by linarith
qed

section \<open>Invariant\<close>

fun acc_hand :: "apc \<Rightarrow> nat option" where
  "acc_hand (AGot r) = Some r" | "acc_hand (APut r) = Some r" | "acc_hand _ = None"

fun wrk_hand :: "kpc \<Rightarrow> nat option" where
  "wrk_hand (KGot r) = Some r" | "wrk_hand (KClose r) = Some r" | "wrk_hand (KServe r) = Some r" | "wrk_hand _ = None"

text \<open>A worker that still owes \<^verbatim>\<open>task_done\<close>.\<close>

fun owes :: "kpc \<Rightarrow> bool" where
  "owes (KGot r) = True" | "owes (KClose r) = True" | "owes (KServe r) = True" | "owes (KDone l) = True" | "owes _ = False"

text \<open>In how many places a request is.\<close>

definition places :: "nat \<Rightarrow> server \<Rightarrow> int" where
  "places r s = many (\<lambda>c. acc_hand c = Some r) (sv_acceptors s) + many (\<lambda>q. q = r) (sv_queue s) +
     many (\<lambda>w. wrk_hand (k_pc w) = Some r) (sv_workers s) + many (\<lambda>q. q = r) (sv_closed s) +
     many (\<lambda>q. q = r) (sv_handled s)"

definition live_workers :: "server \<Rightarrow> int" where "live_workers s = many (\<lambda>w. k_pc w \<noteq> KEnd) (sv_workers s)"

definition leaving :: "kpc \<Rightarrow> bool" where "leaving c = (c = KDone True \<or> (\<exists>r. c = KClose r))"

definition within :: "int \<Rightarrow> kworker \<Rightarrow> bool" where
  "within m w \<longleftrightarrow> (0 < m \<longrightarrow> int (k_requests w) < m \<or>
     int (k_requests w) = m \<and> (k_pc w = KReplace \<or> k_pc w = KAdd \<or> k_pc w = KEnd))"

definition sv_inv :: "bool \<Rightarrow> server \<Rightarrow> bool" where
  "sv_inv harsh s \<longleftrightarrow>
     (\<forall>r. places r s = (if r < sv_accepted s then 1 else 0)) \<and>
     sv_unfinished s = int (length (sv_queue s)) + many (\<lambda>w. owes (k_pc w)) (sv_workers s) \<and>
     0 < sv_max_workers s \<and> length (sv_queue s) \<le> sv_max_workers s \<and>
     (sv_killing s \<longrightarrow> sv_killed s) \<and>
     (\<not> harsh \<and> sv_killed s \<and> \<not> sv_killing s \<longrightarrow> sv_queue s = []) \<and>
     (\<not> harsh \<and> \<not> sv_killed s \<longrightarrow>
        live_workers s = int (sv_max_workers s) \<and> (\<forall>w \<in> set (sv_workers s). \<not> leaving (k_pc w))) \<and>
     (\<forall>w \<in> set (sv_workers s). within (sv_max_requests s) w)"

lemma acc_to_sel [simp]:
  "sv_killed (acc_to i c s) = sv_killed s" "sv_killing (acc_to i c s) = sv_killing s"
  "sv_max_workers (acc_to i c s) = sv_max_workers s" "sv_max_requests (acc_to i c s) = sv_max_requests s"
  "sv_queue (acc_to i c s) = sv_queue s" "sv_unfinished (acc_to i c s) = sv_unfinished s"
  "sv_acceptors (acc_to i c s) = (sv_acceptors s)[i := c]" "sv_workers (acc_to i c s) = sv_workers s"
  "sv_accepted (acc_to i c s) = sv_accepted s" "sv_closed (acc_to i c s) = sv_closed s"
  "sv_handled (acc_to i c s) = sv_handled s"
  by (simp_all add: acc_to_def)

lemma wrk_to_sel [simp]:
  "sv_killed (wrk_to i c s) = sv_killed s" "sv_killing (wrk_to i c s) = sv_killing s"
  "sv_max_workers (wrk_to i c s) = sv_max_workers s" "sv_max_requests (wrk_to i c s) = sv_max_requests s"
  "sv_queue (wrk_to i c s) = sv_queue s" "sv_unfinished (wrk_to i c s) = sv_unfinished s"
  "sv_acceptors (wrk_to i c s) = sv_acceptors s"
  "sv_workers (wrk_to i c s) = (sv_workers s)[i := (sv_workers s ! i)\<lparr>k_pc := c\<rparr>]"
  "sv_accepted (wrk_to i c s) = sv_accepted s" "sv_closed (wrk_to i c s) = sv_closed s"
  "sv_handled (wrk_to i c s) = sv_handled s"
  by (simp_all add: wrk_to_def)

lemma all_update: "i < length xs \<Longrightarrow> (\<forall>y \<in> set xs. P y) \<Longrightarrow> P x \<Longrightarrow> \<forall>y \<in> set (xs[i := x]). P y"
  using set_update_subset_insert [of xs i x] by auto

lemma add_worker_one:
  "snd (add_worker now [b] s) = (if b then s\<lparr>sv_workers := sv_workers s @ [\<lparr>k_pc = KLoop, k_born = now, k_requests = 0\<rparr>]\<rparr> else s)"
  by simp

lemmas inv_unfold = sv_inv_def places_def live_workers_def

text \<open>The steps of the serving threads, of \<^verbatim>\<open>kill\<close> and of the workers.\<close>

lemma acc_inv:
  assumes "sv_inv harsh s"
  shows "acc_at ALoop i s \<Longrightarrow> sv_inv harsh (serve_loop i s)"
    "acc_at AGet i s \<Longrightarrow> sv_inv harsh (get_request ok i s)"
    "acc_at (AGot r) i s \<Longrightarrow> sv_inv harsh (verify_request answer i r s)"
    "acc_at (APut r) i s \<Longrightarrow> sv_inv harsh (queue_request i r s)"
proof -
  show "sv_inv harsh (serve_loop i s)" if "acc_at ALoop i s"
    using assms that by (simp add: inv_unfold acc_at_def many_update serve_loop_def)
  show "sv_inv harsh (get_request ok i s)" if "acc_at AGet i s"
  proof -
    have "places (sv_accepted s) s = 0" using assms by (simp add: sv_inv_def)
    then show ?thesis using assms that
      by (simp add: inv_unfold acc_at_def many_update get_request_def add.assoc)
  qed
  show "sv_inv harsh (verify_request answer i r s)" if "acc_at (AGot r) i s"
    using assms that
    by (simp add: inv_unfold acc_at_def many_update verify_request_def shutdown_request_def add_ac
        split: option.split bool.split)
  show "sv_inv harsh (queue_request i r s)" if "acc_at (APut r) i s"
    using assms that
    by (simp add: inv_unfold acc_at_def many_update queue_request_def shutdown_request_def requests_full_def add_ac) auto
qed

lemma kill_inv:
  assumes "sv_inv harsh s"
  shows "sv_inv harsh (kill_begin s)"
    "raised \<longrightarrow> harsh \<Longrightarrow> sv_killing s \<Longrightarrow> sv_inv harsh (kill_turn raised s)"
proof -
  show "sv_inv harsh (kill_begin s)" using assms by (simp add: inv_unfold kill_begin_def)
  show "sv_inv harsh (kill_turn raised s)" if "raised \<longrightarrow> harsh" "sv_killing s"
    using assms that
    by (cases "sv_queue s")
      (simp_all add: inv_unfold kill_turn_def shutdown_request_def requests_done_def Let_def add_ac)
qed

lemma all_update_iff:
  "i < length xs \<Longrightarrow> (\<forall>y \<in> set xs. P y) \<Longrightarrow> (\<forall>y \<in> set (xs[i := x]). P y) = P x"
  using all_update [of i xs P x] by (auto simp: set_update_memI)

lemma within_nth: "\<forall>w \<in> set ws. within m w \<Longrightarrow> i < length ws \<Longrightarrow> within m (ws ! i)" by simp

lemma wrk_inv:
  assumes "sv_inv harsh s"
  shows "wrk_at KLoop i s \<Longrightarrow> sv_inv harsh (wrk_loop i s)"
    "wrk_at KAge i s \<Longrightarrow> sv_inv harsh (wrk_age now i s)"
    "wrk_at KGet i s \<Longrightarrow> sv_inv harsh (wrk_get i s)"
    "wrk_at (KGot r) i s \<Longrightarrow> sv_inv harsh (wrk_cancelled i r s)"
    "wrk_at (KClose r) i s \<Longrightarrow> sv_inv harsh (wrk_close i r s)"
    "wrk_at (KServe r) i s \<Longrightarrow> escaped \<longrightarrow> harsh \<Longrightarrow> sv_inv harsh (wrk_serve escaped i r s)"
    "wrk_at (KDone leave) i s \<Longrightarrow> sv_inv harsh (wrk_done leave i s)"
    "wrk_at KCount i s \<Longrightarrow> sv_inv harsh (wrk_count i s)"
    "wrk_at KReplace i s \<Longrightarrow> sv_inv harsh (wrk_replace i s)"
    "wrk_at KAdd i s \<Longrightarrow> \<not> started \<longrightarrow> harsh \<Longrightarrow> sv_inv harsh (wrk_add started now i s)"
proof -
  have w: "within (sv_max_requests s) (sv_workers s ! i)" if "wrk_at c i s" for c
    using assms that by (simp add: sv_inv_def wrk_at_def)
  have l: "\<not> harsh \<Longrightarrow> \<not> sv_killed s \<Longrightarrow> \<not> leaving c" if "wrk_at c i s" for c
    using assms that by (auto simp: sv_inv_def wrk_at_def)
  show "sv_inv harsh (wrk_loop i s)" if "wrk_at KLoop i s"
    using assms that w [OF that] by (auto simp: inv_unfold wrk_at_def many_update wrk_loop_def all_update_iff leaving_def within_def add_ac)
  show "sv_inv harsh (wrk_age now i s)" if "wrk_at KAge i s"
    using assms that w [OF that] by (auto simp: inv_unfold wrk_at_def many_update wrk_age_def all_update_iff leaving_def within_def add_ac)
  show "sv_inv harsh (wrk_get i s)" if "wrk_at KGet i s"
    using assms that w [OF that]
    by (cases "sv_queue s")
      (auto simp: inv_unfold wrk_at_def many_update wrk_get_def all_update_iff leaving_def within_def add_ac)
  show "sv_inv harsh (wrk_cancelled i r s)" if "wrk_at (KGot r) i s"
    using assms that w [OF that]
    by (auto simp: inv_unfold wrk_at_def many_update wrk_cancelled_def all_update_iff leaving_def within_def add_ac)
  show "sv_inv harsh (wrk_close i r s)" if "wrk_at (KClose r) i s"
    using assms that w [OF that] l [OF that]
    by (auto simp: inv_unfold wrk_at_def many_update wrk_close_def all_update_iff leaving_def within_def shutdown_request_def add_ac)
  show "sv_inv harsh (wrk_serve escaped i r s)" if "wrk_at (KServe r) i s" "escaped \<longrightarrow> harsh"
    using assms that w [OF that(1)]
    by (auto simp: inv_unfold wrk_at_def many_update wrk_serve_def all_update_iff leaving_def within_def add_ac)
  show "sv_inv harsh (wrk_done leave i s)" if "wrk_at (KDone leave) i s"
    using assms that w [OF that] l [OF that]
    by (auto simp: inv_unfold wrk_at_def many_update wrk_done_def all_update_iff leaving_def within_def requests_done_def add_ac)
  show "sv_inv harsh (wrk_count i s)" if "wrk_at KCount i s"
    using assms that w [OF that]
    by (auto simp: inv_unfold wrk_at_def many_update wrk_count_def all_update_iff leaving_def within_def Let_def add_ac)
  show "sv_inv harsh (wrk_replace i s)" if "wrk_at KReplace i s"
    using assms that w [OF that]
    by (auto simp: inv_unfold wrk_at_def many_update wrk_replace_def all_update_iff leaving_def within_def add_ac)
  show "sv_inv harsh (wrk_add started now i s)" if "wrk_at KAdd i s" "\<not> started \<longrightarrow> harsh"
    using assms that w [OF that(1)]
    by (auto simp: inv_unfold wrk_at_def many_update wrk_add_def all_update_iff leaving_def within_def nth_append add_ac)
qed

text \<open>The interface of the transition system, on the server.\<close>

lemma server_new_inv: "sv_inv harsh (server_new now workers requests life)"
proof -
  define n where "n = (if workers < 1 then 1 else nat workers)"
  have add: "add_worker now (replicate n True) s =
      (True, s\<lparr>sv_workers := sv_workers s @ replicate n \<lparr>k_pc = KLoop, k_born = now, k_requests = 0\<rparr>\<rparr>)" for n and s :: server
  proof (induction n arbitrary: s)
    case (Suc n)
    show ?case by (simp add: Suc.IH)
  qed simp
  have rep: "many P (replicate n x) = (if P x then int n else 0)" for P and x :: kworker and n
    by (induction n) auto
  have "0 < n" by (simp add: n_def)
  then show ?thesis
    by (simp add: server_new_def Let_def n_def [symmetric] add inv_unfold rep within_def leaving_def)
qed

interpretation srv: invariant_system server_start "server_step harsh" "sv_inv harsh" for harsh
proof
  show "sv_inv harsh s" if "server_start s" for s using that server_new_inv by (auto simp: server_start_def)
next
  fix s t assume inv: "sv_inv harsh s" and "server_step harsh s t"
  from this(2) show "sv_inv harsh t"
  proof cases
    case by_thread
    then show ?thesis
      by cases (auto intro: acc_inv [OF inv] kill_inv(2) [OF inv] wrk_inv [OF inv])
  qed (simp add: kill_inv(1) [OF inv])
qed

text \<open>
  C24: Accounting of the killable server, in every interleaving of serving threads, workers and \<^verbatim>\<open>kill\<close>, also
  when thread starts fail and handlers let errors escape: every accepted request is in exactly one place
  (in the hands of one thread, queued, closed, handled), so none is lost, handled twice, or handled and
  refused; the queue's count of unfinished requests is exact; the queue stays within its size; no worker
  handles more requests than its limit. Unless threads fail to start or errors escape, a server that is
  not killed always has as many live workers as configured, whatever workers were replaced.
\<close>

theorem server_accounts:
  assumes "reach server_start (server_step harsh) s"
  shows "places r s = (if r < sv_accepted s then 1 else 0) \<and>
    sv_unfinished s = int (length (sv_queue s)) + many (\<lambda>w. owes (k_pc w)) (sv_workers s) \<and>
    length (sv_queue s) \<le> sv_max_workers s \<and>
    (\<forall>w \<in> set (sv_workers s). 0 < sv_max_requests s \<longrightarrow> int (k_requests w) \<le> sv_max_requests s) \<and>
    (\<not> harsh \<and> \<not> sv_killed s \<longrightarrow> live_workers s = int (sv_max_workers s))"
  using srv.reach_inv [OF assms] unfolding sv_inv_def within_def by force

section \<open>Winding down\<close>

fun acc_rank :: "apc \<Rightarrow> int" where
  "acc_rank AEnd = 0" | "acc_rank ALoop = 1" | "acc_rank (APut r) = 2" | "acc_rank (AGot r) = 3" | "acc_rank AGet = 4"

fun wrk_rank :: "kpc \<Rightarrow> int" where
  "wrk_rank KEnd = 0" | "wrk_rank KLoop = 1" | "wrk_rank KReplace = 2" | "wrk_rank KAdd = 2" | "wrk_rank KCount = 3"
| "wrk_rank (KDone l) = 4" | "wrk_rank (KServe r) = 5" | "wrk_rank (KClose r) = 5" | "wrk_rank (KGot r) = 6"
| "wrk_rank KGet = 7" | "wrk_rank KAge = 8"

definition steps_left :: "server \<Rightarrow> int" where
  "steps_left s = sum_list (map acc_rank (sv_acceptors s)) + sum_list (map (\<lambda>w. wrk_rank (k_pc w)) (sv_workers s)) +
     (if sv_killing s then 1 + int (length (sv_queue s)) else 0)"

lemma rank_update: "i < length xs \<Longrightarrow> sum_list (map f (xs[i := x])) = sum_list (map f xs) - f (xs ! i) + (f x :: int)"
  by (induction xs arbitrary: i) (auto split: nat.splits)

lemma rank_ge: "0 \<le> acc_rank a" "0 \<le> wrk_rank k"
  by (cases a; simp) (cases k; simp)

lemma steps_left_ge: "0 \<le> steps_left s"
  unfolding steps_left_def by (intro add_nonneg_nonneg sum_list_nonneg) (auto simp: rank_ge)

text \<open>Each thread's step of a killed server.\<close>

lemma killed_step:
  assumes "sv_killed s" "thread_step harsh s t"
  shows "sv_killed t \<and> steps_left t < steps_left s"
  using assms(2)
proof cases
  case (s_verify r i answer)
  then show ?thesis using assms(1)
    by (cases answer) (auto simp: acc_at_def verify_request_def shutdown_request_def steps_left_def rank_update split: bool.splits)
next
  case (s_kill_turn raised)
  then show ?thesis using assms(1)
    by (cases "sv_queue s") (auto simp: kill_turn_def shutdown_request_def requests_done_def steps_left_def Let_def)
next
  case (s_wget i)
  then show ?thesis using assms(1)
    by (cases "sv_queue s") (auto simp: wrk_at_def wrk_get_def steps_left_def rank_update)
qed (use assms(1) in \<open>auto simp: acc_at_def wrk_at_def serve_loop_def get_request_def queue_request_def shutdown_request_def
    wrk_loop_def wrk_age_def wrk_cancelled_def wrk_close_def wrk_serve_def wrk_done_def wrk_count_def wrk_replace_def
    wrk_add_def requests_done_def steps_left_def rank_update nth_append Let_def\<close>)

text \<open>The requests a handler has at the moment: the only ones that are still handled after \<^verbatim>\<open>kill\<close>.\<close>

definition in_handler :: "server \<Rightarrow> nat set" where "in_handler s = {r. \<exists>i. wrk_at (KServe r) i s}"

lemma in_handler_update:
  assumes "sv_workers t = (sv_workers s)[i := w]" "\<forall>r. k_pc w \<noteq> KServe r"
  shows "in_handler t \<subseteq> in_handler s"
proof
  fix r assume "r \<in> in_handler t"
  then obtain j where j: "j < length (sv_workers s)" "k_pc ((sv_workers s)[i := w] ! j) = KServe r"
    using assms(1) by (auto simp: in_handler_def wrk_at_def)
  then have "j \<noteq> i" using assms(2) by auto
  with j show "r \<in> in_handler s" by (auto simp: in_handler_def wrk_at_def)
qed

text \<open>The requests that are handled or being handled.\<close>

definition sv_served :: "server \<Rightarrow> nat set" where "sv_served s = set (sv_handled s) \<union> in_handler s"

lemma served_same:
  "sv_workers t = sv_workers s \<Longrightarrow> sv_handled t = sv_handled s \<Longrightarrow> sv_served t = sv_served s"
  by (simp add: sv_served_def in_handler_def wrk_at_def)

lemma served_wrk:
  assumes "t = wrk_to i c s'" "sv_workers s' = sv_workers s" "sv_handled s' = sv_handled s" "\<forall>r. c \<noteq> KServe r"
  shows "sv_served t \<subseteq> sv_served s"
  using assms in_handler_update [of t s i "(sv_workers s ! i)\<lparr>k_pc := c\<rparr>"] by (auto simp: sv_served_def)

lemma served_get: "sv_served (wrk_get i s) \<subseteq> sv_served s"
proof (cases "sv_queue s")
  case Nil
  show ?thesis by (rule served_wrk [of _ i KLoop s]) (simp_all add: wrk_get_def Nil)
next
  case (Cons r rs)
  show ?thesis by (rule served_wrk [of _ i "KGot r" "s\<lparr>sv_queue := rs\<rparr>"]) (simp_all add: wrk_get_def Cons)
qed

lemma served_count: "wrk_at KCount i s \<Longrightarrow> sv_served (wrk_count i s) \<subseteq> sv_served s"
  using in_handler_update [of "wrk_count i s" s i "sv_workers (wrk_count i s) ! i"]
  by (auto simp: wrk_count_def Let_def wrk_at_def sv_served_def)

lemma served_serve: "wrk_at (KServe r) i s \<Longrightarrow> sv_served (wrk_serve escaped i r s) \<subseteq> sv_served s"
  using in_handler_update [of "wrk_serve escaped i r s" s i "(sv_workers s ! i)\<lparr>k_pc := KDone escaped\<rparr>"]
  by (auto simp: wrk_serve_def sv_served_def in_handler_def)

lemma served_add: "wrk_at KAdd i s \<Longrightarrow> sv_served (wrk_add started now i s) \<subseteq> sv_served s"
  by (auto simp: sv_served_def in_handler_def wrk_at_def wrk_add_def nth_list_update nth_append split: if_splits)

lemma killed_served:
  assumes "sv_killed s" "thread_step harsh s t"
  shows "sv_served t \<subseteq> sv_served s"
  using assms(2)
proof cases
  case (s_verify r i answer)
  then have "sv_served t = sv_served s"
    by (intro served_same) (simp_all add: verify_request_def shutdown_request_def split: option.split bool.split)
  then show ?thesis by simp
next
  case (s_kill_turn raised)
  then have "sv_served t = sv_served s"
    by (intro served_same)
      (simp_all add: kill_turn_def shutdown_request_def requests_done_def Let_def split: list.split)
  then show ?thesis by simp
next
  case (s_wloop i)
  show ?thesis by (rule served_wrk [OF s_wloop(1) [unfolded wrk_loop_def]]) simp_all
next
  case (s_age i now)
  show ?thesis by (rule served_wrk [OF s_age(1) [unfolded wrk_age_def]]) simp_all
next
  case (s_cancelled r i)
  show ?thesis by (rule served_wrk [OF s_cancelled(1) [unfolded wrk_cancelled_def]]) (simp_all add: assms(1))
next
  case (s_close r i)
  show ?thesis by (rule served_wrk [OF s_close(1) [unfolded wrk_close_def]]) (simp_all add: shutdown_request_def)
next
  case (s_done leave i)
  show ?thesis by (rule served_wrk [OF s_done(1) [unfolded wrk_done_def]]) (simp_all add: requests_done_def)
next
  case (s_replace i)
  show ?thesis by (rule served_wrk [OF s_replace(1) [unfolded wrk_replace_def]]) simp_all
next
  case (s_wget i)
  then show ?thesis by (simp add: served_get)
next
  case (s_serve r i escaped)
  then show ?thesis by (simp add: served_serve)
next
  case (s_count i)
  then show ?thesis by (simp add: served_count)
next
  case (s_add i started now)
  then show ?thesis by (simp add: served_add)
qed (auto simp: sv_served_def in_handler_def wrk_at_def serve_loop_def get_request_def queue_request_def shutdown_request_def)

text \<open>A killed server can move until all its threads have ended.\<close>

lemma acc_can_step:
  assumes "acc_at c i s" "c \<noteq> AEnd" "sv_killed s"
  shows "\<exists>t. thread_step harsh s t"
proof (cases "sv_killing s")
  case True
  then show ?thesis using s_kill_turn [of s False harsh] by blast
next
  case False
  then show ?thesis using assms
    by (cases c) (auto intro: s_loop s_get s_verify s_queue)
qed

lemma wrk_can_step:
  assumes "wrk_at c i s" "c \<noteq> KEnd" "sv_killed s"
  shows "\<exists>t. thread_step harsh s t"
proof (cases "sv_killing s")
  case True
  then show ?thesis using s_kill_turn [of s False harsh] by blast
next
  case False
  then show ?thesis using assms
    by (cases c) (auto intro: s_wloop s_age s_wget s_cancelled s_close s_serve [where escaped = False] s_done
        s_count s_replace s_add [where started = True])
qed

text \<open>
  C25: A killed server winds down, if no error escapes: each step of a thread leaves fewer steps (\<open>steps_left\<close>
  is never negative), the flag stays, and no request is handled any more but those a handler already had.
  When no thread can step any more, every thread has ended, the queue is empty with nothing unfinished, and
  every request ever accepted has been handled or closed.
\<close>

theorem server_winds_down:
  assumes "reach server_start (server_step False) s" "sv_killed s"
  shows "(thread_step False s t \<longrightarrow>
      sv_killed t \<and> 0 \<le> steps_left t \<and> steps_left t < steps_left s \<and> sv_served t \<subseteq> sv_served s) \<and>
    ((\<forall>u. \<not> thread_step False s u) \<longrightarrow>
      (\<forall>c \<in> set (sv_acceptors s). c = AEnd) \<and> (\<forall>w \<in> set (sv_workers s). k_pc w = KEnd) \<and>
      sv_queue s = [] \<and> sv_unfinished s = 0 \<and>
      (\<forall>r < sv_accepted s. (r \<in> set (sv_handled s)) \<noteq> (r \<in> set (sv_closed s))))"
proof (intro conjI [OF impI impI])
  assume "thread_step False s t"
  then show "sv_killed t \<and> 0 \<le> steps_left t \<and> steps_left t < steps_left s \<and> sv_served t \<subseteq> sv_served s"
    using killed_step killed_served assms(2) steps_left_ge by blast
next
  assume no: "\<forall>u. \<not> thread_step False s u"
  have inv: "sv_inv False s" by (rule srv.reach_inv [OF assms(1)])
  have acc: "c = AEnd" if "c \<in> set (sv_acceptors s)" for c
    using that no acc_can_step [of c _ s False] assms(2) by (auto simp: in_set_conv_nth acc_at_def)
  have wrk: "k_pc w = KEnd" if "w \<in> set (sv_workers s)" for w
    using that no wrk_can_step [of "k_pc w" _ s False] assms(2) by (auto simp: in_set_conv_nth wrk_at_def)
  have "\<not> sv_killing s" using no s_kill_turn [of s False False] by blast
  then have q: "sv_queue s = []" using inv assms(2) by (simp add: sv_inv_def)
  have "many (\<lambda>w. owes (k_pc w)) (sv_workers s) = 0" by (auto simp: many_zero wrk)
  with inv q have u: "sv_unfinished s = 0" by (simp add: sv_inv_def)
  have none: "many (\<lambda>c. acc_hand c = Some r) (sv_acceptors s) = 0" "many (\<lambda>w. wrk_hand (k_pc w) = Some r) (sv_workers s) = 0"
    for r by (auto simp: many_zero wrk dest!: acc)
  have "(r \<in> set (sv_handled s)) \<noteq> (r \<in> set (sv_closed s))" if "r < sv_accepted s" for r
  proof -
    have one: "many (\<lambda>q. q = r) (sv_closed s) + many (\<lambda>q. q = r) (sv_handled s) = 1"
    proof -
      have "places r s = 1" using inv that by (simp add: sv_inv_def)
      with q none [of r] show ?thesis by (simp add: places_def)
    qed
    then show ?thesis by (rule many_one)
  qed
  with acc wrk q u show "(\<forall>c \<in> set (sv_acceptors s). c = AEnd) \<and> (\<forall>w \<in> set (sv_workers s). k_pc w = KEnd) \<and>
      sv_queue s = [] \<and> sv_unfinished s = 0 \<and>
      (\<forall>r < sv_accepted s. (r \<in> set (sv_handled s)) \<noteq> (r \<in> set (sv_closed s)))" by blast
qed

section \<open>Runs\<close>

lemmas server_eval = server_new_def acc_at_def wrk_at_def serve_loop_def get_request_def verify_request_def
  queue_request_def requests_full_def wrk_loop_def wrk_age_def wrk_get_def wrk_cancelled_def wrk_serve_def
  wrk_done_def requests_done_def acc_to_def wrk_to_def

text \<open>One worker, one connection, handled; the handler ends or lets an error escape.\<close>

definition demo_server :: "bool \<Rightarrow> server" where
  "demo_server escaped = wrk_serve escaped 0 0 (wrk_cancelled 0 0 (wrk_get 0 (wrk_age 0 0 (wrk_loop 0
     (queue_request 0 0 (verify_request (Some True) 0 0 (get_request True 0 (serve_loop 0 (server_new 0 1 0 0)))))))))"

lemma thread_reach:
  "reach server_start (server_step harsh) s \<Longrightarrow> thread_step harsh s t \<Longrightarrow> reach server_start (server_step harsh) t"
  by (blast intro: reach_step by_thread)

lemma demo_server_reach:
  assumes "escaped \<longrightarrow> harsh"
  shows "reach server_start (server_step harsh) (demo_server escaped)"
proof -
  have r: "reach server_start (server_step harsh) (server_new 0 1 0 0)"
    by (rule reach_init) (auto simp: server_start_def)
  note r = thread_reach [OF r s_loop [of 0]]
  note r = thread_reach [OF r s_get [of 0 _ _ True]]
  note r = thread_reach [OF r s_verify [of 0 0 _ _ "Some True"]]
  note r = thread_reach [OF r s_queue [of 0 0]]
  note r = thread_reach [OF r s_wloop [of 0]]
  note r = thread_reach [OF r s_age [of 0 _ _ 0]]
  note r = thread_reach [OF r s_wget [of 0]]
  note r = thread_reach [OF r s_cancelled [of 0 0]]
  note r = thread_reach [OF r s_serve [of 0 0 _ escaped]]
  show ?thesis unfolding demo_server_def by (rule r) (use assms in \<open>simp_all add: server_eval\<close>)
qed

theorem server_accounts_witness:
  "places 0 (demo_server False) = 1 \<and> live_workers (demo_server False) = 1 \<and> sv_handled (demo_server False) = [0]"
proof -
  have "sv_accepted (demo_server False) = 1" "\<not> sv_killed (demo_server False)" "sv_max_workers (demo_server False) = 1"
    "sv_handled (demo_server False) = [0]"
    by (simp_all add: demo_server_def server_eval)
  then show ?thesis using server_accounts [OF demo_server_reach, of False False 0] by simp
qed

theorem server_winds_down_witness:
  "(\<exists>t. thread_step False (kill_begin (demo_server False)) t \<and> steps_left t < steps_left (kill_begin (demo_server False))) \<and>
   sv_killed (kill_begin (demo_server False))"
proof -
  let ?s = "kill_begin (demo_server False)"
  have k: "sv_killed ?s" "sv_killing ?s" by (simp_all add: kill_begin_def)
  have "\<not> sv_killing (demo_server False)" by (simp add: demo_server_def server_eval)
  then have r: "reach server_start (server_step False) ?s"
    using reach_step [OF demo_server_reach [of False False] by_kill] by simp
  have "thread_step False ?s (kill_turn False ?s)" by (rule s_kill_turn) (simp_all add: k)
  with server_winds_down [OF r k(1), of "kill_turn False ?s"] k(1) show ?thesis by blast
qed

text \<open>
  A handler that lets an error escape (\<^verbatim>\<open>SystemExit\<close>, say) takes its worker with it: the pool of a server that
  is not killed may end up empty.
\<close>

lemma server_loses_workers:
  "\<exists>s. reach server_start (server_step True) s \<and> \<not> sv_killed s \<and> 0 < sv_max_workers s \<and> live_workers s = 0"
proof -
  let ?s = "wrk_done True 0 (demo_server True)"
  have "reach server_start (server_step True) ?s"
    by (rule thread_reach [OF demo_server_reach s_done]) (simp_all add: demo_server_def server_eval)
  moreover have "\<not> sv_killed ?s \<and> 0 < sv_max_workers ?s \<and> live_workers ?s = 0"
    by (simp add: demo_server_def server_eval live_workers_def)
  ultimately show ?thesis by blast
qed

end
