(* ===== verification/Dynserver_Properties.thy ===== *)
theory Dynserver_Properties
  imports Dynserver Server_Properties Workerpool_Properties
begin

text \<open>
  The dynamic server over the pool: its steps are steps of the pool, so what holds of every pool holds of
  its pool; and every accepted request is handled or closed once.
\<close>

section \<open>The pool of a server is a pool\<close>

lemma reach_trans2: "reach init step s \<Longrightarrow> step s t \<Longrightarrow> step t u \<Longrightarrow> reach init step u"
  by (blast intro: reach_step)

lemma worker_move_step: "worker_move p q \<Longrightarrow> pool_step True p q"
  by (induction rule: worker_move.induct) (auto intro: pool_step.intros)

lemma pool_run_reach:
  assumes "reach pool_start (pool_step True) p"
  shows "reach pool_start (pool_step True) (snd (pool_run starts now r name None p))"
proof -
  obtain e q where e: "task_entry now None (Task name r) p = (e, q)" by (rule prod.exhaust)
  then have "snd (snd e) = Task name r" by (auto simp: task_entry_def split: if_splits)
  then have "pool_step True q (snd (pool_put starts now e False name q))" by (intro step_put) simp_all
  then show ?thesis using reach_trans2 [OF assms step_draw [OF e]] by (simp add: pool_run_def e)
qed

lemma killall_reach:
  assumes "reach pool_start (pool_step True) p"
  shows "reach pool_start (pool_step True) (killall_stop p)"
  by (rule reach_step [OF assms], rule step_killall [where own = False and wait = "Some 0"]) (simp add: killall_def)

lemma dyn_pool_step:
  assumes "dyn_step s t" "reach pool_start (pool_step True) (dy_pool s)"
  shows "reach pool_start (pool_step True) (dy_pool t)"
  using assms(1)
proof cases
  case (d_submit r i starts now)
  then show ?thesis using assms(2) pool_run_reach [OF assms(2), of starts now r None]
    by (auto simp: dyn_submit_def dyn_to_def dyn_shutdown_def Let_def split: prod.splits put_result.splits)
next
  case (d_worker p)
  then show ?thesis using reach_step [OF assms(2) worker_move_step] by simp
next
  case (d_process n r i escaped)
  then have "pool_step True (dy_pool s) (worker_run escaped i (Task n r) (dy_pool s))"
    by (intro step_task) (simp_all add: runs_at_def)
  from reach_step [OF assms(2) this] show ?thesis
    unfolding d_process(1) by (simp add: dyn_process_def Let_def)
next
  case (d_killall rs j)
  then show ?thesis using killall_reach [OF assms(2)] by (simp add: dyn_killall_def)
qed (use assms(2) in \<open>auto simp: dyn_loop_def dyn_get_def dyn_verify_def dyn_to_def dyn_shutdown_def dyn_take_def
    dyn_kill_def dyn_close_def split: option.splits bool.splits\<close>)

section \<open>Where the pool has a request\<close>

definition task_target :: "task \<Rightarrow> nat option" where
  "task_target t = (case t of Task n r \<Rightarrow> Some r | WorkerExit \<Rightarrow> None)"

definition holds :: "wpc \<Rightarrow> nat option" where
  "holds c = (case c of WGot e \<Rightarrow> task_target (snd (snd e)) | WGrow t \<Rightarrow> task_target t | WRun t \<Rightarrow> task_target t | _ \<Rightarrow> None)"

definition in_pool :: "nat \<Rightarrow> pool \<Rightarrow> int" where
  "in_pool r p = many (\<lambda>e. task_target (snd (snd e)) = Some r) (p_tasks p) +
     many (\<lambda>w. holds (w_pc w) = Some r) (p_threads p)"

text \<open>A change of the pool that invents no task, loses none unless it is stopped, and lets tasks run on.\<close>

definition carries :: "pool \<Rightarrow> pool \<Rightarrow> bool" where
  "carries p q \<longleftrightarrow> (\<forall>r. in_pool r q \<le> in_pool r p \<and> (\<not> p_exit p \<longrightarrow> in_pool r q = in_pool r p)) \<and>
     (\<forall>t i. runs_at t i p \<longrightarrow> runs_at t i q) \<and> p_exit q = p_exit p \<and> p_maxsize q = p_maxsize p"

lemma carries_refl [simp]: "carries p p" by (simp add: carries_def)

lemma carries_trans: "carries p q \<Longrightarrow> carries q u \<Longrightarrow> carries p u"
  unfolding carries_def by (metis order_trans)

lemma carries_same: "p_tasks q = p_tasks p \<Longrightarrow> p_threads q = p_threads p \<Longrightarrow> p_exit q = p_exit p \<Longrightarrow>
    p_maxsize q = p_maxsize p \<Longrightarrow> carries p q"
  by (simp add: carries_def in_pool_def runs_at_def)

lemma to_pc_maxsize [simp]: "p_maxsize (to_pc i c p) = p_maxsize p"
  by (simp add: to_pc_def set_worker_def)

text \<open>Starting workers only appends idle ones.\<close>

definition extends :: "pool \<Rightarrow> pool \<Rightarrow> bool" where
  "extends p q \<longleftrightarrow> p_tasks q = p_tasks p \<and> p_exit q = p_exit p \<and> p_maxsize q = p_maxsize p \<and>
     (\<exists>ws. p_threads q = p_threads p @ ws \<and> (\<forall>w \<in> set ws. w_pc w = WCheck))"

lemma extends_refl [simp]: "extends p p" by (simp add: extends_def)

lemma extends_trans: "extends p q \<Longrightarrow> extends q u \<Longrightarrow> extends p u"
  unfolding extends_def by force

lemma extends_start:
  assumes "start_worker b now name xid p = (c, q)"
  shows "extends p q"
proof -
  obtain i p1 where t: "take_id xid p = (i, p1)" by (cases "take_id xid p") auto
  from take_id_same [OF t] obtain "is" n where p1: "p1 = p\<lparr>p_ids := is, p_next_id := n\<rparr>" by blast
  show ?thesis using assms by (auto simp: start_worker_def t p1 extends_def split: if_splits)
qed

lemma extends_add_loop: "add_loop starts now name i n xid p = (b, q) \<Longrightarrow> extends p q"
proof (induction starts now name i n xid p rule: add_loop.induct)
  case (2 starts now name i n xid p)
  obtain c u where s: "start_worker (starts i) now name xid p = (c, u)"
    by (cases "start_worker (starts i) now name xid p") auto
  show ?case
  proof (cases "p_max_workers p \<le> p_workers p \<or> \<not> c")
    case True
    then show ?thesis using "2.prems" s extends_start [OF s] by (auto split: if_splits)
  next
    case False
    then have "add_loop starts now name (Suc i) n None u = (b, q)" using "2.prems" s by simp
    with False s "2.IH" have "extends u q" by auto
    then show ?thesis by (rule extends_trans [OF extends_start [OF s]])
  qed
qed simp

lemma extends_add: "extends p (snd (pool_add starts now nb name xid p))"
proof -
  obtain b q where "add_loop starts now name 0 (nat (min (max 1 nb) (p_max_workers p))) xid p = (b, q)" by (rule prod.exhaust)
  with extends_add_loop [OF this] show ?thesis by (auto simp: pool_add_def split: bool.splits)
qed

lemma extends_nth: "extends p q \<Longrightarrow> i < length (p_threads p) \<Longrightarrow>
   i < length (p_threads q) \<and> p_threads q ! i = p_threads p ! i"
  by (auto simp: extends_def nth_append)

lemma extends_carries: "extends p q \<Longrightarrow> carries p q"
proof -
  assume e: "extends p q"
  then obtain ws where ws: "p_threads q = p_threads p @ ws" "\<forall>w \<in> set ws. w_pc w = WCheck"
    by (auto simp: extends_def)
  then have "many (\<lambda>w. holds (w_pc w) = Some r) ws = 0" for r by (simp add: many_zero holds_def)
  with e ws(1) extends_nth [OF e] show ?thesis by (auto simp: extends_def carries_def in_pool_def runs_at_def)
qed

lemma carries_to_pc:
  assumes "i < length (p_threads p)" "w_pc (p_threads p ! i) = c" "holds d = holds c" "\<forall>t. c \<noteq> WRun t"
  shows "carries p (to_pc i d p)"
  using assms by (auto simp: carries_def in_pool_def many_update runs_at_def nth_list_update)

lemma carries_move:
  assumes "worker_move p q"
  shows "carries p q"
  using assms
proof cases
  case (m_check i now)
  then show ?thesis by (auto simp: worker_check_def Let_def holds_def intro!: carries_to_pc)
next
  case (m_get i)
  then show ?thesis
    by (cases "p_tasks p")
      (auto simp: worker_get_def holds_def carries_def in_pool_def many_update runs_at_def nth_list_update)
next
  case (m_begin i e)
  then show ?thesis
    by (auto simp: worker_begin_def Let_def carries_def in_pool_def many_update holds_def task_target_def runs_at_def
        nth_list_update split: task.splits)
next
  case (m_grow i t starts now)
  let ?p = "snd (pool_add starts now 1 None None p)"
  note e = extends_add [of p starts now 1 None None]
  have "carries ?p (to_pc i (WRun t) ?p)"
    using extends_nth [OF e m_grow(2)] m_grow(3) by (intro carries_to_pc [where c = "WGrow t"]) (simp_all add: holds_def)
  then show ?thesis unfolding m_grow(1) worker_grow_def by (rule carries_trans [OF extends_carries [OF e]])
next
  case (m_ack i working leave)
  then show ?thesis
    by (auto simp: worker_ack_def task_done_def carries_def in_pool_def many_update holds_def runs_at_def nth_list_update)
next
  case (m_leave i starts now)
  define p1 where "p1 = to_pc i WDone (p\<lparr>p_workers := p_workers p - 1, p_ids := p_ids p @ [w_xid (p_threads p ! i)]\<rparr>)"
  define p2 where "p2 = (if \<not> p_exit p1 \<and> p_tasks p1 \<noteq> []
    then snd (pool_add starts now 1 (w_task_name (p_threads p ! i)) None p1) else p1)"
  have "carries (p\<lparr>p_workers := p_workers p - 1, p_ids := p_ids p @ [w_xid (p_threads p ! i)]\<rparr>) p1"
    unfolding p1_def using m_leave(2,3) by (intro carries_to_pc [where c = WLeave]) (simp_all add: holds_def)
  then have "carries p p1" by (rule carries_trans [OF carries_same, rotated 4]) simp_all
  moreover have "carries p1 p2" by (simp add: p2_def extends_carries extends_add)
  moreover have "carries p2 (worker_leave starts now i p)"
    by (rule carries_same) (simp_all add: worker_leave_def Let_def p2_def p1_def)
  ultimately show ?thesis unfolding m_leave(1) by (blast intro: carries_trans)
qed

text \<open>Submission, the stop, and the run of a task.\<close>

lemma many_insert_entry: "many P (insert_entry e es) = many P (e # es)"
  by (induction e es rule: insert_entry.induct) auto

lemma queue_put_in_pool:
  "in_pool k (queue_put e p) = in_pool k p + (if task_target (snd (snd e)) = Some k then 1 else 0)"
  by (simp add: in_pool_def queue_put_def many_insert_entry)

lemma pool_put_carries:
  assumes "pool_put starts now e stopping name p = (res, q)"
  shows "\<exists>u. carries p u \<and> (res = Put \<and> q = queue_put e u \<or> res \<noteq> Put \<and> q = u) \<and>
    (p_maxsize p = 0 \<longrightarrow> res \<noteq> Retry)"
proof (cases "p_exit p")
  case True
  with assms show ?thesis by (intro exI [of _ p]) (auto simp: pool_put_def split: if_splits)
next
  case False
  define a where "a = (if \<not> stopping \<and> p_workers p = 0 then pool_add starts now 1 name None p else (None, p))"
  obtain err u where u: "a = (err, u)" by (cases a) auto
  have "carries p (snd a)" by (simp add: a_def extends_carries extends_add)
  with u have c: "carries p u" by simp
  then have "p_maxsize u = p_maxsize p" by (simp add: carries_def)
  with assms False u c show ?thesis
    by (intro exI [of _ u]) (auto simp: pool_put_def queue_full_def simp flip: a_def split: option.splits if_splits)
qed

lemma task_entry_carries:
  "task_entry now q t p = (e, p1) \<Longrightarrow> snd (snd e) = t \<and> carries p p1"
  by (cases "p_qpriority p") (auto simp: task_entry_def intro: carries_same)

lemma pool_run_carries:
  assumes "pool_run starts now r name None p = (res, q)"
  shows "\<exists>u e. carries p u \<and> task_target (snd (snd e)) = Some r \<and>
    (res = Put \<and> q = queue_put e u \<or> res \<noteq> Put \<and> q = u) \<and> (p_maxsize p = 0 \<longrightarrow> res \<noteq> Retry)"
proof -
  obtain e p1 where e: "task_entry now None (Task name r) p = (e, p1)" by (rule prod.exhaust)
  note c = task_entry_carries [OF e]
  from assms e have "pool_put starts now e False name p1 = (res, q)" by (simp add: pool_run_def)
  from pool_put_carries [OF this] obtain u where u: "carries p1 u"
    "res = Put \<and> q = queue_put e u \<or> res \<noteq> Put \<and> q = u" "p_maxsize p1 = 0 \<longrightarrow> res \<noteq> Retry"
    by (elim exE conjE) (rule that)
  have "carries p u" using c u(1) carries_trans by blast
  moreover have "task_target (snd (snd e)) = Some r" using c by (simp add: task_target_def)
  moreover have "p_maxsize p = 0 \<longrightarrow> res \<noteq> Retry" using u(3) c by (simp add: carries_def)
  ultimately show ?thesis using u(2) by (intro exI [of _ u] exI [of _ e]) simp
qed

lemma killall_in_pool: "in_pool r (killall_stop p) \<le> in_pool r p" "runs_at t i (killall_stop p) = runs_at t i p"
  "p_exit (killall_stop p)" "p_maxsize (killall_stop p) = p_maxsize p"
  by (simp_all add: killall_stop_eq in_pool_def runs_at_def many_ge)

lemma run_in_pool:
  assumes "runs_at (Task n r) i p"
  shows "in_pool k (worker_run escaped i (Task n r) p) = in_pool k p - (if k = r then 1 else 0)"
    "runs_at (Task m k) j p \<Longrightarrow> k \<noteq> r \<Longrightarrow> runs_at (Task m k) j (worker_run escaped i (Task n r) p)"
    "p_exit (worker_run escaped i (Task n r) p) = p_exit p"
    "p_maxsize (worker_run escaped i (Task n r) p) = p_maxsize p"
  using assms
  by (auto simp: runs_at_def worker_run_def set_worker_def Let_def in_pool_def many_update holds_def task_target_def
      nth_list_update)

section \<open>The invariant\<close>

fun killer_hand :: "killer \<Rightarrow> nat list" where
  "killer_hand (Killall rs) = rs" | "killer_hand (Closing rs) = rs" | "killer_hand (Failed rs) = rs"

definition killers_have :: "nat \<Rightarrow> killer list \<Rightarrow> int" where
  "killers_have r ks = sum_list (map (\<lambda>k. many (\<lambda>q. q = r) (killer_hand k)) ks)"

definition in_hand :: "nat \<Rightarrow> apc list \<Rightarrow> int" where "in_hand r cs = many (\<lambda>c. acc_hand c = Some r) cs"

definition dyn_places :: "nat \<Rightarrow> dyn \<Rightarrow> int" where
  "dyn_places r s = in_hand r (dy_acceptors s) + many (\<lambda>q. q = r) (dy_pending s) +
     killers_have r (dy_killers s) + many (\<lambda>q. q = r) (dy_serving s) + many (\<lambda>q. q = r) (dy_closed s) +
     many (\<lambda>q. q = r) (dy_handled s)"

definition dyn_inv :: "dyn \<Rightarrow> bool" where
  "dyn_inv s \<longleftrightarrow>
     (\<forall>r. dyn_places r s = (if r < dy_accepted s then 1 else 0)) \<and>
     (\<forall>r. in_pool r (dy_pool s) + in_hand r (dy_acceptors s) \<le> (if r < dy_accepted s then 1 else 0)) \<and>
     (dy_killed s \<longrightarrow> dy_pending s = []) \<and> (p_exit (dy_pool s) \<longrightarrow> dy_killed s) \<and> p_maxsize (dy_pool s) = 0 \<and>
     (\<forall>r \<in> set (dy_pending s). 0 < in_pool r (dy_pool s)) \<and>
     (\<forall>r \<in> set (dy_serving s). \<exists>n i. runs_at (Task n r) i (dy_pool s))"

lemma killers_update: "j < length ks \<Longrightarrow>
    killers_have r (ks[j := k]) = killers_have r ks - many (\<lambda>q. q = r) (killer_hand (ks ! j)) + many (\<lambda>q. q = r) (killer_hand k)"
  by (simp add: killers_have_def rank_update)

lemma killers_append: "killers_have r (ks @ [k]) = killers_have r ks + many (\<lambda>q. q = r) (killer_hand k)"
  by (simp add: killers_have_def)

lemma in_hand_update: "i < length cs \<Longrightarrow> in_hand r (cs[i := c]) =
    in_hand r cs - (if acc_hand (cs ! i) = Some r then 1 else 0) + (if acc_hand c = Some r then 1 else 0)"
  by (simp add: in_hand_def many_update)

lemma many_remove1: "x \<in> set xs \<Longrightarrow> many P (remove1 x xs) = many P xs - (if P x then 1 else 0)"
  by (induction xs) auto

lemma killers_have_ge: "0 \<le> killers_have r ks"
  unfolding killers_have_def by (intro sum_list_nonneg) (auto simp: many_ge)

lemma killers_have_none: "\<forall>k \<in> set ks. k = Closing [] \<Longrightarrow> killers_have r ks = 0"
  by (induction ks) (auto simp: killers_have_def)

lemma in_pool_ge: "0 \<le> in_pool r p" by (simp add: in_pool_def many_ge)

lemma dyn_to_sel [simp]:
  "dy_killed (dyn_to i c s) = dy_killed s" "dy_pending (dyn_to i c s) = dy_pending s" "dy_pool (dyn_to i c s) = dy_pool s"
  "dy_acceptors (dyn_to i c s) = (dy_acceptors s)[i := c]" "dy_killers (dyn_to i c s) = dy_killers s"
  "dy_accepted (dyn_to i c s) = dy_accepted s" "dy_serving (dyn_to i c s) = dy_serving s"
  "dy_closed (dyn_to i c s) = dy_closed s" "dy_handled (dyn_to i c s) = dy_handled s"
  by (simp_all add: dyn_to_def)

lemma dyn_shutdown_sel [simp]:
  "dy_killed (dyn_shutdown r s) = dy_killed s" "dy_pending (dyn_shutdown r s) = dy_pending s"
  "dy_pool (dyn_shutdown r s) = dy_pool s" "dy_acceptors (dyn_shutdown r s) = dy_acceptors s"
  "dy_killers (dyn_shutdown r s) = dy_killers s" "dy_accepted (dyn_shutdown r s) = dy_accepted s"
  "dy_serving (dyn_shutdown r s) = dy_serving s" "dy_closed (dyn_shutdown r s) = dy_closed s @ [r]"
  "dy_handled (dyn_shutdown r s) = dy_handled s"
  by (simp_all add: dyn_shutdown_def)

lemmas dyn_unfold = dyn_inv_def dyn_places_def

text \<open>Requests in a thread's hands are not in the pool, and new numbers are nowhere.\<close>

lemma dyn_invD:
  assumes "dyn_inv s"
  shows "dyn_places r s = (if r < dy_accepted s then 1 else 0)"
    "in_pool r (dy_pool s) + in_hand r (dy_acceptors s) \<le> (if r < dy_accepted s then 1 else 0)"
    "dy_killed s \<Longrightarrow> dy_pending s = []" "p_exit (dy_pool s) \<Longrightarrow> dy_killed s" "p_maxsize (dy_pool s) = 0"
    "r \<in> set (dy_pending s) \<Longrightarrow> 0 < in_pool r (dy_pool s)"
    "r \<in> set (dy_serving s) \<Longrightarrow> \<exists>n i. runs_at (Task n r) i (dy_pool s)"
  using assms by (auto simp: dyn_inv_def)

lemma dyn_invI:
  assumes "\<And>r. dyn_places r s = (if r < dy_accepted s then 1 else 0)"
    "\<And>r. in_pool r (dy_pool s) + in_hand r (dy_acceptors s) \<le> (if r < dy_accepted s then 1 else 0)"
    "dy_killed s \<Longrightarrow> dy_pending s = []" "p_exit (dy_pool s) \<Longrightarrow> dy_killed s" "p_maxsize (dy_pool s) = 0"
    "\<And>r. r \<in> set (dy_pending s) \<Longrightarrow> 0 < in_pool r (dy_pool s)"
    "\<And>r. r \<in> set (dy_serving s) \<Longrightarrow> \<exists>n i. runs_at (Task n r) i (dy_pool s)"
  shows "dyn_inv s"
  using assms by (simp add: dyn_inv_def)

text \<open>The serving threads.\<close>

lemma dyn_acc_inv:
  assumes "dyn_inv s" "dyn_at c i s" "t = dyn_to i d s'" "s' = s \<or> acc_hand c = Some k \<and> s' = dyn_shutdown k s"
    "acc_hand d = acc_hand c \<and> s' = s \<or> acc_hand d = None \<and> s' \<noteq> s \<or> acc_hand c = None \<and> acc_hand d = None"
  shows "dyn_inv t"
proof -
  note inv = dyn_invD [OF assms(1)]
  have ne: "dyn_shutdown k s \<noteq> s" by (metis append_self_conv dyn_shutdown_sel(8) not_Cons_self2)
  show ?thesis
  proof (rule dyn_invI)
    show "dyn_places r t = (if r < dy_accepted t then 1 else 0)" for r
      using inv(1) [of r] assms(2-5) ne by (auto simp: dyn_places_def dyn_at_def in_hand_update)
    show "in_pool r (dy_pool t) + in_hand r (dy_acceptors t) \<le> (if r < dy_accepted t then 1 else 0)" for r
      using inv(2) [of r] assms(2-5) ne by (auto simp: dyn_at_def in_hand_update)
  qed (use assms(3,4) inv(3-7) in \<open>auto\<close>)
qed

lemma dyn_get_inv:
  assumes "dyn_inv s" "dyn_at AGet i s"
  shows "dyn_inv (dyn_get ok i s)"
proof (cases ok)
  case False
  then show ?thesis by (intro dyn_acc_inv [OF assms, of _ ALoop s]) (auto simp: dyn_get_def)
next
  case True
  note inv = dyn_invD [OF assms(1)]
  let ?t = "dyn_get ok i s"
  show ?thesis
  proof (rule dyn_invI)
    show "dyn_places r ?t = (if r < dy_accepted ?t then 1 else 0)" for r
      using inv(1) [of r] assms(2) True by (auto simp: dyn_places_def dyn_at_def in_hand_update dyn_get_def)
    show "in_pool r (dy_pool ?t) + in_hand r (dy_acceptors ?t) \<le> (if r < dy_accepted ?t then 1 else 0)" for r
      using inv(2) [of r] assms(2) True by (auto simp: dyn_at_def in_hand_update dyn_get_def)
  qed (use inv(3-7) True in \<open>auto simp: dyn_get_def\<close>)
qed

lemma dyn_verify_inv:
  assumes "dyn_inv s" "dyn_at (AGot r) i s"
  shows "dyn_inv (dyn_verify answer i r s)"
proof -
  have ne: "dyn_shutdown r s \<noteq> s" by (metis append_self_conv dyn_shutdown_sel(8) not_Cons_self2)
  consider "answer = None" | "answer = Some True" | "answer = Some False" by (cases answer) auto
  then show ?thesis
  proof cases
    case 1
    with ne show ?thesis by (intro dyn_acc_inv [OF assms, of _ AEnd "dyn_shutdown r s" r]) (auto simp: dyn_verify_def)
  next
    case 2
    then show ?thesis by (intro dyn_acc_inv [OF assms, of _ "APut r" s]) (auto simp: dyn_verify_def)
  next
    case 3
    with ne show ?thesis by (intro dyn_acc_inv [OF assms, of _ ALoop "dyn_shutdown r s" r]) (auto simp: dyn_verify_def)
  qed
qed

text \<open>\<^verbatim>\<open>kill\<close>\<close>

lemma dyn_kill_inv:
  assumes "dyn_inv s"
  shows "dyn_inv (dyn_kill s)"
proof (rule dyn_invI)
  show "dyn_places r (dyn_kill s) = (if r < dy_accepted (dyn_kill s) then 1 else 0)" for r
    using dyn_invD(1) [OF assms, of r] by (simp add: dyn_places_def dyn_kill_def killers_append)
qed (use dyn_invD [OF assms] in \<open>auto simp: dyn_kill_def\<close>)

lemma dyn_killall_inv:
  assumes "dyn_inv s" "killer_at (Killall rs) j s" "dy_killed s"
  shows "dyn_inv (dyn_killall j rs s)"
proof (rule dyn_invI)
  show "dyn_places r (dyn_killall j rs s) = (if r < dy_accepted (dyn_killall j rs s) then 1 else 0)" for r
    using dyn_invD(1) [OF assms(1), of r] assms(2)
    by (simp add: dyn_places_def dyn_killall_def killer_at_def killers_update)
  show "in_pool r (dy_pool (dyn_killall j rs s)) + in_hand r (dy_acceptors (dyn_killall j rs s))
      \<le> (if r < dy_accepted (dyn_killall j rs s) then 1 else 0)" for r
    using dyn_invD(2) [OF assms(1), of r] killall_in_pool(1) [of r "dy_pool s"] by (simp add: dyn_killall_def)
qed (use dyn_invD(3-7) [OF assms(1)] assms(3) in \<open>auto simp: dyn_killall_def killall_in_pool\<close>)

lemma dyn_close_inv:
  assumes "dyn_inv s" "killer_at (Closing (r # rs)) j s"
  shows "dyn_inv (dyn_close raised j r rs s)"
proof (rule dyn_invI)
  let ?t = "dyn_close raised j r rs s"
  show "dyn_places k ?t = (if k < dy_accepted ?t then 1 else 0)" for k
    using dyn_invD(1) [OF assms(1), of k] assms(2)
    by (simp add: dyn_places_def dyn_close_def killer_at_def killers_update add_ac)
qed (use dyn_invD(2-7) [OF assms(1)] in \<open>auto simp: dyn_close_def\<close>)

text \<open>The pool's threads and the tasks.\<close>

lemma dyn_worker_inv:
  assumes "dyn_inv s" "worker_move (dy_pool s) p"
  shows "dyn_inv (s\<lparr>dy_pool := p\<rparr>)"
proof -
  note inv = dyn_invD [OF assms(1)]
  have c: "in_pool r p \<le> in_pool r (dy_pool s)" "\<not> p_exit (dy_pool s) \<Longrightarrow> in_pool r p = in_pool r (dy_pool s)"
    "runs_at t i (dy_pool s) \<Longrightarrow> runs_at t i p" "p_exit p = p_exit (dy_pool s)" "p_maxsize p = p_maxsize (dy_pool s)"
    for r t i using carries_move [OF assms(2)] by (auto simp: carries_def)
  show ?thesis
  proof (rule dyn_invI)
    let ?t = "s\<lparr>dy_pool := p\<rparr>"
    show "dyn_places r ?t = (if r < dy_accepted ?t then 1 else 0)" for r using inv(1) [of r] by (simp add: dyn_places_def)
    show "in_pool r (dy_pool ?t) + in_hand r (dy_acceptors ?t) \<le> (if r < dy_accepted ?t then 1 else 0)" for r
      using inv(2) [of r] c(1) [of r] by simp
    show "0 < in_pool r (dy_pool ?t)" if "r \<in> set (dy_pending ?t)" for r
    proof -
      have "\<not> p_exit (dy_pool s)" using inv(3,4) that by auto
      then show ?thesis using inv(6) [of r] that c(2) [of r] by simp
    qed
    show "\<exists>n i. runs_at (Task n r) i (dy_pool ?t)" if "r \<in> set (dy_serving ?t)" for r
      using inv(7) [of r] that c(3) by auto
  qed (use inv(3-5) c(4,5) in auto)
qed

lemma dyn_take_inv:
  assumes "dyn_inv s" "runs_at (Task n r) i (dy_pool s)" "r \<in> set (dy_pending s)"
  shows "dyn_inv (dyn_take r s)"
proof (rule dyn_invI)
  note inv = dyn_invD [OF assms(1)]
  let ?t = "dyn_take r s"
  show "dyn_places k ?t = (if k < dy_accepted ?t then 1 else 0)" for k
    using inv(1) [of k] assms(3) by (simp add: dyn_places_def dyn_take_def many_remove1)
  show "0 < in_pool k (dy_pool ?t)" if "k \<in> set (dy_pending ?t)" for k
    using inv(6) [of k] that set_remove1_subset [of r "dy_pending s"] by (auto simp: dyn_take_def)
  show "\<exists>m j. runs_at (Task m k) j (dy_pool ?t)" if "k \<in> set (dy_serving ?t)" for k
    using inv(7) [of k] that assms(2) by (auto simp: dyn_take_def)
qed (use dyn_invD(2-5) [OF assms(1)] assms(3) in \<open>auto simp: dyn_take_def\<close>)

text \<open>A request is in one list at most once.\<close>

lemma serving_once:
  assumes "dyn_inv s" "r \<in> set (dy_serving s)"
  shows "r \<notin> set (remove1 r (dy_serving s))"
proof -
  have "many (\<lambda>q. q = r) (dy_serving s) \<le> 1"
    using dyn_invD(1) [OF assms(1), of r] many_ge [of "\<lambda>q. q = r"] killers_have_ge [of r "dy_killers s"]
      many_ge [of "\<lambda>c. acc_hand c = Some r" "dy_acceptors s"]
    unfolding dyn_places_def in_hand_def by (smt (verit))
  then have "many (\<lambda>q. q = r) (remove1 r (dy_serving s)) = 0"
    using many_remove1 [OF assms(2), of "\<lambda>q. q = r"] many_ge [of "\<lambda>q. q = r" "remove1 r (dy_serving s)"] by simp
  then show ?thesis by (auto simp: many_zero)
qed

lemma dyn_process_inv:
  assumes "dyn_inv s" "runs_at (Task n r) i (dy_pool s)" "r \<notin> set (dy_pending s)"
  shows "dyn_inv (dyn_process escaped i (Task n r) r s)"
proof (rule dyn_invI)
  note inv = dyn_invD [OF assms(1)]
  let ?t = "dyn_process escaped i (Task n r) r s"
  have p: "dy_pool ?t = worker_run escaped i (Task n r) (dy_pool s)" by (simp add: dyn_process_def Let_def)
  have same: "dy_acceptors ?t = dy_acceptors s" "dy_accepted ?t = dy_accepted s" "dy_pending ?t = dy_pending s"
    "dy_killed ?t = dy_killed s" "dy_killers ?t = dy_killers s" "dy_closed ?t = dy_closed s"
    by (simp_all add: dyn_process_def Let_def)
  note w = run_in_pool [OF assms(2), where escaped = escaped]
  show "dyn_places k ?t = (if k < dy_accepted ?t then 1 else 0)" for k
    using inv(1) [of k] by (auto simp: dyn_places_def dyn_process_def Let_def many_remove1)
  show "in_pool k (dy_pool ?t) + in_hand k (dy_acceptors ?t) \<le> (if k < dy_accepted ?t then 1 else 0)" for k
    using inv(2) [of k] by (cases "k = r") (simp_all add: p w same split: if_splits)
  show "0 < in_pool k (dy_pool ?t)" if "k \<in> set (dy_pending ?t)" for k
    using inv(6) [of k] that assms(3) by (auto simp: p w same)
  show "\<exists>m j. runs_at (Task m k) j (dy_pool ?t)" if "k \<in> set (dy_serving ?t)" for k
  proof -
    have "k \<in> set (dy_serving s)" "k \<noteq> r"
      using that serving_once [OF assms(1), of r] set_remove1_subset [of r "dy_serving s"]
      by (auto simp: dyn_process_def Let_def split: if_splits)
    then obtain m j where "runs_at (Task m k) j (dy_pool s)" using inv(7) by blast
    from w(2) [OF this \<open>k \<noteq> r\<close>] show ?thesis unfolding p by blast
  qed
  show "p_exit (dy_pool ?t) \<Longrightarrow> dy_killed ?t" using inv(4) by (simp add: p w same)
  show "p_maxsize (dy_pool ?t) = 0" using inv(5) by (simp add: p w)
  show "dy_killed ?t \<Longrightarrow> dy_pending ?t = []" using inv(3) by (simp add: same)
qed

lemma remove1_last: "r \<notin> set xs \<Longrightarrow> remove1 r (xs @ [r]) = xs"
  by (simp add: remove1_append)

text \<open>A submission: the pool has the task, or the request is closed; it never has to ask again.\<close>

lemma submit_never_retries:
  "dyn_inv s \<Longrightarrow> fst (pool_run starts now r None None (dy_pool s)) \<noteq> Retry"
  using pool_run_carries [of starts now r None "dy_pool s"] dyn_invD(5) by (metis prod.collapse)

lemma hand_alone:
  assumes "dyn_inv s" "dyn_at (APut r) i s"
  shows "r \<notin> set (dy_pending s)" "in_pool r (dy_pool s) = 0"
proof -
  have h: "1 \<le> in_hand r (dy_acceptors s)"
    using assms(2) many_update [of i "dy_acceptors s" "\<lambda>c. acc_hand c = Some r" AEnd]
      many_ge [of "\<lambda>c. acc_hand c = Some r" "(dy_acceptors s)[i := AEnd]"] by (simp add: in_hand_def dyn_at_def)
  show "in_pool r (dy_pool s) = 0"
    using dyn_invD(2) [OF assms(1), of r] h in_pool_ge [of r "dy_pool s"] by (simp split: if_splits)
  have "many (\<lambda>q. q = r) (dy_pending s) = 0"
    using dyn_invD(1) [OF assms(1), of r] h many_ge [of "\<lambda>q. q = r"] killers_have_ge [of r "dy_killers s"]
    unfolding dyn_places_def by (smt (verit))
  then show "r \<notin> set (dy_pending s)" by (auto simp: many_zero)
qed

lemma dyn_submit_inv:
  assumes "dyn_inv s" "dyn_at (APut r) i s"
  shows "dyn_inv (dyn_submit starts now i r s)"
proof (cases "dy_killed s")
  case True
  have "dyn_shutdown r s \<noteq> s" by (metis append_self_conv dyn_shutdown_sel(8) not_Cons_self2)
  with True show ?thesis by (intro dyn_acc_inv [OF assms, of _ ALoop "dyn_shutdown r s" r]) (auto simp: dyn_submit_def)
next
  case False
  note inv = dyn_invD [OF assms(1)]
  obtain res q where q: "pool_run starts now r None None (dy_pool s) = (res, q)" by (rule prod.exhaust)
  from pool_run_carries [OF q] obtain u e where u: "carries (dy_pool s) u" "task_target (snd (snd e)) = Some r"
    "res = Put \<and> q = queue_put e u \<or> res \<noteq> Put \<and> q = u" by (elim exE conjE) (rule that)
  have ex: "\<not> p_exit (dy_pool s)" using False inv(4) by auto
  have c: "in_pool k u = in_pool k (dy_pool s)" "runs_at t j (dy_pool s) \<Longrightarrow> runs_at t j u" "p_exit u = p_exit (dy_pool s)"
    "p_maxsize u = p_maxsize (dy_pool s)" for k t j using u(1) ex by (auto simp: carries_def)
  note alone = hand_alone [OF assms]
  let ?t = "dyn_submit starts now i r s"
  have cases: "dy_pool ?t = queue_put e u \<and> dy_pending ?t = dy_pending s @ [r] \<and> dy_acceptors ?t = (dy_acceptors s)[i := ALoop] \<and>
        dy_closed ?t = dy_closed s \<or>
      dy_pool ?t = u \<and> dy_pending ?t = dy_pending s \<and> dy_acceptors ?t = (dy_acceptors s)[i := AEnd] \<and>
        dy_closed ?t = dy_closed s @ [r]"
    using False q u(3) alone(1) by (auto simp: dyn_submit_def Let_def remove1_last split: put_result.splits)
  have same: "dy_accepted ?t = dy_accepted s" "dy_killed ?t = dy_killed s" "dy_killers ?t = dy_killers s"
    "dy_serving ?t = dy_serving s" "dy_handled ?t = dy_handled s"
    using q by (auto simp: dyn_submit_def Let_def split: put_result.splits)
  have run: "runs_at t j (queue_put e u) = runs_at t j u" for t j by (simp add: runs_at_def)
  show ?thesis
  proof (rule dyn_invI)
    show "dyn_places k ?t = (if k < dy_accepted ?t then 1 else 0)" for k
      using inv(1) [of k] cases assms(2) by (auto simp: dyn_places_def same dyn_at_def in_hand_update)
    show "in_pool k (dy_pool ?t) + in_hand k (dy_acceptors ?t) \<le> (if k < dy_accepted ?t then 1 else 0)" for k
      using inv(2) [of k] cases assms(2) u(2) c(1) [of k] by (auto simp: same dyn_at_def in_hand_update queue_put_in_pool)
    show "0 < in_pool k (dy_pool ?t)" if "k \<in> set (dy_pending ?t)" for k
      using that inv(6) [of k] cases u(2) in_pool_ge [of k "dy_pool s"] c(1) [of k] by (auto simp: queue_put_in_pool)
    show "\<exists>n j. runs_at (Task n k) j (dy_pool ?t)" if k: "k \<in> set (dy_serving ?t)" for k
    proof -
      obtain n j where "runs_at (Task n k) j (dy_pool s)" using k inv(7) [of k] same(4) by auto
      then have "runs_at (Task n k) j u" by (rule c(2))
      then have "runs_at (Task n k) j (dy_pool ?t)" using cases by (auto simp: run)
      then show ?thesis by blast
    qed
    show "p_maxsize (dy_pool ?t) = 0" using inv(5) cases c(4) by (auto simp: queue_put_def)
  qed (use False inv(4) cases c(3) in \<open>auto simp: same\<close>)
qed

text \<open>The interface of the transition system, on the composition of server and pool.\<close>

lemma killers_killed_step:
  "dyn_step s t \<Longrightarrow> dy_killers s \<noteq> [] \<longrightarrow> dy_killed s \<Longrightarrow> dy_killers t \<noteq> [] \<longrightarrow> dy_killed t"
  by (induction rule: dyn_step.induct)
    (auto simp: dyn_loop_def dyn_get_def dyn_verify_def dyn_submit_def Let_def dyn_take_def dyn_process_def
      dyn_kill_def dyn_killall_def dyn_close_def split: option.splits bool.splits prod.splits put_result.splits)

definition dyn_sys_inv :: "dyn \<Rightarrow> bool" where
  "dyn_sys_inv s \<longleftrightarrow> dyn_inv s \<and> (dy_killers s \<noteq> [] \<longrightarrow> dy_killed s) \<and> reach pool_start (pool_step True) (dy_pool s)"

lemma dyn_start_inv: "dyn_start s \<Longrightarrow> dyn_sys_inv s"
  by (auto simp: dyn_start_def dyn_new_def dyn_sys_inv_def dyn_unfold in_hand_def killers_have_def in_pool_def pool_new_def
      intro!: reach_init simp: pool_start_def)

lemma dyn_step_inv: "dyn_step s t \<Longrightarrow> dyn_inv s \<Longrightarrow> dy_killers s \<noteq> [] \<longrightarrow> dy_killed s \<Longrightarrow> dyn_inv t"
proof (induction rule: dyn_step.induct)
  case (d_loop i s)
  then show ?case by (intro dyn_acc_inv [OF d_loop(2,1), of _ "if dy_killed s then AEnd else AGet" s]) (auto simp: dyn_loop_def)
next
  case (d_killall rs j s)
  then have "dy_killed s" by (auto simp: killer_at_def)
  with d_killall show ?case by (intro dyn_killall_inv)
qed (auto intro: dyn_get_inv dyn_verify_inv dyn_submit_inv dyn_worker_inv dyn_take_inv dyn_process_inv dyn_kill_inv dyn_close_inv)

interpretation dynsrv: invariant_system dyn_start dyn_step dyn_sys_inv
proof
  show "dyn_sys_inv t" if "dyn_sys_inv s" "dyn_step s t" for s t
    using that dyn_step_inv killers_killed_step dyn_pool_step unfolding dyn_sys_inv_def by blast
qed (rule dyn_start_inv)

section \<open>Properties\<close>

text \<open>
  C26: The dynamic server over its pool, in every interleaving of serving threads, workers and calls of
  \<^verbatim>\<open>kill\<close>, with thread starts that may fail and shut-downs that may raise: its pool goes through the states
  of a pool, so everything shown of pools holds of it; every accepted request is in exactly one place (in
  the hands of a thread or of \<^verbatim>\<open>kill\<close>, pending, taken by a task, closed, handled); a pending request is a
  task of the pool, one that is taken is being run; a killed server has no pending request. Once it is
  killed and its threads have ended without an error in \<^verbatim>\<open>kill\<close>, every accepted request has been handled or
  closed, never both.
\<close>

theorem dyn_server_accounts:
  assumes "reach dyn_start dyn_step s"
  shows "reach pool_start (pool_step True) (dy_pool s) \<and> dyn_places r s = (if r < dy_accepted s then 1 else 0) \<and>
    (r \<in> set (dy_pending s) \<longrightarrow> \<not> dy_killed s \<and> in_pool r (dy_pool s) = 1) \<and>
    (r \<in> set (dy_serving s) \<longrightarrow> (\<exists>n i. runs_at (Task n r) i (dy_pool s))) \<and>
    (dy_killed s \<and> (\<forall>c \<in> set (dy_acceptors s). c = AEnd) \<and> (\<forall>w \<in> set (p_threads (dy_pool s)). w_pc w = WDone) \<and>
       (\<forall>k \<in> set (dy_killers s). k = Closing []) \<and> r < dy_accepted s \<longrightarrow>
     (r \<in> set (dy_handled s)) \<noteq> (r \<in> set (dy_closed s)))"
proof -
  have "dyn_sys_inv s" by (rule dynsrv.reach_inv [OF assms])
  then have i: "dyn_inv s" and p: "reach pool_start (pool_step True) (dy_pool s)" by (simp_all add: dyn_sys_inv_def)
  note inv = dyn_invD [OF i]
  have one: "in_pool r (dy_pool s) = 1" if "r \<in> set (dy_pending s)"
    using inv(2) [of r] inv(6) [OF that] many_ge [of "\<lambda>c. acc_hand c = Some r" "dy_acceptors s"]
    by (simp add: in_hand_def split: if_splits)
  have ends: "(r \<in> set (dy_handled s)) \<noteq> (r \<in> set (dy_closed s))"
    if acc: "\<forall>c \<in> set (dy_acceptors s). c = AEnd" and wrk: "\<forall>w \<in> set (p_threads (dy_pool s)). w_pc w = WDone"
      and k: "dy_killed s" "\<forall>k \<in> set (dy_killers s). k = Closing []" and r: "r < dy_accepted s"
  proof -
    have "in_hand r (dy_acceptors s) = 0" using acc by (auto simp: in_hand_def many_zero)
    moreover have "killers_have r (dy_killers s) = 0" using k(2) killers_have_none by blast
    moreover have "dy_serving s = []"
    proof -
      have "k \<notin> set (dy_serving s)" for k using inv(7) [of k] wrk by (auto simp: runs_at_def)
      then show ?thesis by (metis last_in_set)
    qed
    ultimately have "many (\<lambda>q. q = r) (dy_closed s) + many (\<lambda>q. q = r) (dy_handled s) = 1"
      using inv(1) [of r] inv(3) [OF k(1)] r by (simp add: dyn_places_def)
    then show ?thesis by (rule many_one)
  qed
  show ?thesis using p inv(1) [of r] inv(3,7) one ends by auto
qed

section \<open>Runs\<close>

text \<open>Two accepted connections, the first one queued.\<close>

lemmas dyn_eval = dyn_new_def dyn_at_def dyn_loop_def dyn_get_def dyn_verify_def dyn_submit_def dyn_to_def dyn_shutdown_def
  Let_def pool_run_def task_entry_def

definition demo_accept :: "nat \<Rightarrow> dyn \<Rightarrow> dyn" where
  "demo_accept r s = dyn_submit (\<lambda>_. True) 0 0 r (dyn_verify (Some True) 0 r (dyn_get True 0 (dyn_loop 0 s)))"

definition demo_dyn :: dyn where "demo_dyn = demo_accept 0 (dyn_new 2 0 0 None)"

lemma demo_dyn_eq:
  "dy_pending demo_dyn = [0]" "dy_killed demo_dyn = False" "dy_accepted demo_dyn = 1" "dy_acceptors demo_dyn = [ALoop]"
  "p_tasks (dy_pool demo_dyn) = [(0, 0, Task None 0)]"
  by (simp_all add: demo_dyn_def demo_accept_def dyn_eval pool_eval)

lemma demo_accept_reach:
  assumes "reach dyn_start dyn_step s" "dyn_at ALoop 0 s" "\<not> dy_killed s" "dy_accepted s = r"
  shows "reach dyn_start dyn_step (demo_accept r s)"
proof -
  note x = reach_step [OF assms(1) d_loop [OF assms(2)]]
  note x = reach_step [OF x d_get [of 0 _ True]]
  note x = reach_step [OF x d_verify [of r 0 _ "Some True"]]
  note x = reach_step [OF x d_submit [of r 0 _ "\<lambda>_. True" 0]]
  show ?thesis unfolding demo_accept_def by (rule x) (use assms(2-4) in \<open>simp_all add: dyn_eval\<close>)
qed

lemma demo_dyn_reach: "reach dyn_start dyn_step demo_dyn"
  unfolding demo_dyn_def
proof (rule demo_accept_reach)
  show "reach dyn_start dyn_step (dyn_new 2 0 0 None)" by (rule reach_init) (auto simp: dyn_start_def)
qed (simp_all add: dyn_eval)

theorem dyn_server_accounts_witness:
  "dyn_places 0 demo_dyn = 1 \<and> in_pool 0 (dy_pool demo_dyn) = 1 \<and> 0 \<in> set (dy_pending demo_dyn)"
  using dyn_server_accounts [OF demo_dyn_reach, of 0] by (simp add: demo_dyn_eq)

text \<open>
  An error of the first \<^verbatim>\<open>shutdown_request\<close> in \<^verbatim>\<open>kill\<close> leaves the other requests open for good: they are out
  of the pending ones, so neither a task nor another \<^verbatim>\<open>kill\<close> finds them.
\<close>

lemma dyn_kill_leaks:
  "\<exists>s. reach dyn_start dyn_step s \<and> dy_killers s = [Failed [1]] \<and> 1 \<notin> set (dy_closed s) \<union> set (dy_handled s) \<and>
     dy_pending s = []"
proof -
  define a where "a = demo_accept 1 demo_dyn"
  have pend: "dy_pending a = [0, 1]" "dy_killers a = []" "dy_handled a = []" "dy_closed a = []"
    by (simp_all add: a_def demo_dyn_def demo_accept_def dyn_eval pool_eval)
  have "reach dyn_start dyn_step a"
    unfolding a_def by (rule demo_accept_reach [OF demo_dyn_reach]) (simp_all add: demo_dyn_eq dyn_at_def)
  note x = reach_step [OF this d_kill]
  note x = reach_step [OF x d_killall [of "[0, 1]" 0]]
  note x = reach_step [OF x d_close [of 0 "[1]" 0 _ True]]
  have "reach dyn_start dyn_step (dyn_close True 0 0 [1] (dyn_killall 0 [0, 1] (dyn_kill a)))"
    by (rule x) (simp_all add: killer_at_def dyn_kill_def dyn_killall_def pend)
  then show ?thesis
    by (intro exI [of _ "dyn_close True 0 0 [1] (dyn_killall 0 [0, 1] (dyn_kill a))"])
      (simp add: dyn_close_def dyn_shutdown_def dyn_killall_def dyn_kill_def pend)
qed

end
