(* ===== verification/Backsql.thy ===== *)
theory Backsql
  imports Anysql
begin

text \<open>
  The adapters of \<^verbatim>\<open>sonicprobe/libs/BackSQL\<close> and the TLS options they share (\<^verbatim>\<open>sonicprobe/libs/sqltls.py\<close>):
  from a database URI to the arguments of the driver's \<^verbatim>\<open>connect\<close>, and what is asked of a new connection
  before it is handed out. A driver is a function from a request to an error or an answer over a state
  of its own; the requests are logged.
\<close>

section \<open>Queries and errors\<close>

datatype back_error = Sql sql_error | NoAttribute

abbreviation value_error :: "string \<Rightarrow> back_error" where "value_error m \<equiv> Sql (SqlValueError m)"
abbreviation type_error :: "string \<Rightarrow> back_error" where "type_error m \<equiv> Sql (SqlTypeError m)"

text \<open>The query of a split URI: its keys are strings, a value may be missing.\<close>

type_synonym bquery = "(string \<times> string option) list"

definition uelt_text :: "uelt \<Rightarrow> string option" where
  "uelt_text x = (case x of UNone \<Rightarrow> None | UStr s \<Rightarrow> Some s | UInt i \<Rightarrow> Some (show_int i))"

definition query_text :: "(uelt \<times> uelt) list option \<Rightarrow> bquery" where
  "query_text q = (case q of None \<Rightarrow> [] | Some l \<Rightarrow> map (\<lambda>(k, v). (utext k, uelt_text v)) l)"

text \<open>A missing value is no access mode; the empty text is none either.\<close>

definition mode_of :: "bquery \<Rightarrow> string list \<Rightarrow> back_error + string option" where
  "mode_of q modes = map_sum Sql id
     (connection_mode (Some (map (\<lambda>(k, v). (k, case v of None \<Rightarrow> [] | Some s \<Rightarrow> s)) q)) modes)"

definition dict_from_query :: "bquery \<Rightarrow> (string, string option) dict" where
  "dict_from_query q = foldl (\<lambda>d (k, v). dset d k v) [] q"

section \<open>TLS\<close>

definition TLS_KEYS :: "string list" where "TLS_KEYS = [''tls'', ''tls_ca'', ''tls_cert'', ''tls_key'']"

definition TLS_CONFLICTS :: "string list" where
  "TLS_CONFLICTS = [''host'', ''hostaddr'', ''unix_socket'', ''read_default_file'', ''read_default_group'',
     ''options'', ''service'', ''servicefile'']"

definition is_tls_key :: "string \<Rightarrow> bool" where "is_tls_key k = (k = ''tls'' \<or> starts_with ''tls_'' k)"

fun tls_scan :: "bquery \<Rightarrow> (string, string option) dict \<Rightarrow> back_error + (string, string option) dict" where
  "tls_scan [] opts = Inr opts"
| "tls_scan ((k, v) # q) opts =
     (if is_tls_key k
      then (if k \<notin> set TLS_KEYS \<or> dhas opts k then Inl (value_error ''invalid SQL TLS options'')
            else tls_scan q (dset opts k v))
      else tls_scan q opts)"

definition good_text :: "string option \<Rightarrow> bool" where
  "good_text v = (case v of None \<Rightarrow> False | Some s \<Rightarrow> s \<noteq> [] \<and> CHR 0x00 \<notin> set s)"

definition tls_invalid :: "(string, string option) dict \<Rightarrow> string option \<Rightarrow> string \<Rightarrow> bool" where
  "tls_invalid opts host backend =
     (dget opts ''tls'' \<noteq> Some (Some ''verify-full'') \<or>
      (case dget opts ''tls_ca'' of None \<Rightarrow> True | Some v \<Rightarrow> v = None \<or> v = Some []) \<or>
      (\<exists>v \<in> set (dvals opts). \<not> good_text v) \<or>
      dhas opts ''tls_cert'' \<noteq> dhas opts ''tls_key'' \<or>
      (case host of None \<Rightarrow> True
       | Some h \<Rightarrow> h = [] \<or> CHR ''/'' \<in> set h \<or> backend = ''mysql'' \<and> map lower_char h = ''localhost''))"

definition configuration ::
  "bquery \<Rightarrow> string option \<Rightarrow> string \<Rightarrow> back_error + (string, string option) dict option" where
  "configuration q host backend =
     bind_sum (tls_scan q [])
       (\<lambda>opts. if opts = [] then Inr None
          else if tls_invalid opts host backend then Inl (value_error ''invalid SQL TLS configuration'')
          else if \<exists>(k, v) \<in> set q. starts_with ''ssl'' k \<or> k \<in> set TLS_CONFLICTS
          then Inl (value_error ''conflicting SQL TLS options'')
          else Inr (Some opts))"

text \<open>An option that is known to be there.\<close>

definition opt_text :: "(string, string option) dict \<Rightarrow> string \<Rightarrow> string" where
  "opt_text opts k = (case dget opts k of Some (Some s) \<Rightarrow> s | _ \<Rightarrow> [])"

definition cert_of :: "(string, string option) dict \<Rightarrow> (string \<times> string) option" where
  "cert_of tls = (if dhas tls ''tls_cert'' then Some (opt_text tls ''tls_cert'', opt_text tls ''tls_key'') else None)"

section \<open>The driver\<close>

text \<open>Arguments of \<^verbatim>\<open>connect\<close>: texts, numbers, the TLS dictionary, the conversions of MySQLdb.\<close>

datatype param = PText string | PNone | PInt int | PBool bool | PClass string | PConversions
  | PSsl string "(string \<times> string) option"

type_synonym params = "(string, param) dict"

datatype breq = Open params | NewCursor | Exec string "param list" | FetchOne | CloseCursor | CloseConn | AskSsl

datatype bresp = ROk | RRow "string option list option" | RBool bool

type_synonym 'w bdriver = "breq \<Rightarrow> 'w \<Rightarrow> (nat + bresp) \<times> 'w"

record 'w bsession =
  bs_world :: 'w
  bs_log :: "(breq \<times> (nat + bresp)) list"

definition bask :: "'w bdriver \<Rightarrow> breq \<Rightarrow> 'w bsession \<Rightarrow> (back_error + bresp) \<times> 'w bsession" where
  "bask drv q s = (case drv q (bs_world s) of
     (r, w) \<Rightarrow> (map_sum (\<lambda>e. Sql (DriverError e)) id r, s\<lparr>bs_world := w, bs_log := bs_log s @ [(q, r)]\<rparr>))"

text \<open>Requests in turn, each answer checked; the first error ends them.\<close>

fun ask_all :: "'w bdriver \<Rightarrow> (breq \<times> (bresp \<Rightarrow> back_error option)) list \<Rightarrow> 'w bsession \<Rightarrow>
  back_error option \<times> 'w bsession" where
  "ask_all drv [] s = (None, s)"
| "ask_all drv ((q, check) # qs) s = (case bask drv q s of
       (Inl e, s') \<Rightarrow> (Some e, s')
     | (Inr a, s') \<Rightarrow> (case check a of Some e \<Rightarrow> (Some e, s') | None \<Rightarrow> ask_all drv qs s'))"

definition error_of :: "back_error + 'a \<Rightarrow> back_error option" where
  "error_of r = (case r of Inl e \<Rightarrow> Some e | Inr _ \<Rightarrow> None)"

definition no_check :: "bresp \<Rightarrow> back_error option" where "no_check a = None"

definition not_negotiated :: back_error where "not_negotiated = value_error ''SQL TLS was not negotiated''"

text \<open>\<^verbatim>\<open>if not row or not row[1]\<close>\<close>

definition check_cipher :: "bresp \<Rightarrow> back_error option" where
  "check_cipher a = (case a of
     RRow (Some (_ # Some c # _)) \<Rightarrow> if c = [] then Some not_negotiated else None
   | _ \<Rightarrow> Some not_negotiated)"

definition check_ssl :: "bresp \<Rightarrow> back_error option" where
  "check_ssl a = (if a = RBool True then None else Some not_negotiated)"

section \<open>MySQL\<close>

datatype conversion = AsStr | AsInt | AsBool | AsClass | Dropped

definition mysql_typemap :: "(string \<times> conversion) list" where
  "mysql_typemap = [(''host'', AsStr), (''user'', AsStr), (''passwd'', AsStr), (''db'', AsStr), (''port'', AsInt),
     (''unix_socket'', AsStr), (''compress'', AsBool), (''connect_timeout'', AsInt), (''read_default_file'', AsStr),
     (''read_default_group'', AsStr), (''use_unicode'', AsBool), (''conv'', Dropped), (''quote_conv'', Dropped),
     (''cursorclass'', AsClass), (''charset'', AsStr)]"

definition mysql_conn_typemap :: "(string \<times> conversion) list" where
  "mysql_conn_typemap = [(''autocommit'', AsBool), (''interactive_timeout'', AsInt), (''time_zone'', AsStr),
     (''wait_timeout'', AsInt)]"

definition int_of :: "param \<Rightarrow> back_error + int" where
  "int_of v = (case v of PText s \<Rightarrow> (case py_int s of None \<Rightarrow> Inl (value_error ''int'') | Some i \<Rightarrow> Inr i)
     | PInt i \<Rightarrow> Inr i | _ \<Rightarrow> Inl (type_error ''int''))"

text \<open>\<open>has_class\<close>: the cursor classes MySQLdb has.\<close>

definition to_type :: "(string \<Rightarrow> bool) \<Rightarrow> conversion \<Rightarrow> param \<Rightarrow> back_error + param" where
  "to_type has_class c v = (case c of
       AsStr \<Rightarrow> Inr (case v of PNone \<Rightarrow> PText ''None'' | _ \<Rightarrow> v)
     | AsInt \<Rightarrow> map_sum id PInt (int_of v)
     | AsBool \<Rightarrow> map_sum id (\<lambda>i. PBool (i \<noteq> 0)) (int_of v)
     | AsClass \<Rightarrow> (let name = (case v of PText s \<Rightarrow> s | _ \<Rightarrow> []) @ ''Cursor'' in
         if has_class name then Inr (PClass name) else Inl NoAttribute)
     | Dropped \<Rightarrow> Inr v)"

fun apply_types :: "(string \<Rightarrow> bool) \<Rightarrow> (string \<times> conversion) list \<Rightarrow> params \<Rightarrow> back_error + params" where
  "apply_types has_class [] ps = Inr ps"
| "apply_types has_class ((k, c) # m) ps = (case dget ps k of
       None \<Rightarrow> apply_types has_class m ps
     | Some v \<Rightarrow> if c = Dropped then apply_types has_class m (ddel ps k)
         else bind_sum (to_type has_class c v) (\<lambda>v'. apply_types has_class m (dset ps k v')))"

text \<open>What a truthy part of the URI sets.\<close>

definition set_if :: "string \<Rightarrow> string option \<Rightarrow> params \<Rightarrow> params" where
  "set_if k x ps = (case x of None \<Rightarrow> ps | Some s \<Rightarrow> if s = [] then ps else dset ps k (PText s))"

definition authority_params :: "string \<Rightarrow> uauth option \<Rightarrow> params \<Rightarrow> params" where
  "authority_params passwd_key a ps = (case a of None \<Rightarrow> ps
     | Some (user, passwd, host, port) \<Rightarrow>
         set_if ''port'' (uelt_text port) (set_if ''host'' (uelt_text host)
           (set_if passwd_key (uelt_text passwd) (set_if ''user'' (uelt_text user) ps))))"

definition path_param :: "string \<Rightarrow> string option \<Rightarrow> params \<Rightarrow> params" where
  "path_param k path ps = (case path of None \<Rightarrow> ps | Some [] \<Rightarrow> ps
     | Some (c # p) \<Rightarrow> dset ps k (PText (if c = CHR ''/'' then p else c # p)))"

definition param_of :: "string option \<Rightarrow> param" where
  "param_of v = (case v of None \<Rightarrow> PNone | Some s \<Rightarrow> PText s)"

definition host_of :: "uauth option \<Rightarrow> string option" where
  "host_of a = (case a of None \<Rightarrow> None | Some (user, passwd, host, port) \<Rightarrow> uelt_text host)"

definition mysql_modes :: "(string \<times> string) list" where
  "mysql_modes = [(''ro'', ''SET SESSION TRANSACTION READ ONLY''), (''rw'', ''SET SESSION TRANSACTION READ WRITE''),
     (''rwc'', ''SET SESSION TRANSACTION READ WRITE'')]"

definition without :: "string list \<Rightarrow> (string, 'v) dict \<Rightarrow> (string, 'v) dict" where
  "without ks d = filter (\<lambda>(k, v). k \<notin> set ks) d"

text \<open>The arguments before the types are applied.\<close>

definition mysql_raw :: "bquery \<Rightarrow> (string, string option) dict option \<Rightarrow> uauth option \<Rightarrow> string option \<Rightarrow> params" where
  "mysql_raw q tls authority path =
     (let ps = map (\<lambda>(k, v). (k, param_of v)) (without (''mode'' # TLS_KEYS) (dict_from_query q));
          ps = (case tls of None \<Rightarrow> ps
                | Some t \<Rightarrow> dset (dset ps ''ssl_mode'' (PText ''VERIFY_IDENTITY'')) ''ssl'' (PSsl (opt_text t ''tls_ca'') (cert_of t)))
      in path_param ''db'' path (authority_params ''passwd'' authority ps))"

definition show_cipher :: string where
  "show_cipher = ''SHOW SESSION STATUS LIKE '' @ [CHR 0x27] @ ''Ssl_cipher'' @ [CHR 0x27]"

definition mysql_statements :: "params \<Rightarrow> string option \<Rightarrow> bool \<Rightarrow> (breq \<times> (bresp \<Rightarrow> back_error option)) list" where
  "mysql_statements cparams mode tls =
     (if tls then [(Exec show_cipher [], no_check), (FetchOne, check_cipher)] else []) @
     map (\<lambda>(k, v). (Exec (''SET @@session.'' @ k @ '' = %s'') [v], no_check)) (filter (\<lambda>(k, v). v \<noteq> PNone) cparams) @
     (case mode of None \<Rightarrow> [] | Some m \<Rightarrow> [(Exec (the (map_of mysql_modes m)) [], no_check)]) @
     [(CloseCursor, no_check)]"

text \<open>The \<^verbatim>\<open>except BaseException\<close> clause: the cursor if there is one, the connection in any case.\<close>

definition mysql_cleanup :: "'w bdriver \<Rightarrow> bool \<Rightarrow> back_error \<Rightarrow> 'w bsession \<Rightarrow> back_error \<times> 'w bsession" where
  "mysql_cleanup drv cursor e s =
     (case (if cursor then bask drv CloseCursor s else (Inr ROk, s)) of
        (r1, s1) \<Rightarrow> (case bask drv CloseConn s1 of
          (r2, s2) \<Rightarrow> (case r2 of Inl e2 \<Rightarrow> e2 | Inr _ \<Rightarrow> (case r1 of Inl e1 \<Rightarrow> e1 | Inr _ \<Rightarrow> e), s2)))"

definition mysql_prepare ::
  "'w bdriver \<Rightarrow> params \<Rightarrow> string option \<Rightarrow> bool \<Rightarrow> 'w bsession \<Rightarrow> back_error option \<times> 'w bsession" where
  "mysql_prepare drv cparams mode tls s =
     (if cparams = [] \<and> mode = None \<and> \<not> tls then (None, s)
      else (case bask drv NewCursor s of
          (Inl e, s1) \<Rightarrow> (case mysql_cleanup drv False e s1 of (e', s') \<Rightarrow> (Some e', s'))
        | (Inr _, s1) \<Rightarrow> (case ask_all drv (mysql_statements cparams mode tls) s1 of
              (None, s2) \<Rightarrow> (None, s2)
            | (Some e, s2) \<Rightarrow> (case mysql_cleanup drv True e s2 of (e', s') \<Rightarrow> (Some e', s')))))"

definition mysql_arguments ::
  "(string \<Rightarrow> bool) \<Rightarrow> utree \<Rightarrow> back_error + params \<times> params \<times> string option \<times> bool" where
  "mysql_arguments has_class puri = (case puri of (scheme, authority, path, query, fragment) \<Rightarrow>
     (let q = query_text query in
      bind_sum (mode_of q (map fst mysql_modes)) (\<lambda>mode.
      bind_sum (configuration q (host_of authority) ''mysql'') (\<lambda>tls.
      bind_sum (apply_types has_class (mysql_typemap @ mysql_conn_typemap) (mysql_raw q tls authority path)) (\<lambda>ps.
        (let ps = dset ps ''conv'' PConversions;
             cks = map fst mysql_conn_typemap
         in Inr (without cks ps, List.map_filter (\<lambda>k. map_option (Pair k) (dget ps k)) cks, mode, tls \<noteq> None)))))))"

text \<open>\<^verbatim>\<open>connect_by_uri\<close> once the URI is split, and on the URI.\<close>

definition mysql_open ::
  "'w bdriver \<Rightarrow> (string \<Rightarrow> bool) \<Rightarrow> utree \<Rightarrow> 'w bsession \<Rightarrow> (back_error + unit) \<times> 'w bsession" where
  "mysql_open drv has_class puri s = (case mysql_arguments has_class puri of
        Inl e \<Rightarrow> (Inl e, s)
      | Inr (ps, cparams, mode, tls) \<Rightarrow> (case bask drv (Open ps) s of
          (Inl e, s1) \<Rightarrow> (Inl e, s1)
        | (Inr _, s1) \<Rightarrow> (case mysql_prepare drv cparams mode tls s1 of
              (None, s2) \<Rightarrow> (Inr (), s2) | (Some e, s2) \<Rightarrow> (Inl e, s2))))"

definition by_uri :: "(utree \<Rightarrow> 's \<Rightarrow> (back_error + 'a) \<times> 's) \<Rightarrow> string \<Rightarrow> 's \<Rightarrow> (back_error + 'a) \<times> 's" where
  "by_uri connect uri s = (case uri_help_split uri of Inl e \<Rightarrow> (Inl (Sql (UriError e)), s) | Inr puri \<Rightarrow> connect puri s)"

definition mysql_connect_by_uri ::
  "'w bdriver \<Rightarrow> (string \<Rightarrow> bool) \<Rightarrow> string \<Rightarrow> 'w bsession \<Rightarrow> (back_error + unit) \<times> 'w bsession" where
  "mysql_connect_by_uri drv has_class = by_uri (mysql_open drv has_class)"

section \<open>PostgreSQL\<close>

definition pg_modes :: "(string \<times> string) list" where
  "pg_modes = [(''ro'', ''-c default_transaction_read_only=on''), (''rw'', ''-c default_transaction_read_only=off''),
     (''rwc'', ''-c default_transaction_read_only=off'')]"

definition MAX_CONNECT_TIMEOUT :: nat where "MAX_CONNECT_TIMEOUT = 2147483647"

definition values_of :: "string \<Rightarrow> bquery \<Rightarrow> string option list" where
  "values_of key q = map snd (filter (\<lambda>(k, v). k = key) q)"

definition pg_timeout :: "bquery \<Rightarrow> back_error + int option" where
  "pg_timeout q = (case values_of ''connect_timeout'' q of
       [] \<Rightarrow> Inr None
     | [None] \<Rightarrow> Inl (type_error ''expected string or bytes-like object'')
     | [Some s] \<Rightarrow>
         if s \<noteq> [] \<and> length s \<le> 10 \<and> list_all is_digit s \<and> 1 \<le> digits_val 10 s \<and> digits_val 10 s \<le> MAX_CONNECT_TIMEOUT
         then Inr (Some (int (digits_val 10 s))) else Inl (value_error ''invalid PostgreSQL connect_timeout'')
     | _ \<Rightarrow> Inl (value_error ''invalid PostgreSQL connect_timeout''))"

definition pg_arguments :: "utree \<Rightarrow> back_error + params \<times> bool" where
  "pg_arguments puri = (case puri of (scheme, authority, path, query, fragment) \<Rightarrow>
     (let q = query_text query in
      bind_sum (mode_of q (map fst pg_modes)) (\<lambda>mode.
      bind_sum (configuration q (host_of authority) ''postgresql'') (\<lambda>tls.
      bind_sum (pg_timeout q) (\<lambda>timeout.
        (let ps = (case timeout of None \<Rightarrow> [] | Some t \<Rightarrow> [(''connect_timeout'', PInt t)]);
             ps = (case mode of None \<Rightarrow> ps | Some m \<Rightarrow> dset ps ''options'' (PText (the (map_of pg_modes m))));
             ps = (case tls of None \<Rightarrow> ps
               | Some t \<Rightarrow> (let ps = dset (dset ps ''sslmode'' (PText ''verify-full'')) ''sslrootcert'' (PText (opt_text t ''tls_ca'')) in
                   case cert_of t of None \<Rightarrow> ps
                   | Some (cert, key) \<Rightarrow> dset (dset ps ''sslcert'' (PText cert)) ''sslkey'' (PText key)))
         in Inr (path_param ''database'' path (authority_params ''password'' authority ps), tls \<noteq> None)))))))"

definition pg_open :: "'w bdriver \<Rightarrow> utree \<Rightarrow> 'w bsession \<Rightarrow> (back_error + unit) \<times> 'w bsession" where
  "pg_open drv puri s = (case pg_arguments puri of
        Inl e \<Rightarrow> (Inl e, s)
      | Inr (ps, tls) \<Rightarrow> (case bask drv (Open ps) s of
          (Inl e, s1) \<Rightarrow> (Inl e, s1)
        | (Inr _, s1) \<Rightarrow> (case ask_all drv (if tls then [(AskSsl, check_ssl)] else []) s1 of
              (None, s2) \<Rightarrow> (Inr (), s2)
            | (Some e, s2) \<Rightarrow> (case bask drv CloseConn s2 of
                  (Inl e', s3) \<Rightarrow> (Inl e', s3) | (Inr _, s3) \<Rightarrow> (Inl e, s3)))))"

definition pg_connect_by_uri :: "'w bdriver \<Rightarrow> string \<Rightarrow> 'w bsession \<Rightarrow> (back_error + unit) \<times> 'w bsession" where
  "pg_connect_by_uri drv = by_uri (pg_open drv)"

section \<open>SQLite\<close>

text \<open>
  \<open>as_uri\<close>: \<^verbatim>\<open>Path(p).absolute().as_uri()\<close>; \<open>seconds\<close>: \<^verbatim>\<open>float(ms) / 1000.0\<close>, which may fail. The arguments are the
  database, whether it is a URI, the time-out, \<^verbatim>\<open>check_same_thread\<close>.
\<close>

datatype 'f sqlite_open = SqliteOpen "string option" bool "'f option" "bool option"

definition OPEN_MODES :: "string list" where "OPEN_MODES = [''ro'', ''rw'', ''rwc'']"

definition timeout_option ::
  "(string option \<Rightarrow> back_error + 'f) \<Rightarrow> (string, string option) dict \<Rightarrow> back_error + 'f option" where
  "timeout_option seconds opts = (case dget opts ''timeout_ms'' of
     None \<Rightarrow> Inr None | Some v \<Rightarrow> map_sum id Some (seconds v))"

definition thread_option :: "bquery \<Rightarrow> back_error + bool option" where
  "thread_option q = (case values_of ''check_same_thread'' q of
       [] \<Rightarrow> Inr None
     | [Some v] \<Rightarrow> if v = ''true'' then Inr (Some True) else if v = ''false'' then Inr (Some False)
         else Inl (value_error ''invalid SQLite thread check option'')
     | _ \<Rightarrow> Inl (value_error ''invalid SQLite thread check option''))"

definition sqlite_arguments ::
  "bool \<Rightarrow> (string \<Rightarrow> string) \<Rightarrow> (string option \<Rightarrow> back_error + 'f) \<Rightarrow> utree \<Rightarrow> back_error + 'f sqlite_open" where
  "sqlite_arguments supported as_uri seconds puri = (case puri of (scheme, authority, path, query, fragment) \<Rightarrow>
     (let q = query_text query; opts = dict_from_query q in
      bind_sum (mode_of q OPEN_MODES) (\<lambda>mode. case mode of
        None \<Rightarrow> bind_sum (timeout_option seconds opts) (\<lambda>t. Inr (SqliteOpen path False t None))
      | Some m \<Rightarrow>
          (case path of
            None \<Rightarrow> Inl (value_error ''SQLite open modes require a file path'')
          | Some p \<Rightarrow>
             if p = [] \<or> p = '':memory:'' then Inl (value_error ''SQLite open modes require a file path'')
             else if \<not> supported then Inl (Sql (NotImplemented ''SQLite open modes require Python 3.4+ and SQLite 3.7.7+''))
             else bind_sum (thread_option q) (\<lambda>threads.
                  bind_sum (timeout_option seconds opts) (\<lambda>t.
                  Inr (SqliteOpen (Some (as_uri p @ ''?mode='' @ m)) True t threads)))))))"

section \<open>Identifiers\<close>

text \<open>\<^verbatim>\<open>escape\<close>: each component between quotes, quotes in it doubled.\<close>

definition quote_with :: "char \<Rightarrow> string \<Rightarrow> string" where
  "quote_with c s = c # concat (map (\<lambda>x. if x = c then [c, c] else [x]) s) @ [c]"

definition escape_with :: "char \<Rightarrow> string \<Rightarrow> string" where
  "escape_with c s = join ''.'' (map (quote_with c) (split_on CHR ''.'' s))"

definition mysql_escape :: "string \<Rightarrow> string" where "mysql_escape = escape_with (CHR 0x60)"
definition pg_escape :: "string \<Rightarrow> string" where "pg_escape = escape_with (CHR 0x22)"
definition sqlite_escape :: "string \<Rightarrow> string" where "sqlite_escape = escape_with (CHR 0x22)"

definition pg_cast :: "string \<Rightarrow> string \<Rightarrow> string" where
  "pg_cast fieldname xtype = fieldname @ ''::'' @ xtype"

end
