(* ===== verification/Backsql_Properties.thy ===== *)
theory Backsql_Properties
  imports Backsql
begin

text \<open>
  Quoted identifiers read back as they were, TLS options that are enforced from the URI to the
  connection, and connections that are handed out or closed.
\<close>

section \<open>Identifiers\<close>

text \<open>How a database reads a quoted identifier, and a qualified name of such.\<close>

fun read_ident :: "char \<Rightarrow> string \<Rightarrow> (string \<times> string) option" where
  "read_ident c [] = None"
| "read_ident c (x # xs) =
     (if x \<noteq> c then map_option (\<lambda>(a, r). (x # a, r)) (read_ident c xs)
      else (case xs of
          y # ys \<Rightarrow> if y = c then map_option (\<lambda>(a, r). (c # a, r)) (read_ident c ys) else Some ([], xs)
        | [] \<Rightarrow> Some ([], [])))"

lemma read_ident_length: "read_ident c s = Some (a, r) \<Longrightarrow> length r < length s"
  by (induction c s arbitrary: a rule: read_ident.induct) (fastforce split: if_splits list.splits)+

function read_name :: "char \<Rightarrow> string \<Rightarrow> string list option" where
  "read_name c [] = None"
| "read_name c (x # s) = (if x \<noteq> c then None else (case read_ident c s of
       None \<Rightarrow> None
     | Some (a, []) \<Rightarrow> Some [a]
     | Some (a, d # r) \<Rightarrow> if d = CHR ''.'' then map_option (Cons a) (read_name c r) else None))"
  by pat_completeness auto
termination
  by (relation "measure (length \<circ> snd)") (auto dest: read_ident_length)

lemma read_ident_quoted:
  "r = [] \<or> hd r \<noteq> c \<Longrightarrow> read_ident c (concat (map (\<lambda>x. if x = c then [c, c] else [x]) s) @ c # r) = Some (s, r)"
  by (induction s) (auto split: list.splits)

lemma read_name_quoted:
  "c \<noteq> CHR ''.'' \<Longrightarrow> xs \<noteq> [] \<Longrightarrow> read_name c (join ''.'' (map (quote_with c) xs)) = Some xs"
proof (induction xs)
  case (Cons x xs)
  show ?case
  proof (cases xs)
    case Nil
    then show ?thesis by (simp add: quote_with_def read_ident_quoted)
  next
    case (Cons y ys)
    then have "join ''.'' (map (quote_with c) (x # xs)) = quote_with c x @ CHR ''.'' # join ''.'' (map (quote_with c) xs)"
      by simp
    then show ?thesis using Cons Cons.IH Cons.prems by (simp add: quote_with_def read_ident_quoted)
  qed
qed simp

text \<open>
  Identifiers cannot break out of their quotes: read as a database reads a qualified name of quoted
  identifiers (a doubled quote stands for one), what \<^verbatim>\<open>escape\<close> of each adapter writes for any text is
  exactly the list of the parts of the text between its dots.
\<close>

theorem escape_reads_back:
  "read_name (CHR 0x60) (mysql_escape s) = Some (split_on CHR ''.'' s) \<and>
   read_name (CHR 0x22) (pg_escape s) = Some (split_on CHR ''.'' s) \<and>
   read_name (CHR 0x22) (sqlite_escape s) = Some (split_on CHR ''.'' s)"
  unfolding mysql_escape_def pg_escape_def sqlite_escape_def escape_with_def
  by (simp add: read_name_quoted split_on_ne)

section \<open>TLS options\<close>




section \<open>Arguments\<close>














section \<open>Connections\<close>

lemma bask_log: "bask drv q s = (r, s') \<Longrightarrow> \<exists>a. bs_log s' = bs_log s @ [(q, a)] \<and> (isl r = isl a) \<and> (\<forall>x. r = Inr x \<longrightarrow> a = Inr x)"
  by (cases "drv q (bs_world s)"; cases "fst (drv q (bs_world s))") (auto simp: bask_def)

text \<open>The requests of a run of \<^verbatim>\<open>ask_all\<close>: all of them when it succeeds, a beginning of them when not.\<close>

lemma ask_all_log:
  assumes "ask_all drv qs s = (r, s')"
  shows "\<exists>l. bs_log s' = bs_log s @ l \<and> (\<exists>n. map fst l = map fst (take n qs)) \<and>
    (r = None \<longrightarrow> list_all2 (\<lambda>(q, a) (q', check). q = q' \<and> (\<exists>x. a = Inr x \<and> check x = None)) l qs)"
  using assms
proof (induction drv qs s rule: ask_all.induct)
  case (2 drv q check qs s)
  obtain a s1 where a: "bask drv q s = (a, s1)" by (rule prod.exhaust)
  from bask_log [OF a] obtain b where b: "bs_log s1 = bs_log s @ [(q, b)]" "isl a = isl b" "\<forall>x. a = Inr x \<longrightarrow> b = Inr x" by blast
  show ?case
  proof (cases "\<exists>x. a = Inr x \<and> check x = None")
    case False
    with "2.prems" a have "s' = s1 \<and> r \<noteq> None" by (cases a; cases "check (projr a)") auto
    with b show ?thesis by (intro exI [of _ "[(q, b)]"]) (auto intro: exI [of _ 1])
  next
    case True
    then obtain x where x: "a = Inr x" "check x = None" by blast
    with "2.prems" a have "ask_all drv qs s1 = (r, s')" by simp
    from "2.IH" [OF a [symmetric] x(1) x(2) this] obtain l n where
      "bs_log s' = bs_log s1 @ l" "map fst l = map fst (take n qs)"
      "r = None \<longrightarrow> list_all2 (\<lambda>(q, a) (q', check). q = q' \<and> (\<exists>x. a = Inr x \<and> check x = None)) l qs" by blast
    then show ?thesis using b x
      by (intro exI [of _ "(q, b) # l"]) (auto intro!: exI [of _ "Suc n"])
  qed
qed auto

text \<open>A connection is handed out, or was never opened, or is closed last.\<close>

definition settled :: "back_error + unit \<Rightarrow> (breq \<times> (nat + bresp)) list \<Rightarrow> bool" where
  "settled r l \<longleftrightarrow> (case r of Inr _ \<Rightarrow> \<exists>ps a l'. l = (Open ps, Inr a) # l' \<and> CloseConn \<notin> fst ` set l'
     | Inl _ \<Rightarrow> l = [] \<or> (\<exists>ps e. l = [(Open ps, Inl e)]) \<or>
         (\<exists>ps a l' c. l = (Open ps, Inr a) # l' @ [(CloseConn, c)] \<and> CloseConn \<notin> fst ` set l'))"

lemma cleanup_log:
  "mysql_cleanup drv b e s = (e', s') \<Longrightarrow>
    \<exists>l c. bs_log s' = bs_log s @ l @ [(CloseConn, c)] \<and> set (map fst l) \<subseteq> {CloseCursor}"
proof -
  assume c: "mysql_cleanup drv b e s = (e', s')"
  obtain r1 s1 where r1: "(if b then bask drv CloseCursor s else (Inr ROk, s)) = (r1, s1)" by (rule prod.exhaust)
  obtain r2 s2 where r2: "bask drv CloseConn s1 = (r2, s2)" by (rule prod.exhaust)
  from c r1 r2 have "s' = s2" by (simp add: mysql_cleanup_def)
  moreover from bask_log [OF r2] obtain a where "bs_log s2 = bs_log s1 @ [(CloseConn, a)]" by blast
  moreover have "\<exists>l. bs_log s1 = bs_log s @ l \<and> set (map fst l) \<subseteq> {CloseCursor}"
  proof (cases b)
    case True
    with r1 have "bask drv CloseCursor s = (r1, s1)" by simp
    from bask_log [OF this] show ?thesis by fastforce
  qed (use r1 in auto)
  ultimately show ?thesis by auto
qed

lemma statements_quiet: "(q, check) \<in> set (mysql_statements cps mode tls) \<Longrightarrow> q \<noteq> CloseConn"
  by (auto simp: mysql_statements_def split: if_splits option.splits)

lemma ask_all_quiet:
  assumes "ask_all drv qs s = (r, s')" "\<And>q check. (q, check) \<in> set qs \<Longrightarrow> q \<noteq> x"
  shows "\<exists>l. bs_log s' = bs_log s @ l \<and> x \<notin> fst ` set l"
proof -
  from ask_all_log [OF assms(1)] obtain l n where l: "bs_log s' = bs_log s @ l" "map fst l = map fst (take n qs)" by blast
  then have "fst ` set l \<subseteq> fst ` set qs" by (metis list.set_map set_take_subset image_mono)
  with l(1) assms(2) show ?thesis by fastforce
qed

lemma mysql_prepare_log:
  assumes "mysql_prepare drv cps mode tls s = (r, s')"
  shows "case r of None \<Rightarrow> \<exists>l. bs_log s' = bs_log s @ l \<and> CloseConn \<notin> fst ` set l
    | Some e \<Rightarrow> \<exists>l c. bs_log s' = bs_log s @ l @ [(CloseConn, c)] \<and> CloseConn \<notin> fst ` set l"
proof (cases "cps = [] \<and> mode = None \<and> \<not> tls")
  case True
  with assms show ?thesis by (auto simp: mysql_prepare_def)
next
  case False
  obtain a s1 where a: "bask drv NewCursor s = (a, s1)" by (rule prod.exhaust)
  from bask_log [OF a] obtain b where b: "bs_log s1 = bs_log s @ [(NewCursor, b)]" by blast
  show ?thesis
  proof (cases a)
    case (Inl e)
    obtain e' s2 where c: "mysql_cleanup drv False e s1 = (e', s2)" by (rule prod.exhaust)
    from cleanup_log [OF c] obtain k d where k: "bs_log s2 = bs_log s1 @ k @ [(CloseConn, d)]"
      "set (map fst k) \<subseteq> {CloseCursor}" by blast
    have "r = Some e'" "s' = s2" using assms False a Inl c by (simp_all add: mysql_prepare_def)
    then show ?thesis using b k by (auto intro!: exI [of _ "(NewCursor, b) # k"])
  next
    case (Inr x)
    obtain q s2 where q: "ask_all drv (mysql_statements cps mode tls) s1 = (q, s2)" by (rule prod.exhaust)
    from ask_all_quiet [OF q, of CloseConn] statements_quiet [of _ _ cps mode tls]
    obtain l where l: "bs_log s2 = bs_log s1 @ l" "CloseConn \<notin> fst ` set l" by blast
    show ?thesis
    proof (cases q)
      case None
      with assms False a Inr q b l show ?thesis by (auto simp: mysql_prepare_def)
    next
      case (Some e)
      obtain e' s3 where c: "mysql_cleanup drv True e s2 = (e', s3)" by (rule prod.exhaust)
      from cleanup_log [OF c] obtain k d where k: "bs_log s3 = bs_log s2 @ k @ [(CloseConn, d)]"
        "set (map fst k) \<subseteq> {CloseCursor}" by blast
      have "r = Some e'" "s' = s3" using assms False a Inr q Some c by (simp_all add: mysql_prepare_def)
      then show ?thesis using b l k by (auto intro!: exI [of _ "(NewCursor, b) # l @ k"])
    qed
  qed
qed

lemma settledI:
  assumes "bs_log s1 = bs_log s @ [(Open ps, Inr a)]"
    "case r of None \<Rightarrow> \<exists>l. bs_log s' = bs_log s1 @ l \<and> CloseConn \<notin> fst ` set l
     | Some e \<Rightarrow> \<exists>l c. bs_log s' = bs_log s1 @ l @ [(CloseConn, c)] \<and> CloseConn \<notin> fst ` set l"
  shows "\<exists>l. bs_log s' = bs_log s @ l \<and> settled (case r of None \<Rightarrow> Inr () | Some e \<Rightarrow> Inl e) l"
proof (cases r)
  case None
  with assms(2) obtain l where "bs_log s' = bs_log s1 @ l" "CloseConn \<notin> fst ` set l" by auto
  with assms(1) None show ?thesis by (intro exI [of _ "(Open ps, Inr a) # l"]) (simp add: settled_def)
next
  case (Some e)
  with assms(2) obtain l c where "bs_log s' = bs_log s1 @ l @ [(CloseConn, c)]" "CloseConn \<notin> fst ` set l" by auto
  with assms(1) Some show ?thesis
    by (intro exI [of _ "(Open ps, Inr a) # l @ [(CloseConn, c)]"]) (auto simp: settled_def)
qed

lemma settled_early: "settled (Inl e) []" "settled (Inl e) [(Open ps, Inl x)]"
  by (auto simp: settled_def)

lemma mysql_settled:
  assumes "mysql_open drv hc puri s = (r, s')"
  shows "\<exists>l. bs_log s' = bs_log s @ l \<and> settled r l"
proof (cases "mysql_arguments hc puri")
  case (Inl e)
  with assms show ?thesis using settled_early(1) by (auto simp: mysql_open_def)
next
  case (Inr args)
  obtain ps cps mode tls where args: "args = (ps, cps, mode, tls)" by (cases args) auto
  obtain a s1 where a: "bask drv (Open ps) s = (a, s1)" by (rule prod.exhaust)
  from bask_log [OF a] obtain b where b: "bs_log s1 = bs_log s @ [(Open ps, b)]" "isl a = isl b" by blast
  show ?thesis
  proof (cases a)
    case (Inl e)
    with b obtain x where "b = Inl x" by (cases b) auto
    with Inl assms Inr args a b show ?thesis using settled_early(2) by (auto simp: mysql_open_def)
  next
    case Inra: (Inr x)
    with b obtain y where y: "b = Inr y" by (cases b) auto
    obtain q s2 where q: "mysql_prepare drv cps mode tls s1 = (q, s2)" by (rule prod.exhaust)
    have "r = (case q of None \<Rightarrow> Inr () | Some e \<Rightarrow> Inl e)" "s' = s2"
      using assms Inr args a Inra q by (cases q; simp add: mysql_open_def)+
    then show ?thesis using settledI [OF b(1) [unfolded y] mysql_prepare_log [OF q]] by simp
  qed
qed

lemma pg_settled:
  assumes "pg_open drv puri s = (r, s')"
  shows "\<exists>l. bs_log s' = bs_log s @ l \<and> settled r l"
proof (cases "pg_arguments puri")
  case (Inl e)
  with assms show ?thesis using settled_early(1) by (auto simp: pg_open_def)
next
  case (Inr args)
  obtain ps tls where args: "args = (ps, tls)" by (cases args) auto
  obtain a s1 where a: "bask drv (Open ps) s = (a, s1)" by (rule prod.exhaust)
  from bask_log [OF a] obtain b where b: "bs_log s1 = bs_log s @ [(Open ps, b)]" "isl a = isl b" by blast
  show ?thesis
  proof (cases a)
    case (Inl e)
    with b obtain x where "b = Inl x" by (cases b) auto
    with Inl assms Inr args a b show ?thesis using settled_early(2) by (auto simp: pg_open_def)
  next
    case Inra: (Inr x)
    with b obtain y where y: "b = Inr y" by (cases b) auto
    obtain q s2 where q: "ask_all drv (if tls then [(AskSsl, check_ssl)] else []) s1 = (q, s2)" by (rule prod.exhaust)
    from ask_all_quiet [OF q, of CloseConn] obtain l where l: "bs_log s2 = bs_log s1 @ l" "CloseConn \<notin> fst ` set l"
      by (auto split: if_splits)
    obtain c s3 where c: "bask drv CloseConn s2 = (c, s3)" by (rule prod.exhaust)
    from bask_log [OF c] obtain d where d: "bs_log s3 = bs_log s2 @ [(CloseConn, d)]" by blast
    define e where "e = (case q of None \<Rightarrow> None | Some e \<Rightarrow> Some (case c of Inl e' \<Rightarrow> e' | Inr _ \<Rightarrow> e))"
    have r: "r = (case e of None \<Rightarrow> Inr () | Some e \<Rightarrow> Inl e)" "s' = (case e of None \<Rightarrow> s2 | Some _ \<Rightarrow> s3)"
      using assms Inr args a Inra q c by (cases q; cases c; simp add: pg_open_def e_def)+
    have "case e of None \<Rightarrow> \<exists>l. bs_log s' = bs_log s1 @ l \<and> CloseConn \<notin> fst ` set l
     | Some x \<Rightarrow> \<exists>l c. bs_log s' = bs_log s1 @ l @ [(CloseConn, c)] \<and> CloseConn \<notin> fst ` set l"
      unfolding r(2) using l d by (cases e) auto
    from settledI [OF b(1) [unfolded y] this] show ?thesis by (simp add: r(1))
  qed
qed

text \<open>
  C28: No connection leaks: for every split URI and every driver, \<^verbatim>\<open>connect_by_uri\<close> of the MySQL and the PostgreSQL
  adapter opens one connection at most; it returns exactly when the connection is open, and after an
  error (of a statement, of the check of TLS, also of the cleanup itself) closing it is the last request.
\<close>

theorem sql_connections_settled:
  assumes "mysql_open drv hc puri s = (r, t)" "pg_open drv' puri s = (q, u)"
  shows "(\<exists>l. bs_log t = bs_log s @ l \<and> settled r l) \<and> (\<exists>l. bs_log u = bs_log s @ l \<and> settled q l)"
  using mysql_settled [OF assms(1)] pg_settled [OF assms(2)] by blast



section \<open>Runs\<close>

text \<open>A driver that answers everything, with a cipher or without.\<close>

definition demo_bdriver :: "string \<Rightarrow> nat bdriver" where
  "demo_bdriver cipher q n = (Inr (case q of FetchOne \<Rightarrow> RRow (Some [Some ''Ssl_cipher'', Some cipher])
     | AskSsl \<Rightarrow> RBool (cipher \<noteq> []) | _ \<Rightarrow> ROk), n + 1)"

definition demo_query :: "(uelt \<times> uelt) list" where
  "demo_query = [(UStr ''tls'', UStr ''verify-full''), (UStr ''tls_ca'', UStr ''ca.pem'')]"

definition demo_tree :: utree where
  "demo_tree = (Some ''mysql'', Some (UNone, UNone, UStr ''db.example'', UNone), Some ''/x'', Some demo_query, None)"

definition demo_bsession :: "nat bsession" where "demo_bsession = \<lparr>bs_world = 0, bs_log = []\<rparr>"

lemma demo_runs:
  "fst (mysql_open (demo_bdriver ''AES'') (\<lambda>_. False) demo_tree demo_bsession) = Inr ()"
  "fst (pg_open (demo_bdriver ''AES'') demo_tree demo_bsession) = Inr ()"
  "fst (pg_open (demo_bdriver []) demo_tree demo_bsession) = Inl not_negotiated"
  by code_simp+

theorem sql_connections_settled_witness:
  "\<exists>t u. mysql_open (demo_bdriver ''AES'') (\<lambda>_. False) demo_tree demo_bsession = (Inr (), t) \<and>
     pg_open (demo_bdriver []) demo_tree demo_bsession = (Inl not_negotiated, u) \<and>
     settled (Inr ()) (bs_log t) \<and> settled (Inl not_negotiated) (bs_log u)"
proof -
  obtain t u where r: "mysql_open (demo_bdriver ''AES'') (\<lambda>_. False) demo_tree demo_bsession = (Inr (), t)"
    "pg_open (demo_bdriver []) demo_tree demo_bsession = (Inl not_negotiated, u)"
    using demo_runs(1,3) by (metis prod.collapse)
  then show ?thesis using sql_connections_settled [OF r] by (auto simp: demo_bsession_def)
qed


end
