(* ===== verification/Xml2dict.thy ===== *)
theory Xml2dict
  imports Pystr
begin

text \<open>
  \<^verbatim>\<open>sonicprobe/libs/xml2dict.py\<close>: the three handlers that turn the events of the expat parser into a
  dictionary, over a stack of unfinished elements; and the dictionary they make of an element tree,
  however the parser cuts its texts.
\<close>

section \<open>The handlers\<close>

datatype xval = XText string | XDict "(string \<times> xval) list" | XList "xval list"

type_synonym xdict = "(string, xval) dict"

datatype xevent = Start string "(string \<times> string) list" | End string | Chars string

record xml_state =
  xm_current :: xdict
  xm_cdata :: "string list"
  xm_stack :: "(xdict \<times> string list) list"

definition CDATA :: string where "CDATA = ''__cdata__''"

definition set_item :: "string \<Rightarrow> xval \<Rightarrow> xdict \<Rightarrow> xdict" where
  "set_item k v d = dset d k
     (if k \<noteq> CDATA then (case dget d k of
         None \<Rightarrow> v
       | Some (XList vs) \<Rightarrow> XList (vs @ [v])
       | Some w \<Rightarrow> XList [w, v]) else v)"

definition set_items :: "(string \<times> xval) list \<Rightarrow> xdict \<Rightarrow> xdict" where
  "set_items items d = foldl (\<lambda>d (k, v). set_item k v d) d items"

definition attr_items :: "(string \<times> string) list \<Rightarrow> (string \<times> xval) list" where
  "attr_items as = map (\<lambda>(k, v). (k, XText v)) as"

definition startElement :: "(string \<times> string) list \<Rightarrow> xml_state \<Rightarrow> xml_state" where
  "startElement as s = \<lparr>xm_current = set_items (attr_items as) [], xm_cdata = [],
     xm_stack = (xm_current s, xm_cdata s) # xm_stack s\<rparr>"

text \<open>The value of a finished element.\<close>

definition element_value :: "xdict \<Rightarrow> string list \<Rightarrow> xval" where
  "element_value d parts = (let cdata = strip (concat parts) in
     if d \<noteq> [] then XDict (if cdata \<noteq> [] then set_item CDATA (XText cdata) d else d) else XText cdata)"

text \<open>\<^verbatim>\<open>self._stack.pop()\<close> raises on an empty stack.\<close>

definition endElement :: "string \<Rightarrow> xml_state \<Rightarrow> pyerror + xml_state" where
  "endElement name s = (let obj = element_value (xm_current s) (xm_cdata s) in
     case xm_stack s of
       [] \<Rightarrow> Inl IndexError
     | (d, parts) # st \<Rightarrow> Inr \<lparr>xm_current = set_item name obj d, xm_cdata = parts, xm_stack = st\<rparr>)"

definition characters :: "string \<Rightarrow> xml_state \<Rightarrow> xml_state" where
  "characters content s = s\<lparr>xm_cdata := xm_cdata s @ [content]\<rparr>"

fun handle_event :: "xevent \<Rightarrow> xml_state \<Rightarrow> pyerror + xml_state" where
  "handle_event (Start name as) s = Inr (startElement as s)"
| "handle_event (End name) s = endElement name s"
| "handle_event (Chars content) s = Inr (characters content s)"

fun handle_events :: "xevent list \<Rightarrow> xml_state \<Rightarrow> pyerror + xml_state" where
  "handle_events [] s = Inr s"
| "handle_events (e # es) s = bind_sum (handle_event e s) (handle_events es)"

definition Parse :: "xevent list \<Rightarrow> pyerror + xdict" where
  "Parse es = bind_sum (handle_events es \<lparr>xm_current = [], xm_cdata = [], xm_stack = []\<rparr>) (\<lambda>s. Inr (xm_current s))"

section \<open>Element trees\<close>

text \<open>A text may stand in several pieces next to each other.\<close>

datatype xml = Elem string "(string \<times> string) list" "xml list" | Text string

fun tree_events :: "xml \<Rightarrow> xevent list" where
  "tree_events (Text s) = [Chars s]"
| "tree_events (Elem name as kids) = Start name as # concat (map tree_events kids) @ [End name]"

definition texts :: "xml list \<Rightarrow> string list" where
  "texts kids = concat (map (\<lambda>k. case k of Text s \<Rightarrow> [s] | _ \<Rightarrow> []) kids)"

text \<open>The specification: all values of a name, in order, one alone or a list of several.\<close>

definition group_values :: "xval list \<Rightarrow> xval option" where
  "group_values vs = (case vs of [] \<Rightarrow> None | [v] \<Rightarrow> Some v | _ \<Rightarrow> Some (XList vs))"

definition values_at :: "string \<Rightarrow> (string \<times> xval) list \<Rightarrow> xval list" where
  "values_at k items = map snd (filter (\<lambda>(j, v). j = k) items)"

fun tree_value :: "xml \<Rightarrow> xval" where
  "tree_value (Text s) = XText s"
| "tree_value (Elem name as kids) = element_value
     (set_items (attr_items as @ concat (map (\<lambda>k. case k of Elem n _ _ \<Rightarrow> [(n, tree_value k)] | _ \<Rightarrow> []) kids)) [])
     (texts kids)"

definition kid_items :: "xml list \<Rightarrow> (string \<times> xval) list" where
  "kid_items kids = concat (map (\<lambda>k. case k of Elem n _ _ \<Rightarrow> [(n, tree_value k)] | _ \<Rightarrow> []) kids)"

section \<open>Grouping\<close>

lemma set_items_append: "set_items (xs @ ys) d = set_items ys (set_items xs d)"
  by (simp add: set_items_def)

lemma set_items_simps [simp]: "set_items [] d = d" "set_items ((k, v) # xs) d = set_items xs (set_item k v d)"
  by (simp_all add: set_items_def)

lemma group_snoc:
  assumes "\<forall>w \<in> set (vs @ [v]). \<forall>ws. w \<noteq> XList ws"
  shows "(case group_values vs of None \<Rightarrow> v | Some (XList ws) \<Rightarrow> XList (ws @ [v]) | Some w \<Rightarrow> XList [w, v]) =
    the (group_values (vs @ [v]))"
proof (cases vs)
  case (Cons w ws)
  then show ?thesis using assms by (cases ws; cases w) (auto simp: group_values_def)
qed (simp add: group_values_def)

lemma group_some: "vs \<noteq> [] \<Longrightarrow> \<exists>w. group_values vs = Some w"
  by (auto simp: group_values_def split: list.splits)

lemma set_items_group:
  assumes "\<forall>(k, v) \<in> set items. \<forall>ws. v \<noteq> XList ws" "k \<noteq> CDATA"
  shows "dget (set_items items []) k = group_values (values_at k items)"
  using assms
proof (induction items rule: rev_induct)
  case (snoc x items)
  obtain j v where x: "x = (j, v)" by (cases x)
  have IH: "dget (set_items items []) k = group_values (values_at k items)" using snoc by auto
  show ?case
  proof (cases "j = k")
    case True
    have "\<forall>w \<in> set (values_at k items @ [v]). \<forall>ws. w \<noteq> XList ws" using snoc.prems(1) x by (auto simp: values_at_def)
    from group_snoc [OF this] group_some [of "values_at k items @ [v]"] show ?thesis
      using True IH snoc.prems(2) x
      by (auto simp: set_items_append set_item_def values_at_def split: option.splits xval.splits)
  next
    case False
    then show ?thesis using IH x by (simp add: set_items_append set_item_def values_at_def)
  qed
qed (simp add: values_at_def group_values_def)

lemma tree_value_no_list: "tree_value t \<noteq> XList ws" "XList ws \<noteq> tree_value t"
  by (cases t; auto simp: element_value_def Let_def)+

section \<open>The handlers make the value of the tree\<close>

lemma handle_append: "handle_events (xs @ ys) s = bind_sum (handle_events xs s) (handle_events ys)"
  by (induction xs arbitrary: s) (auto simp: bind_sum_def split: sum.splits)

lemma handle_kids:
  assumes "\<And>k s. k \<in> set kids \<Longrightarrow> handle_events (tree_events k) s = Inr (case k of
      Elem n as ks \<Rightarrow> s\<lparr>xm_current := set_item n (tree_value k) (xm_current s)\<rparr> | Text t \<Rightarrow> characters t s)"
  shows "handle_events (concat (map tree_events kids)) s =
    Inr (s\<lparr>xm_current := set_items (kid_items kids) (xm_current s), xm_cdata := xm_cdata s @ texts kids\<rparr>)"
  using assms
proof (induction kids arbitrary: s)
  case (Cons k kids)
  have k: "handle_events (tree_events k) s = Inr (case k of
      Elem n as ks \<Rightarrow> s\<lparr>xm_current := set_item n (tree_value k) (xm_current s)\<rparr> | Text t \<Rightarrow> characters t s)" for s
    by (rule Cons.prems) simp
  have IH: "handle_events (concat (map tree_events kids)) s =
    Inr (s\<lparr>xm_current := set_items (kid_items kids) (xm_current s), xm_cdata := xm_cdata s @ texts kids\<rparr>)" for s
    by (rule Cons.IH) (simp add: Cons.prems)
  show ?case
    using k IH by (cases k) (simp_all add: handle_append bind_sum_simps kid_items_def texts_def characters_def
        del: tree_events.simps tree_value.simps)
qed (simp add: kid_items_def texts_def)

lemma handle_tree: "handle_events (tree_events t) s = Inr (case t of
    Elem n as ks \<Rightarrow> s\<lparr>xm_current := set_item n (tree_value t) (xm_current s)\<rparr> | Text c \<Rightarrow> characters c s)"
proof (induction t arbitrary: s)
  case (Elem n as kids)
  have "handle_events (concat (map tree_events kids)) s' =
    Inr (s'\<lparr>xm_current := set_items (kid_items kids) (xm_current s'), xm_cdata := xm_cdata s' @ texts kids\<rparr>)" for s'
    by (rule handle_kids) (rule Elem.IH)
  then show ?case
    by (simp add: handle_append bind_sum_simps startElement_def endElement_def Let_def set_items_append kid_items_def)
qed (simp add: bind_sum_simps)

text \<open>
  C29: The events of an element tree, with each text in any number of pieces, are parsed to the dictionary
  of the root's name and value, without an error. The value of an element with attributes or children
  is a dictionary in which every name has all its values (attributes first, then children in document
  order), one alone or as a list, and its text, stripped and put together, under \<^verbatim>\<open>__cdata__\<close> when there is
  any; the value of any other element is its stripped text.
\<close>

theorem xml_parse_tree:
  "Parse (tree_events (Elem n as kids)) = Inr [(n, tree_value (Elem n as kids))] \<and>
   (let items = attr_items as @ kid_items kids; cdata = strip (concat (texts kids)) in
    if items = [] then tree_value (Elem n as kids) = XText cdata
    else (\<exists>d. tree_value (Elem n as kids) = XDict d \<and>
      (\<forall>k. k \<noteq> CDATA \<longrightarrow> dget d k = group_values (values_at k items)) \<and>
      (cdata \<noteq> [] \<longrightarrow> dget d CDATA = Some (XText cdata))))"
proof
  show "Parse (tree_events (Elem n as kids)) = Inr [(n, tree_value (Elem n as kids))]"
    unfolding Parse_def handle_tree by (simp add: bind_sum_simps set_item_def)
  let ?items = "attr_items as @ kid_items kids" and ?cdata = "strip (concat (texts kids))"
  have nl: "\<forall>(k, v) \<in> set ?items. \<forall>ws. v \<noteq> XList ws"
    by (auto simp: attr_items_def kid_items_def tree_value_no_list simp del: tree_value.simps split: xml.splits)
  have tv: "tree_value (Elem n as kids) = element_value (set_items ?items []) (texts kids)"
    by (simp add: kid_items_def)
  have ne: "set_items ?items [] \<noteq> []" if "?items \<noteq> []"
  proof -
    from that obtain xs x where "?items = xs @ [x]" by (cases ?items rule: rev_cases) auto
    then show ?thesis by (cases x) (simp add: set_items_append set_item_def)
  qed
  show "let items = ?items; cdata = ?cdata in
    if items = [] then tree_value (Elem n as kids) = XText cdata
    else (\<exists>d. tree_value (Elem n as kids) = XDict d \<and>
      (\<forall>k. k \<noteq> CDATA \<longrightarrow> dget d k = group_values (values_at k items)) \<and>
      (cdata \<noteq> [] \<longrightarrow> dget d CDATA = Some (XText cdata)))"
    unfolding tv using set_items_group [OF nl] ne
    by (auto simp: Let_def element_value_def set_item_def)
qed

definition demo_xml :: "xml list" where
  "demo_xml = [Text ''  h'', Elem ''b'' [] [], Text ''i '', Elem ''b'' [] [Text ''2'']]"

theorem xml_parse_tree_witness:
  "\<exists>d. Parse (tree_events (Elem ''a'' [(''x'', ''1'')] demo_xml)) = Inr [(''a'', XDict d)] \<and>
     dget d ''b'' = Some (XList [XText [], XText ''2'']) \<and> dget d CDATA = Some (XText ''hi'')"
proof -
  have k: "kid_items demo_xml = [(''b'', XText []), (''b'', XText ''2'')]" "strip (concat (texts demo_xml)) = ''hi''"
    by code_simp+
  from xml_parse_tree [of "''a''" "[(''x'', ''1'')]" demo_xml] show ?thesis
    by (auto simp: k attr_items_def values_at_def group_values_def CDATA_def simp del: tree_value.simps)
qed

end
