(* ===== verification/Mysqlconfig.thy ===== *)
theory Mysqlconfig
  imports Pystr "HOL-Library.List_Lexorder" "HOL-Library.Char_ord"
begin

text \<open>
  The include filter of \<^verbatim>\<open>sonicprobe/libs/mysql_config_parser.py\<close> (\<^verbatim>\<open>MySQLConfigParserFilter\<close>): the lines of
  a configuration with its \<^verbatim>\<open>!include\<close> and \<^verbatim>\<open>!includedir\<close> directives replaced by the lines of the files they
  name. The file system is a parameter. The generator's result is the lines it yields before it ends or
  raises, and the error.
\<close>

section \<open>Directives\<close>

definition lstrip :: "string \<Rightarrow> string" where "lstrip s = dropWhile is_space s"

text \<open>\<^verbatim>\<open>^[^\.]+\.cnf\Z\<close>\<close>

definition valid_filename :: "string \<Rightarrow> bool" where
  "valid_filename s = (4 < length s \<and> drop (length s - 4) s = ''.cnf'' \<and> CHR ''.'' \<notin> set (take (length s - 4) s))"

datatype directive = Plain | Include string | IncludeDir string | Invalid

text \<open>After a \<^verbatim>\<open>!\<close>: white space, the word, white space, the path, which must not be blank.\<close>

definition directive_argument :: "string \<Rightarrow> string \<Rightarrow> string option" where
  "directive_argument word s = (if starts_with word s then
     (case drop (length word) s of c # r \<Rightarrow> if is_space c \<and> strip r \<noteq> [] then Some (strip r) else None | [] \<Rightarrow> None)
     else None)"

definition directive_of :: "string \<Rightarrow> directive" where
  "directive_of line = (let sline = lstrip line in
     if \<not> starts_with ''!'' sline then Plain
     else (let r = lstrip (drop 1 sline) in
       case directive_argument ''include'' r of
         Some p \<Rightarrow> Include p
       | None \<Rightarrow> (case directive_argument ''includedir'' r of Some p \<Rightarrow> IncludeDir p | None \<Rightarrow> Invalid)))"

section \<open>The filter\<close>

text \<open>\<open>fs_lines p\<close>: the lines of a readable regular file; \<open>fs_list p\<close>: the names in a directory, or an error.\<close>

record filesystem =
  fs_lines :: "string \<Rightarrow> string list option"
  fs_list :: "string \<Rightarrow> string list option"
  fs_real :: "string \<Rightarrow> string"

datatype include_error = InvalidDirective | WrongFilename | Recursive string | TooDeep | ListError

definition MAX_INCLUDE_DEPTH :: nat where "MAX_INCLUDE_DEPTH = 64"

text \<open>The paths a directive names.\<close>

definition directive_paths :: "filesystem \<Rightarrow> directive \<Rightarrow> include_error + string list" where
  "directive_paths fs d = (case d of
       Plain \<Rightarrow> Inr []
     | Invalid \<Rightarrow> Inl InvalidDirective
     | Include p \<Rightarrow> if valid_filename (path_basename p) then Inr [p] else Inl WrongFilename
     | IncludeDir p \<Rightarrow> (case fs_list fs p of None \<Rightarrow> Inl ListError
         | Some names \<Rightarrow> Inr (map (path_join p) (filter valid_filename (sort names)))))"

type_synonym lines_result = "string list \<times> include_error option"

definition then_lines :: "lines_result \<Rightarrow> lines_result \<Rightarrow> lines_result" where
  "then_lines a b = (case a of (out, Some e) \<Rightarrow> (out, Some e) | (out, None) \<Rightarrow> (out @ fst b, snd b))"

text \<open>\<open>active\<close>: the real paths of the files being read, outermost first.\<close>

function iter_lines :: "filesystem \<Rightarrow> string list \<Rightarrow> string list \<Rightarrow> lines_result"
  and iter_files :: "filesystem \<Rightarrow> string list \<Rightarrow> string list \<Rightarrow> lines_result" where
  "iter_lines fs active [] = ([], None)"
| "iter_lines fs active (l # ls) =
     (if directive_of l = Plain then then_lines ([l], None) (iter_lines fs active ls)
      else (case directive_paths fs (directive_of l) of
          Inl e \<Rightarrow> ([], Some e)
        | Inr ps \<Rightarrow> then_lines (iter_files fs active ps) (iter_lines fs active ls)))"
| "iter_files fs active [] = ([], None)"
| "iter_files fs active (p # ps) =
     (case fs_lines fs p of
        None \<Rightarrow> iter_files fs active ps
      | Some ls \<Rightarrow>
          if fs_real fs p \<in> set active then ([], Some (Recursive (fs_real fs p)))
          else if MAX_INCLUDE_DEPTH \<le> length active then ([], Some TooDeep)
          else then_lines (iter_lines fs (active @ [fs_real fs p]) ls) (iter_files fs active ps))"
  by pat_completeness auto
termination
  by (relation "measures [\<lambda>x. case x of Inl (fs, a, ls) \<Rightarrow> MAX_INCLUDE_DEPTH - length a | Inr (fs, a, ps) \<Rightarrow> MAX_INCLUDE_DEPTH - length a,
      \<lambda>x. case x of Inl _ \<Rightarrow> 1 | Inr _ \<Rightarrow> 0,
      \<lambda>x. case x of Inl (fs, a, ls) \<Rightarrow> length ls | Inr (fs, a, ps) \<Rightarrow> length ps]") auto

text \<open>\<^verbatim>\<open>MySQLConfigParserFilter(fp)\<close> on a stream of lines, with a name when it is a file.\<close>

definition filter_lines :: "filesystem \<Rightarrow> string option \<Rightarrow> string list \<Rightarrow> lines_result" where
  "filter_lines fs name ls = iter_lines fs (case name of None \<Rightarrow> [] | Some n \<Rightarrow> [fs_real fs n]) ls"

text \<open>\<^verbatim>\<open>read\<close>: the files with a valid name that can be opened, and what each gives to the parser.\<close>

definition read_files :: "filesystem \<Rightarrow> string list \<Rightarrow> (string \<times> lines_result) list" where
  "read_files fs names = List.map_filter (\<lambda>n. if valid_filename (path_basename n)
     then map_option (\<lambda>ls. (n, filter_lines fs (Some n) ls)) (fs_lines fs n) else None) names"

section \<open>Chains of includes\<close>

text \<open>\<open>leads fs ls ps ls'\<close>: the lines \<open>ls\<close> include the first file of \<open>ps\<close>, it the next, and the last has the lines \<open>ls'\<close>.\<close>

definition names_file :: "filesystem \<Rightarrow> string list \<Rightarrow> string \<Rightarrow> bool" where
  "names_file fs ls p \<longleftrightarrow> (\<exists>l \<in> set ls. \<exists>ps. directive_paths fs (directive_of l) = Inr ps \<and> p \<in> set ps)"

inductive leads :: "filesystem \<Rightarrow> string list \<Rightarrow> string list \<Rightarrow> string list \<Rightarrow> bool" for fs :: filesystem where
  leads_here: "leads fs ls [] ls"
| leads_on: "names_file fs ls p \<Longrightarrow> fs_lines fs p = Some ls1 \<Longrightarrow> leads fs ls1 ps ls' \<Longrightarrow> leads fs ls (p # ps) ls'"

inductive_cases leads_ConsE: "leads fs ls (p # ps) ls'"

definition well_formed :: "filesystem \<Rightarrow> string list \<Rightarrow> bool" where
  "well_formed fs ls \<longleftrightarrow> (\<forall>l \<in> set ls. \<not> isl (directive_paths fs (directive_of l)))"

text \<open>What keeps the filter from an error, for lines read inside the files \<open>a\<close>, and file by file.\<close>

definition chains_ok :: "filesystem \<Rightarrow> string list \<Rightarrow> string list \<Rightarrow> bool" where
  "chains_ok fs a ls \<longleftrightarrow> (\<forall>ps ls'. leads fs ls ps ls' \<longrightarrow>
     well_formed fs ls' \<and> distinct (a @ map (fs_real fs) ps) \<and> length a + length ps \<le> MAX_INCLUDE_DEPTH)"

definition files_ok :: "filesystem \<Rightarrow> string list \<Rightarrow> string list \<Rightarrow> bool" where
  "files_ok fs a qs \<longleftrightarrow> (\<forall>q \<in> set qs. \<forall>ls. fs_lines fs q = Some ls \<longrightarrow>
     fs_real fs q \<notin> set a \<and> length a < MAX_INCLUDE_DEPTH \<and> chains_ok fs (a @ [fs_real fs q]) ls)"

lemma chains_ok_unfold:
  assumes "distinct a" "length a \<le> MAX_INCLUDE_DEPTH"
  shows "chains_ok fs a ls \<longleftrightarrow> well_formed fs ls \<and> (\<forall>p. names_file fs ls p \<longrightarrow> files_ok fs a [p])"
proof
  assume ok: "chains_ok fs a ls"
  have "files_ok fs a [p]" if n: "names_file fs ls p" for p
    unfolding files_ok_def
  proof (intro ballI allI impI conjI)
    fix q ls1 assume "q \<in> set [p]" "fs_lines fs q = Some ls1"
    then have on: "leads fs ls1 ps ls' \<Longrightarrow> leads fs ls (p # ps) ls'" and q: "q = p" for ps ls'
      using leads_on [OF n] by auto
    have here: "leads fs ls [p] ls1" by (rule on [OF leads_here])
    from ok here show "fs_real fs q \<notin> set a" "length a < MAX_INCLUDE_DEPTH" by (force simp: chains_ok_def q)+
    show "chains_ok fs (a @ [fs_real fs q]) ls1"
      unfolding chains_ok_def
    proof (intro allI impI)
      fix ps ls' assume "leads fs ls1 ps ls'"
      from on [OF this] ok have "well_formed fs ls' \<and> distinct (a @ map (fs_real fs) (p # ps)) \<and>
          length a + length (p # ps) \<le> MAX_INCLUDE_DEPTH" unfolding chains_ok_def by blast
      then show "well_formed fs ls' \<and> distinct ((a @ [fs_real fs q]) @ map (fs_real fs) ps) \<and>
          length (a @ [fs_real fs q]) + length ps \<le> MAX_INCLUDE_DEPTH" by (simp add: q)
    qed
  qed
  moreover have "well_formed fs ls" using ok leads_here by (auto simp: chains_ok_def)
  ultimately show "well_formed fs ls \<and> (\<forall>p. names_file fs ls p \<longrightarrow> files_ok fs a [p])" by blast
next
  assume r: "well_formed fs ls \<and> (\<forall>p. names_file fs ls p \<longrightarrow> files_ok fs a [p])"
  show "chains_ok fs a ls"
    unfolding chains_ok_def
  proof (intro allI impI)
    fix ps ls' assume "leads fs ls ps ls'"
    then show "well_formed fs ls' \<and> distinct (a @ map (fs_real fs) ps) \<and> length a + length ps \<le> MAX_INCLUDE_DEPTH"
    proof cases
      case leads_here
      then show ?thesis using r assms by simp
    next
      case (leads_on p ls1 ps1)
      then have "files_ok fs a [p]" using r by blast
      with leads_on show ?thesis unfolding files_ok_def chains_ok_def by fastforce
    qed
  qed
qed

lemma files_ok_Cons: "files_ok fs a (q # qs) \<longleftrightarrow> files_ok fs a [q] \<and> files_ok fs a qs"
  by (auto simp: files_ok_def)

lemma files_ok_all: "files_ok fs a qs \<longleftrightarrow> (\<forall>q \<in> set qs. files_ok fs a [q])"
  by (simp add: files_ok_def)

lemma well_formed_Cons: "well_formed fs (l # ls) \<longleftrightarrow> \<not> isl (directive_paths fs (directive_of l)) \<and> well_formed fs ls"
  by (simp add: well_formed_def)

lemma names_file_Cons:
  "names_file fs (l # ls) p \<longleftrightarrow> (\<exists>ps. directive_paths fs (directive_of l) = Inr ps \<and> p \<in> set ps) \<or> names_file fs ls p"
  by (auto simp: names_file_def)

lemma then_lines_none: "snd (then_lines a b) = None \<longleftrightarrow> snd a = None \<and> snd b = None"
  by (auto simp: then_lines_def split: prod.splits option.splits)

lemma iter_ok:
  "distinct a \<Longrightarrow> length a \<le> MAX_INCLUDE_DEPTH \<Longrightarrow> snd (iter_lines fs a ls) = None \<longleftrightarrow> chains_ok fs a ls"
  "distinct a \<Longrightarrow> length a \<le> MAX_INCLUDE_DEPTH \<Longrightarrow> snd (iter_files fs a qs) = None \<longleftrightarrow> files_ok fs a qs"
proof (induction fs a ls and fs a qs rule: iter_lines_iter_files.induct)
  case (1 fs a)
  then show ?case by (simp add: chains_ok_unfold well_formed_def names_file_def)
next
  case (2 fs a l ls)
  have plain: "directive_paths fs Plain = Inr []" by (simp add: directive_paths_def)
  show ?case
  proof (cases "directive_paths fs (directive_of l)")
    case (Inl e)
    then have "directive_of l \<noteq> Plain" using plain by auto
    with Inl "2.prems" show ?thesis by (simp add: chains_ok_unfold well_formed_Cons)
  next
    case (Inr ps)
    show ?thesis
    proof (cases "directive_of l = Plain")
      case True
      then show ?thesis using "2.IH"(1) "2.prems" plain
        by (auto simp: chains_ok_unfold well_formed_Cons names_file_Cons then_lines_none)
    next
      case False
      have f: "snd (iter_files fs a ps) = None \<longleftrightarrow> files_ok fs a ps"
        by (rule "2.IH"(2) [OF False Inr "2.prems"])
      have g: "snd (iter_lines fs a ls) = None \<longleftrightarrow> chains_ok fs a ls"
        by (rule "2.IH"(3) [OF False Inr "2.prems"])
      have "chains_ok fs a (l # ls) \<longleftrightarrow> files_ok fs a ps \<and> chains_ok fs a ls"
        unfolding chains_ok_unfold [OF "2.prems"] files_ok_all [of fs a ps]
        using Inr by (auto simp: well_formed_Cons names_file_Cons)
      then show ?thesis using False Inr f g by (simp add: then_lines_none)
    qed
  qed
next
  case (3 fs a)
  then show ?case by (simp add: files_ok_def)
next
  case (4 fs a p ps)
  show ?case
  proof (cases "fs_lines fs p")
    case None
    with 4 show ?thesis by (simp add: files_ok_Cons [of fs a p ps]) (simp add: files_ok_def)
  next
    case (Some ls)
    show ?thesis
    proof (cases "fs_real fs p \<in> set a \<or> MAX_INCLUDE_DEPTH \<le> length a")
      case True
      then show ?thesis using Some by (auto simp: files_ok_def)
    next
      case False
      then have "distinct (a @ [fs_real fs p])" "length (a @ [fs_real fs p]) \<le> MAX_INCLUDE_DEPTH" using "4.prems" by auto
      with 4 Some False show ?thesis
        by (simp add: files_ok_Cons [of fs a p ps] then_lines_none) (auto simp: files_ok_def)
    qed
  qed
qed

text \<open>The ordinary lines of the files some chain leads to.\<close>

definition reached :: "filesystem \<Rightarrow> string list \<Rightarrow> string set" where
  "reached fs ls = {l. directive_of l = Plain \<and> (\<exists>ps ls'. leads fs ls ps ls' \<and> l \<in> set ls')}"

definition reached_files :: "filesystem \<Rightarrow> string list \<Rightarrow> string set" where
  "reached_files fs qs = {l. \<exists>q \<in> set qs. \<exists>ls. fs_lines fs q = Some ls \<and> l \<in> reached fs ls}"

lemma reached_unfold:
  "l \<in> reached fs ls \<longleftrightarrow> directive_of l = Plain \<and> l \<in> set ls \<or> (\<exists>p. names_file fs ls p \<and> l \<in> reached_files fs [p])"
  (is "?L \<longleftrightarrow> ?R")
proof
  assume ?L
  then obtain ps ls' where l: "directive_of l = Plain" "leads fs ls ps ls'" "l \<in> set ls'" by (auto simp: reached_def)
  from l(2) show ?R
  proof cases
    case leads_here
    with l show ?thesis by simp
  next
    case (leads_on p ls1 ps1)
    with l show ?thesis unfolding reached_files_def reached_def by auto
  qed
next
  assume ?R
  then show ?L
    by (auto simp: reached_def reached_files_def intro: leads_here leads_on)
qed

lemma reached_files_Cons: "reached_files fs (q # qs) = reached_files fs [q] \<union> reached_files fs qs"
  by (auto simp: reached_files_def)

lemma reached_plain: "l \<in> reached fs ls \<Longrightarrow> directive_of l = Plain" "l \<in> reached_files fs qs \<Longrightarrow> directive_of l = Plain"
  by (auto simp: reached_def reached_files_def)

lemma reached_files_iff: "(\<exists>p. p \<in> set ps \<and> l \<in> reached_files fs [p]) \<longleftrightarrow> l \<in> reached_files fs ps"
  by (auto simp: reached_files_def)

lemma reached_Cons:
  assumes "directive_paths fs (directive_of l) = Inr ps"
  shows "reached fs (l # ls) = (if directive_of l = Plain then {l} else reached_files fs ps) \<union> reached fs ls"
proof (rule set_eqI)
  fix x
  have "x \<in> reached fs (l # ls) \<longleftrightarrow> directive_of x = Plain \<and> (x = l \<or> x \<in> set ls) \<or>
      (\<exists>p. p \<in> set ps \<and> x \<in> reached_files fs [p]) \<or> (\<exists>p. names_file fs ls p \<and> x \<in> reached_files fs [p])"
    using assms by (simp only: reached_unfold [of x fs "l # ls"] names_file_Cons) auto
  also have "\<dots> \<longleftrightarrow> directive_of x = Plain \<and> x = l \<or> x \<in> reached_files fs ps \<or> x \<in> reached fs ls"
    by (simp only: reached_files_iff reached_unfold [of x fs ls]) blast
  finally have u: "x \<in> reached fs (l # ls) \<longleftrightarrow>
      directive_of x = Plain \<and> x = l \<or> x \<in> reached_files fs ps \<or> x \<in> reached fs ls" .
  have "directive_of l = Plain \<Longrightarrow> reached_files fs ps = {}"
    using assms by (simp add: directive_paths_def reached_files_def)
  with u show "x \<in> reached fs (l # ls) \<longleftrightarrow>
      x \<in> (if directive_of l = Plain then {l} else reached_files fs ps) \<union> reached fs ls" by auto
qed

lemma reached_error:
  assumes "isl (directive_paths fs (directive_of l))"
  shows "reached fs ls \<subseteq> reached fs (l # ls)"
  using assms by (auto simp: reached_unfold [of _ fs "l # ls"] reached_unfold [of _ fs ls] names_file_Cons)

lemma then_lines_set:
  "set (fst (then_lines x y)) = set (fst x) \<union> (if snd x = None then set (fst y) else {})"
  by (auto simp: then_lines_def split: prod.splits option.splits)

lemma iter_set:
  "set (fst (iter_lines fs a ls)) \<subseteq> reached fs ls \<and>
     (snd (iter_lines fs a ls) = None \<longrightarrow> set (fst (iter_lines fs a ls)) = reached fs ls)"
  "set (fst (iter_files fs a qs)) \<subseteq> reached_files fs qs \<and>
     (snd (iter_files fs a qs) = None \<longrightarrow> set (fst (iter_files fs a qs)) = reached_files fs qs)"
proof (induction fs a ls and fs a qs rule: iter_lines_iter_files.induct)
  case (1 fs a)
  then show ?case by (simp add: reached_unfold [abs_def] names_file_def set_eq_iff)
next
  case (2 fs a l ls)
  show ?case
  proof (cases "directive_paths fs (directive_of l)")
    case (Inl e)
    then have "directive_of l \<noteq> Plain" by (auto simp: directive_paths_def)
    with Inl show ?thesis by simp
  next
    case (Inr ps)
    show ?thesis
    proof (cases "directive_of l = Plain")
      case True
      then show ?thesis using "2.IH"(1) by (auto simp: reached_Cons [OF Inr] then_lines_set then_lines_none)
    next
      case False
      note f = "2.IH"(2) [OF False Inr] and g = "2.IH"(3) [OF False Inr]
      show ?thesis using False Inr f g by (auto simp: reached_Cons [OF Inr] then_lines_set then_lines_none)
    qed
  qed
next
  case (3 fs a)
  then show ?case by (simp add: reached_files_def)
next
  case (4 fs a p ps)
  show ?case
  proof (cases "fs_lines fs p")
    case None
    have "reached_files fs [p] = {}" using None by (simp add: reached_files_def)
    with 4(1) [OF None] None show ?thesis by (simp add: reached_files_Cons [of fs p ps])
  next
    case (Some ls)
    have p: "reached_files fs [p] = reached fs ls" using Some by (simp add: reached_files_def)
    show ?thesis
    proof (cases "fs_real fs p \<in> set a \<or> MAX_INCLUDE_DEPTH \<le> length a")
      case True
      then show ?thesis using Some by auto
    next
      case False
      then have "fs_real fs p \<notin> set a" "\<not> MAX_INCLUDE_DEPTH \<le> length a" by auto
      note f = 4(2) [OF Some this] and g = 4(3) [OF Some this]
      show ?thesis using False Some f g by (auto simp: reached_files_Cons [of fs p ps] p then_lines_set then_lines_none)
    qed
  qed
qed

section \<open>The property\<close>

text \<open>
  C30: Includes of a MySQL configuration, for any file system. The filter always ends, and without an error
  exactly when, along every chain of includes, the directives are well formed and name files the rules
  allow, no file includes itself (by real path, the outermost file counted) and the chain stays within
  64 files. What it yields are only ordinary lines of the files reached, never a directive; without an
  error, all of them.
\<close>

theorem mysql_includes:
  "(snd (filter_lines fs name ls) = None \<longleftrightarrow>
      chains_ok fs (case name of None \<Rightarrow> [] | Some n \<Rightarrow> [fs_real fs n]) ls) \<and>
   set (fst (filter_lines fs name ls)) \<subseteq> reached fs ls \<and>
   (snd (filter_lines fs name ls) = None \<longrightarrow> set (fst (filter_lines fs name ls)) = reached fs ls)"
proof -
  let ?a = "case name of None \<Rightarrow> [] | Some n \<Rightarrow> [fs_real fs n]"
  have "distinct ?a" "length ?a \<le> MAX_INCLUDE_DEPTH" by (simp_all add: MAX_INCLUDE_DEPTH_def split: option.split)
  then show ?thesis using iter_ok(1) [of ?a fs ls] iter_set(1) [of fs ?a ls] by (simp add: filter_lines_def)
qed

definition demo_fs :: filesystem where
  "demo_fs = \<lparr>fs_lines = map_of [(''a.cnf'', [''x=1'', ''! include d/b.cnf'']), (''d/b.cnf'', [''y=2'']),
       (''loop.cnf'', [''z'', ''!include loop.cnf''])],
     fs_list = map_of [(''d'', [''b.cnf'', ''c.txt''])], fs_real = id\<rparr>"

lemma demo_fs_runs:
  "filter_lines demo_fs None [''!include a.cnf'', ''end''] = ([''x=1'', ''y=2'', ''end''], None)"
  "filter_lines demo_fs None [''!includedir d'', ''!include loop.cnf''] = ([''y=2'', ''z''], Some (Recursive ''loop.cnf''))"
  by code_simp+

theorem mysql_includes_witness:
  "chains_ok demo_fs [] [''!include a.cnf'', ''end''] \<and>
   reached demo_fs [''!include a.cnf'', ''end''] = {''x=1'', ''y=2'', ''end''} \<and>
   \<not> chains_ok demo_fs [] [''!includedir d'', ''!include loop.cnf'']"
  using mysql_includes [of demo_fs None "[''!include a.cnf'', ''end'']"]
    mysql_includes [of demo_fs None "[''!includedir d'', ''!include loop.cnf'']"]
  by (simp add: demo_fs_runs)

end
