(* ===== verification/Portio.thy ===== *)
theory Portio
  imports Urisup_Properties Helpers_Files "HOL-Library.Sublist"
begin

text \<open>
  Sessions over a byte stream: \<^verbatim>\<open>sonicprobe/libs/sp_serial.py\<close> (\<^verbatim>\<open>SPSerial\<close>, a serial line or a TCP
  connection) and \<^verbatim>\<open>sonicprobe/libs/openvpn.py\<close> (\<^verbatim>\<open>OpenVPNMgmt\<close>). Sockets and serial ports are a
  parameter, a record of functions over a state of their own. The reading loops end only when the
  stream does what they wait for, so they are partial functions: \<open>None\<close> is a loop that never returns.
\<close>

section \<open>Devices\<close>

record 's device =
  dv_read :: "int option \<Rightarrow> nat \<Rightarrow> 's \<Rightarrow> (pyerror + string) \<times> 's"
  dv_readline :: "int option \<Rightarrow> 's \<Rightarrow> (pyerror + string) \<times> 's"
  dv_write :: "string \<Rightarrow> 's \<Rightarrow> (pyerror + nat) \<times> 's"
  dv_flush :: "'s \<Rightarrow> (pyerror + unit) \<times> 's"
  dv_break :: "int \<Rightarrow> 's \<Rightarrow> (pyerror + nat) \<times> 's"
  dv_open :: "int option \<Rightarrow> 's \<Rightarrow> (pyerror + unit) \<times> 's"
  dv_connect :: "int option \<Rightarrow> string \<Rightarrow> int \<Rightarrow> 's \<Rightarrow> (pyerror + unit) \<times> 's"
  dv_makefile :: "'s \<Rightarrow> (pyerror + unit) \<times> 's"
  dv_close_file :: "'s \<Rightarrow> (pyerror + unit) \<times> 's"
  dv_close :: "'s \<Rightarrow> (pyerror + unit) \<times> 's"

text \<open>\<^verbatim>\<open>socket.timeout\<close> is an \<^verbatim>\<open>OSError\<close>; a negative timeout is refused.\<close>

definition TIMED_OUT :: pyerror where "TIMED_OUT = IOError ''timed out''"

definition NEGATIVE_TIMEOUT :: pyerror where "NEGATIVE_TIMEOUT = ValueError ''Timeout value out of range''"

section \<open>The reading loops\<close>

text \<open>\<^verbatim>\<open>s[-n:]\<close> and \<^verbatim>\<open>s[:-n]\<close> for a positive \<open>n\<close>.\<close>

definition last_bytes :: "nat \<Rightarrow> string \<Rightarrow> string" where "last_bytes n s = drop (length s - n) s"

definition cut_last :: "nat \<Rightarrow> string \<Rightarrow> string" where "cut_last n s = take (length s - n) s"

text \<open>The body of \<^verbatim>\<open>readuntil\<close> in both classes, over one call of \<^verbatim>\<open>read(1)\<close> or \<^verbatim>\<open>recv(1)\<close>.\<close>

partial_function (option) marker_loop ::
  "('p \<Rightarrow> (pyerror + string) \<times> 'p) \<Rightarrow> string option \<Rightarrow> string list \<Rightarrow> string \<Rightarrow> 'p \<Rightarrow> ((pyerror + string) \<times> 'p) option" where
  "marker_loop rd marker parts tail p = (case rd p of
       (Inl e, p1) \<Rightarrow> Some (Inl e, p1)
     | (Inr char, p1) \<Rightarrow>
         if char = [] then Some (if marker \<noteq> None then Inl EOFError else Inr (concat parts), p1)
         else (case marker of
             None \<Rightarrow> marker_loop rd marker (parts @ [char]) tail p1
           | Some m \<Rightarrow>
               if last_bytes (length m) (tail @ char) = m
               then Some (Inr (cut_last (length m) (concat (parts @ [char]))), p1)
               else marker_loop rd marker (parts @ [char]) (last_bytes (length m) (tail @ char)) p1))"

text \<open>The body of \<^verbatim>\<open>readlinesuntil\<close>, over one call that gives the next line, stripped.\<close>

partial_function (option) lines_loop ::
  "('p \<Rightarrow> ((pyerror + string) \<times> 'p) option) \<Rightarrow> string \<Rightarrow> string list \<Rightarrow> 'p \<Rightarrow> ((pyerror + string) \<times> 'p) option" where
  "lines_loop next_line marker parts p = Option.bind (next_line p) (\<lambda>(r, p1). case r of
       Inl e \<Rightarrow> Some (Inl e, p1)
     | Inr line \<Rightarrow> if find_sub marker line \<noteq> None then Some (Inr (concat parts), p1)
         else lines_loop next_line marker (parts @ [line]) p1)"

text \<open>\<^verbatim>\<open>SPSerial.readline\<close> on a socket: up to a line feed, the end of the stream or a timeout.\<close>

partial_function (option) recv_line ::
  "('p \<Rightarrow> (pyerror + string) \<times> 'p) \<Rightarrow> string list \<Rightarrow> 'p \<Rightarrow> ((pyerror + string) \<times> 'p) option" where
  "recv_line rd parts p = (case rd p of
       (Inl e, p1) \<Rightarrow> Some (if e = TIMED_OUT then Inr (concat parts) else Inl e, p1)
     | (Inr char, p1) \<Rightarrow>
         if char = [] then Some (Inr (concat parts), p1)
         else if char = [CHR 0x0A] then Some (Inr (concat (parts @ [char])), p1)
         else recv_line rd (parts @ [char]) p1)"

text \<open>\<^verbatim>\<open>OpenVPNMgmt.readline\<close>: up to a line feed, without it and the carriage returns before it.\<close>

definition ensure_text :: "string \<Rightarrow> pyerror + string" where
  "ensure_text s = (if utf8_ok s then Inr s else Inl UnicodeError)"

definition rstrip_cr :: "string \<Rightarrow> string" where
  "rstrip_cr s = rev (dropWhile (\<lambda>c. c = CHR 0x0D) (rev s))"

partial_function (option) text_line ::
  "('p \<Rightarrow> (pyerror + string) \<times> 'p) \<Rightarrow> string list \<Rightarrow> 'p \<Rightarrow> ((pyerror + string) \<times> 'p) option" where
  "text_line rd parts p = (case rd p of
       (Inl e, p1) \<Rightarrow> Some (Inl e, p1)
     | (Inr char, p1) \<Rightarrow>
         if char = [] then Some (Inl EOFError, p1)
         else if char = [CHR 0x0A] then Some (ensure_text (rstrip_cr (concat parts)), p1)
         else text_line rd (parts @ [char]) p1)"

section \<open>Serial lines and TCP connections\<close>

datatype port_mode = Serial | TCP

record 's sp =
  sp_mode :: port_mode
  sp_dev :: 's
  sp_dev_timeout :: "int option"
  sp_saved :: "int option"
  sp_eol :: string
  sp_open :: bool
  sp_progressbar :: "(int \<times> int) option"
  sp_progresslen :: int

definition sp_with :: "('s \<Rightarrow> (pyerror + 'a) \<times> 's) \<Rightarrow> 's sp \<Rightarrow> (pyerror + 'a) \<times> 's sp" where
  "sp_with f p = (case f (sp_dev p) of (r, d) \<Rightarrow> (r, p\<lparr>sp_dev := d\<rparr>))"

text \<open>\<^verbatim>\<open>int(tcpport)\<close>, \<^verbatim>\<open>settimeout\<close>, \<^verbatim>\<open>connect\<close>, \<^verbatim>\<open>makefile\<close>; any error closes the socket.\<close>

definition sp_tcp :: "'s device \<Rightarrow> string \<Rightarrow> int \<Rightarrow> 's sp \<Rightarrow> (pyerror + unit) \<times> 's sp" where
  "sp_tcp dv host tcpport p =
     and_then (sp_with (dv_open dv None) p) (\<lambda>_ p. let p = p\<lparr>sp_open := True\<rparr> in
       case and_then (case sp_dev_timeout p of Some t \<Rightarrow> (if t < 0 then Inl NEGATIVE_TIMEOUT else Inr (), p) | None \<Rightarrow> (Inr (), p))
           (\<lambda>_ p. and_then (sp_with (dv_connect dv (sp_dev_timeout p) host tcpport) p) (\<lambda>_. sp_with (dv_makefile dv))) of
         (Inr u, p) \<Rightarrow> (Inr u, p)
       | (Inl e, p) \<Rightarrow> and_finally (Inl e, p) (\<lambda>p. and_then (sp_with (dv_close dv) p) (\<lambda>_ p. (Inr (), p\<lparr>sp_open := False\<rparr>))))"

definition sp_init :: "'s device \<Rightarrow> string option \<Rightarrow> int option \<Rightarrow> string \<Rightarrow> 's \<Rightarrow> (pyerror + unit) \<times> 's sp" where
  "sp_init dv port timeout eol d =
     (let p = \<lparr>sp_mode = Serial, sp_dev = d, sp_dev_timeout = timeout, sp_saved = None, sp_eol = eol, sp_open = False,
        sp_progressbar = None, sp_progresslen = 0\<rparr> in
      case port of
        None \<Rightarrow> and_then (sp_with (dv_open dv timeout) p) (\<lambda>_ p. (Inr (), p\<lparr>sp_open := True\<rparr>))
      | Some s \<Rightarrow>
          if CHR '':'' \<notin> set s then and_then (sp_with (dv_open dv timeout) p) (\<lambda>_ p. (Inr (), p\<lparr>sp_open := True\<rparr>))
          else (case split_on CHR '':'' s of
              [host, port] \<Rightarrow> (case py_int port of
                  None \<Rightarrow> (Inl (ValueError ''invalid literal for int()''), p)
                | Some n \<Rightarrow> sp_tcp dv host n (p\<lparr>sp_mode := TCP,
                    sp_dev_timeout := Some (case timeout of None \<Rightarrow> 1 | Some t \<Rightarrow> t)\<rparr>))
            | _ \<Rightarrow> (Inl (ValueError ''too many values to unpack''), p)))"

definition sp_read :: "'s device \<Rightarrow> nat \<Rightarrow> 's sp \<Rightarrow> (pyerror + string) \<times> 's sp" where
  "sp_read dv n p = sp_with (dv_read dv (sp_dev_timeout p) n) p"

definition sp_readline :: "'s device \<Rightarrow> 's sp \<Rightarrow> ((pyerror + string) \<times> 's sp) option" where
  "sp_readline dv p = (case sp_mode p of
     Serial \<Rightarrow> Some (sp_with (dv_readline dv (sp_dev_timeout p)) p)
   | TCP \<Rightarrow> recv_line (sp_read dv 1) [] p)"

definition sp_close :: "'s device \<Rightarrow> 's sp \<Rightarrow> (pyerror + unit) \<times> 's sp" where
  "sp_close dv p = (let close = (\<lambda>p. and_then (sp_with (dv_close dv) p) (\<lambda>_ p. (Inr (), p\<lparr>sp_open := False\<rparr>))) in
     case sp_mode p of
       Serial \<Rightarrow> close p
     | TCP \<Rightarrow> and_finally (sp_with (dv_close_file dv) p) close)"

definition sp_write :: "'s device \<Rightarrow> string \<Rightarrow> 's sp \<Rightarrow> (pyerror + nat) \<times> 's sp" where
  "sp_write dv data p = and_then (sp_with (dv_write dv data) p) (\<lambda>n p. case sp_mode p of
     TCP \<Rightarrow> (Inr (length data), p)
   | Serial \<Rightarrow> and_then (sp_with (dv_flush dv) p) (\<lambda>_ p. (Inr n, p)))"

definition sp_writeline :: "'s device \<Rightarrow> string \<Rightarrow> 's sp \<Rightarrow> (pyerror + nat) \<times> 's sp" where
  "sp_writeline dv data p = sp_write dv (data @ sp_eol p) p"

definition sendBreak :: "'s device \<Rightarrow> int \<Rightarrow> 's sp \<Rightarrow> (pyerror + nat) \<times> 's sp" where
  "sendBreak dv duration p = (case sp_mode p of
     Serial \<Rightarrow> sp_with (dv_break dv duration) p
   | TCP \<Rightarrow> sp_write dv [CHR 0xFF, CHR 0xF3] p)"

definition setTmpTimeout :: "int option \<Rightarrow> 's sp \<Rightarrow> (pyerror + unit) \<times> 's sp" where
  "setTmpTimeout timeout p = (let p = p\<lparr>sp_saved := sp_dev_timeout p\<rparr> in case timeout of
     None \<Rightarrow> (Inr (), p)
   | Some t \<Rightarrow> if t < 0 then (Inl NEGATIVE_TIMEOUT, p) else (Inr (), p\<lparr>sp_dev_timeout := Some t\<rparr>))"

definition restoreTimeout :: "'s sp \<Rightarrow> (pyerror + unit) \<times> 's sp" where
  "restoreTimeout p = (Inr (), p\<lparr>sp_dev_timeout := sp_saved p\<rparr>)"

definition bstrip :: "string \<Rightarrow> string" where
  "bstrip s = rev (dropWhile is_bspace (rev (dropWhile is_bspace s)))"

text \<open>The line for \<^verbatim>\<open>readlinesuntil\<close>: an empty answer is the end of the stream.\<close>

definition sp_next_line :: "'s device \<Rightarrow> 's sp \<Rightarrow> ((pyerror + string) \<times> 's sp) option" where
  "sp_next_line dv p = map_option (\<lambda>x. and_then x (\<lambda>line p.
     if line = [] then (Inl EOFError, p)
     else (Inr (bstrip line), p))) (sp_readline dv p)"

definition sp_readlinesuntil :: "'s device \<Rightarrow> string \<Rightarrow> int option \<Rightarrow> 's sp \<Rightarrow> ((pyerror + string) \<times> 's sp) option" where
  "sp_readlinesuntil dv data timeout p =
     (if data = [] then Some (Inl (ValueError ''a non-empty line marker is required''), p)
      else (case setTmpTimeout timeout p of
          (Inl e, p1) \<Rightarrow> Some (Inl e, p1)
        | (Inr _, p1) \<Rightarrow> map_option (\<lambda>x. and_finally x restoreTimeout) (lines_loop (sp_next_line dv) data [] p1)))"

definition sp_readuntil :: "'s device \<Rightarrow> string \<Rightarrow> int option \<Rightarrow> 's sp \<Rightarrow> ((pyerror + string) \<times> 's sp) option" where
  "sp_readuntil dv data timeout p =
     (case setTmpTimeout timeout p of
        (Inl e, p1) \<Rightarrow> Some (Inl e, p1)
      | (Inr _, p1) \<Rightarrow> map_option (\<lambda>x. and_finally x restoreTimeout)
          (marker_loop (sp_read dv 1) (if data = [] then None else Some data) [] [] p1))"

text \<open>The callbacks given to \<^verbatim>\<open>XMODEM\<close>: the progress bar is told of the bytes up to its maximum.\<close>

definition getc :: "'s device \<Rightarrow> nat \<Rightarrow> 's sp \<Rightarrow> (pyerror + string) \<times> 's sp" where
  "getc dv n p = sp_read dv n p"

definition putc :: "'s device \<Rightarrow> string \<Rightarrow> 's sp \<Rightarrow> (pyerror + nat) \<times> 's sp" where
  "putc dv data p = and_then (sp_write dv data p) (\<lambda>r p. (Inr r, case sp_progressbar p of
       None \<Rightarrow> p
     | Some (maxval, shown) \<Rightarrow> let n = sp_progresslen p + int (length data) in
         p\<lparr>sp_progresslen := n, sp_progressbar := Some (maxval, if n \<le> maxval then n else shown)\<rparr>))"

definition xmodem :: "(int \<times> int) option \<Rightarrow> 's sp \<Rightarrow> 's sp" where
  "xmodem progressbar p = p\<lparr>sp_progressbar := progressbar, sp_progresslen := 0\<rparr>"

section \<open>The OpenVPN management connection\<close>

text \<open>\<open>vp_sock\<close>: the socket, with its timeout; \<open>vp_live\<close>: sockets opened and not closed.\<close>

record 's vpn =
  vp_host :: string
  vp_port :: int
  vp_timeout :: "int option"
  vp_connected :: bool
  vp_sock :: "int option option"
  vp_dev :: 's
  vp_live :: nat

definition vp_with :: "('s \<Rightarrow> (pyerror + 'a) \<times> 's) \<Rightarrow> 's vpn \<Rightarrow> (pyerror + 'a) \<times> 's vpn" where
  "vp_with f v = (case f (vp_dev v) of (r, d) \<Rightarrow> (r, v\<lparr>vp_dev := d\<rparr>))"

text \<open>A method of \<^verbatim>\<open>self._sock\<close>, which is \<^verbatim>\<open>None\<close> when there is no socket.\<close>

definition vp_call :: "(int option \<Rightarrow> 's \<Rightarrow> (pyerror + 'a) \<times> 's) \<Rightarrow> 's vpn \<Rightarrow> (pyerror + 'a) \<times> 's vpn" where
  "vp_call f v = (case vp_sock v of None \<Rightarrow> (Inl AttributeError, v) | Some t \<Rightarrow> vp_with (f t) v)"

definition vp_recv :: "'s device \<Rightarrow> 's vpn \<Rightarrow> (pyerror + string) \<times> 's vpn" where
  "vp_recv dv = vp_call (\<lambda>t. dv_read dv t 1)"

definition vp_settimeout :: "int option \<Rightarrow> 's vpn \<Rightarrow> (pyerror + unit) \<times> 's vpn" where
  "vp_settimeout timeout v = (case vp_sock v of
     None \<Rightarrow> (Inl AttributeError, v)
   | Some _ \<Rightarrow> (case timeout of
         Some t \<Rightarrow> if t < 0 then (Inl NEGATIVE_TIMEOUT, v) else (Inr (), v\<lparr>vp_sock := Some (Some t)\<rparr>)
       | None \<Rightarrow> (Inr (), v\<lparr>vp_sock := Some None\<rparr>)))"

definition vpn_close :: "'s device \<Rightarrow> 's vpn \<Rightarrow> (pyerror + unit) \<times> 's vpn" where
  "vpn_close dv v = (let v = v\<lparr>vp_connected := False\<rparr> in case vp_sock v of
     None \<Rightarrow> (Inr (), v)
   | Some _ \<Rightarrow> and_then (vp_with (dv_close dv) v) (\<lambda>_ v. (Inr (), v\<lparr>vp_sock := None, vp_live := vp_live v - 1\<rparr>)))"

definition vpn_readline :: "'s device \<Rightarrow> 's vpn \<Rightarrow> ((pyerror + string) \<times> 's vpn) option" where
  "vpn_readline dv v = text_line (vp_recv dv) [] v"

definition vpn_open :: "'s device \<Rightarrow> 's vpn \<Rightarrow> ((pyerror + unit) \<times> 's vpn) option" where
  "vpn_open dv v = (if vp_connected v then Some (Inr (), v) else
     (case vp_with (dv_open dv None) v of
        (Inl e, v) \<Rightarrow> Some (Inl e, v)
      | (Inr _, v) \<Rightarrow>
          (let v = v\<lparr>vp_sock := Some None, vp_live := vp_live v + 1\<rparr>;
               failed = (\<lambda>e v. and_finally (Inl e, v) (vpn_close dv)) in
           case and_then (if vp_timeout v \<noteq> None then vp_settimeout (vp_timeout v) v else (Inr (), v))
               (\<lambda>_ v. vp_call (\<lambda>t. dv_connect dv t (vp_host v) (vp_port v)) v) of
             (Inl e, v) \<Rightarrow> Some (failed e v)
           | (Inr _, v) \<Rightarrow> map_option (\<lambda>(r, v). case r of
                 Inl e \<Rightarrow> failed e v
               | Inr _ \<Rightarrow> (Inr (), v\<lparr>vp_connected := True\<rparr>)) (vpn_readline dv v))))"

definition vpn_init :: "'s device \<Rightarrow> string \<Rightarrow> int \<Rightarrow> int option \<Rightarrow> bool \<Rightarrow> 's \<Rightarrow> ((pyerror + unit) \<times> 's vpn) option" where
  "vpn_init dv host port timeout start_open d =
     (let v = \<lparr>vp_host = host, vp_port = port, vp_timeout = timeout, vp_connected = False, vp_sock = None,
        vp_dev = d, vp_live = 0\<rparr> in if start_open then vpn_open dv v else Some (Inr (), v))"

definition VPN_EOL :: string where "VPN_EOL = [CHR 0x0D, CHR 0x0A]"

definition vpn_writeline :: "'s device \<Rightarrow> string \<Rightarrow> 's vpn \<Rightarrow> (pyerror + nat) \<times> 's vpn" where
  "vpn_writeline dv data v = (let payload = data @ VPN_EOL in
     and_then (vp_call (\<lambda>_. dv_write dv payload) v) (\<lambda>_ v. (Inr (length payload), v)))"

definition vpn_next_line :: "'s device \<Rightarrow> 's vpn \<Rightarrow> ((pyerror + string) \<times> 's vpn) option" where
  "vpn_next_line dv v = map_option (\<lambda>(r, v). (map_sum id strip r, v)) (vpn_readline dv v)"

text \<open>\<^verbatim>\<open>previous = gettimeout()\<close>, the loop with the new timeout, \<^verbatim>\<open>settimeout(previous)\<close> at the end.\<close>

definition with_timeout ::
  "int option \<Rightarrow> ('s vpn \<Rightarrow> ((pyerror + string) \<times> 's vpn) option) \<Rightarrow> 's vpn \<Rightarrow> ((pyerror + string) \<times> 's vpn) option" where
  "with_timeout timeout loop v = (case vp_sock v of
     None \<Rightarrow> Some (Inl AttributeError, v)
   | Some previous \<Rightarrow> map_option (\<lambda>x. and_finally x (vp_settimeout previous))
       (case (if timeout \<noteq> None then vp_settimeout timeout v else (Inr (), v)) of
          (Inl e, v) \<Rightarrow> Some (Inl e, v)
        | (Inr _, v) \<Rightarrow> loop v))"

definition vpn_readlinesuntil :: "'s device \<Rightarrow> string \<Rightarrow> int option \<Rightarrow> 's vpn \<Rightarrow> ((pyerror + string) \<times> 's vpn) option" where
  "vpn_readlinesuntil dv data timeout v =
     (if data = [] then Some (Inl (ValueError ''a non-empty line marker is required''), v)
      else with_timeout timeout (lines_loop (vpn_next_line dv) data []) v)"

definition vpn_readuntil :: "'s device \<Rightarrow> string \<Rightarrow> int option \<Rightarrow> 's vpn \<Rightarrow> ((pyerror + string) \<times> 's vpn) option" where
  "vpn_readuntil dv data timeout v =
     with_timeout timeout (\<lambda>v. map_option (\<lambda>(r, v). (bind_sum r ensure_text, v))
       (marker_loop (vp_recv dv) (if data = [] then None else Some data) [] [] v)) v"

definition vpn_kill :: "'s device \<Rightarrow> string \<Rightarrow> 's vpn \<Rightarrow> ((pyerror + string list) \<times> 's vpn) option" where
  "vpn_kill dv client v = (case vpn_writeline dv (''kill '' @ client) v of
     (Inl e, v) \<Rightarrow> Some (Inl e, v)
   | (Inr _, v) \<Rightarrow> map_option (\<lambda>(r, v). (map_sum id (split_max CHR '':'' 1) r, v)) (vpn_readline dv v))"

text \<open>A client: calls one after the other, errors caught. \<open>None\<close>: some call never returns.\<close>

datatype vpn_call = Open | Close | WriteLine string | ReadLine | ReadLinesUntil string "int option"
  | ReadUntil string "int option" | Kill string

fun vpn_do :: "'s device \<Rightarrow> vpn_call \<Rightarrow> 's vpn \<Rightarrow> 's vpn option" where
  "vpn_do dv Open v = map_option snd (vpn_open dv v)"
| "vpn_do dv Close v = Some (snd (vpn_close dv v))"
| "vpn_do dv (WriteLine data) v = Some (snd (vpn_writeline dv data v))"
| "vpn_do dv ReadLine v = map_option snd (vpn_readline dv v)"
| "vpn_do dv (ReadLinesUntil data timeout) v = map_option snd (vpn_readlinesuntil dv data timeout v)"
| "vpn_do dv (ReadUntil data timeout) v = map_option snd (vpn_readuntil dv data timeout v)"
| "vpn_do dv (Kill client) v = map_option snd (vpn_kill dv client v)"

fun vpn_session :: "'s device \<Rightarrow> vpn_call list \<Rightarrow> 's vpn \<Rightarrow> 's vpn option" where
  "vpn_session dv [] v = Some v"
| "vpn_session dv (c # cs) v = Option.bind (vpn_do dv c v) (vpn_session dv cs)"

end
