(* ===== verification/Portio_Properties.thy ===== *)
theory Portio_Properties
  imports Portio
begin

text \<open>
  What the readers of \<open>Portio\<close> return, and in which state they leave the session: \<^verbatim>\<open>readuntil\<close> is a search for
  the first occurrence of the marker, \<^verbatim>\<open>readlinesuntil\<close> takes whole lines, both restore the timeout; an
  OpenVPN session that fails to open leaves no socket behind.
\<close>

section \<open>Streams\<close>

text \<open>\<open>feeds rd bs p p'\<close>: the next calls of \<open>rd\<close> give the bytes \<open>bs\<close> one by one.\<close>

fun feeds :: "('p \<Rightarrow> (pyerror + string) \<times> 'p) \<Rightarrow> string \<Rightarrow> 'p \<Rightarrow> 'p \<Rightarrow> bool" where
  "feeds rd [] p p' = (p' = p)"
| "feeds rd (b # bs) p p' = (\<exists>p1. rd p = (Inr [b], p1) \<and> feeds rd bs p1 p')"

text \<open>\<open>stops rd r p p'\<close>: the next call ends the stream, by its end (\<open>None\<close>) or an error.\<close>

definition stops :: "('p \<Rightarrow> (pyerror + string) \<times> 'p) \<Rightarrow> pyerror option \<Rightarrow> 'p \<Rightarrow> 'p \<Rightarrow> bool" where
  "stops rd e p p' = (rd p = (case e of None \<Rightarrow> Inr [] | Some e \<Rightarrow> Inl e, p'))"

lemma feeds_append: "feeds rd (xs @ ys) p p' \<longleftrightarrow> (\<exists>p1. feeds rd xs p p1 \<and> feeds rd ys p1 p')"
  by (induction xs arbitrary: p) auto

lemma feeds_unique: "feeds rd xs p p1 \<Longrightarrow> feeds rd xs p p2 \<Longrightarrow> p1 = p2"
  by (induction xs arbitrary: p) auto

section \<open>Searching\<close>

lemma starts_with_prefix: "starts_with m s \<longleftrightarrow> prefix m s"
  by (metis append_take_drop_id prefix_def starts_with_def append_eq_conv_conj)

lemma find_sub_None: "find_sub m s = None \<longleftrightarrow> \<not> sublist m s"
  by (induction m s rule: find_sub.induct) (auto simp: starts_with_prefix sublist_Cons_right)

lemma find_sub_take: "find_sub m s = Some i \<Longrightarrow> i + length m \<le> length s \<and> take (i + length m) s = take i s @ m"
proof (induction m s arbitrary: i rule: find_sub.induct)
  case (2 m c s)
  show ?case
  proof (cases "starts_with m (c # s)")
    case True
    then have "i = 0" "prefix m (c # s)" using "2.prems" by (auto simp: starts_with_prefix)
    then show ?thesis by (auto simp: prefix_def dest: arg_cong [of _ _ length])
  qed (use 2 in auto)
qed (auto split: if_splits)

lemma find_sub_first: "find_sub m s = Some i \<Longrightarrow> k < i + length m \<Longrightarrow> \<not> sublist m (take k s)"
proof (induction m s arbitrary: i k rule: find_sub.induct)
  case (1 m)
  then show ?case by (auto split: if_splits)
next
  case (2 m c s)
  show ?case
  proof (cases "starts_with m (c # s)")
    case True
    then have "i = 0" using "2.prems" by simp
    then have "length (take k (c # s)) < length m" using "2.prems" by simp
    then show ?thesis using sublist_length_le by fastforce
  next
    case False
    then obtain j where j: "find_sub m s = Some j" "i = Suc j" using "2.prems" by auto
    have np: "\<not> prefix m (take k (c # s))"
      using False take_is_prefix prefix_order.trans unfolding starts_with_prefix by blast
    show ?thesis
    proof (cases k)
      case 0
      then show ?thesis using np by (cases m) auto
    next
      case (Suc n)
      then have "\<not> sublist m (take n s)" using "2.IH" [OF False j(1)] "2.prems" j by simp
      with np Suc show ?thesis by (simp add: sublist_Cons_right)
    qed
  qed
qed

text \<open>The window of \<^verbatim>\<open>readuntil\<close> equals the marker exactly when the bytes read so far end with it.\<close>

lemma window_step: "last_bytes n (last_bytes n xs @ [c]) = last_bytes n (xs @ [c])"
  by (cases "length xs < n") (auto simp: last_bytes_def Suc_diff_le)

lemma window_marker: "last_bytes (length m) s = m \<longleftrightarrow> suffix m s"
  unfolding last_bytes_def suffix_def
  by (metis append_take_drop_id append_eq_conv_conj length_append diff_add_inverse2)

lemma sublist_window: "sublist m (xs @ [c]) \<longleftrightarrow> sublist m xs \<or> suffix m (xs @ [c])"
  by (metis sublist_Cons_right sublist_rev rev.simps(2) rev_rev_ident suffix_to_prefix rev_append)

lemma suffix_inside: "suffix m xs \<Longrightarrow> sublist m (xs @ ys)"
  by (force simp: suffix_def sublist_def)

lemma marker_loop_found:
  assumes "feeds rd bs p p'" "bs \<noteq> []" "suffix m (concat parts @ bs)" "\<not> sublist m (concat parts @ butlast bs)"
    "tail = last_bytes (length m) (concat parts)"
  shows "marker_loop rd (Some m) parts tail p = Some (Inr (cut_last (length m) (concat parts @ bs)), p')"
  using assms
proof (induction bs arbitrary: parts tail p)
  case (Cons b bs)
  then obtain p1 where rd: "rd p = (Inr [b], p1)" and f: "feeds rd bs p1 p'" by auto
  have w: "last_bytes (length m) (tail @ [b]) = last_bytes (length m) (concat parts @ [b])"
    by (simp add: Cons.prems(5) window_step)
  show ?case
  proof (cases "bs = []")
    case True
    then show ?thesis using rd f Cons.prems(3) w
      by (subst marker_loop.simps) (simp add: window_marker del: suffix_snoc)
  next
    case False
    have "\<not> suffix m (concat parts @ [b])"
      using Cons.prems(4) False suffix_inside [of m "concat parts @ [b]" "butlast bs"] by auto
    then show ?thesis using rd w Cons.IH [OF f False, of "parts @ [[b]]"] Cons.prems False
      by (subst marker_loop.simps) (simp add: window_marker del: suffix_snoc)
  qed
qed simp

lemma marker_loop_stops:
  assumes "feeds rd bs p p1" "stops rd e p1 p'" "\<not> sublist m (concat parts @ bs)"
    "tail = last_bytes (length m) (concat parts)"
  shows "marker_loop rd (Some m) parts tail p = Some (Inl (case e of None \<Rightarrow> EOFError | Some e \<Rightarrow> e), p')"
  using assms
proof (induction bs arbitrary: parts tail p)
  case Nil
  then show ?case by (subst marker_loop.simps) (auto simp: stops_def split: option.splits)
next
  case (Cons b bs)
  then obtain p2 where rd: "rd p = (Inr [b], p2)" and f: "feeds rd bs p2 p1" by auto
  have w: "last_bytes (length m) (tail @ [b]) = last_bytes (length m) (concat parts @ [b])"
    by (simp add: Cons.prems(4) window_step)
  have "\<not> suffix m (concat parts @ [b])"
    using Cons.prems(3) suffix_inside [of m "concat parts @ [b]" bs] by auto
  then show ?case using rd w Cons.IH [OF f Cons.prems(2), of "parts @ [[b]]"] Cons.prems
    by (subst marker_loop.simps) (simp add: window_marker del: suffix_snoc)
qed

lemma marker_loop_all:
  assumes "feeds rd bs p p1" "stops rd e p1 p'"
  shows "marker_loop rd None parts tail p = Some (case e of None \<Rightarrow> Inr (concat parts @ bs) | Some e \<Rightarrow> Inl e, p')"
  using assms
proof (induction bs arbitrary: parts p)
  case Nil
  then show ?case by (subst marker_loop.simps) (auto simp: stops_def split: option.splits)
next
  case (Cons b bs)
  then obtain p2 where rd: "rd p = (Inr [b], p2)" and f: "feeds rd bs p2 p1" by auto
  then show ?case using Cons.IH [OF f Cons.prems(2), of "parts @ [[b]]"]
    by (subst marker_loop.simps) (simp split: option.splits)
qed

section \<open>The sessions\<close>

lemma sp_feeds: "feeds (dv_read dv (sp_dev_timeout p) 1) bs (sp_dev p) d \<Longrightarrow> feeds (sp_read dv 1) bs p (p\<lparr>sp_dev := d\<rparr>)"
proof (induction bs arbitrary: p)
  case (Cons b bs)
  then obtain d1 where "dv_read dv (sp_dev_timeout p) 1 (sp_dev p) = (Inr [b], d1)"
    and f: "feeds (dv_read dv (sp_dev_timeout p) 1) bs d1 d" by auto
  then show ?case using Cons.IH [of "p\<lparr>sp_dev := d1\<rparr>"] by (auto simp: sp_read_def sp_with_def)
qed simp

lemma sp_stops: "stops (dv_read dv (sp_dev_timeout p) 1) e (sp_dev p) d \<Longrightarrow> stops (sp_read dv 1) e p (p\<lparr>sp_dev := d\<rparr>)"
  by (simp add: stops_def sp_read_def sp_with_def)

lemma vp_feeds: "vp_sock v = Some t \<Longrightarrow> feeds (dv_read dv t 1) bs (vp_dev v) d \<Longrightarrow> feeds (vp_recv dv) bs v (v\<lparr>vp_dev := d\<rparr>)"
proof (induction bs arbitrary: v)
  case (Cons b bs)
  then obtain d1 where "dv_read dv t 1 (vp_dev v) = (Inr [b], d1)" and f: "feeds (dv_read dv t 1) bs d1 d" by auto
  then show ?case using Cons.IH [of "v\<lparr>vp_dev := d1\<rparr>"] Cons.prems(1) by (auto simp: vp_recv_def vp_call_def vp_with_def)
qed simp

lemma vp_stops: "vp_sock v = Some t \<Longrightarrow> stops (dv_read dv t 1) e (vp_dev v) d \<Longrightarrow> stops (vp_recv dv) e v (v\<lparr>vp_dev := d\<rparr>)"
  by (simp add: stops_def vp_recv_def vp_call_def vp_with_def)

text \<open>The specification: the text before the first occurrence of the marker, and what is read for it.\<close>

definition until_marker :: "string \<Rightarrow> string \<Rightarrow> pyerror option \<Rightarrow> pyerror + string" where
  "until_marker m bs e =
     (if m = [] then (case e of None \<Rightarrow> Inr bs | Some e \<Rightarrow> Inl e)
      else (case find_sub m bs of Some i \<Rightarrow> Inr (take i bs) | None \<Rightarrow> Inl (case e of None \<Rightarrow> EOFError | Some e \<Rightarrow> e)))"

definition found :: "string \<Rightarrow> string \<Rightarrow> bool" where "found m bs \<longleftrightarrow> m \<noteq> [] \<and> sublist m bs"

definition read_upto :: "string \<Rightarrow> string \<Rightarrow> string" where
  "read_upto m bs = (case find_sub m bs of Some i \<Rightarrow> take (i + length m) bs | None \<Rightarrow> bs)"

lemma marker_loop_until:
  assumes f: "feeds rd (if found m bs then read_upto m bs else bs) p p1"
    and s: "if found m bs then p' = p1 else stops rd e p1 p'"
  shows "marker_loop rd (if m = [] then None else Some m) [] [] p = Some (until_marker m bs e, p')"
proof (cases "m = [] \<or> \<not> sublist m bs")
  case True
  then show ?thesis using f s marker_loop_all [of rd bs p p1 e p' "[]" "[]"]
      marker_loop_stops [of rd bs p p1 e p' m "[]" "[]"] find_sub_None [of m bs]
    by (auto simp: found_def until_marker_def last_bytes_def split: option.splits)
next
  case False
  then obtain i where i: "find_sub m bs = Some i" using find_sub_None by (cases "find_sub m bs") auto
  let ?b = "take (i + length m) bs"
  have b: "?b = take i bs @ m" and len: "i + length m \<le> length bs" using find_sub_take [OF i] by auto
  have "butlast ?b = take (i + length m - 1) bs" using len by (simp add: butlast_take)
  then have "\<not> sublist m (butlast ?b)" using find_sub_first [OF i, of "i + length m - 1"] False by simp
  then have "marker_loop rd (Some m) [] [] p = Some (Inr (cut_last (length m) ?b), p1)"
    using marker_loop_found [of rd ?b p p1 m "[]" "[]"] f False i b
    by (simp add: found_def read_upto_def last_bytes_def suffix_def)
  then show ?thesis using False i s b len by (simp add: until_marker_def found_def cut_last_def min_absorb2)
qed

text \<open>The timeout in effect while a reader runs.\<close>

definition in_effect :: "int option \<Rightarrow> int option \<Rightarrow> int option" where
  "in_effect timeout t = (if timeout = None then t else timeout)"

definition timeout_ok :: "int option \<Rightarrow> bool" where
  "timeout_ok timeout = (case timeout of None \<Rightarrow> True | Some n \<Rightarrow> 0 \<le> n)"

lemma setTmpTimeout_ok: "timeout_ok timeout \<Longrightarrow> setTmpTimeout timeout p =
    (Inr (), p\<lparr>sp_saved := sp_dev_timeout p, sp_dev_timeout := in_effect timeout (sp_dev_timeout p)\<rparr>)"
  by (simp add: setTmpTimeout_def timeout_ok_def in_effect_def split: option.splits)

lemma vp_settimeout_ok: "vp_sock v = Some t \<Longrightarrow> timeout_ok timeout \<Longrightarrow>
    vp_settimeout timeout v = (Inr (), v\<lparr>vp_sock := Some timeout\<rparr>)"
  by (simp add: vp_settimeout_def timeout_ok_def split: option.splits)

lemma with_timeout_ok:
  assumes "vp_sock v = Some t" "timeout_ok t" "timeout_ok timeout"
    "loop (v\<lparr>vp_sock := Some (in_effect timeout t)\<rparr>) = Some (r, v\<lparr>vp_sock := Some (in_effect timeout t), vp_dev := d\<rparr>)"
  shows "with_timeout timeout loop v = Some (r, v\<lparr>vp_dev := d\<rparr>)"
proof -
  have "vp_settimeout t (v\<lparr>vp_sock := Some (in_effect timeout t), vp_dev := d\<rparr>) = (Inr (), v\<lparr>vp_dev := d\<rparr>)"
    using assms(1,2) by (subst vp_settimeout_ok) auto
  moreover have same: "v\<lparr>vp_sock := Some t\<rparr> = v" using assms(1) by (cases v) simp
  have "loop v = Some (r, v\<lparr>vp_sock := Some t, vp_dev := d\<rparr>)" if "timeout = None"
    using assms(4) unfolding that in_effect_def by (simp only: same simp_thms if_True)
  ultimately show ?thesis using assms
    by (cases timeout) (auto simp: with_timeout_def vp_settimeout_ok [OF assms(1)] in_effect_def)
qed

text \<open>
  C32: \<^verbatim>\<open>readuntil\<close> of both classes is a search: of a stream that gives \<open>bs\<close> byte by byte (and then ends or fails,
  when the marker is not in \<open>bs\<close>), it returns the bytes before the first occurrence of the marker and has
  consumed nothing after it; without an occurrence it raises \<^verbatim>\<open>EOFError\<close> or the error of the stream; with no marker
  it returns everything up to the end. The timeout given is in effect while it reads and the old one is
  restored, on every way out; nothing else of the session changes.
\<close>

theorem readuntil_marker:
  assumes "timeout_ok timeout" "timeout_ok t"
    and f: "feeds (dv_read dv (in_effect timeout t) 1) (if found m bs then read_upto m bs else bs) d d1"
    and s: "if found m bs then d2 = d1 else stops (dv_read dv (in_effect timeout t) 1) e d1 d2"
  shows "(\<forall>p. sp_dev p = d \<and> sp_dev_timeout p = t \<longrightarrow>
      sp_readuntil dv m timeout p = Some (until_marker m bs e, p\<lparr>sp_dev := d2, sp_saved := t\<rparr>)) \<and>
    (\<forall>v. vp_dev v = d \<and> vp_sock v = Some t \<longrightarrow>
      vpn_readuntil dv m timeout v = Some (bind_sum (until_marker m bs e) ensure_text, v\<lparr>vp_dev := d2\<rparr>))"
proof (intro conjI allI impI)
  fix p :: "'a sp" assume p: "sp_dev p = d \<and> sp_dev_timeout p = t"
  define q where "q = p\<lparr>sp_saved := t, sp_dev_timeout := in_effect timeout t\<rparr>"
  have q: "sp_dev q = d" "sp_dev_timeout q = in_effect timeout t" using p by (simp_all add: q_def)
  have "marker_loop (sp_read dv 1) (if m = [] then None else Some m) [] [] q = Some (until_marker m bs e, q\<lparr>sp_dev := d2\<rparr>)"
  proof (rule marker_loop_until)
    show "feeds (sp_read dv 1) (if found m bs then read_upto m bs else bs) q (q\<lparr>sp_dev := d1\<rparr>)"
      by (rule sp_feeds) (simp only: q f)
    show "if found m bs then q\<lparr>sp_dev := d2\<rparr> = q\<lparr>sp_dev := d1\<rparr> else stops (sp_read dv 1) e (q\<lparr>sp_dev := d1\<rparr>) (q\<lparr>sp_dev := d2\<rparr>)"
      using s sp_stops [of dv "q\<lparr>sp_dev := d1\<rparr>" e d2] q by auto
  qed
  then show "sp_readuntil dv m timeout p = Some (until_marker m bs e, p\<lparr>sp_dev := d2, sp_saved := t\<rparr>)"
    using p by (simp add: sp_readuntil_def setTmpTimeout_ok [OF assms(1)] q_def restoreTimeout_def)
next
  fix v :: "'a vpn" assume v: "vp_dev v = d \<and> vp_sock v = Some t"
  define w where "w = v\<lparr>vp_sock := Some (in_effect timeout t)\<rparr>"
  have w: "vp_dev w = d" "vp_sock w = Some (in_effect timeout t)" using v by (simp_all add: w_def)
  have "marker_loop (vp_recv dv) (if m = [] then None else Some m) [] [] w = Some (until_marker m bs e, w\<lparr>vp_dev := d2\<rparr>)"
  proof (rule marker_loop_until)
    show "feeds (vp_recv dv) (if found m bs then read_upto m bs else bs) w (w\<lparr>vp_dev := d1\<rparr>)"
      by (rule vp_feeds [OF w(2)]) (simp only: w f)
    show "if found m bs then w\<lparr>vp_dev := d2\<rparr> = w\<lparr>vp_dev := d1\<rparr> else stops (vp_recv dv) e (w\<lparr>vp_dev := d1\<rparr>) (w\<lparr>vp_dev := d2\<rparr>)"
      using s vp_stops [of "w\<lparr>vp_dev := d1\<rparr>" "in_effect timeout t" dv e d2] w by auto
  qed
  then show "vpn_readuntil dv m timeout v = Some (bind_sum (until_marker m bs e) ensure_text, v\<lparr>vp_dev := d2\<rparr>)"
    unfolding vpn_readuntil_def using v assms(1,2) by (intro with_timeout_ok [where t = t]) (auto simp: w_def)
qed

text \<open>A device over a string: each read takes one byte, the end is the end of the stream.\<close>

definition string_device :: "string device" where
  "string_device = \<lparr>dv_read = (\<lambda>t n s. (Inr (take n s), drop n s)), dv_readline = (\<lambda>t s. (Inr s, [])),
     dv_write = (\<lambda>b s. (Inr (length b), s)), dv_flush = Pair (Inr ()), dv_break = (\<lambda>n s. (Inr 0, s)),
     dv_open = (\<lambda>t. Pair (Inr ())), dv_connect = (\<lambda>t h p. Pair (Inr ())), dv_makefile = Pair (Inr ()),
     dv_close_file = Pair (Inr ()), dv_close = Pair (Inr ())\<rparr>"

definition demo_sp :: "string \<Rightarrow> string sp" where
  "demo_sp s = \<lparr>sp_mode = TCP, sp_dev = s, sp_dev_timeout = Some 1, sp_saved = None, sp_eol = [CHR 0x0D], sp_open = True,
     sp_progressbar = None, sp_progresslen = 0\<rparr>"

theorem readuntil_marker_witness:
  "sp_readuntil string_device ''OK'' (Some 5) (demo_sp ''abOOKcd'') = Some (Inr ''abO'', (demo_sp ''cd'')\<lparr>sp_saved := Some 1\<rparr>) \<and>
   sp_readuntil string_device ''OK'' None (demo_sp ''abO'') = Some (Inl EOFError, (demo_sp [])\<lparr>sp_saved := Some 1\<rparr>)"
proof
  have "found ''OK'' ''abOOKcd''" "find_sub ''OK'' ''abOOKcd'' = Some 3"
    using find_sub_None [of "''OK''" "''abOOKcd''"] by (simp_all add: found_def starts_with_def)
  then show "sp_readuntil string_device ''OK'' (Some 5) (demo_sp ''abOOKcd'') =
      Some (Inr ''abO'', (demo_sp ''cd'')\<lparr>sp_saved := Some 1\<rparr>)"
    using readuntil_marker [of "Some 5" "Some 1" string_device "''OK''" "''abOOKcd''" "''abOOKcd''" "''cd''" "''cd''" None]
    by (simp add: timeout_ok_def in_effect_def read_upto_def string_device_def until_marker_def demo_sp_def)
  have "\<not> found ''OK'' ''abO''" "find_sub ''OK'' ''abO'' = None"
    using find_sub_None [of "''OK''" "''abO''"] by (simp_all add: found_def starts_with_def)
  then show "sp_readuntil string_device ''OK'' None (demo_sp ''abO'') = Some (Inl EOFError, (demo_sp [])\<lparr>sp_saved := Some 1\<rparr>)"
    using readuntil_marker [of None "Some 1" string_device "''OK''" "''abO''" "''abO''" "[]" "[]" None]
    by (simp add: timeout_ok_def in_effect_def stops_def string_device_def until_marker_def demo_sp_def)
qed

section \<open>Lines\<close>

abbreviation NL :: char where "NL \<equiv> CHR 0x0A"

lemma text_line_feeds:
  "feeds rd (l @ [NL]) p p' \<Longrightarrow> NL \<notin> set l \<Longrightarrow> text_line rd parts p = Some (ensure_text (rstrip_cr (concat parts @ l)), p')"
proof (induction l arbitrary: parts p)
  case Nil
  then show ?case by (subst text_line.simps) auto
next
  case (Cons b l)
  then obtain p1 where rd: "rd p = (Inr [b], p1)" and f: "feeds rd (l @ [NL]) p1 p'" by auto
  then show ?case using Cons.IH [OF f, of "parts @ [[b]]"] Cons.prems
    by (subst text_line.simps) auto
qed

lemma recv_line_feeds:
  "feeds rd (l @ [NL]) p p' \<Longrightarrow> NL \<notin> set l \<Longrightarrow> recv_line rd parts p = Some (Inr (concat parts @ l @ [NL]), p')"
proof (induction l arbitrary: parts p)
  case Nil
  then show ?case by (subst recv_line.simps) auto
next
  case (Cons b l)
  then obtain p1 where rd: "rd p = (Inr [b], p1)" and f: "feeds rd (l @ [NL]) p1 p'" by auto
  then show ?case using Cons.IH [OF f, of "parts @ [[b]]"] Cons.prems
    by (subst recv_line.simps) auto
qed

text \<open>Lines one by one, and the loop over them.\<close>

fun gives_lines :: "('p \<Rightarrow> ((pyerror + string) \<times> 'p) option) \<Rightarrow> string list \<Rightarrow> 'p \<Rightarrow> 'p \<Rightarrow> bool" where
  "gives_lines nl [] p p' = (p' = p)"
| "gives_lines nl (l # ls) p p' = (\<exists>p1. nl p = Some (Inr l, p1) \<and> gives_lines nl ls p1 p')"

lemma lines_loop_step:
  "nl p = Some (Inr l, p1) \<Longrightarrow> find_sub m l = None \<Longrightarrow> lines_loop nl m parts p = lines_loop nl m (parts @ [l]) p1"
  by (subst lines_loop.simps) simp

lemma lines_loop_raise: "nl p = Some (Inl e, p1) \<Longrightarrow> lines_loop nl m parts p = Some (Inl e, p1)"
  by (subst lines_loop.simps) simp

lemma lines_loop_found:
  assumes "gives_lines nl (ls @ [x]) p p'" "\<forall>l \<in> set ls. find_sub m l = None" "find_sub m x \<noteq> None"
  shows "lines_loop nl m parts p = Some (Inr (concat parts @ concat ls), p')"
  using assms
proof (induction ls arbitrary: parts p)
  case Nil
  then show ?case by (subst lines_loop.simps) auto
next
  case (Cons l ls)
  then obtain p1 where nl: "nl p = Some (Inr l, p1)" and g: "gives_lines nl (ls @ [x]) p1 p'" by auto
  then show ?case using Cons.IH [OF g, of "parts @ [l]"] Cons.prems
    by (subst lines_loop.simps) auto
qed

definition as_stream :: "string list \<Rightarrow> string" where "as_stream ls = concat (map (\<lambda>l. l @ [NL]) ls)"

lemma sp_gives_lines:
  assumes "feeds (dv_read dv (sp_dev_timeout p) 1) (as_stream ls) (sp_dev p) d" "sp_mode p = TCP" "\<forall>l \<in> set ls. NL \<notin> set l"
  shows "gives_lines (sp_next_line dv) (map (\<lambda>l. bstrip (l @ [NL])) ls) p (p\<lparr>sp_dev := d\<rparr>)"
  using assms
proof (induction ls arbitrary: p)
  case (Cons l ls)
  then obtain d1 where l: "feeds (dv_read dv (sp_dev_timeout p) 1) (l @ [NL]) (sp_dev p) d1"
    and ls: "feeds (dv_read dv (sp_dev_timeout p) 1) (as_stream ls) d1 d"
    by (auto simp: as_stream_def feeds_append)
  have "recv_line (sp_read dv 1) [] p = Some (Inr (l @ [NL]), p\<lparr>sp_dev := d1\<rparr>)"
    using recv_line_feeds [OF sp_feeds [OF l], of "[]"] Cons.prems by simp
  then show ?case using Cons.IH [of "p\<lparr>sp_dev := d1\<rparr>"] Cons.prems ls
    by (simp add: sp_next_line_def sp_readline_def)
qed (simp add: as_stream_def)

lemma vp_gives_lines:
  assumes "feeds (dv_read dv t 1) (as_stream ls) (vp_dev v) d" "vp_sock v = Some t"
    "\<forall>l \<in> set ls. NL \<notin> set l \<and> utf8_ok (rstrip_cr l)"
  shows "gives_lines (vpn_next_line dv) (map (\<lambda>l. strip (rstrip_cr l)) ls) v (v\<lparr>vp_dev := d\<rparr>)"
  using assms
proof (induction ls arbitrary: v)
  case (Cons l ls)
  then obtain d1 where l: "feeds (dv_read dv t 1) (l @ [NL]) (vp_dev v) d1"
    and ls: "feeds (dv_read dv t 1) (as_stream ls) d1 d"
    by (auto simp: as_stream_def feeds_append)
  have "text_line (vp_recv dv) [] v = Some (Inr (rstrip_cr l), v\<lparr>vp_dev := d1\<rparr>)"
    using text_line_feeds [OF vp_feeds [OF Cons.prems(2) l], of "[]"] Cons.prems by (simp add: ensure_text_def)
  then show ?case using Cons.IH [of "v\<lparr>vp_dev := d1\<rparr>"] Cons.prems ls
    by (simp add: vpn_next_line_def vpn_readline_def)
qed (simp add: as_stream_def)

text \<open>What the lines before the first one with the marker make.\<close>

definition before_marker :: "string \<Rightarrow> string list \<Rightarrow> bool" where
  "before_marker m ls \<longleftrightarrow> ls \<noteq> [] \<and> find_sub m (last ls) \<noteq> None \<and> (\<forall>l \<in> set (butlast ls). find_sub m l = None)"

lemma lines_loop_before:
  assumes "gives_lines nl xs q q'" "before_marker m xs"
  shows "lines_loop nl m [] q = Some (Inr (concat (butlast xs)), q')"
  using lines_loop_found [of nl "butlast xs" "last xs" q q' m "[]"] assms by (simp add: before_marker_def)

text \<open>
  \<^verbatim>\<open>readlinesuntil\<close> of a TCP session and of an OpenVPN session: of a stream of lines of which the last is the
  first to contain the marker, it returns the stripped lines before it, put together, and consumes exactly
  these lines; the timeout given is in effect meanwhile and the old one restored.
\<close>

theorem readlinesuntil_lines:
  assumes "m \<noteq> []" "timeout_ok timeout" "timeout_ok t" "\<forall>l \<in> set ls. NL \<notin> set l"
    and f: "feeds (dv_read dv (in_effect timeout t) 1) (as_stream ls) d d1"
  shows "(\<forall>p. sp_dev p = d \<and> sp_dev_timeout p = t \<and> sp_mode p = TCP \<and> before_marker m (map (\<lambda>l. bstrip (l @ [NL])) ls) \<longrightarrow>
      sp_readlinesuntil dv m timeout p =
        Some (Inr (concat (map (\<lambda>l. bstrip (l @ [NL])) (butlast ls))), p\<lparr>sp_dev := d1, sp_saved := t\<rparr>)) \<and>
    (\<forall>v. vp_dev v = d \<and> vp_sock v = Some t \<and> before_marker m (map (\<lambda>l. strip (rstrip_cr l)) ls) \<and>
        (\<forall>l \<in> set ls. utf8_ok (rstrip_cr l)) \<longrightarrow>
      vpn_readlinesuntil dv m timeout v = Some (Inr (concat (map (\<lambda>l. strip (rstrip_cr l)) (butlast ls))), v\<lparr>vp_dev := d1\<rparr>))"
proof (intro conjI allI impI)
  fix p :: "'a sp" assume p: "sp_dev p = d \<and> sp_dev_timeout p = t \<and> sp_mode p = TCP \<and> before_marker m (map (\<lambda>l. bstrip (l @ [NL])) ls)"
  define q where "q = p\<lparr>sp_saved := t, sp_dev_timeout := in_effect timeout t\<rparr>"
  have "gives_lines (sp_next_line dv) (map (\<lambda>l. bstrip (l @ [NL])) ls) q (q\<lparr>sp_dev := d1\<rparr>)"
    by (rule sp_gives_lines) (use p f assms(4) in \<open>simp_all add: q_def\<close>)
  from lines_loop_before [OF this] p
  show "sp_readlinesuntil dv m timeout p =
      Some (Inr (concat (map (\<lambda>l. bstrip (l @ [NL])) (butlast ls))), p\<lparr>sp_dev := d1, sp_saved := t\<rparr>)"
    using assms(1) by (simp add: sp_readlinesuntil_def setTmpTimeout_ok [OF assms(2)] q_def restoreTimeout_def map_butlast)
next
  fix v :: "'a vpn" assume v: "vp_dev v = d \<and> vp_sock v = Some t \<and> before_marker m (map (\<lambda>l. strip (rstrip_cr l)) ls) \<and>
      (\<forall>l \<in> set ls. utf8_ok (rstrip_cr l))"
  define w where "w = v\<lparr>vp_sock := Some (in_effect timeout t)\<rparr>"
  have "gives_lines (vpn_next_line dv) (map (\<lambda>l. strip (rstrip_cr l)) ls) w (w\<lparr>vp_dev := d1\<rparr>)"
    by (rule vp_gives_lines [where t = "in_effect timeout t"]) (use v f assms(4) in \<open>simp_all add: w_def\<close>)
  from lines_loop_before [OF this] v
  have "lines_loop (vpn_next_line dv) m [] w = Some (Inr (concat (map (\<lambda>l. strip (rstrip_cr l)) (butlast ls))), w\<lparr>vp_dev := d1\<rparr>)"
    by (simp add: map_butlast)
  then show "vpn_readlinesuntil dv m timeout v = Some (Inr (concat (map (\<lambda>l. strip (rstrip_cr l)) (butlast ls))), v\<lparr>vp_dev := d1\<rparr>)"
    using v assms(1,2,3) by (auto simp: vpn_readlinesuntil_def w_def intro!: with_timeout_ok [where t = t])
qed

theorem readlinesuntil_lines_witness:
  "sp_readlinesuntil string_device ''END'' (Some 5) (demo_sp (as_stream [''  a b '', ''cd'', ''END x''] @ ''e'')) =
     Some (Inr ''a bcd'', (demo_sp ''e'')\<lparr>sp_saved := Some 1\<rparr>)"
proof -
  let ?ls = "[''  a b '', ''cd'', ''END x'']"
  have clean: "map (\<lambda>l. bstrip (l @ [NL])) ?ls = [''a b'', ''cd'', ''END x'']" by code_simp
  have "feeds (dv_read string_device (Some 5) 1) (as_stream ?ls) (as_stream ?ls @ ''e'') ''e''"
    by (simp add: as_stream_def string_device_def)
  moreover have "before_marker ''END'' (map (\<lambda>l. bstrip (l @ [NL])) ?ls)"
    unfolding clean by (simp add: before_marker_def starts_with_def)
  ultimately show ?thesis
    using readlinesuntil_lines [of "''END''" "Some 5" "Some 1" ?ls string_device "as_stream ?ls @ ''e''" "''e''"] clean
    by (simp add: timeout_ok_def in_effect_def demo_sp_def)
qed

text \<open>
  A timeout inside a line: \<^verbatim>\<open>readline\<close> gives what it has as if it were a line, so a marker that arrives in two
  parts is missed by \<^verbatim>\<open>readlinesuntil\<close>, although every byte of it was read.
\<close>

definition timed_device :: "char option list device" where
  "timed_device = \<lparr>dv_read = (\<lambda>t n s. case s of [] \<Rightarrow> (Inr [], []) | None # r \<Rightarrow> (Inl TIMED_OUT, r) | Some c # r \<Rightarrow> (Inr [c], r)),
     dv_readline = (\<lambda>t. Pair (Inr [])), dv_write = (\<lambda>b s. (Inr (length b), s)), dv_flush = Pair (Inr ()), dv_break = (\<lambda>n s. (Inr 0, s)),
     dv_open = (\<lambda>t. Pair (Inr ())), dv_connect = (\<lambda>t h p. Pair (Inr ())), dv_makefile = Pair (Inr ()),
     dv_close_file = Pair (Inr ()), dv_close = Pair (Inr ())\<rparr>"

definition timed_sp :: "char option list \<Rightarrow> char option list sp" where
  "timed_sp s = \<lparr>sp_mode = TCP, sp_dev = s, sp_dev_timeout = Some 1, sp_saved = Some 1, sp_eol = [CHR 0x0D], sp_open = True,
     sp_progressbar = None, sp_progresslen = 0\<rparr>"

lemma sp_marker_missed:
  "sp_readlinesuntil timed_device ''END'' (Some 1) (timed_sp (map Some ''EN'' @ None # map Some [CHR ''D'', NL])) = Some (Inl EOFError, timed_sp [])"
proof -
  note ops = sp_next_line_def sp_readline_def recv_line.simps sp_read_def sp_with_def timed_device_def timed_sp_def
  have 1: "sp_next_line timed_device (timed_sp (map Some ''EN'' @ None # map Some [CHR ''D'', NL])) =
      Some (Inr ''EN'', timed_sp (map Some [CHR ''D'', NL]))"
    by (simp add: ops bstrip_def is_bspace_def)
  have 2: "sp_next_line timed_device (timed_sp (map Some [CHR ''D'', NL])) = Some (Inr ''D'', timed_sp [])"
    by (simp add: ops bstrip_def is_bspace_def)
  have 3: "sp_next_line timed_device (timed_sp []) = Some (Inl EOFError, timed_sp [])" by (simp add: ops)
  have "setTmpTimeout (Some 1) (timed_sp s) = (Inr (), timed_sp s)" "restoreTimeout (timed_sp s) = (Inr (), timed_sp s)" for s
    by (simp_all add: setTmpTimeout_def restoreTimeout_def timed_sp_def)
  moreover have "lines_loop (sp_next_line timed_device) ''END'' [] (timed_sp (map Some ''EN'' @ None # map Some [CHR ''D'', NL])) =
      Some (Inl EOFError, timed_sp [])"
    by (simp add: lines_loop_step [where nl = "sp_next_line timed_device", OF 1] lines_loop_step [where nl = "sp_next_line timed_device", OF 2] lines_loop_raise [where nl = "sp_next_line timed_device", OF 3] starts_with_def del: list.map)
  ultimately show ?thesis by (simp add: sp_readlinesuntil_def del: list.map)
qed

section \<open>OpenVPN sessions\<close>

text \<open>What a loop keeps, when every read keeps it.\<close>

definition keeps :: "('p \<Rightarrow> 'k) \<Rightarrow> ('p \<Rightarrow> 'r \<times> 'p) \<Rightarrow> bool" where
  "keeps K f = (\<forall>p. K (snd (f p)) = K p)"

definition keeps_opt :: "('p \<Rightarrow> 'k) \<Rightarrow> ('p \<Rightarrow> ('r \<times> 'p) option) \<Rightarrow> bool" where
  "keeps_opt K f = (\<forall>p y. f p = Some y \<longrightarrow> K (snd y) = K p)"

lemma keepsD: "keeps K f \<Longrightarrow> f p = (r, q) \<Longrightarrow> K q = K p"
  by (auto simp: keeps_def dest: spec [of _ p])

lemma keeps_optD: "keeps_opt K f \<Longrightarrow> f p = Some (r, q) \<Longrightarrow> K q = K p"
  by (auto simp: keeps_opt_def)

lemma marker_loop_keeps:
  assumes "keeps K rd"
  shows "keeps_opt K (marker_loop rd marker parts tail)"
proof -
  have "keeps K rd \<longrightarrow> K (snd y) = K p" if "marker_loop rd marker parts tail p = Some y" for p y
  proof (rule marker_loop.raw_induct [where P = "\<lambda>rd marker parts tail p y. keeps K rd \<longrightarrow> K (snd y) = K p", OF _ that])
    fix loop rd marker parts tail p y
    assume IH: "\<And>rd marker parts tail p y. loop rd marker parts tail p = Some y \<Longrightarrow> keeps K rd \<longrightarrow> K (snd y) = K p"
      and body: "(case rd p of (Inl e, p1) \<Rightarrow> Some (Inl e, p1)
      | (Inr char, p1) \<Rightarrow>
          if char = [] then Some (if marker \<noteq> None then Inl EOFError else Inr (concat parts), p1)
          else case marker of
               None \<Rightarrow> loop rd marker (parts @ [char]) tail p1
             | Some m \<Rightarrow>
                 if last_bytes (length m) (tail @ char) = m
                 then Some (Inr (cut_last (length m) (concat (parts @ [char]))), p1)
                 else loop rd marker (parts @ [char]) (last_bytes (length m) (tail @ char)) p1) = Some y"
    obtain r p1 where rd: "rd p = (r, p1)" by (rule prod.exhaust)
    show "keeps K rd \<longrightarrow> K (snd y) = K p"
      using body rd IH [of rd _ _ _ p1 y] keepsD [of K rd p r p1]
      by (cases y; cases r; cases marker) (auto split: if_splits)
  qed
  with assms show ?thesis by (simp add: keeps_opt_def)
qed

lemma text_line_keeps:
  assumes "keeps K rd"
  shows "keeps_opt K (text_line rd parts)"
proof -
  have "keeps K rd \<longrightarrow> K (snd y) = K p" if "text_line rd parts p = Some y" for p y
  proof (rule text_line.raw_induct [where P = "\<lambda>rd parts p y. keeps K rd \<longrightarrow> K (snd y) = K p", OF _ that])
    fix loop rd parts p y
    assume IH: "\<And>rd parts p y. loop rd parts p = Some y \<Longrightarrow> keeps K rd \<longrightarrow> K (snd y) = K p"
      and body: "(case rd p of (Inl e, p1) \<Rightarrow> Some (Inl e, p1)
      | (Inr char, p1) \<Rightarrow>
          if char = [] then Some (Inl EOFError, p1)
          else if char = [NL] then Some (ensure_text (rstrip_cr (concat parts)), p1)
               else loop rd (parts @ [char]) p1) = Some y"
    obtain r p1 where rd: "rd p = (r, p1)" by (rule prod.exhaust)
    show "keeps K rd \<longrightarrow> K (snd y) = K p"
      using body rd IH [of rd _ p1 y] keepsD [of K rd p r p1] by (cases y; cases r) (auto split: if_splits)
  qed
  with assms show ?thesis by (simp add: keeps_opt_def)
qed

lemma lines_loop_keeps:
  assumes "keeps_opt K nl"
  shows "keeps_opt K (lines_loop nl m parts)"
proof -
  have "keeps_opt K nl \<longrightarrow> K (snd y) = K p" if "lines_loop nl m parts p = Some y" for p y
  proof (rule lines_loop.raw_induct [where P = "\<lambda>nl m parts p y. keeps_opt K nl \<longrightarrow> K (snd y) = K p", OF _ that])
    fix loop nl m parts p y
    assume IH: "\<And>nl m parts p y. loop nl m parts p = Some y \<Longrightarrow> keeps_opt K nl \<longrightarrow> K (snd y) = K p"
      and body: "Option.bind (nl p) (\<lambda>(r, p1). case r of Inl e \<Rightarrow> Some (Inl e, p1)
        | Inr line \<Rightarrow> if find_sub m line \<noteq> None then Some (Inr (concat parts), p1) else loop nl m (parts @ [line]) p1) = Some y"
    then obtain r p1 where nl: "nl p = Some (r, p1)" by (auto simp: bind_eq_Some_conv)
    show "keeps_opt K nl \<longrightarrow> K (snd y) = K p"
      using body nl IH [of nl _ _ p1 y] keeps_optD [of K nl p r p1] by (cases y; cases r) (auto split: if_splits)
  qed
  with assms show ?thesis by (simp add: keeps_opt_def)
qed

text \<open>What no reader and no write changes: connected, a socket there, the number of sockets open.\<close>

definition vpn_books :: "'s vpn \<Rightarrow> bool \<times> bool \<times> nat" where
  "vpn_books v = (vp_connected v, vp_sock v \<noteq> None, vp_live v)"

lemma vp_with_keeps: "keeps vpn_books (vp_with f)"
  by (simp add: keeps_def vp_with_def vpn_books_def split: prod.splits)

lemma vp_call_keeps: "keeps vpn_books (vp_call f)"
  using vp_with_keeps by (auto simp: keeps_def vp_call_def split: option.splits)

lemma vp_settimeout_keeps: "keeps vpn_books (vp_settimeout timeout)"
  by (auto simp: keeps_def vp_settimeout_def vpn_books_def split: option.splits)

lemma vpn_readline_keeps: "keeps_opt vpn_books (vpn_readline dv)"
  unfolding vpn_readline_def [abs_def] vp_recv_def by (rule text_line_keeps [OF vp_call_keeps])

lemma keeps_opt_map: "keeps_opt K f \<Longrightarrow> keeps_opt K (\<lambda>p. map_option (\<lambda>(r, q). (g r, q)) (f p))"
  by (auto simp: keeps_opt_def)

lemma with_timeout_keeps:
  assumes "keeps_opt vpn_books loop"
  shows "keeps_opt vpn_books (with_timeout timeout loop)"
proof -
  have fin: "vpn_books (snd (and_finally x (vp_settimeout t))) = vpn_books (snd x)" for x :: "(pyerror + string) \<times> 'a vpn" and t
    by (auto simp: and_finally_def dest: keepsD [OF vp_settimeout_keeps] split: prod.splits sum.splits)
  have "vpn_books (snd x) = vpn_books v"
    if "(case (if timeout \<noteq> None then vp_settimeout timeout v else (Inr (), v)) of (Inl e, v) \<Rightarrow> Some (Inl e, v) | (Inr _, v) \<Rightarrow> loop v) = Some x"
    for v x
  proof -
    obtain r w where rw: "(if timeout \<noteq> None then vp_settimeout timeout v else (Inr (), v)) = (r, w)" by (rule prod.exhaust)
    then have "vpn_books w = vpn_books v"
      using keepsD [OF vp_settimeout_keeps, of timeout v r w] by (auto split: if_splits)
    moreover have "(case (r, w) of (Inl e, v) \<Rightarrow> Some (Inl e, v) | (Inr _, v) \<Rightarrow> loop v) = Some x"
      using that unfolding rw .
    ultimately show ?thesis using keeps_optD [OF assms, of w "fst x" "snd x"] by (cases r) auto
  qed
  note inner = this
  have "vpn_books (snd y) = vpn_books v" if "with_timeout timeout loop v = Some y" for v y
  proof (cases "vp_sock v")
    case None
    with that show ?thesis by (auto simp: with_timeout_def)
  next
    case (Some t)
    with that obtain x where x: "(case (if timeout \<noteq> None then vp_settimeout timeout v else (Inr (), v)) of
        (Inl e, v) \<Rightarrow> Some (Inl e, v) | (Inr _, v) \<Rightarrow> loop v) = Some x" and y: "y = and_finally x (vp_settimeout t)"
      unfolding with_timeout_def by (auto simp only: option.case map_option_eq_Some)
    show ?thesis unfolding y fin by (rule inner [OF x])
  qed
  then show ?thesis by (auto simp: keeps_opt_def)
qed

lemma vpn_readers_keep:
  "keeps_opt vpn_books (vpn_readlinesuntil dv data timeout)" "keeps_opt vpn_books (vpn_readuntil dv data timeout)"
proof -
  have "keeps_opt vpn_books (vpn_next_line dv)"
    unfolding vpn_next_line_def [abs_def] by (rule keeps_opt_map [OF vpn_readline_keeps])
  from with_timeout_keeps [OF lines_loop_keeps [OF this], of timeout data "[]"]
  show "keeps_opt vpn_books (vpn_readlinesuntil dv data timeout)" by (auto simp: keeps_opt_def vpn_readlinesuntil_def)
  have "keeps_opt vpn_books (marker_loop (vp_recv dv) m [] [])" for m
    unfolding vp_recv_def by (rule marker_loop_keeps [OF vp_call_keeps])
  from with_timeout_keeps [OF keeps_opt_map [OF this]]
  show "keeps_opt vpn_books (vpn_readuntil dv data timeout)" by (auto simp: keeps_opt_def vpn_readuntil_def)
qed

lemma vpn_writeline_keeps: "keeps vpn_books (vpn_writeline dv data)"
proof -
  have "vpn_books (snd (vpn_writeline dv data v)) = vpn_books v" for v
  proof -
    obtain r w where w: "vp_call (\<lambda>_. dv_write dv (data @ VPN_EOL)) v = (r, w)" by (rule prod.exhaust)
    with keepsD [OF vp_call_keeps w] show ?thesis by (cases r) (simp_all add: vpn_writeline_def)
  qed
  then show ?thesis by (simp add: keeps_def)
qed

lemma vpn_kill_keeps: "keeps_opt vpn_books (vpn_kill dv client)"
proof -
  have "vpn_books (snd y) = vpn_books v" if "vpn_kill dv client v = Some y" for v y
  proof -
    obtain r w where w: "vpn_writeline dv (''kill '' @ client) v = (r, w)" by (rule prod.exhaust)
    with that keepsD [OF vpn_writeline_keeps w] vpn_readline_keeps [of dv] show ?thesis
      by (cases r) (auto simp: vpn_kill_def keeps_opt_def)
  qed
  then show ?thesis by (simp add: keeps_opt_def)
qed

text \<open>The invariant of a session: connected exactly with a socket, and no other socket open.\<close>

definition vpn_ok :: "'s vpn \<Rightarrow> bool" where
  "vpn_ok v \<longleftrightarrow> vp_connected v = (vp_sock v \<noteq> None) \<and> vp_live v = (if vp_sock v = None then 0 else 1)"

definition closes :: "'s device \<Rightarrow> bool" where "closes dv \<longleftrightarrow> (\<forall>d. \<exists>d'. dv_close dv d = (Inr (), d'))"

lemma vpn_ok_books: "vpn_books w = vpn_books v \<Longrightarrow> vpn_ok w = vpn_ok v"
  by (auto simp: vpn_books_def vpn_ok_def split: if_splits)

lemma vpn_close_ok:
  assumes "closes dv" "vp_live v = (if vp_sock v = None then 0 else 1)"
  obtains d where "vpn_close dv v = (Inr (), v\<lparr>vp_connected := False, vp_sock := None, vp_dev := d, vp_live := 0\<rparr>)"
proof -
  obtain d where "dv_close dv (vp_dev v) = (Inr (), d)" using assms(1) by (auto simp: closes_def)
  then show ?thesis using assms(2) that [of "vp_dev v"] that [of d]
    by (cases "vp_sock v"; cases v) (auto simp: vpn_close_def vp_with_def)
qed

lemma vpn_open_ok:
  assumes "closes dv" "vpn_ok v" "vpn_open dv v = Some (r, w)"
  shows "vpn_ok w \<and> vp_connected w = (\<not> isl r)"
proof (cases "vp_connected v")
  case True
  then show ?thesis using assms by (auto simp: vpn_open_def)
next
  case False
  then have v: "vp_sock v = None" "vp_live v = 0" using assms(2) by (auto simp: vpn_ok_def split: if_splits)
  obtain r0 d0 where o: "dv_open dv None (vp_dev v) = (r0, d0)" by (rule prod.exhaust)
  define v1 where "v1 = v\<lparr>vp_dev := d0, vp_sock := Some None, vp_live := 1\<rparr>"
  define x where "x = and_then (if vp_timeout v1 \<noteq> None then vp_settimeout (vp_timeout v1) v1 else (Inr (), v1))
      (\<lambda>_ v. vp_call (\<lambda>t. dv_connect dv t (vp_host v) (vp_port v)) v)"
  have failed: "vpn_ok w \<and> vp_connected w = (\<not> isl r)"
    if "(r, w) = and_finally (Inl e, u) (vpn_close dv)" "vpn_books u = vpn_books v1" for e u
  proof -
    have "vp_live u = (if vp_sock u = None then 0 else 1)" using that(2) by (auto simp: vpn_books_def v1_def)
    from vpn_close_ok [OF assms(1) this] obtain d where
      "vpn_close dv u = (Inr (), u\<lparr>vp_connected := False, vp_sock := None, vp_dev := d, vp_live := 0\<rparr>)" .
    with that(1) show ?thesis by (auto simp: vpn_ok_def)
  qed
  show ?thesis
  proof (cases r0)
    case (Inl e)
    then show ?thesis using assms(3) False o v by (auto simp: vpn_open_def vp_with_def vpn_ok_def)
  next
    case (Inr u0)
    obtain rx u where x: "x = (rx, u)" by (rule prod.exhaust)
    have u: "vpn_books u = vpn_books v1"
    proof -
      obtain rt vt where t: "(if vp_timeout v1 \<noteq> None then vp_settimeout (vp_timeout v1) v1 else (Inr (), v1)) = (rt, vt)"
        by (rule prod.exhaust)
      then have "vpn_books vt = vpn_books v1"
        using keepsD [OF vp_settimeout_keeps, of "vp_timeout v1" v1 rt vt] by (auto split: if_splits)
      moreover have "vpn_books u = vpn_books vt"
        using x keepsD [OF vp_call_keeps, of _ vt rx u] unfolding x_def t by (cases rt) auto
      ultimately show ?thesis by simp
    qed
    have eq: "vpn_open dv v = (case (rx, u) of (Inl e, v) \<Rightarrow> Some (and_finally (Inl e, v) (vpn_close dv))
        | (Inr _, v) \<Rightarrow> map_option (\<lambda>(r, v). case r of Inl e \<Rightarrow> and_finally (Inl e, v) (vpn_close dv)
             | Inr _ \<Rightarrow> (Inr (), v\<lparr>vp_connected := True\<rparr>)) (vpn_readline dv v))"
      unfolding x [symmetric] x_def vpn_open_def using False Inr o v by (simp add: vp_with_def v1_def Let_def)
    show ?thesis
    proof (cases rx)
      case (Inl e)
      then have "(r, w) = and_finally (Inl e, u) (vpn_close dv)" using assms(3) eq by simp
      then show ?thesis by (rule failed [OF _ u])
    next
      case (Inr a)
      with assms(3) eq obtain rl ul where l: "vpn_readline dv u = Some (rl, ul)"
        and rw: "(r, w) = (case rl of Inl e \<Rightarrow> and_finally (Inl e, ul) (vpn_close dv) | Inr _ \<Rightarrow> (Inr (), ul\<lparr>vp_connected := True\<rparr>))"
        by auto
      have ul: "vpn_books ul = vpn_books v1" using keeps_optD [OF vpn_readline_keeps l] u by simp
      show ?thesis
      proof (cases rl)
        case (Inl e)
        then have "(r, w) = and_finally (Inl e, ul) (vpn_close dv)" using rw by simp
        then show ?thesis by (rule failed [OF _ ul])
      next
        case (Inr s)
        then show ?thesis using rw ul by (auto simp: vpn_ok_def vpn_books_def v1_def)
      qed
    qed
  qed
qed

lemma vpn_do_ok:
  assumes "closes dv" "vpn_ok v" "vpn_do dv c v = Some w"
  shows "vpn_ok w"
proof (cases c)
  case Open
  then show ?thesis using assms vpn_open_ok [OF assms(1,2)] by auto
next
  case Close
  from vpn_close_ok [OF assms(1), of v] assms(2) obtain d where
    "vpn_close dv v = (Inr (), v\<lparr>vp_connected := False, vp_sock := None, vp_dev := d, vp_live := 0\<rparr>)"
    by (auto simp: vpn_ok_def)
  then show ?thesis using assms(3) Close by (auto simp: vpn_ok_def)
next
  case (WriteLine data)
  then show ?thesis using assms(2,3) vpn_writeline_keeps [of dv data] vpn_ok_books by (auto simp: keeps_def)
next
  case ReadLine
  then show ?thesis using assms(2,3) keeps_optD [OF vpn_readline_keeps] vpn_ok_books by fastforce
next
  case (ReadLinesUntil data timeout)
  then show ?thesis using assms(2,3) keeps_optD [OF vpn_readers_keep(1)] vpn_ok_books by fastforce
next
  case (ReadUntil data timeout)
  then show ?thesis using assms(2,3) keeps_optD [OF vpn_readers_keep(2)] vpn_ok_books by fastforce
next
  case (Kill client)
  then show ?thesis using assms(2,3) keeps_optD [OF vpn_kill_keeps] vpn_ok_books by fastforce
qed

lemma vpn_session_ok: "closes dv \<Longrightarrow> vpn_ok v \<Longrightarrow> vpn_session dv cs v = Some w \<Longrightarrow> vpn_ok w"
proof (induction cs arbitrary: v)
  case (Cons c cs)
  then obtain u where "vpn_do dv c v = Some u" "vpn_session dv cs u = Some w" by (auto simp: bind_eq_Some_conv)
  with Cons show ?case using vpn_do_ok by blast
qed simp

text \<open>
  C33: After any sequence of calls of an OpenVPN session, whatever the network answers and whichever calls fail
  (closing a socket apart), the session is connected exactly when it has a socket, and no other socket is open.
  \<^verbatim>\<open>open\<close> returns connected or raises with its socket closed; after \<^verbatim>\<open>close\<close> nothing is open, and a write raises
  \<^verbatim>\<open>AttributeError\<close> until the next \<^verbatim>\<open>open\<close>.
\<close>

theorem vpn_session_books:
  assumes "closes dv" "vpn_init dv host port timeout start_open d = Some (r0, v)" "vpn_session dv cs v = Some w"
  shows "vpn_ok w \<and>
    (\<forall>r w'. vpn_open dv w = Some (r, w') \<longrightarrow> vpn_ok w' \<and> vp_connected w' = (\<not> isl r) \<and> vp_live w' = (if isl r then 0 else 1)) \<and>
    (\<exists>w'. vpn_close dv w = (Inr (), w') \<and> \<not> vp_connected w' \<and> vp_live w' = 0 \<and>
      (\<forall>data. vpn_writeline dv data w' = (Inl AttributeError, w')))"
proof -
  have "vpn_ok v"
  proof (cases start_open)
    case True
    then have "vpn_open dv \<lparr>vp_host = host, vp_port = port, vp_timeout = timeout, vp_connected = False, vp_sock = None,
        vp_dev = d, vp_live = 0\<rparr> = Some (r0, v)" using assms(2) by (simp add: vpn_init_def)
    from vpn_open_ok [OF assms(1) _ this] show ?thesis by (simp add: vpn_ok_def)
  qed (use assms(2) in \<open>auto simp: vpn_init_def vpn_ok_def\<close>)
  from vpn_session_ok [OF assms(1) this assms(3)] have w: "vpn_ok w" .
  then obtain d' where c: "vpn_close dv w = (Inr (), w\<lparr>vp_connected := False, vp_sock := None, vp_dev := d', vp_live := 0\<rparr>)"
    using vpn_close_ok [OF assms(1), of w] by (auto simp: vpn_ok_def)
  have "vpn_ok w' \<and> vp_connected w' = (\<not> isl r) \<and> vp_live w' = (if isl r then 0 else 1)"
    if "vpn_open dv w = Some (r, w')" for r w'
    using vpn_open_ok [OF assms(1) w that] by (auto simp: vpn_ok_def)
  with w c show ?thesis by (auto simp: vpn_writeline_def vp_call_def)
qed

text \<open>A server that greets, then closes: the first \<^verbatim>\<open>open\<close> works, one after the end of the stream fails.\<close>

definition demo_vpn :: "string \<Rightarrow> bool \<Rightarrow> string vpn" where
  "demo_vpn d on = \<lparr>vp_host = ''h'', vp_port = 1, vp_timeout = Some 3, vp_connected = on,
     vp_sock = (if on then Some (Some 3) else None), vp_dev = d, vp_live = (if on then 1 else 0)\<rparr>"

lemma string_feeds: "feeds (dv_read string_device t 1) bs (bs @ rest) rest"
  by (induction bs) (auto simp: string_device_def)

lemma string_line: "NL \<notin> set l \<Longrightarrow> vp_sock v = Some t \<Longrightarrow> vp_dev v = l @ NL # rest \<Longrightarrow>
    vpn_readline string_device v = Some (ensure_text (rstrip_cr l), v\<lparr>vp_dev := rest\<rparr>)"
  using text_line_feeds [OF vp_feeds [of v t string_device "l @ [NL]" rest], of "[]"] string_feeds [of t "l @ [NL]" rest]
  by (simp add: vpn_readline_def)

lemma string_end: "vp_sock v = Some t \<Longrightarrow> vp_dev v = [] \<Longrightarrow> vpn_readline string_device v = Some (Inl EOFError, v)"
  unfolding vpn_readline_def
  by (subst text_line.simps) (cases v, auto simp: vp_recv_def vp_call_def vp_with_def string_device_def)

lemma demo_vpn_runs:
  "vpn_init string_device ''h'' 1 (Some 3) True (''hello'' @ [NL]) = Some (Inr (), demo_vpn [] True)"
  "vpn_session string_device [WriteLine ''x'', Close] (demo_vpn [] True) = Some (demo_vpn [] False)"
  "vpn_open string_device (demo_vpn [] False) = Some (Inl EOFError, demo_vpn [] False)"
proof -
  note ops = vpn_init_def vpn_open_def vp_with_def vp_call_def vp_settimeout_def vpn_close_def vpn_writeline_def
    demo_vpn_def Let_def and_finally_def
  have dv: "dv_open string_device t d = (Inr (), d)" "dv_connect string_device t h p d = (Inr (), d)"
    "dv_close string_device d = (Inr (), d)" "dv_write string_device b d = (Inr (length b), d)" for t h p d b
    by (simp_all add: string_device_def)
  have hello: "ensure_text (rstrip_cr ''hello'') = Inr ''hello''" by code_simp
  show "vpn_init string_device ''h'' 1 (Some 3) True (''hello'' @ [NL]) = Some (Inr (), demo_vpn [] True)"
    using string_line [of "''hello''" _ "Some 3" "[]"] by (simp add: ops dv hello)
  show "vpn_session string_device [WriteLine ''x'', Close] (demo_vpn [] True) = Some (demo_vpn [] False)"
    by (simp add: ops dv)
  show "vpn_open string_device (demo_vpn [] False) = Some (Inl EOFError, demo_vpn [] False)"
    by (simp add: ops dv string_end [of _ "Some 3"])
qed

theorem vpn_session_books_witness:
  "vpn_session string_device [WriteLine ''x'', Close] (demo_vpn [] True) = Some (demo_vpn [] False) \<and>
   vpn_ok (demo_vpn [] False) \<and> vp_live (demo_vpn [] True) = 1 \<and>
   vpn_open string_device (demo_vpn [] False) = Some (Inl EOFError, demo_vpn [] False) \<and> vp_live (demo_vpn [] False) = 0"
proof -
  have "closes string_device" by (simp add: closes_def string_device_def)
  from vpn_session_books [OF this demo_vpn_runs(1,2)] demo_vpn_runs show ?thesis by (auto simp: demo_vpn_def)
qed

end
