(* ===== verification/Mailqueue.thy ===== *)
theory Mailqueue
  imports Pystr "HOL-Library.Multiset"
begin

text \<open>
  The log handlers that collect records and mail them, \<^verbatim>\<open>sonicprobe/sp_logging/QueueSMTPHandler.py\<close> and
  \<^verbatim>\<open>sonicprobe/sp_logging/handlers.py\<close>. The mail server (\<^verbatim>\<open>smtplib\<close>), the clock and the formatting of a record
  are parameters. Of the first class, whose methods lock, threads interleave between taking the queue and
  each mail; of the second, which does not lock, also between copying the queue and renewing it.
\<close>

section \<open>The mail server\<close>

text \<open>What an \<^verbatim>\<open>except Exception\<close> catches, and what it does not.\<close>

datatype raised = Exc nat | BaseExc nat

datatype smtp_request = Connect string int "int option" | Ehlo | StartTls "string list" | Login string string
  | SendMail string "string list" string | Quit | CloseSmtp

type_synonym 'w mailer = "smtp_request \<Rightarrow> 'w \<Rightarrow> (raised + unit) \<times> 'w"

text \<open>The attributes of \<^verbatim>\<open>SMTPHandler\<close>; \<open>mh_timeout\<close>, \<open>mh_login\<close>, \<open>mh_secure\<close> only in \<^verbatim>\<open>handlers.py\<close>.\<close>

record mail_config =
  mh_host :: string
  mh_port :: "int option"
  mh_from :: string
  mh_to :: "string list"
  mh_logger :: "string option"
  mh_timeout :: "int option"
  mh_login :: "(string \<times> string) option"
  mh_secure :: "string list option"

definition SMTP_PORT :: int where "SMTP_PORT = 25"

definition mail_port :: "mail_config \<Rightarrow> int" where
  "mail_port c = (case mh_port c of None \<Rightarrow> SMTP_PORT | Some p \<Rightarrow> if p = 0 then SMTP_PORT else p)"

definition getSubject :: "mail_config \<Rightarrow> string \<Rightarrow> string" where
  "getSubject c level = (case mh_logger c of
     Some n \<Rightarrow> if n = [] then level @ '' Event'' else ''['' @ n @ ''] '' @ level @ '' Event''
   | None \<Rightarrow> level @ '' Event'')"

definition CRLF :: string where "CRLF = [CHR 0x0D, CHR 0x0A]"

definition mail_text :: "mail_config \<Rightarrow> string \<Rightarrow> string \<Rightarrow> string \<Rightarrow> string" where
  "mail_text c level date body = ''From: '' @ mh_from c @ CRLF @ ''To: '' @ join '','' (mh_to c) @ CRLF @
     ''Subject: '' @ getSubject c level @ CRLF @ ''Date: '' @ date @ CRLF @ CRLF @ body"

text \<open>The lines \<^verbatim>\<open>"%s\n" % self.format(record)\<close>, put together.\<close>

fun mail_body :: "('r \<Rightarrow> raised + string) \<Rightarrow> 'r list \<Rightarrow> raised + string" where
  "mail_body fmt [] = Inr []"
| "mail_body fmt (r # rs) = bind_sum (fmt r) (\<lambda>s. bind_sum (mail_body fmt rs) (\<lambda>rest. Inr (s @ [CHR 0x0A] @ rest)))"

text \<open>Requests in turn, the first error ends them.\<close>

fun ask_mail :: "'w mailer \<Rightarrow> smtp_request list \<Rightarrow> 'w \<Rightarrow> (raised + unit) \<times> 'w" where
  "ask_mail srv [] w = (Inr (), w)"
| "ask_mail srv (q # qs) w = (case srv q w of (Inl e, w1) \<Rightarrow> (Inl e, w1) | (Inr _, w1) \<Rightarrow> ask_mail srv qs w1)"

section \<open>One mail\<close>

text \<open>What became of a group of records: sent, given to \<^verbatim>\<open>handleError\<close>, or neither.\<close>

datatype mail_outcome = Sent string | Reported | Lost

type_synonym 'w quit_action = "'w mailer \<Rightarrow> 'w \<Rightarrow> raised option \<times> 'w"

text \<open>The \<^verbatim>\<open>finally\<close> of the two classes.\<close>

definition quit_or_close :: "'w quit_action" where
  "quit_or_close srv w = (case srv Quit w of
     (Inr _, w1) \<Rightarrow> (None, w1)
   | (Inl (BaseExc n), w1) \<Rightarrow> (Some (BaseExc n), w1)
   | (Inl (Exc _), w1) \<Rightarrow> (case srv CloseSmtp w1 of (Inr _, w2) \<Rightarrow> (None, w2) | (Inl e, w2) \<Rightarrow> (Some e, w2)))"

definition quit_only :: "'w quit_action" where
  "quit_only srv w = (case srv Quit w of (Inr _, w1) \<Rightarrow> (None, w1) | (Inl e, w1) \<Rightarrow> (Some e, w1))"

definition failed_mail :: "raised \<Rightarrow> mail_outcome \<times> raised option" where
  "failed_mail e = (case e of Exc _ \<Rightarrow> (Reported, None) | BaseExc _ \<Rightarrow> (Lost, Some e))"

text \<open>What \<^verbatim>\<open>handlers.py\<close> asks between connecting and sending; the other class asks nothing.\<close>

definition login_requests :: "mail_config \<Rightarrow> smtp_request list" where
  "login_requests c = (case mh_login c of
     None \<Rightarrow> []
   | Some (user, password) \<Rightarrow> if user = [] then [] else
       (case mh_secure c of None \<Rightarrow> [] | Some args \<Rightarrow> [Ehlo, StartTls args, Ehlo]) @ [Login user password])"

text \<open>The body of the loop of \<^verbatim>\<open>purge\<close> on the records of one level: the outcome, and what it raises.\<close>

definition send_group :: "'w quit_action \<Rightarrow> smtp_request list \<Rightarrow> mail_config \<Rightarrow> ('r \<Rightarrow> raised + string) \<Rightarrow> 'w mailer \<Rightarrow>
    ('w \<Rightarrow> string) \<Rightarrow> string \<Rightarrow> 'r list \<Rightarrow> 'w \<Rightarrow> (mail_outcome \<times> raised option) \<times> 'w" where
  "send_group quit login c fmt srv date level rs w = (case mail_body fmt rs of
     Inl e \<Rightarrow> ((Lost, Some e), w)
   | Inr body \<Rightarrow>
       if rs = [] then ((Sent [], None), w)
       else (case srv (Connect (mh_host c) (mail_port c) (mh_timeout c)) w of
           (Inl e, w1) \<Rightarrow> (failed_mail e, w1)
         | (Inr _, w1) \<Rightarrow>
             (let text = mail_text c level (date w1) body;
                  (r, w2) = ask_mail srv (login @ [SendMail (mh_from c) (mh_to c) text]) w1;
                  (out, err) = (case r of Inr _ \<Rightarrow> (Sent text, None) | Inl e \<Rightarrow> failed_mail e)
              in case quit srv w2 of
                 (None, w3) \<Rightarrow> ((out, err), w3)
               | (Some e, w3) \<Rightarrow> ((out, Some e), w3))))"

section \<open>The handler that locks\<close>

text \<open>
  \<open>mq_purges\<close>: the threads in \<^verbatim>\<open>purge\<close>, with the groups they still have to send. \<open>mq_emitted\<close>, \<open>mq_taken\<close> and
  \<open>mq_outcomes\<close> record what happened: the records accepted, the groups taken from the queue, their outcomes.
\<close>

type_synonym 'r mail_group = "string \<times> 'r list"

record ('r, 'w) mailq =
  mq_queue :: "(string, 'r list) dict"
  mq_purges :: "(tid, 'r mail_group list) dict"
  mq_world :: 'w
  mq_emitted :: "(string \<times> 'r) list"
  mq_taken :: "'r mail_group list"
  mq_outcomes :: "('r mail_group \<times> mail_outcome) list"

definition mq_init :: "'w \<Rightarrow> ('r, 'w) mailq" where
  "mq_init w = \<lparr>mq_queue = [], mq_purges = [], mq_world = w, mq_emitted = [], mq_taken = [], mq_outcomes = []\<rparr>"

definition mq_isEmpty :: "('r, 'w) mailq \<Rightarrow> bool" where "mq_isEmpty s = (mq_queue s = [])"

definition emit :: "string \<Rightarrow> 'r \<Rightarrow> ('r, 'w) mailq \<Rightarrow> ('r, 'w) mailq" where
  "emit level r s = s\<lparr>mq_queue := dset (mq_queue s) level (dgetd (mq_queue s) level [] @ [r]),
     mq_emitted := mq_emitted s @ [(level, r)]\<rparr>"

text \<open>\<^verbatim>\<open>purge\<close>: the locked part, and one turn of the loop.\<close>

definition purge_take :: "tid \<Rightarrow> ('r, 'w) mailq \<Rightarrow> ('r, 'w) mailq" where
  "purge_take t s = s\<lparr>mq_queue := [], mq_purges := dset (mq_purges s) t (mq_queue s), mq_taken := mq_taken s @ mq_queue s\<rparr>"

definition purge_next :: "mail_config \<Rightarrow> ('r \<Rightarrow> raised + string) \<Rightarrow> 'w mailer \<Rightarrow> ('w \<Rightarrow> string) \<Rightarrow> tid \<Rightarrow>
    ('r, 'w) mailq \<Rightarrow> raised option \<times> ('r, 'w) mailq" where
  "purge_next c fmt srv date t s = (case dget (mq_purges s) t of
     None \<Rightarrow> (None, s)
   | Some [] \<Rightarrow> (None, s\<lparr>mq_purges := ddel (mq_purges s) t\<rparr>)
   | Some ((level, rs) # gs) \<Rightarrow>
       (case send_group quit_or_close [] (c\<lparr>mh_timeout := None\<rparr>) fmt srv date level rs (mq_world s) of
          ((out, None), w) \<Rightarrow> (None, s\<lparr>mq_world := w, mq_purges := dset (mq_purges s) t gs,
              mq_outcomes := mq_outcomes s @ [((level, rs), out)]\<rparr>)
        | ((out, Some e), w) \<Rightarrow> (Some e, s\<lparr>mq_world := w, mq_purges := ddel (mq_purges s) t,
              mq_outcomes := mq_outcomes s @ ((level, rs), out) # map (\<lambda>g. (g, Lost)) gs\<rparr>)))"

inductive mail_step :: "mail_config \<Rightarrow> ('r \<Rightarrow> raised + string) \<Rightarrow> 'w mailer \<Rightarrow> ('w \<Rightarrow> string) \<Rightarrow>
    ('r, 'w) mailq \<Rightarrow> ('r, 'w) mailq \<Rightarrow> bool" for c fmt srv date where
  step_emit: "mail_step c fmt srv date s (emit level r s)"
| step_take: "\<not> dhas (mq_purges s) t \<Longrightarrow> mail_step c fmt srv date s (purge_take t s)"
| step_next: "dhas (mq_purges s) t \<Longrightarrow> mail_step c fmt srv date s (snd (purge_next c fmt srv date t s))"

text \<open>A whole \<^verbatim>\<open>purge\<close> by one thread, nobody else running.\<close>

fun purge_groups :: "'w quit_action \<Rightarrow> smtp_request list \<Rightarrow> mail_config \<Rightarrow> ('r \<Rightarrow> raised + string) \<Rightarrow> 'w mailer \<Rightarrow>
    ('w \<Rightarrow> string) \<Rightarrow> 'r mail_group list \<Rightarrow> 'w \<Rightarrow> (mail_outcome list \<times> raised option) \<times> 'w" where
  "purge_groups quit login c fmt srv date [] w = (([], None), w)"
| "purge_groups quit login c fmt srv date ((level, rs) # gs) w =
     (case send_group quit login c fmt srv date level rs w of
        ((out, Some e), w1) \<Rightarrow> ((out # map (\<lambda>_. Lost) gs, Some e), w1)
      | ((out, None), w1) \<Rightarrow> (case purge_groups quit login c fmt srv date gs w1 of
            ((outs, err), w2) \<Rightarrow> ((out # outs, err), w2)))"

section \<open>The handler without a lock\<close>

text \<open>
  The lists of records are objects: the copy of the queue that \<^verbatim>\<open>purge\<close> makes shares them. \<open>lh_lists\<close> is the
  heap of lists, \<open>lh_queues\<close> the attribute \<^verbatim>\<open>queues\<close>, by level.
\<close>

record 'r loghandler =
  lh_lists :: "'r list list"
  lh_queues :: "(string, nat) dict"

definition lh_isEmpty :: "'r loghandler \<Rightarrow> bool" where "lh_isEmpty h = (lh_queues h = [])"

definition lh_emit :: "string \<Rightarrow> 'r \<Rightarrow> 'r loghandler \<Rightarrow> 'r loghandler" where
  "lh_emit level r h =
     (let h = (if dhas (lh_queues h) level then h
               else h\<lparr>lh_lists := lh_lists h @ [[]], lh_queues := dset (lh_queues h) level (length (lh_lists h))\<rparr>)
      in case dget (lh_queues h) level of
           None \<Rightarrow> h
         | Some i \<Rightarrow> h\<lparr>lh_lists := (lh_lists h)[i := lh_lists h ! i @ [r]]\<rparr>)"

text \<open>\<^verbatim>\<open>queues = dict(self.queues)\<close>, then \<^verbatim>\<open>self.queues = {}\<close>, then the mails.\<close>

definition lh_copy :: "'r loghandler \<Rightarrow> (string, nat) dict" where "lh_copy h = lh_queues h"

definition lh_renew :: "'r loghandler \<Rightarrow> 'r loghandler" where "lh_renew h = h\<lparr>lh_queues := []\<rparr>"

definition lh_groups :: "(string, nat) dict \<Rightarrow> 'r loghandler \<Rightarrow> 'r mail_group list" where
  "lh_groups queues h = map (\<lambda>(level, i). (level, lh_lists h ! i)) queues"

definition lh_purge :: "mail_config \<Rightarrow> ('r \<Rightarrow> raised + string) \<Rightarrow> 'w mailer \<Rightarrow> ('w \<Rightarrow> string) \<Rightarrow> 'r loghandler \<Rightarrow> 'w \<Rightarrow>
    ((mail_outcome list \<times> raised option) \<times> 'w) \<times> 'r loghandler" where
  "lh_purge c fmt srv date h w =
     (if lh_isEmpty h then ((([], None), w), h)
      else (let queues = lh_copy h; h = lh_renew h
            in (purge_groups quit_only (login_requests c) c fmt srv date (lh_groups queues h) w, h)))"

end
