(* ===== verification/Mailqueue_Properties.thy ===== *)
theory Mailqueue_Properties
  imports Mailqueue
begin

text \<open>
  What the mailing log handlers do with the records they accept: in every interleaving of the locking
  handler each record is in one place and in its order; where the other handler loses records.
\<close>

section \<open>Dictionaries as collections\<close>





section \<open>The locking handler\<close>





lemma mail_text_timeout [simp]: "mail_text (c\<lparr>mh_timeout := t\<rparr>) level d body = mail_text c level d body"
  by (simp add: mail_text_def getSubject_def)




















section \<open>What gets lost\<close>

text \<open>
  In \<^verbatim>\<open>handlers.py\<close>, a record of a new level that arrives between the copy of the queue and its renewal is in
  neither.
\<close>

lemma log_race_loses:
  "let h0 = lh_emit ''ERROR'' ''a'' \<lparr>lh_lists = [], lh_queues = []\<rparr>; queues = lh_copy h0;
       h1 = lh_renew (lh_emit ''INFO'' ''b'' h0)
   in lh_groups queues h1 = [(''ERROR'', [''a''])] \<and> lh_isEmpty h1"
  by (simp add: lh_emit_def lh_copy_def lh_renew_def lh_groups_def lh_isEmpty_def Let_def dget_Cons dhas_Cons dset_Cons)

text \<open>There, an error of \<^verbatim>\<open>quit\<close> ends the purge: the mails of the other levels are neither sent nor reported.\<close>

lemma log_quit_loses:
  assumes "srv = (\<lambda>q w. (if q = Quit then Inl (Exc 0) else Inr (), w))" "ga = (''ERROR'', [''a''])" "gb = (''INFO'', [''b''])"
  shows "\<exists>m. purge_groups quit_only [] c Inr srv date [ga, gb] w = (([Sent m, Lost], Some (Exc 0)), w)"
    "\<exists>m n. purge_groups quit_or_close [] c Inr srv date [ga, gb] w = (([Sent m, Sent n], None), w)"
  using assms by (auto simp: send_group_def Let_def bind_sum_simps quit_only_def quit_or_close_def)

text \<open>In both, a record that cannot be formatted ends the purge.\<close>

lemma log_format_loses:
  assumes "fmt = (\<lambda>r. if r = ''bad'' then Inl (Exc 1) else Inr r)" "ga = (''ERROR'', [''bad''])" "gb = (''INFO'', [''b''])"
  shows "purge_groups quit_or_close [] c fmt srv date [ga, gb] w = (([Lost, Lost], Some (Exc 1)), w)"
  using assms by (simp add: send_group_def bind_sum_simps)

end
