(* ===== verification/Gencert.thy ===== *)
theory Gencert
  imports Urisup_Properties "HOL-Library.Word"
begin

text \<open>
  Certificate requests: the settings and the file export of \<^verbatim>\<open>sonicprobe/libs/gencert.py\<close> (class \<^verbatim>\<open>GenCert\<close>), and
  \<^verbatim>\<open>sonicprobe/libs/gencert_extensions.py\<close>, which turns the options of a request into X.509 extensions. The
  cryptography packages are a parameter: what their constructors refuse, and keys and digests they give.
\<close>

unbundle bit_operations_syntax

section \<open>Settings\<close>

definition DIGEST :: "string list" where
  "DIGEST = [''md2'', ''md5'', ''mdc2'', ''rmd160'', ''sha'', ''sha1'', ''sha224'', ''sha256'', ''sha384'', ''sha512'']"

definition X509_TYPE_NAMES :: "string list" where
  "X509_TYPE_NAMES = [''basicConstraints'', ''keyUsage'', ''extendedKeyUsage'', ''subjectAltName'', ''nsCertType'']"

datatype crypto_type = TYPE_RSA | TYPE_DSA

record gencert =
  gc_bits :: int
  gc_crypto_type :: crypto_type
  gc_digest_type :: string
  gc_notbefore_days :: int
  gc_notafter_days :: int

definition set_bits :: "pyval \<Rightarrow> gencert \<Rightarrow> pyerror + gencert" where
  "set_bits bits g = (case bits of
     VInt n \<Rightarrow> if n \<le> 0 then Inl (ValueError ''Invalid bits'') else Inr (g\<lparr>gc_bits := n\<rparr>)
   | _ \<Rightarrow> Inl (ValueError ''Invalid bits''))"

text \<open>The constants of the package are integers, \<open>rsa\<close> and \<open>dsa\<close>.\<close>

definition set_crypto_type :: "int \<Rightarrow> int \<Rightarrow> pyval \<Rightarrow> gencert \<Rightarrow> pyerror + gencert" where
  "set_crypto_type rsa dsa xtype g =
     (if xtype = VInt rsa \<or> xtype = VStr ''rsa'' then Inr (g\<lparr>gc_crypto_type := TYPE_RSA\<rparr>)
      else if xtype = VInt dsa \<or> xtype = VStr ''dsa'' then Inr (g\<lparr>gc_crypto_type := TYPE_DSA\<rparr>)
      else Inl (ValueError ''Invalid crypto type''))"

definition set_digest_type :: "string \<Rightarrow> gencert \<Rightarrow> pyerror + gencert" where
  "set_digest_type digest g =
     (if digest \<notin> set DIGEST then Inl (ValueError ''Invalid digest type'') else Inr (g\<lparr>gc_digest_type := digest\<rparr>))"

text \<open>A number of days, as an integer or in digits; \<^verbatim>\<open>str(True)\<close> has no digits.\<close>

definition days_value :: "pyval \<Rightarrow> int option" where
  "days_value days = (case days of
     VInt n \<Rightarrow> if n < 0 then None else Some n
   | VStr s \<Rightarrow> if s \<noteq> [] \<and> list_all is_digit s then py_int s else None
   | _ \<Rightarrow> None)"

definition set_notbefore_days :: "pyval \<Rightarrow> gencert \<Rightarrow> pyerror + gencert" where
  "set_notbefore_days days g = (case days_value days of
     None \<Rightarrow> Inl (ValueError ''Invalid days for notbefore'') | Some n \<Rightarrow> Inr (g\<lparr>gc_notbefore_days := n\<rparr>))"

definition set_notafter_days :: "pyval \<Rightarrow> gencert \<Rightarrow> pyerror + gencert" where
  "set_notafter_days days g = (case days_value days of
     None \<Rightarrow> Inl (ValueError ''Invalid days for notafter'') | Some n \<Rightarrow> Inr (g\<lparr>gc_notafter_days := n\<rparr>))"

text \<open>A setting that is not given keeps its default.\<close>

definition unless_None :: "pyval \<Rightarrow> (pyval \<Rightarrow> gencert \<Rightarrow> pyerror + gencert) \<Rightarrow> gencert \<Rightarrow> pyerror + gencert" where
  "unless_None v set_it g = (if v = VNone then Inr g else set_it v g)"

definition gencert_new :: "int \<Rightarrow> int \<Rightarrow> pyval \<Rightarrow> pyval \<Rightarrow> string option \<Rightarrow> pyval \<Rightarrow> pyval \<Rightarrow> pyerror + gencert" where
  "gencert_new rsa dsa bits xtype digest notbefore notafter =
     bind_sum (unless_None bits set_bits \<lparr>gc_bits = 2048, gc_crypto_type = TYPE_RSA, gc_digest_type = ''sha256'',
         gc_notbefore_days = 0, gc_notafter_days = 365\<rparr>) (\<lambda>g.
     bind_sum (unless_None xtype (set_crypto_type rsa dsa) g) (\<lambda>g.
     bind_sum (case digest of None \<Rightarrow> Inr g | Some d \<Rightarrow> set_digest_type d g) (\<lambda>g.
     bind_sum (unless_None notbefore set_notbefore_days g) (unless_None notafter set_notafter_days))))"

section \<open>Exports\<close>

text \<open>
  A file: its mode and content, when it exists. The export runs as single system calls, with the states
  another process can see after each; a write may stop anywhere.
\<close>

type_synonym file_state = "(nat \<times> string) option"

datatype file_op = OpenTruncate nat | Chmod nat | Append char

fun file_do :: "file_op \<Rightarrow> file_state \<Rightarrow> file_state" where
  "file_do (OpenTruncate m) None = Some (m, [])"
| "file_do (OpenTruncate m) (Some (mode, content)) = Some (mode, [])"
| "file_do (Chmod m) None = None"
| "file_do (Chmod m) (Some (mode, content)) = Some (m, content)"
| "file_do (Append c) None = None"
| "file_do (Append c) (Some (mode, content)) = Some (mode, content @ [c])"

definition PRIVATE_MODE :: nat where "PRIVATE_MODE = 6 * 64"

text \<open>\<open>new_mode\<close>: the mode new files get (0666 less the umask).\<close>

definition export_ops :: "nat \<Rightarrow> file_state \<Rightarrow> string \<Rightarrow> file_op list" where
  "export_ops new_mode f data =
     (if f = None then [OpenTruncate new_mode] else []) @ [Chmod PRIVATE_MODE, OpenTruncate new_mode] @ map Append data"

fun file_states :: "file_op list \<Rightarrow> file_state \<Rightarrow> file_state list" where
  "file_states [] f = [f]"
| "file_states (op # ops) f = f # file_states ops (file_do op f)"

section \<open>Extensions\<close>

definition KEY_USAGES :: "string list" where
  "KEY_USAGES = [''digitalSignature'', ''nonRepudiation'', ''keyEncipherment'', ''dataEncipherment'', ''keyAgreement'',
     ''keyCertSign'', ''cRLSign'', ''encipherOnly'', ''decipherOnly'']"

text \<open>An object identifier: a constant of the package, by its name there, or a dotted text.\<close>

datatype oid = Constant string | Dotted string

definition EXTENDED_USAGES :: "(string \<times> oid) list" where
  "EXTENDED_USAGES = [(''serverAuth'', Constant ''SERVER_AUTH''), (''clientAuth'', Constant ''CLIENT_AUTH''),
     (''codeSigning'', Constant ''CODE_SIGNING''), (''emailProtection'', Constant ''EMAIL_PROTECTION''),
     (''timeStamping'', Constant ''TIME_STAMPING''), (''OCSPSigning'', Constant ''OCSP_SIGNING''),
     (''anyExtendedKeyUsage'', Dotted ''2.5.29.37.0'')]"

definition NETSCAPE_BITS :: "(string \<times> 8 word) list" where
  "NETSCAPE_BITS = [(''client'', 128), (''server'', 64), (''email'', 32), (''objsign'', 16), (''sslCA'', 4),
     (''emailCA'', 2), (''objCA'', 1)]"

definition NETSCAPE_TYPE :: oid where "NETSCAPE_TYPE = Dotted ''2.16.840.1.113730.1.1''"

definition DIGESTS :: "string list" where
  "DIGESTS = [''sha224'', ''sha256'', ''sha384'', ''sha512'', ''sha1'', ''md5'']"

datatype san = DNSName string | IPAddress string | UniformResourceIdentifier string | RFC822Name string | RegisteredID string

datatype extension =
    BasicConstraints bool "int option"
  | KeyUsage "bool list"
  | ExtendedKeyUsage "oid list"
  | SubjectAlternativeName "san list"
  | UnrecognizedExtension oid "8 word list"
  | SubjectKeyIdentifier string
  | AuthorityKeyIdentifier "string option" bool

text \<open>What the packages refuse (\<open>None\<close>: accepted), and the identifiers of keys of a certificate \<open>'c\<close>.\<close>

record 'c x509 =
  xo_oid :: "string \<Rightarrow> pyerror option"
  xo_name :: "san \<Rightarrow> pyerror option"
  xo_ext :: "extension \<Rightarrow> pyerror option"
  xo_attribute :: "oid \<Rightarrow> string \<Rightarrow> pyerror option"
  xo_key_digest :: "'c \<Rightarrow> string"
  xo_issuer_keyid :: "'c \<Rightarrow> string option"

definition unless_error :: "pyerror option \<Rightarrow> 'a \<Rightarrow> pyerror + 'a" where
  "unless_error e v = (case e of None \<Rightarrow> Inr v | Some d \<Rightarrow> Inl d)"

definition items_of :: "string list \<Rightarrow> string list" where
  "items_of values = concat (map (\<lambda>v. map strip (split_on CHR '','' v)) values)"

text \<open>\<^verbatim>\<open>dict(item.split(':', 1) for item in items)\<close>\<close>

fun options_dict :: "string list \<Rightarrow> (string, string) dict \<Rightarrow> pyerror + (string, string) dict" where
  "options_dict [] d = Inr d"
| "options_dict (item # items) d = (case cut_at CHR '':'' item of
     (k, Some v) \<Rightarrow> options_dict items (dset d k v)
   | (_, None) \<Rightarrow> Inl (ValueError ''dictionary update sequence''))"

definition basic_constraints :: "string list \<Rightarrow> pyerror + extension" where
  "basic_constraints items = bind_sum (options_dict items []) (\<lambda>options.
     raise_if (\<not> set (dkeys options) \<subseteq> {''CA'', ''pathlen''} \<or> dgetd options ''CA'' ''FALSE'' \<notin> {''TRUE'', ''FALSE''})
       (ValueError ''Invalid basicConstraints'')
       (let ca = (dgetd options ''CA'' ''FALSE'' = ''TRUE'') in
        case dget options ''pathlen'' of
          None \<Rightarrow> Inr (BasicConstraints ca None)
        | Some s \<Rightarrow> (case py_int s of
              None \<Rightarrow> Inl (ValueError ''invalid literal for int()'')
            | Some n \<Rightarrow> Inr (BasicConstraints ca (Some n)))))"

definition key_usage :: "string list \<Rightarrow> pyerror + extension" where
  "key_usage items = raise_if (\<not> set items \<subseteq> set KEY_USAGES) (ValueError ''Unsupported keyUsage'')
     (Inr (KeyUsage (map (\<lambda>u. u \<in> set items) KEY_USAGES)))"

definition usage_oid :: "'c x509 \<Rightarrow> string \<Rightarrow> pyerror + oid" where
  "usage_oid x item = (case map_of EXTENDED_USAGES item of
     Some oid \<Rightarrow> Inr oid | None \<Rightarrow> unless_error (xo_oid x item) (Dotted item))"

definition alt_name :: "'c x509 \<Rightarrow> string \<Rightarrow> pyerror + san" where
  "alt_name x item = (case cut_at CHR '':'' item of
     (_, None) \<Rightarrow> Inl (ValueError ''not enough values to unpack'')
   | (kind, Some v) \<Rightarrow>
       (let name = (if kind = ''DNS'' then Some (DNSName v) else if kind = ''IP'' then Some (IPAddress v)
                    else if kind = ''URI'' then Some (UniformResourceIdentifier v)
                    else if kind = ''email'' then Some (RFC822Name v)
                    else if kind = ''RID'' then Some (RegisteredID v) else None)
        in case name of
             None \<Rightarrow> Inl (ValueError (''Unsupported subjectAltName type: '' @ kind))
           | Some n \<Rightarrow> unless_error (xo_name x n) n))"

fun netscape_mask :: "string list \<Rightarrow> 8 word \<Rightarrow> pyerror + 8 word" where
  "netscape_mask [] bits = Inr bits"
| "netscape_mask (item # items) bits = (case map_of NETSCAPE_BITS item of
     None \<Rightarrow> Inl (ValueError ''Unsupported nsCertType'')
   | Some b \<Rightarrow> netscape_mask items (bits OR b))"

text \<open>\<^verbatim>\<open>while not mask & (1 << unused): unused += 1\<close>, on a mask that is not zero.\<close>

function count_unused :: "8 word \<Rightarrow> nat \<Rightarrow> nat" where
  "count_unused bits unused = (if bit bits unused \<or> 8 \<le> unused then unused else count_unused bits (Suc unused))"
  by pat_completeness auto
termination by (relation "measure (\<lambda>(bits, unused). 8 - unused)") auto

declare count_unused.simps [simp del]

definition netscape_bytes :: "8 word \<Rightarrow> 8 word list" where
  "netscape_bytes bits = (let unused = (if bits \<noteq> 0 then count_unused bits 0 else 0) in [3, 2, word_of_nat unused, bits])"

definition make_extension :: "'c x509 \<Rightarrow> string \<Rightarrow> string list \<Rightarrow> pyerror + extension" where
  "make_extension x name values = (let items = items_of values in bind_sum
     (if name = ''basicConstraints'' then basic_constraints items
      else if name = ''keyUsage'' then key_usage items
      else if name = ''extendedKeyUsage'' then bind_sum (each (usage_oid x) items) (\<lambda>oids. Inr (ExtendedKeyUsage oids))
      else if name = ''subjectAltName'' then bind_sum (each (alt_name x) items) (\<lambda>names. Inr (SubjectAlternativeName names))
      else if name = ''nsCertType'' then
        bind_sum (netscape_mask items 0) (\<lambda>bits. Inr (UnrecognizedExtension NETSCAPE_TYPE (netscape_bytes bits)))
      else Inl (ValueError (''Unsupported extension: '' @ name)))
     (\<lambda>e. unless_error (xo_ext x e) e))"

section \<open>Requests\<close>

definition NAME_OIDS :: "(string \<times> string) list" where
  "NAME_OIDS = [(''CN'', ''COMMON_NAME''), (''commonName'', ''COMMON_NAME''), (''C'', ''COUNTRY_NAME''), (''countryName'', ''COUNTRY_NAME''),
     (''ST'', ''STATE_OR_PROVINCE_NAME''), (''stateOrProvinceName'', ''STATE_OR_PROVINCE_NAME''),
     (''L'', ''LOCALITY_NAME''), (''localityName'', ''LOCALITY_NAME''),
     (''O'', ''ORGANIZATION_NAME''), (''organizationName'', ''ORGANIZATION_NAME''),
     (''OU'', ''ORGANIZATIONAL_UNIT_NAME''), (''organizationalUnitName'', ''ORGANIZATIONAL_UNIT_NAME''),
     (''emailAddress'', ''EMAIL_ADDRESS''), (''serialNumber'', ''SERIAL_NUMBER''),
     (''SN'', ''SURNAME''), (''surname'', ''SURNAME''), (''givenName'', ''GIVEN_NAME''),
     (''title'', ''TITLE''), (''DC'', ''DOMAIN_COMPONENT''), (''domainComponent'', ''DOMAIN_COMPONENT''),
     (''UID'', ''USER_ID''), (''userId'', ''USER_ID''),
     (''street'', ''STREET_ADDRESS''), (''streetAddress'', ''STREET_ADDRESS''),
     (''postalCode'', ''POSTAL_CODE'')]"

text \<open>The value of an option: a list of texts, which \<^verbatim>\<open>CriticalExt\<close> marks as critical.\<close>

record ext_values =
  ev_values :: "string list"
  ev_critical :: bool

record 'c request_options =
  ro_exts :: "(string, ext_values) dict"
  ro_subject :: "'c option"
  ro_issuer :: "'c option"

record csr =
  csr_subject :: "(oid \<times> string) list"
  csr_exts :: "(extension \<times> bool) list"
  csr_digest :: string

text \<open>The attributes of the subject; bytes are decoded, \<^verbatim>\<open>None\<close> is left out.\<close>

definition name_oid :: "'c x509 \<Rightarrow> string \<Rightarrow> pyerror + oid" where
  "name_oid x name = (case map_of NAME_OIDS name of
     Some c \<Rightarrow> Inr (Constant c) | None \<Rightarrow> unless_error (xo_oid x name) (Dotted name))"

fun subject_attributes :: "'c x509 \<Rightarrow> (string \<times> pyval) list \<Rightarrow> pyerror + (oid \<times> string) list" where
  "subject_attributes x [] = Inr []"
| "subject_attributes x ((name, v) # as) =
     (if v = VNone then subject_attributes x as
      else bind_sum (name_oid x name) (\<lambda>oid.
        bind_sum (case v of
            VBytes b \<Rightarrow> if utf8_ok b then Inr b else Inl UnicodeError
          | VStr s \<Rightarrow> Inr s
          | _ \<Rightarrow> Inl (TypeError ''value argument must be a str'')) (\<lambda>s.
        bind_sum (unless_error (xo_attribute x oid s) (oid, s)) (\<lambda>a.
        bind_sum (subject_attributes x as) (\<lambda>rest. Inr (a # rest))))))"

text \<open>The extensions named by type, in the fixed order.\<close>

fun named_extensions :: "'c x509 \<Rightarrow> (string, ext_values) dict \<Rightarrow> string list \<Rightarrow> pyerror + (extension \<times> bool) list" where
  "named_extensions x opts [] = Inr []"
| "named_extensions x opts (name # names) = (case dget opts name of
     None \<Rightarrow> named_extensions x opts names
   | Some ev \<Rightarrow> bind_sum (make_extension x name (ev_values ev)) (\<lambda>e.
       bind_sum (named_extensions x opts names) (\<lambda>rest. Inr ((e, ev_critical ev) # rest))))"

definition subject_key_ext :: "'c x509 \<Rightarrow> 'c request_options \<Rightarrow> pyerror + (extension \<times> bool) list" where
  "subject_key_ext x opts = (case (ro_subject opts, dget (ro_exts opts) ''subjectKeyIdentifier'') of
     (Some subject, Some ev) \<Rightarrow>
       raise_if (items_of (ev_values ev) \<noteq> [''hash'']) (ValueError ''Modern subjectKeyIdentifier requires hash'')
         (Inr [(SubjectKeyIdentifier (xo_key_digest x subject), ev_critical ev)])
   | _ \<Rightarrow> Inr [])"

definition authority_key_ext :: "'c x509 \<Rightarrow> 'c request_options \<Rightarrow> pyerror + (extension \<times> bool) list" where
  "authority_key_ext x opts = (case (ro_issuer opts, dget (ro_exts opts) ''authorityKeyIdentifier'') of
     (Some issuer, Some ev) \<Rightarrow>
       (let values = set (items_of (ev_values ev));
            asked = (''keyid'' \<in> values \<or> ''keyid:always'' \<in> values);
            keyid = (if asked then xo_issuer_keyid x issuer else None);
            include_issuer = (''issuer:always'' \<in> values \<or> ''issuer'' \<in> values \<and> keyid = None)
        in raise_if (\<not> values \<subseteq> {''keyid'', ''keyid:always'', ''issuer'', ''issuer:always''}) (ValueError ''Unsupported authorityKeyIdentifier'')
          (raise_if (keyid = None \<and> ''keyid:always'' \<in> values) (ValueError ''Issuer has no subjectKeyIdentifier'')
            (Inr [(AuthorityKeyIdentifier keyid include_issuer, ev_critical ev)])))
   | _ \<Rightarrow> Inr [])"

definition make_certreq :: "'c x509 \<Rightarrow> (string \<times> pyval) list \<Rightarrow> string \<Rightarrow> 'c request_options \<Rightarrow> pyerror + csr" where
  "make_certreq x attributes digest opts =
     bind_sum (subject_attributes x attributes) (\<lambda>subject.
     bind_sum (named_extensions x (ro_exts opts) X509_TYPE_NAMES) (\<lambda>named.
     bind_sum (subject_key_ext x opts) (\<lambda>ski.
     bind_sum (authority_key_ext x opts) (\<lambda>aki.
     raise_if (digest \<notin> set DIGESTS) (ValueError (''Unsupported modern CSR digest: '' @ digest))
       (Inr \<lparr>csr_subject = subject, csr_exts = named @ ski @ aki, csr_digest = digest\<rparr>)))))"

section \<open>Requests with the older interface\<close>

text \<open>\<^verbatim>\<open>X509Extension(name, critical, text)\<close>, with the certificate it refers to; \<open>accept\<close>: what it refuses.\<close>

record 'c legacy_ext =
  le_name :: string
  le_critical :: bool
  le_text :: string
  le_subject :: "'c option"
  le_issuer :: "'c option"

definition make_legacy_ext :: "('c legacy_ext \<Rightarrow> pyerror option) \<Rightarrow> string \<Rightarrow> ext_values \<Rightarrow> 'c option \<Rightarrow> 'c option \<Rightarrow> pyerror + 'c legacy_ext" where
  "make_legacy_ext accept name ev subject issuer =
     (let text = join '', '' (ev_values ev);
          e = \<lparr>le_name = name, le_critical = ev_critical ev, le_text = text, le_subject = subject, le_issuer = issuer\<rparr>
      in raise_if (\<not> list_all is_ascii text) UnicodeError (unless_error (accept e) e))"

definition legacy_extensions :: "('c legacy_ext \<Rightarrow> pyerror option) \<Rightarrow> 'c request_options \<Rightarrow> pyerror + 'c legacy_ext list" where
  "legacy_extensions accept opts =
     (let named = filter (dhas (ro_exts opts)) X509_TYPE_NAMES;
          ext = (\<lambda>name subject issuer. make_legacy_ext accept name (the (dget (ro_exts opts) name)) subject issuer);
          key = (\<lambda>name c. if c \<noteq> None \<and> dhas (ro_exts opts) name then [name] else [])
      in bind_sum (each (\<lambda>name. ext name None None) named) (\<lambda>es.
         bind_sum (each (\<lambda>name. ext name (ro_subject opts) None) (key ''subjectKeyIdentifier'' (ro_subject opts))) (\<lambda>ski.
         bind_sum (each (\<lambda>name. ext name None (ro_issuer opts)) (key ''authorityKeyIdentifier'' (ro_issuer opts))) (\<lambda>aki.
         Inr (es @ ski @ aki)))))"

section \<open>Certificates\<close>

text \<open>Times are in seconds from now. \<open>signature\<close>: of a request of the newer interface, whether it is valid.\<close>

record ('s, 'k) certificate =
  ce_version :: nat
  ce_serial :: int
  ce_not_before :: int
  ce_not_after :: int
  ce_issuer :: 's
  ce_subject :: 's
  ce_pubkey :: 'k
  ce_exts :: "extension list"
  ce_digest :: string

definition make_certificate :: "gencert \<Rightarrow> bool option \<Rightarrow> 's \<Rightarrow> 'k \<Rightarrow> 's \<Rightarrow> int \<Rightarrow> pyerror + ('s, 'k) certificate" where
  "make_certificate g signature subject pubkey ca_subject serial =
     raise_if (signature = Some False) (ValueError ''Invalid CSR signature'')
       (Inr \<lparr>ce_version = 2, ce_serial = serial, ce_not_before = 86400 * gc_notbefore_days g,
          ce_not_after = 86400 * gc_notafter_days g, ce_issuer = ca_subject, ce_subject = subject, ce_pubkey = pubkey,
          ce_exts = [], ce_digest = gc_digest_type g\<rparr>)"

end
