(* ===== verification/Gencert_Properties.thy ===== *)
theory Gencert_Properties
  imports Gencert
begin

text \<open>
  Certificate requests: exported keys are never readable by others, extensions written as options are read
  back, and the Netscape certificate type is the DER form of the set of its names.
\<close>

section \<open>Exports\<close>

lemma append_states: "g \<in> set (file_states (map Append data) (Some (m, c))) \<Longrightarrow> \<exists>n. g = Some (m, c @ take n data)"
proof (induction data arbitrary: c)
  case (Cons x xs)
  show ?case
  proof (cases "g = Some (m, c)")
    case True
    then show ?thesis by (intro exI [of _ 0]) simp
  next
    case False
    then obtain n where "g = Some (m, (c @ [x]) @ take n xs)" using Cons.IH [of "c @ [x]"] Cons.prems by auto
    then show ?thesis by (intro exI [of _ "Suc n"]) simp
  qed
qed simp

lemma file_states_ne [simp]: "file_states ops f \<noteq> []"
  by (cases ops) auto

lemma append_last: "last (file_states (map Append data) (Some (m, c))) = Some (m, c @ data)"
  by (induction data arbitrary: c) auto

text \<open>
  C35: However an export is interrupted, and whatever the file was before, every state of it is the old file, an
  empty one, the old content made private, or a part of the data in a file only its owner can read; a whole
  export leaves the data in such a file.
\<close>

theorem export_private:
  "(\<forall>g \<in> set (file_states (export_ops new_mode f data) f). g = f \<or> (\<exists>mode. g = Some (mode, [])) \<or>
      (\<exists>content. g = Some (PRIVATE_MODE, content) \<and> (map_option snd f = Some content \<or> (\<exists>n. content = take n data)))) \<and>
   last (file_states (export_ops new_mode f data) f) = Some (PRIVATE_MODE, data)"
  by (cases f) (auto simp: export_ops_def append_last dest!: append_states, blast+)

theorem export_private_witness:
  "last (file_states (export_ops 420 (Some (420, ''old'')) ''key'') (Some (420, ''old''))) = Some (384, ''key'') \<and>
   Some (420, ''key'') \<notin> set (file_states (export_ops 420 (Some (420, ''old'')) ''key'') (Some (420, ''old'')))"
  using export_private [of 420 "Some (420, ''old'')" "''key''"] by (auto simp: PRIVATE_MODE_def)

section \<open>The Netscape certificate type\<close>

text \<open>The bits by their numbers in the standard, the first being the highest of the byte.\<close>

definition NETSCAPE_POSITIONS :: "(string \<times> nat) list" where
  "NETSCAPE_POSITIONS = [(''client'', 0), (''server'', 1), (''email'', 2), (''objsign'', 3), (''sslCA'', 5),
     (''emailCA'', 6), (''objCA'', 7)]"

text \<open>A DER bit string of one byte: the numbers of its bits, \<open>None\<close> when it is not DER: the unused bits have
  to be 0 and, in a list of named bits, the last used bit 1.\<close>

definition named_bits :: "8 word list \<Rightarrow> nat set option" where
  "named_bits bytes = (case bytes of
     [tag, len, unused, byte] \<Rightarrow>
       if tag = 3 \<and> len = 2 \<and> unused < 8 \<and> (\<forall>j < unat unused. \<not> bit byte j) \<and> bit byte (unat unused)
       then Some {i. i < 8 - unat unused \<and> bit byte (7 - i)} else None
   | _ \<Rightarrow> None)"

lemma netscape_entry: "map_of NETSCAPE_BITS name = Some b \<longleftrightarrow> (\<exists>i. map_of NETSCAPE_POSITIONS name = Some i \<and> i \<le> 7 \<and> b = push_bit (7 - i) 1)"
  by (auto simp: NETSCAPE_BITS_def NETSCAPE_POSITIONS_def)

lemma netscape_mask_bits:
  "netscape_mask items m = Inr bits \<Longrightarrow>
     bit bits j \<longleftrightarrow> bit m j \<or> (\<exists>item \<in> set items. \<exists>i. map_of NETSCAPE_POSITIONS item = Some i \<and> i \<le> 7 \<and> j = 7 - i)"
proof (induction items m rule: netscape_mask.induct)
  case (2 item items m)
  then obtain b where b: "map_of NETSCAPE_BITS item = Some b" and r: "netscape_mask items (m OR b) = Inr bits"
    by (auto split: option.splits)
  from b obtain i where i: "map_of NETSCAPE_POSITIONS item = Some i" "i \<le> 7" "b = push_bit (7 - i) 1"
    unfolding netscape_entry by blast
  have "bit b j \<longleftrightarrow> j = 7 - i" using i(2,3) by (auto simp: bit_exp_iff)
  with "2.IH" [OF b r] i show ?case by (auto simp: bit_or_iff)
qed simp

lemma netscape_mask_ok: "(\<exists>bits. netscape_mask items m = Inr bits) \<longleftrightarrow> set items \<subseteq> set (map fst NETSCAPE_BITS)"
proof (induction items m rule: netscape_mask.induct)
  case (2 item items m)
  show ?case
  proof (cases "map_of NETSCAPE_BITS item")
    case None
    then have "item \<notin> set (map fst NETSCAPE_BITS)" by (simp add: map_of_eq_None_iff)
    with None show ?thesis by simp
  next
    case (Some b)
    then have "item \<in> set (map fst NETSCAPE_BITS)" by (metis map_of_eq_None_iff option.distinct(1) set_map)
    with Some "2.IH" [OF Some] show ?thesis by simp
  qed
qed simp

lemma count_unused_spec:
  "\<exists>j < 8. n \<le> j \<and> bit bits j \<Longrightarrow>
     n \<le> count_unused bits n \<and> count_unused bits n < 8 \<and> bit bits (count_unused bits n) \<and> (\<forall>j. n \<le> j \<longrightarrow> j < count_unused bits n \<longrightarrow> \<not> bit bits j)"
proof (induction bits n rule: count_unused.induct)
  case (1 bits n)
  show ?case
  proof (cases "bit bits n \<or> 8 \<le> n")
    case True
    then have "count_unused bits n = n" by (subst count_unused.simps) simp
    with True 1(2) show ?thesis by auto
  next
    case False
    then have "\<exists>j < 8. Suc n \<le> j \<and> bit bits j" using 1(2) by (metis Suc_leI le_eq_less_or_eq)
    note IH = 1(1) [OF False this]
    have eq: "count_unused bits n = count_unused bits (Suc n)" using False by (subst count_unused.simps) simp
    have "\<not> bit bits j" if "n \<le> j" "j < count_unused bits (Suc n)" for j
      using IH False that by (cases "j = n") auto
    with IH show ?thesis unfolding eq by auto
  qed
qed

text \<open>
  C36: A list of certificate type names is encoded when all its names are known, and then as a DER bit string
  that reads back as exactly the set of the names, by their numbers in the standard.
\<close>

theorem netscape_type_der:
  assumes "items \<noteq> []"
  shows "(if set items \<subseteq> set (map fst NETSCAPE_BITS)
      then \<exists>bits. netscape_mask items 0 = Inr bits \<and>
        named_bits (netscape_bytes bits) = Some {i. \<exists>item \<in> set items. map_of NETSCAPE_POSITIONS item = Some i}
      else netscape_mask items 0 = Inl (ValueError ''Unsupported nsCertType''))"
proof (cases "set items \<subseteq> set (map fst NETSCAPE_BITS)")
  case True
  then obtain bits where m: "netscape_mask items 0 = Inr bits" using netscape_mask_ok by blast
  have pos: "map_of NETSCAPE_POSITIONS name = Some i \<Longrightarrow> i \<le> 7" for name i
    by (auto simp: NETSCAPE_POSITIONS_def split: if_splits)
  have b: "bit bits j \<longleftrightarrow> (\<exists>item \<in> set items. \<exists>i. map_of NETSCAPE_POSITIONS item = Some i \<and> i \<le> 7 \<and> j = 7 - i)" for j
    using netscape_mask_bits [OF m, of j] by simp
  have b': "bit bits (7 - i) \<longleftrightarrow> (\<exists>item \<in> set items. map_of NETSCAPE_POSITIONS item = Some i)" if "i \<le> 7" for i
    using pos that unfolding b by (metis diff_diff_cancel)
  from assms obtain item where item: "item \<in> set items" by (cases items) auto
  with True have "item \<in> set (map fst NETSCAPE_BITS)" by blast
  then obtain i where i: "map_of NETSCAPE_POSITIONS item = Some i"
    by (auto simp: NETSCAPE_BITS_def NETSCAPE_POSITIONS_def)
  then have one: "\<exists>j < 8. 0 \<le> j \<and> bit bits j" using b' [OF pos [OF i]] item by (intro exI [of _ "7 - i"]) auto
  then have nz: "bits \<noteq> 0" by auto
  define u where "u = count_unused bits 0"
  have u: "u < 8" "bit bits u" "\<And>j. j < u \<Longrightarrow> \<not> bit bits j" using count_unused_spec [OF one] unfolding u_def by auto
  have un: "unat (word_of_nat u :: 8 word) = u" using u(1) by (simp add: unat_of_nat)
  have "(word_of_nat u :: 8 word) < 8" using u(1) un by (simp add: word_less_nat_alt)
  then have "named_bits (netscape_bytes bits) = Some {i. i < 8 - u \<and> bit bits (7 - i)}"
    using nz u un by (simp add: named_bits_def netscape_bytes_def Let_def flip: u_def)
  also have "{i. i < 8 - u \<and> bit bits (7 - i)} = {i. \<exists>item \<in> set items. map_of NETSCAPE_POSITIONS item = Some i}"
  proof (rule set_eqI)
    fix k
    show "k \<in> {i. i < 8 - u \<and> bit bits (7 - i)} \<longleftrightarrow> k \<in> {i. \<exists>item \<in> set items. map_of NETSCAPE_POSITIONS item = Some i}"
    proof (cases "k \<le> 7")
      case True
      have "k < 8 - u" if "bit bits (7 - k)" using u(3) [of "7 - k"] that True u(1) by linarith
      with b' [OF True] show ?thesis by auto
    next
      case False
      then show ?thesis using pos by auto
    qed
  qed
  finally show ?thesis using True m by simp
next
  case False
  have "netscape_mask items m = Inl e \<Longrightarrow> e = ValueError ''Unsupported nsCertType''" for m e
    by (induction items m rule: netscape_mask.induct) (auto split: option.splits)
  moreover obtain e where "netscape_mask items 0 = Inl e"
    using False netscape_mask_ok by (cases "netscape_mask items 0") blast+
  ultimately show ?thesis using False by simp
qed

theorem netscape_type_der_witness:
  "\<exists>bits. netscape_mask [''server'', ''client'', ''sslCA''] 0 = Inr bits \<and> named_bits (netscape_bytes bits) = Some {0, 1, 5}"
proof -
  let ?items = "[''server'', ''client'', ''sslCA'']"
  have "set ?items \<subseteq> set (map fst NETSCAPE_BITS)" by (simp add: NETSCAPE_BITS_def)
  moreover have "{i. \<exists>item \<in> set ?items. map_of NETSCAPE_POSITIONS item = Some i} = {0, 1, 5}"
    by (auto simp: NETSCAPE_POSITIONS_def)
  ultimately show ?thesis using netscape_type_der [of ?items] by simp
qed

section \<open>Options and extensions\<close>





















end
