(* ===== verification/Daemon.thy ===== *)
theory Daemon
  imports Prelude
begin

text \<open>
  \<^verbatim>\<open>daemonize\<close> of \<^verbatim>\<open>sonicprobe/libs/daemonize.py\<close>: the two forks, the new session and the redirection of the
  standard streams, with the answers of the system as a parameter; and the contexts that hold a PID file
  around a block.
\<close>

section \<open>Processes\<close>

text \<open>The open files of a process: what each descriptor refers to, by name.\<close>

record process =
  pr_pid :: int
  pr_sid :: int
  pr_cwd :: string
  pr_umask :: nat
  pr_fds :: "(nat, string) dict"

text \<open>How a process leaves \<^verbatim>\<open>daemonize\<close>.\<close>

datatype fate = Returned process | Raised process | Exited nat

text \<open>A standard stream of Python: its descriptor, \<^verbatim>\<open>None\<close> or closed (\<^verbatim>\<open>fileno\<close> raises then).\<close>

datatype stream = Fd nat | NoStream | ClosedStream

record answers =
  an_fork1 :: "int option"
  an_wait :: bool
  an_chdir :: bool
  an_fork2 :: "int option"
  an_devnull :: bool
  an_dup2 :: "nat \<Rightarrow> bool"
  an_std :: "stream list"

definition DEVNULL :: string where "DEVNULL = ''/dev/null''"

text \<open>A new descriptor is the lowest free one.\<close>

definition lowest_free :: "(nat, string) dict \<Rightarrow> nat" where
  "lowest_free fds = hd (filter (\<lambda>n. \<not> dhas fds n) [0..<Suc (length fds)])"

text \<open>\<^verbatim>\<open>os.dup2(devnull_fd, stdf.fileno())\<close> for each stream; an \<^verbatim>\<open>OSError\<close> is passed over, any other exception
  ends the loop.\<close>

fun redirect :: "(nat \<Rightarrow> bool) \<Rightarrow> nat \<Rightarrow> stream list \<Rightarrow> (nat, string) dict \<Rightarrow> (nat, string) dict" where
  "redirect dup2 devnull_fd [] fds = fds"
| "redirect dup2 devnull_fd (Fd n # std) fds =
     redirect dup2 devnull_fd std (if dup2 n then dset fds n DEVNULL else fds)"
| "redirect dup2 devnull_fd (NoStream # std) fds = fds"
| "redirect dup2 devnull_fd (ClosedStream # std) fds = fds"

definition redirect_streams :: "answers \<Rightarrow> process \<Rightarrow> process" where
  "redirect_streams an p =
     (if \<not> an_devnull an then p
      else (let fd = lowest_free (pr_fds p);
                fds = redirect (an_dup2 an) fd (an_std an) (dset (pr_fds p) fd DEVNULL)
            in p\<lparr>pr_fds := if 2 < fd then ddel fds fd else fds\<rparr>))"

section \<open>Forking\<close>

text \<open>\<open>launcher\<close>, its child, and the child of its child, as far as they exist.\<close>

record family =
  fa_launcher :: fate
  fa_child :: "fate option"
  fa_daemon :: "fate option"

definition daemonize :: "answers \<Rightarrow> process \<Rightarrow> family" where
  "daemonize an p = (case an_fork1 an of
     None \<Rightarrow> \<lparr>fa_launcher = Exited 1, fa_child = None, fa_daemon = None\<rparr>
   | Some c \<Rightarrow>
       (let launcher = (if an_wait an then Exited 0 else Exited 1);
            child = p\<lparr>pr_pid := c, pr_sid := c, pr_umask := 0\<rparr>
        in if \<not> an_chdir an then \<lparr>fa_launcher = launcher, fa_child = Some (Raised child), fa_daemon = None\<rparr>
           else (let child = child\<lparr>pr_cwd := ''/''\<rparr> in case an_fork2 an of
               None \<Rightarrow> \<lparr>fa_launcher = launcher, fa_child = Some (Exited 1), fa_daemon = None\<rparr>
             | Some d \<Rightarrow> \<lparr>fa_launcher = launcher, fa_child = Some (Exited 0),
                 fa_daemon = Some (Returned (redirect_streams an (child\<lparr>pr_pid := d\<rparr>)))\<rparr>)))"

section \<open>Blocks under a PID file\<close>

text \<open>
  \<^verbatim>\<open>locked_pidfile\<close> and, in the process that returns from \<^verbatim>\<open>daemonize\<close>, \<^verbatim>\<open>pidfile_context\<close>: \<open>lock\<close>, \<open>unlock\<close> and the
  block are functions on the state of the world; \<open>unlock\<close> does not raise. \<^verbatim>\<open>lock_pidfile_or_die\<close> exits with 1.
\<close>

datatype block_result = Value int | Error pyerror | SysExit nat

definition locked_pidfile ::
  "('w \<Rightarrow> (pyerror + int) \<times> 'w) \<Rightarrow> ('w \<Rightarrow> 'w) \<Rightarrow> (int \<Rightarrow> 'w \<Rightarrow> block_result \<times> 'w) \<Rightarrow> 'w \<Rightarrow> block_result \<times> 'w" where
  "locked_pidfile lock unlock block w = (case lock w of
     (Inl e, w1) \<Rightarrow> (Error e, w1)
   | (Inr pid, w1) \<Rightarrow> (case block pid w1 of (r, w2) \<Rightarrow> (r, unlock w2)))"

definition lock_pidfile_or_die :: "('w \<Rightarrow> (pyerror + int) \<times> 'w) \<Rightarrow> 'w \<Rightarrow> block_result \<times> 'w" where
  "lock_pidfile_or_die lock w = (case lock w of (Inl e, w1) \<Rightarrow> (SysExit 1, w1) | (Inr pid, w1) \<Rightarrow> (Value pid, w1))"

definition pidfile_context ::
  "('w \<Rightarrow> (pyerror + int) \<times> 'w) \<Rightarrow> ('w \<Rightarrow> 'w) \<Rightarrow> ('w \<Rightarrow> block_result \<times> 'w) \<Rightarrow> 'w \<Rightarrow> block_result \<times> 'w" where
  "pidfile_context lock unlock block w = (case lock_pidfile_or_die lock w of
     (Value pid, w1) \<Rightarrow> (case block w1 of (r, w2) \<Rightarrow> (r, unlock w2))
   | (r, w1) \<Rightarrow> (r, w1))"

section \<open>What is left running\<close>

lemma lowest_free_free: "\<not> dhas fds (lowest_free fds)"
proof -
  have "\<exists>n \<in> set [0..<Suc (length fds)]. \<not> dhas fds n"
  proof (rule ccontr)
    assume "\<not> ?thesis"
    then have "set [0..<Suc (length fds)] \<subseteq> set (dkeys fds)" by (auto simp: dhas_keys)
    from card_mono [OF _ this] have "Suc (length fds) \<le> card (set (dkeys fds))" by simp
    also have "\<dots> \<le> length fds" by (metis card_length dkeys_def length_map)
    finally show False by simp
  qed
  then have "filter (\<lambda>n. \<not> dhas fds n) [0..<Suc (length fds)] \<noteq> []" by (auto simp: filter_empty_conv simp del: upt_Suc)
  from hd_in_set [OF this] show ?thesis by (simp add: lowest_free_def del: upt_Suc)
qed

lemma redirect_get:
  assumes "\<forall>s \<in> set std. \<exists>n. s = Fd n" "\<forall>n. Fd n \<in> set std \<longrightarrow> dup2 n"
  shows "dget (redirect dup2 fd std fds) n = (if Fd n \<in> set std then Some DEVNULL else dget fds n)"
  using assms
proof (induction std arbitrary: fds)
  case (Cons s std)
  then obtain m where "s = Fd m" by auto
  with Cons show ?case by auto
qed simp

text \<open>
  C40: Whatever the system answers, the launcher never returns from \<^verbatim>\<open>daemonize\<close>, and a process that does is its
  grandchild, in a session of the child that has exited, which it does not lead, in the root directory and
  without umask. If \<^verbatim>\<open>/dev/null\<close> can be opened and the standard streams are there, it has them on \<^verbatim>\<open>/dev/null\<close> and
  every other descriptor as before.
\<close>

theorem daemon_detached:
  assumes "an_fork1 an \<noteq> an_fork2 an"
  shows "(\<forall>q. fa_launcher (daemonize an p) \<noteq> Returned q) \<and> (\<forall>q. fa_child (daemonize an p) \<noteq> Some (Returned q)) \<and>
    (\<forall>q. fa_daemon (daemonize an p) = Some (Returned q) \<longrightarrow>
       fa_child (daemonize an p) = Some (Exited 0) \<and>
       an_fork1 an = Some (pr_sid q) \<and> an_fork2 an = Some (pr_pid q) \<and> pr_sid q \<noteq> pr_pid q \<and>
       pr_cwd q = ''/'' \<and> pr_umask q = 0 \<and>
       (an_devnull an \<and> an_std an = [Fd 0, Fd 1, Fd 2] \<and> (\<forall>n \<le> 2. an_dup2 an n) \<longrightarrow>
          (\<forall>n. dget (pr_fds q) n = (if n \<le> 2 then Some DEVNULL else dget (pr_fds p) n))))"
proof -
  have fds: "dget (pr_fds (redirect_streams an r)) n = (if n \<le> 2 then Some DEVNULL else dget (pr_fds r) n)"
    if "an_devnull an" "an_std an = [Fd 0, Fd 1, Fd 2]" "\<forall>n \<le> 2. an_dup2 an n" for r n
  proof -
    have "dget (pr_fds r) (lowest_free (pr_fds r)) = None" using lowest_free_free by (simp add: dhas_def)
    moreover have "n \<in> {0, 1, 2} \<longleftrightarrow> n \<le> 2" by auto
    ultimately show ?thesis using that
      by (auto simp: redirect_streams_def Let_def redirect_get simp del: redirect.simps)
  qed
  show ?thesis using assms fds
    by (auto simp: daemonize_def Let_def redirect_streams_def split: option.splits if_splits)
qed

text \<open>
  A process started without a standard input: \<^verbatim>\<open>sys.__stdin__\<close> is \<^verbatim>\<open>None\<close>, the first turn of the loop raises, and
  its output and error streams stay where they were.
\<close>

lemma daemon_keeps_output:
  assumes "an_fork1 an = Some c" "an_fork2 an = Some d" "an_chdir an" "an_devnull an" "an_std an = [NoStream, Fd 1, Fd 2]"
    "pr_fds p = [(1, ''tty''), (2, ''tty'')]"
  shows "\<exists>q. fa_daemon (daemonize an p) = Some (Returned q) \<and> dget (pr_fds q) 1 = Some ''tty'' \<and> dget (pr_fds q) 2 = Some ''tty''"
  using assms by (simp add: daemonize_def redirect_streams_def Let_def lowest_free_def dhas_Cons dget_Cons dset_Cons)

definition demo_answers :: answers where
  "demo_answers = \<lparr>an_fork1 = Some 8, an_wait = True, an_chdir = True, an_fork2 = Some 9, an_devnull = True,
     an_dup2 = (\<lambda>_. True), an_std = [Fd 0, Fd 1, Fd 2]\<rparr>"

definition demo_process :: process where
  "demo_process = \<lparr>pr_pid = 7, pr_sid = 5, pr_cwd = ''/home'', pr_umask = 18,
     pr_fds = [(0, ''tty''), (1, ''tty''), (2, ''tty''), (5, ''log'')]\<rparr>"

theorem daemon_detached_witness:
  "\<exists>q. fa_daemon (daemonize demo_answers demo_process) = Some (Returned q) \<and> pr_sid q = 8 \<and> pr_pid q = 9 \<and>
     dget (pr_fds q) 1 = Some DEVNULL \<and> dget (pr_fds q) 5 = Some ''log'' \<and> dget (pr_fds q) 3 = None"
proof -
  have "an_fork1 demo_answers \<noteq> an_fork2 demo_answers" by (simp add: demo_answers_def)
  from daemon_detached [OF this, of demo_process] show ?thesis
    by (auto simp: demo_answers_def demo_process_def daemonize_def dget_Cons)
qed

end
