(* ===== verification/Atomicfile.thy ===== *)
theory Atomicfile
  imports Pystr
begin

text \<open>
  \<^verbatim>\<open>file_w_tmp\<close> of \<^verbatim>\<open>sonicprobe/helpers.py\<close>: a file is written beside its target and renamed over it. System
  calls are steps that may fail, each with the file system another process sees after it. There are no links, and
  what is written is seen at once.
\<close>

section \<open>The file system\<close>

record inode =
  fl_owner :: "int \<times> int"
  fl_mode :: nat
  fl_content :: string

record fsys =
  fy_files :: "(string, inode) dict"
  fy_dirs :: "string list"

text \<open>The system: which calls fail, the owner of new files, the names \<^verbatim>\<open>tempfile\<close> finds.\<close>

record syscalls =
  sy_fail :: "nat \<Rightarrow> bool"
  sy_owner :: "int \<times> int"
  sy_temp :: "fsys \<Rightarrow> string \<Rightarrow> string"
  sy_tempdir :: string

record host =
  ho_fs :: fsys
  ho_calls :: nat
  ho_seen :: "fsys list"

definition CALL_FAILED :: pyerror where "CALL_FAILED = IOError ''system call failed''"

definition sys_call :: "syscalls \<Rightarrow> (fsys \<Rightarrow> fsys) \<Rightarrow> host \<Rightarrow> (pyerror + unit) \<times> host" where
  "sys_call sy f h = (if sy_fail sy (ho_calls h) then (Inl CALL_FAILED, h\<lparr>ho_calls := Suc (ho_calls h)\<rparr>)
     else (Inr (), h\<lparr>ho_calls := Suc (ho_calls h), ho_fs := f (ho_fs h), ho_seen := ho_seen h @ [f (ho_fs h)]\<rparr>))"

definition on_file :: "string \<Rightarrow> (inode \<Rightarrow> inode) \<Rightarrow> fsys \<Rightarrow> fsys" where
  "on_file name f fs = (case dget (fy_files fs) name of
     None \<Rightarrow> fs | Some x \<Rightarrow> fs\<lparr>fy_files := dset (fy_files fs) name (f x)\<rparr>)"

definition PRIVATE :: nat where "PRIVATE = 6 * 64"

definition create_file :: "(int \<times> int) \<Rightarrow> string \<Rightarrow> fsys \<Rightarrow> fsys" where
  "create_file owner name fs = fs\<lparr>fy_files := dset (fy_files fs) name \<lparr>fl_owner = owner, fl_mode = PRIVATE, fl_content = []\<rparr>\<rparr>"

definition append_file :: "string \<Rightarrow> string \<Rightarrow> fsys \<Rightarrow> fsys" where
  "append_file name s = on_file name (\<lambda>x. x\<lparr>fl_content := fl_content x @ s\<rparr>)"

definition rename_file :: "string \<Rightarrow> string \<Rightarrow> fsys \<Rightarrow> fsys" where
  "rename_file a b fs = (case dget (fy_files fs) a of
     None \<Rightarrow> fs | Some x \<Rightarrow> fs\<lparr>fy_files := dset (ddel (fy_files fs) a) b x\<rparr>)"

definition unlink_file :: "string \<Rightarrow> fsys \<Rightarrow> fsys" where
  "unlink_file name fs = fs\<lparr>fy_files := ddel (fy_files fs) name\<rparr>"

definition make_dir :: "string \<Rightarrow> fsys \<Rightarrow> fsys" where "make_dir d fs = fs\<lparr>fy_dirs := fy_dirs fs @ [d]\<rparr>"

text \<open>\<^verbatim>\<open>shutil.rmtree\<close>, as one step.\<close>

definition remove_tree :: "string \<Rightarrow> fsys \<Rightarrow> fsys" where
  "remove_tree d fs = fs\<lparr>fy_dirs := filter (\<lambda>e. e \<noteq> d) (fy_dirs fs),
     fy_files := filter (\<lambda>(n, _). \<not> starts_with (d @ ''/'') n) (fy_files fs)\<rparr>"

section \<open>Writing\<close>

text \<open>The lines, then flushing, syncing and closing, which change nothing that can be seen.\<close>

fun write_lines :: "syscalls \<Rightarrow> string \<Rightarrow> string list \<Rightarrow> host \<Rightarrow> (pyerror + unit) \<times> host" where
  "write_lines sy name [] h = (Inr (), h)"
| "write_lines sy name (l # ls) h = and_then (sys_call sy (append_file name l) h) (\<lambda>_. write_lines sy name ls)"

definition flush_sync_file_object :: "syscalls \<Rightarrow> host \<Rightarrow> (pyerror + unit) \<times> host" where
  "flush_sync_file_object sy h = and_then (sys_call sy id h) (\<lambda>_. sys_call sy id)"

definition write_synced_temp :: "syscalls \<Rightarrow> string list \<Rightarrow> string \<Rightarrow> host \<Rightarrow> (pyerror + string) \<times> host" where
  "write_synced_temp sy lines directory h =
     (let name = sy_temp sy (ho_fs h) directory in
      and_then (sys_call sy (create_file (sy_owner sy) name) h) (\<lambda>_ h.
      and_then (on_error
          (and_then (write_lines sy name lines h) (\<lambda>_ h.
           and_then (flush_sync_file_object sy h) (\<lambda>_. sys_call sy id)))
          (sys_call sy (unlink_file name))) (\<lambda>_ h.
      (Inr name, h))))"

text \<open>\<^verbatim>\<open>os.path.dirname(path) or os.curdir\<close>\<close>

definition directory_of :: "string \<Rightarrow> string" where
  "directory_of path = (case rcut CHR ''/'' path of
     None \<Rightarrow> ''.''
   | Some (a, _) \<Rightarrow> (let d = rev (dropWhile (\<lambda>c. c = CHR ''/'') (rev a)) in if d = [] then a @ ''/'' else d))"

text \<open>A target that exists passes its owner and mode on.\<close>

definition copy_stat :: "syscalls \<Rightarrow> string \<Rightarrow> string \<Rightarrow> host \<Rightarrow> (pyerror + unit) \<times> host" where
  "copy_stat sy path name h = (case dget (fy_files (ho_fs h)) path of
     None \<Rightarrow> (Inr (), h)
   | Some x \<Rightarrow> and_then (sys_call sy id h) (\<lambda>_ h.
       and_then (sys_call sy (on_file name (\<lambda>y. y\<lparr>fl_owner := fl_owner x\<rparr>)) h) (\<lambda>_.
         sys_call sy (on_file name (\<lambda>y. y\<lparr>fl_mode := fl_mode x\<rparr>)))))"

definition replace_file :: "syscalls \<Rightarrow> string list \<Rightarrow> string \<Rightarrow> host \<Rightarrow> (pyerror + string) \<times> host" where
  "replace_file sy lines path h =
     and_then (write_synced_temp sy lines (directory_of path) h) (\<lambda>name h.
     and_then (on_error
         (and_then (copy_stat sy path name h) (\<lambda>_. sys_call sy (rename_file name path)))
         (sys_call sy (unlink_file name))) (\<lambda>_ h.
     (Inr path, h)))"

text \<open>In a directory, a new file is made in a private directory and renamed into its parent.\<close>

definition new_file_in :: "syscalls \<Rightarrow> string list \<Rightarrow> string \<Rightarrow> host \<Rightarrow> (pyerror + string) \<times> host" where
  "new_file_in sy lines path h =
     (let staging = sy_temp sy (ho_fs h) path in
      and_then (sys_call sy (make_dir staging) h) (\<lambda>_ h.
      and_then (and_finally
          (and_then (write_synced_temp sy lines staging h) (\<lambda>name h.
             let target = path_join path (path_basename name) in
             if dhas (fy_files (ho_fs h)) target \<or> target \<in> set (fy_dirs (ho_fs h)) then (Inl (IOError ''already exists''), h)
             else sys_call sy (rename_file name target) h))
          (sys_call sy (remove_tree staging))) (\<lambda>_ h.
      (Inr path, h))))"

definition file_w_tmp :: "syscalls \<Rightarrow> string list \<Rightarrow> string option \<Rightarrow> host \<Rightarrow> (pyerror + string) \<times> host" where
  "file_w_tmp sy lines path h = (case path of
     None \<Rightarrow> write_synced_temp sy lines (sy_tempdir sy) h
   | Some p \<Rightarrow>
       if p = [] then write_synced_temp sy lines (sy_tempdir sy) h
       else if p \<in> set (fy_dirs (ho_fs h)) then new_file_in sy lines p h
       else replace_file sy lines p h)"

section \<open>What is seen\<close>

text \<open>A part of a run: what is seen stays in \<open>P\<close>, and an error comes from a call that failed.\<close>

definition run_ok :: "(fsys \<Rightarrow> bool) \<Rightarrow> syscalls \<Rightarrow> host \<Rightarrow> (pyerror + 'a) \<times> host \<Rightarrow> bool" where
  "run_ok P sy h x \<longleftrightarrow> ho_calls h \<le> ho_calls (snd x) \<and> P (ho_fs (snd x)) \<and>
     set (ho_seen (snd x)) \<subseteq> set (ho_seen h) \<union> Collect P \<and>
     (isl (fst x) \<longrightarrow> (\<exists>k. k < ho_calls (snd x) \<and> ho_calls h \<le> k \<and> sy_fail sy k))"

lemma run_ok_call: "P (ho_fs h) \<Longrightarrow> P (f (ho_fs h)) \<Longrightarrow> run_ok P sy h (sys_call sy f h)"
  by (auto simp: run_ok_def sys_call_def)

lemma run_ok_pure: "P (ho_fs h) \<Longrightarrow> run_ok P sy h (Inr v, h)"
  by (auto simp: run_ok_def)

lemma run_ok_trans:
  assumes "run_ok P sy h (r, h1)" "run_ok P sy h1 x"
  shows "run_ok P sy h x"
proof -
  have "ho_calls h \<le> ho_calls h1" using assms(1) by (simp add: run_ok_def)
  moreover have "isl (fst x) \<longrightarrow> (\<exists>k. k < ho_calls (snd x) \<and> ho_calls h1 \<le> k \<and> sy_fail sy k)"
    using assms(2) by (simp add: run_ok_def)
  ultimately have "isl (fst x) \<longrightarrow> (\<exists>k. k < ho_calls (snd x) \<and> ho_calls h \<le> k \<and> sy_fail sy k)"
    by (blast intro: order.trans)
  then show ?thesis using assms unfolding run_ok_def by auto
qed

lemma run_ok_then:
  assumes "run_ok P sy h x" "\<And>v h1. x = (Inr v, h1) \<Longrightarrow> P (ho_fs h1) \<Longrightarrow> run_ok P sy h1 (k v h1)"
  shows "run_ok P sy h (and_then x k)"
proof -
  obtain r h1 where x: "x = (r, h1)" by (rule prod.exhaust)
  show ?thesis
  proof (cases r)
    case (Inl e)
    then show ?thesis using assms(1) x by (auto simp: run_ok_def)
  next
    case (Inr v)
    then have "run_ok P sy h1 (k v h1)" using assms x by (auto simp: run_ok_def)
    with run_ok_trans [OF assms(1) [unfolded x] this] Inr x show ?thesis by simp
  qed
qed

lemma run_ok_error:
  assumes "run_ok P sy h x" "\<And>fs. P fs \<Longrightarrow> P (f fs)"
  shows "run_ok P sy h (on_error x (sys_call sy f))"
proof -
  obtain r h1 where x: "x = (r, h1)" by (rule prod.exhaust)
  show ?thesis
  proof (cases r)
    case (Inl e)
    obtain r2 h2 where c: "sys_call sy f h1 = (r2, h2)" by (rule prod.exhaust)
    have "run_ok P sy h1 (r2, h2)" using run_ok_call [of P h1 f sy] assms x c by (simp add: run_ok_def)
    moreover have "isl r2 \<Longrightarrow> r2 = Inl CALL_FAILED" using c by (auto simp: sys_call_def split: if_splits)
    ultimately show ?thesis using assms(1) x Inl c by (cases r2) (auto simp: run_ok_def intro: less_le_trans)
  next
    case (Inr v)
    then show ?thesis using assms(1) x by simp
  qed
qed

section \<open>Replacing a file\<close>

text \<open>As in \<open>fs0\<close>, apart from the temporary file.\<close>

definition untouched :: "fsys \<Rightarrow> string \<Rightarrow> fsys \<Rightarrow> bool" where
  "untouched fs0 name fs \<longleftrightarrow> (\<forall>q. q \<noteq> name \<longrightarrow> dget (fy_files fs) q = dget (fy_files fs0) q) \<and> fy_dirs fs = fy_dirs fs0"

lemma untouched_steps [simp]:
  "untouched fs0 name (create_file owner name fs) = untouched fs0 name fs"
  "untouched fs0 name (on_file name f fs) = untouched fs0 name fs"
  "untouched fs0 name (append_file name s fs) = untouched fs0 name fs"
  "untouched fs0 name (unlink_file name fs) = untouched fs0 name fs"
  by (auto simp: untouched_def create_file_def on_file_def append_file_def unlink_file_def split: option.splits)

lemma write_lines_ok: "untouched fs0 name (ho_fs h) \<Longrightarrow> run_ok (untouched fs0 name) sy h (write_lines sy name ls h)"
  by (induction ls arbitrary: h) (auto intro!: run_ok_pure run_ok_then run_ok_call)

lemma write_synced_ok:
  assumes "untouched fs0 name (ho_fs h)" "name = sy_temp sy (ho_fs h) d"
  shows "run_ok (untouched fs0 name) sy h (write_synced_temp sy ls d h)"
  unfolding write_synced_temp_def Let_def assms(2) [symmetric] flush_sync_file_object_def
  by (intro run_ok_then run_ok_error run_ok_call run_ok_pure write_lines_ok) (auto simp: assms(1))

text \<open>What the temporary file holds when every call succeeded.\<close>

lemma sys_call_result: "sys_call sy f h = (Inr u, h') \<Longrightarrow> ho_fs h' = f (ho_fs h)"
  by (auto simp: sys_call_def split: if_splits)

lemma write_lines_result:
  "write_lines sy name ls h = (Inr u, h') \<Longrightarrow> dget (fy_files (ho_fs h)) name = Some x \<Longrightarrow>
     dget (fy_files (ho_fs h')) name = Some (x\<lparr>fl_content := fl_content x @ concat ls\<rparr>)"
proof (induction ls arbitrary: h x)
  case (Cons l ls)
  obtain r h1 where c: "sys_call sy (append_file name l) h = (r, h1)" by (rule prod.exhaust)
  with Cons.prems obtain v where r: "r = Inr v" by (cases r) auto
  with c Cons.prems have "dget (fy_files (ho_fs h1)) name = Some (x\<lparr>fl_content := fl_content x @ l\<rparr>)"
    by (auto dest!: sys_call_result simp: append_file_def on_file_def)
  from Cons.IH [OF _ this] Cons.prems c r show ?case by simp
qed auto

lemma then_Inr: "and_then x k = (Inr v, h') \<Longrightarrow> \<exists>u h1. x = (Inr u, h1) \<and> k u h1 = (Inr v, h')"
  by (auto simp: and_then_def split: prod.splits sum.splits)

lemma error_Inr: "on_error x f = (Inr v, h') \<Longrightarrow> x = (Inr v, h')"
  by (auto simp: on_error_def and_finally_def split: prod.splits sum.splits)

lemma write_synced_result:
  assumes "write_synced_temp sy ls d h = (Inr name, h')"
  shows "name = sy_temp sy (ho_fs h) d \<and>
    dget (fy_files (ho_fs h')) name = Some \<lparr>fl_owner = sy_owner sy, fl_mode = PRIVATE, fl_content = concat ls\<rparr>"
proof -
  let ?n = "sy_temp sy (ho_fs h) d"
  from then_Inr [OF assms [unfolded write_synced_temp_def Let_def]]
  obtain u h1 where c: "sys_call sy (create_file (sy_owner sy) ?n) h = (Inr u, h1)"
    and r: "and_then (on_error (and_then (write_lines sy ?n ls h1) (\<lambda>_ h. and_then (flush_sync_file_object sy h) (\<lambda>_. sys_call sy id)))
      (sys_call sy (unlink_file ?n))) (\<lambda>_ h. (Inr ?n, h)) = (Inr name, h')" by blast
  from then_Inr [OF r] have n: "name = ?n"
    and r2: "\<exists>v. and_then (write_lines sy ?n ls h1) (\<lambda>_ h. and_then (flush_sync_file_object sy h) (\<lambda>_. sys_call sy id)) = (Inr v, h')"
    by (auto dest!: error_Inr)
  from r2 obtain v where "and_then (write_lines sy ?n ls h1) (\<lambda>_ h. and_then (flush_sync_file_object sy h) (\<lambda>_. sys_call sy id)) = (Inr v, h')" ..
  from then_Inr [OF this] obtain w h2 where l: "write_lines sy ?n ls h1 = (Inr w, h2)"
    and f: "and_then (flush_sync_file_object sy h2) (\<lambda>_. sys_call sy id) = (Inr v, h')" by blast
  from f have "ho_fs h' = ho_fs h2"
    by (auto simp: flush_sync_file_object_def dest!: then_Inr sys_call_result)
  moreover have "dget (fy_files (ho_fs h1)) ?n = Some \<lparr>fl_owner = sy_owner sy, fl_mode = PRIVATE, fl_content = []\<rparr>"
    using sys_call_result [OF c] by (simp add: create_file_def)
  ultimately show ?thesis using write_lines_result [OF l] n by auto
qed

lemma run_ok_mono: "run_ok P sy h x \<Longrightarrow> (\<And>fs. P fs \<Longrightarrow> Q fs) \<Longrightarrow> run_ok Q sy h x"
  by (auto simp: run_ok_def)

lemma copy_stat_ok: "untouched fs0 name (ho_fs h) \<Longrightarrow> run_ok (untouched fs0 name) sy h (copy_stat sy path name h)"
  unfolding copy_stat_def by (cases "dget (fy_files (ho_fs h)) path") (auto intro!: run_ok_pure run_ok_then run_ok_call)

text \<open>The file that replaces the target, and the file system with it.\<close>

definition new_inode :: "fsys \<Rightarrow> syscalls \<Rightarrow> string \<Rightarrow> string list \<Rightarrow> inode" where
  "new_inode fs0 sy path ls = (case dget (fy_files fs0) path of
     None \<Rightarrow> \<lparr>fl_owner = sy_owner sy, fl_mode = PRIVATE, fl_content = concat ls\<rparr>
   | Some x \<Rightarrow> \<lparr>fl_owner = fl_owner x, fl_mode = fl_mode x, fl_content = concat ls\<rparr>)"

definition replaced :: "fsys \<Rightarrow> syscalls \<Rightarrow> string \<Rightarrow> string list \<Rightarrow> fsys \<Rightarrow> bool" where
  "replaced fs0 sy path ls fs \<longleftrightarrow>
     (\<forall>q. dget (fy_files fs) q = (if q = path then Some (new_inode fs0 sy path ls) else dget (fy_files fs0) q)) \<and> fy_dirs fs = fy_dirs fs0"

lemma copy_stat_result:
  assumes "copy_stat sy path name h = (Inr u, h')" "untouched fs0 name (ho_fs h)" "name \<noteq> path"
    "dget (fy_files (ho_fs h)) name = Some \<lparr>fl_owner = sy_owner sy, fl_mode = PRIVATE, fl_content = concat ls\<rparr>"
  shows "dget (fy_files (ho_fs h')) name = Some (new_inode fs0 sy path ls)"
proof -
  have p: "dget (fy_files (ho_fs h)) path = dget (fy_files fs0) path" using assms(2,3) by (auto simp: untouched_def)
  show ?thesis
  proof (cases "dget (fy_files fs0) path")
    case None
    then show ?thesis using assms p by (simp add: copy_stat_def new_inode_def)
  next
    case (Some x)
    with assms(1) p show ?thesis using assms(4)
      by (auto simp: copy_stat_def new_inode_def on_file_def dest!: then_Inr sys_call_result)
  qed
qed

lemma rename_replaced:
  assumes "untouched fs0 name fs" "dget (fy_files fs) name = Some (new_inode fs0 sy path ls)" "dget (fy_files fs0) name = None"
  shows "replaced fs0 sy path ls (rename_file name path fs)"
  using assms by (auto simp: replaced_def untouched_def rename_file_def)

text \<open>With one failing call at most, the cleanup works.\<close>

lemma error_cleans:
  assumes "run_ok P sy h (Inl e, h1)" "\<forall>n. sy_fail sy n \<longrightarrow> n = k"
    "on_error (Inl e, h1) (sys_call sy (unlink_file name)) = (r, h')"
  shows "dget (fy_files (ho_fs h')) name = None"
proof -
  from assms(1) obtain j where "j < ho_calls h1" "sy_fail sy j" by (auto simp: run_ok_def)
  with assms(2) have "\<not> sy_fail sy (ho_calls h1)" by blast
  then show ?thesis using assms(3) by (auto simp: sys_call_def and_finally_def unlink_file_def)
qed

lemma write_synced_cleans:
  assumes u: "untouched fs0 name (ho_fs h)" and name: "name = sy_temp sy (ho_fs h) d"
    and none: "dget (fy_files (ho_fs h)) name = None" and one: "\<forall>n. sy_fail sy n \<longrightarrow> n = k"
    and w: "write_synced_temp sy ls d h = (Inl e, h')"
  shows "dget (fy_files (ho_fs h')) name = None"
proof -
  obtain r h1 where c: "sys_call sy (create_file (sy_owner sy) name) h = (r, h1)" by (rule prod.exhaust)
  have u1: "untouched fs0 name (ho_fs h1)"
    using run_ok_call [of "untouched fs0 name" h "create_file (sy_owner sy) name" sy] u c by (simp add: run_ok_def)
  define x where "x = and_then (write_lines sy name ls h1) (\<lambda>_ h. and_then (flush_sync_file_object sy h) (\<lambda>_. sys_call sy id))"
  have x: "run_ok (untouched fs0 name) sy h1 x"
    unfolding x_def flush_sync_file_object_def by (intro run_ok_then run_ok_call write_lines_ok u1) auto
  show ?thesis
  proof (cases r)
    case (Inl f)
    with c w none show ?thesis
      unfolding write_synced_temp_def Let_def name [symmetric] by (auto simp: sys_call_def split: if_splits)
  next
    case (Inr v)
    with c w have "and_then (on_error x (sys_call sy (unlink_file name))) (\<lambda>_ h. (Inr name, h)) = (Inl e, h')"
      unfolding write_synced_temp_def Let_def name [symmetric] x_def by simp
    then have o: "on_error x (sys_call sy (unlink_file name)) = (Inl e, h')"
      by (auto simp: and_then_def split: prod.splits sum.splits)
    then obtain f h2 where "x = (Inl f, h2)" by (cases x; cases "fst x") auto
    with error_cleans [OF x [unfolded this] one] o show ?thesis by metis
  qed
qed

text \<open>The second part of \<open>replace_file\<close>, once the temporary file is complete.\<close>

lemma replace_ends:
  assumes uw: "untouched fs0 name (ho_fs h)" and none: "dget (fy_files fs0) name = None" and "name \<noteq> path"
    and temp: "dget (fy_files (ho_fs h)) name = Some \<lparr>fl_owner = sy_owner sy, fl_mode = PRIVATE, fl_content = concat ls\<rparr>"
    and o: "on_error (and_then (copy_stat sy path name h) (\<lambda>_. sys_call sy (rename_file name path))) (sys_call sy (unlink_file name)) = (r, h')"
  shows "run_ok (\<lambda>fs. untouched fs0 name fs \<or> replaced fs0 sy path ls fs) sy h (r, h') \<and>
    (case r of Inr _ \<Rightarrow> replaced fs0 sy path ls (ho_fs h')
     | Inl _ \<Rightarrow> untouched fs0 name (ho_fs h') \<and> (\<forall>k. (\<forall>n. sy_fail sy n \<longrightarrow> n = k) \<longrightarrow> dget (fy_files (ho_fs h')) name = None))"
proof -
  let ?Q = "\<lambda>fs. untouched fs0 name fs \<or> replaced fs0 sy path ls fs"
  obtain rc hc where c: "copy_stat sy path name h = (rc, hc)" by (rule prod.exhaust)
  have c_ok: "run_ok (untouched fs0 name) sy h (rc, hc)" using copy_stat_ok [OF uw, of sy path] by (simp only: c)
  then have uc: "untouched fs0 name (ho_fs hc)" by (simp add: run_ok_def)
  have ren: "replaced fs0 sy path ls (rename_file name path (ho_fs hc))" if "rc = Inr v" for v
    by (rule rename_replaced [OF uc copy_stat_result [OF c [unfolded that] uw assms(3) temp] none])
  define x where "x = and_then (rc, hc) (\<lambda>_. sys_call sy (rename_file name path))"
  have x_ok: "run_ok ?Q sy h x"
    unfolding x_def
  proof (rule run_ok_then)
    show "run_ok ?Q sy h (rc, hc)" by (rule run_ok_mono [OF c_ok]) simp
    fix v h1 assume "(rc, hc) = (Inr v, h1)"
    then show "run_ok ?Q sy h1 (sys_call sy (rename_file name path) h1)" using uc ren by (intro run_ok_call) auto
  qed
  have ox: "on_error x (sys_call sy (unlink_file name)) = (r, h')" using o by (simp only: c x_def)
  have "replaced fs0 sy path ls fs \<Longrightarrow> replaced fs0 sy path ls (unlink_file name fs)" for fs
    using none assms(3) by (auto simp: replaced_def unlink_file_def)
  then have inv: "?Q fs \<Longrightarrow> ?Q (unlink_file name fs)" for fs by auto
  have ok: "run_ok ?Q sy h (r, h')" unfolding ox [symmetric] by (rule run_ok_error [OF x_ok inv])
  show ?thesis
  proof (cases r)
    case (Inr v)
    then have "x = (Inr v, h')" using ox by (simp add: error_Inr)
    from then_Inr [OF this [unfolded x_def]] show ?thesis using ren Inr ok by (auto dest: sys_call_result)
  next
    case (Inl e)
    then obtain f hx where x: "x = (Inl f, hx)" using ox by (cases x; cases "fst x") auto
    have "untouched fs0 name (ho_fs hx)"
      using x uc by (cases rc) (auto simp: x_def sys_call_def split: if_splits)
    then have "untouched fs0 name (ho_fs h')"
      using ox x by (auto simp: and_finally_def sys_call_def split: if_splits)
    moreover have "dget (fy_files (ho_fs h')) name = None" if "\<forall>n. sy_fail sy n \<longrightarrow> n = k" for k
      by (rule error_cleans [OF x_ok [unfolded x] that ox [unfolded x]])
    ultimately show ?thesis using Inl ok by auto
  qed
qed

text \<open>
  C39: A file that is written over another appears whole or not at all. Whichever system calls fail, at every
  moment the target is the old file or the complete new one, with the owner and mode of the old one, and no
  other file but the temporary one differs. When the call returns, only the target has changed; when it
  raises, the target is the old file, and if only one call failed, nothing else is left behind.
\<close>

theorem file_w_tmp_atomic:
  assumes "path \<noteq> []" "path \<notin> set (fy_dirs (ho_fs h))" and name: "name = sy_temp sy (ho_fs h) (directory_of path)"
    and "name \<noteq> path" and none: "dget (fy_files (ho_fs h)) name = None"
    and run: "file_w_tmp sy ls (Some path) h = (r, h')"
  shows "(\<forall>fs \<in> set (ho_seen h') - set (ho_seen h). untouched (ho_fs h) name fs \<or> replaced (ho_fs h) sy path ls fs) \<and>
    (case r of
       Inr q \<Rightarrow> q = path \<and> replaced (ho_fs h) sy path ls (ho_fs h')
     | Inl e \<Rightarrow> untouched (ho_fs h) name (ho_fs h') \<and>
         ((\<exists>k. \<forall>n. sy_fail sy n \<longrightarrow> n = k) \<longrightarrow> dget (fy_files (ho_fs h')) name = None))"
proof -
  have u: "untouched (ho_fs h) name (ho_fs h)" by (simp add: untouched_def)
  obtain rw hw where w: "write_synced_temp sy ls (directory_of path) h = (rw, hw)" by (rule prod.exhaust)
  have w_ok: "run_ok (untouched (ho_fs h) name) sy h (rw, hw)" using write_synced_ok [OF u name, of ls] by (simp only: w)
  have run': "replace_file sy ls path h = (r, h')" using run assms(1,2) by (simp add: file_w_tmp_def)
  show ?thesis
  proof (cases rw)
    case (Inl e)
    then have "r = Inl e" "h' = hw" using run' w by (simp_all add: replace_file_def)
    then show ?thesis using w_ok write_synced_cleans [OF u name none _ w [unfolded Inl]] by (auto simp: run_ok_def)
  next
    case (Inr n)
    have n: "n = name" and temp: "dget (fy_files (ho_fs hw)) name = Some \<lparr>fl_owner = sy_owner sy, fl_mode = PRIVATE, fl_content = concat ls\<rparr>"
      using write_synced_result [OF w [unfolded Inr]] name by auto
    have uw: "untouched (ho_fs h) name (ho_fs hw)" using w_ok by (simp add: run_ok_def)
    obtain ro ho where o: "on_error (and_then (copy_stat sy path name hw) (\<lambda>_. sys_call sy (rename_file name path)))
        (sys_call sy (unlink_file name)) = (ro, ho)" by (rule prod.exhaust)
    have "(r, h') = and_then (ro, ho) (\<lambda>_ h. (Inr path, h))"
      using run' w Inr n o by (simp add: replace_file_def)
    then have "h' = ho" "r = (case ro of Inl e \<Rightarrow> Inl e | Inr _ \<Rightarrow> Inr path)" by (cases ro; simp)+
    with replace_ends [OF uw none assms(4) temp o] w_ok show ?thesis
      by (auto simp: run_ok_def split: sum.splits)
  qed
qed

text \<open>A system with given failing calls, and a file in a directory.\<close>

definition demo_system :: "(nat \<Rightarrow> bool) \<Rightarrow> syscalls" where
  "demo_system fail = \<lparr>sy_fail = fail, sy_owner = (7, 7), sy_temp = (\<lambda>_ d. path_join d ''tmp1''), sy_tempdir = ''/tmp''\<rparr>"

definition demo_host :: host where
  "demo_host = \<lparr>ho_fs = \<lparr>fy_files = [(''/d/f'', \<lparr>fl_owner = (1, 2), fl_mode = 420, fl_content = ''old''\<rparr>)], fy_dirs = [''/d'']\<rparr>,
     ho_calls = 0, ho_seen = []\<rparr>"

lemma demo_temp: "sy_temp (demo_system fail) fs (directory_of ''/d/f'') = ''/d/tmp1''"
  by (simp add: demo_system_def) code_simp

lemma demo_fails: "sy_fail (demo_system fail) = fail"
  by (simp add: demo_system_def)

lemma demo_outcomes:
  "\<not> isl (fst (file_w_tmp (demo_system (\<lambda>_. False)) [''new'', ''er''] (Some ''/d/f'') demo_host))"
  "isl (fst (file_w_tmp (demo_system (\<lambda>n. n = 2)) [''new'', ''er''] (Some ''/d/f'') demo_host))"
  by (simp_all add: file_w_tmp_def replace_file_def write_synced_temp_def demo_temp flush_sync_file_object_def sys_call_def
      copy_stat_def demo_fails demo_host_def create_file_def append_file_def rename_file_def unlink_file_def on_file_def
      dget_Cons and_finally_def Let_def)

theorem file_w_tmp_atomic_witness:
  "(\<exists>h'. file_w_tmp (demo_system (\<lambda>_. False)) [''new'', ''er''] (Some ''/d/f'') demo_host = (Inr ''/d/f'', h') \<and>
     dget (fy_files (ho_fs h')) ''/d/f'' = Some \<lparr>fl_owner = (1, 2), fl_mode = 420, fl_content = ''newer''\<rparr>) \<and>
   (\<exists>e h'. file_w_tmp (demo_system (\<lambda>n. n = 2)) [''new'', ''er''] (Some ''/d/f'') demo_host = (Inl e, h') \<and>
     dget (fy_files (ho_fs h')) ''/d/tmp1'' = None \<and>
     dget (fy_files (ho_fs h')) ''/d/f'' = Some \<lparr>fl_owner = (1, 2), fl_mode = 420, fl_content = ''old''\<rparr>)"
proof
  have old: "dget (fy_files (ho_fs demo_host)) ''/d/tmp1'' = None" "''/d/f'' \<notin> set (fy_dirs (ho_fs demo_host))"
    by (simp_all add: demo_host_def dget_Cons)
  have atomic: "file_w_tmp (demo_system fail) ls (Some ''/d/f'') demo_host = (r, h') \<Longrightarrow>
      (case r of Inr q \<Rightarrow> q = ''/d/f'' \<and> replaced (ho_fs demo_host) (demo_system fail) ''/d/f'' ls (ho_fs h')
       | Inl e \<Rightarrow> untouched (ho_fs demo_host) ''/d/tmp1'' (ho_fs h') \<and>
         ((\<exists>k. \<forall>n. sy_fail (demo_system fail) n \<longrightarrow> n = k) \<longrightarrow> dget (fy_files (ho_fs h')) ''/d/tmp1'' = None))" for fail ls r h'
    using file_w_tmp_atomic [of "''/d/f''" demo_host "''/d/tmp1''" "demo_system fail" ls r h'] old by (simp add: demo_temp)
  obtain r1 h1 where 1: "file_w_tmp (demo_system (\<lambda>_. False)) [''new'', ''er''] (Some ''/d/f'') demo_host = (r1, h1)"
    by (rule prod.exhaust)
  then show "\<exists>h'. file_w_tmp (demo_system (\<lambda>_. False)) [''new'', ''er''] (Some ''/d/f'') demo_host = (Inr ''/d/f'', h') \<and>
     dget (fy_files (ho_fs h')) ''/d/f'' = Some \<lparr>fl_owner = (1, 2), fl_mode = 420, fl_content = ''newer''\<rparr>"
    using atomic [OF 1] demo_outcomes(1) by (cases r1) (auto simp: replaced_def new_inode_def demo_host_def dget_Cons)
  obtain r2 h2 where 2: "file_w_tmp (demo_system (\<lambda>n. n = 2)) [''new'', ''er''] (Some ''/d/f'') demo_host = (r2, h2)"
    by (rule prod.exhaust)
  then show "\<exists>e h'. file_w_tmp (demo_system (\<lambda>n. n = 2)) [''new'', ''er''] (Some ''/d/f'') demo_host = (Inl e, h') \<and>
     dget (fy_files (ho_fs h')) ''/d/tmp1'' = None \<and>
     dget (fy_files (ho_fs h')) ''/d/f'' = Some \<lparr>fl_owner = (1, 2), fl_mode = 420, fl_content = ''old''\<rparr>"
    using atomic [OF 2] demo_outcomes(2)
    by (cases r2) (auto simp: untouched_def demo_host_def dget_Cons demo_system_def)
qed

end
