(* ===== verification/Validators.thy ===== *)
theory Validators
  imports Network Helpers
begin

text \<open>
  The field validators of \<^verbatim>\<open>sonicprobe/validator\<close>: country codes, dates and times, addresses of mail. The part
  of \<^verbatim>\<open>datetime.strptime\<close> that the default formats use is modelled on ASCII digits; formats with other
  directives are left to a parameter.
\<close>

section \<open>Countries\<close>

definition COUNTRIES_A_K :: "(string, string) dict" where
  "COUNTRIES_A_K =
   [(''ad'', ''Andorra''), (''ae'', ''United Arab Emirates''), (''af'', ''Afghanistan''), (''ag'', ''Antigua and Barbuda''),
    (''ai'', ''Anguilla''), (''al'', ''Albania''), (''am'', ''Armenia''), (''an'', ''Netherlands Antilles''),
    (''ao'', ''Angola''), (''aq'', ''Antarctica''), (''ar'', ''Argentina''), (''as'', ''American Samoa''),
    (''at'', ''Austria''), (''au'', ''Australia''), (''aw'', ''Aruba''), (''az'', ''Azerbaijan''),
    (''ba'', ''Bosnia Hercegovina''), (''bb'', ''Barbados''), (''bd'', ''Bangladesh''), (''be'', ''Belgium''),
    (''bf'', ''Burkina Faso''), (''bg'', ''Bulgaria''), (''bh'', ''Bahrain''), (''bi'', ''Burundi''), (''bj'', ''Benin''),
    (''bm'', ''Bermuda''), (''bn'', ''Brunei Darussalam''), (''bo'', ''Bolivia''), (''br'', ''Brazil''),
    (''bs'', ''Bahamas''), (''bt'', ''Bhutan''), (''bv'', ''Bouvet Island''), (''bw'', ''Botswana''),
    (''by'', ''Belarus (Byelorussia)''), (''bz'', ''Belize''), (''ca'', ''Canada''), (''cc'', ''Cocos Islands''),
    (''cd'', ''Congo, The Democratic Republic of the''), (''cf'', ''Central African Republic''), (''cg'', ''Congo''),
    (''ch'', ''Switzerland''), (''ci'', ''Ivory Coast''), (''ck'', ''Cook Islands''), (''cl'', ''Chile''),
    (''cm'', ''Cameroon''), (''cn'', ''China''), (''co'', ''Colombia''), (''cr'', ''Costa Rica''),
    (''cs'', ''Czechoslovakia''), (''cu'', ''Cuba''), (''cv'', ''Cape Verde''), (''cx'', ''Christmas Island''),
    (''cy'', ''Cyprus''), (''cz'', ''Czech Republic''), (''de'', ''Germany''), (''dj'', ''Djibouti''),
    (''dk'', ''Denmark''), (''dm'', ''Dominica''), (''do'', ''Dominican Republic''), (''dz'', ''Algeria''),
    (''ec'', ''Ecuador''), (''ee'', ''Estonia''), (''eg'', ''Egypt''), (''eh'', ''Western Sahara''), (''er'', ''Eritrea''),
    (''es'', ''Spain''), (''et'', ''Ethiopia''), (''fi'', ''Finland''), (''fj'', ''Fiji''), (''fk'', ''Falkland Islands''),
    (''fm'', ''Micronesia''), (''fo'', ''Faroe Islands''), (''fr'', ''France''), (''fx'', ''France, Metropolitan FX''),
    (''ga'', ''Gabon''), (''gb'', ''United Kingdom (Great Britain)''), (''gd'', ''Grenada''), (''ge'', ''Georgia''),
    (''gf'', ''French Guiana''), (''gh'', ''Ghana''), (''gi'', ''Gibraltar''), (''gl'', ''Greenland''),
    (''gm'', ''Gambia''), (''gn'', ''Guinea''), (''gp'', ''Guadeloupe''), (''gq'', ''Equatorial Guinea''),
    (''gr'', ''Greece''), (''gs'', ''South Georgia and the South Sandwich Islands''), (''gt'', ''Guatemala''),
    (''gu'', ''Guam''), (''gw'', ''Guinea-bissau''), (''gy'', ''Guyana''), (''hk'', ''Hong Kong''),
    (''hm'', ''Heard and McDonald Islands''), (''hn'', ''Honduras''), (''hr'', ''Croatia''), (''ht'', ''Haiti''),
    (''hu'', ''Hungary''), (''id'', ''Indonesia''), (''ie'', ''Ireland''), (''il'', ''Israel''), (''in'', ''India''),
    (''io'', ''British Indian Ocean Territory''), (''iq'', ''Iraq''), (''ir'', ''Iran''), (''is'', ''Iceland''),
    (''it'', ''Italy''), (''jm'', ''Jamaica''), (''jo'', ''Jordan''), (''jp'', ''Japan''), (''ke'', ''Kenya''),
    (''kg'', ''Kyrgyzstan''), (''kh'', ''Cambodia''), (''ki'', ''Kiribati''), (''km'', ''Comoros''),
    (''kn'', ''Saint Kitts and Nevis''), (''kp'', ''North Korea''), (''kr'', ''South Korea''), (''kw'', ''Kuwait''),
    (''ky'', ''Cayman Islands''), (''kz'', ''Kazakhstan'')]"

definition COUNTRIES_L_Z :: "(string, string) dict" where
  "COUNTRIES_L_Z =
   [(''la'', ''Laos''), (''lb'', ''Lebanon''), (''lc'', ''Saint Lucia''), (''li'', ''Lichtenstein''),
    (''lk'', ''Sri Lanka''), (''lr'', ''Liberia''), (''ls'', ''Lesotho''), (''lt'', ''Lithuania''),
    (''lu'', ''Luxembourg''), (''lv'', ''Latvia''), (''ly'', ''Libya''), (''ma'', ''Morocco''), (''mc'', ''Monaco''),
    (''md'', ''Moldova Republic''), (''mg'', ''Madagascar''), (''mh'', ''Marshall Islands''),
    (''mk'', ''Macedonia, The Former Yugoslav Republic of''), (''ml'', ''Mali''), (''mm'', ''Myanmar''),
    (''mn'', ''Mongolia''), (''mo'', ''Macau''), (''mp'', ''Northern Mariana Islands''), (''mq'', ''Martinique''),
    (''mr'', ''Mauritania''), (''ms'', ''Montserrat''), (''mt'', ''Malta''), (''mu'', ''Mauritius''),
    (''mv'', ''Maldives''), (''mw'', ''Malawi''), (''mx'', ''Mexico''), (''my'', ''Malaysia''), (''mz'', ''Mozambique''),
    (''na'', ''Namibia''), (''nc'', ''New Caledonia''), (''ne'', ''Niger''), (''nf'', ''Norfolk Island''),
    (''ng'', ''Nigeria''), (''ni'', ''Nicaragua''), (''nl'', ''Netherlands''), (''no'', ''Norway''), (''np'', ''Nepal''),
    (''nr'', ''Nauru''), (''nt'', ''Neutral Zone''), (''nu'', ''Niue''), (''nz'', ''New Zealand''), (''om'', ''Oman''),
    (''pa'', ''Panama''), (''pe'', ''Peru''), (''pf'', ''French Polynesia''), (''pg'', ''Papua New Guinea''),
    (''ph'', ''Philippines''), (''pk'', ''Pakistan''), (''pl'', ''Poland''), (''pm'', ''St. Pierre and Miquelon''),
    (''pn'', ''Pitcairn''), (''pr'', ''Puerto Rico''), (''pt'', ''Portugal''), (''pw'', ''Palau''), (''py'', ''Paraguay''),
    (''qa'', ''Qatar''), (''re'', ''Reunion''), (''ro'', ''Romania''), (''ru'', ''Russia''), (''rw'', ''Rwanda''),
    (''sa'', ''Saudi Arabia''), (''sb'', ''Solomon Islands''), (''sc'', ''Seychelles''), (''sd'', ''Sudan''),
    (''se'', ''Sweden''), (''sg'', ''Singapore''), (''sh'', ''St. Helena''), (''si'', ''Slovenia''),
    (''sj'', ''Svalbard and Jan Mayen Islands''), (''sk'', ''Slovakia (Slovak Republic)''), (''sl'', ''Sierra Leone''),
    (''sm'', ''San Marino''), (''sn'', ''Senegal''), (''so'', ''Somalia''), (''sr'', ''Suriname''),
    (''st'', ''Sao Tome and Principe''), (''sv'', ''El Salvador''), (''sy'', ''Syria''), (''sz'', ''Swaziland''),
    (''tc'', ''Turks and Caicos Islands''), (''td'', ''Chad''), (''tf'', ''French Southern Territories''),
    (''tg'', ''Togo''), (''th'', ''Thailand''), (''tj'', ''Tajikistan''), (''tk'', ''Tokelau''), (''tm'', ''Turkmenistan''),
    (''tn'', ''Tunisia''), (''to'', ''Tonga''), (''tp'', ''East Timor''), (''tr'', ''Turkey''),
    (''tt'', ''Trinidad, Tobago''), (''tv'', ''Tuvalu''), (''tw'', ''Taiwan''), (''tz'', ''Tanzania''),
    (''ua'', ''Ukraine''), (''ug'', ''Uganda''), (''uk'', ''United Kingdom''), (''um'', ''United States Minor Islands''),
    (''us'', ''United States of America''), (''uy'', ''Uruguay''), (''uz'', ''Uzbekistan''), (''va'', ''Vatican City''),
    (''vc'', ''Saint Vincent, Grenadines''), (''ve'', ''Venezuela''), (''vg'', ''Virgin Islands (British)''),
    (''vi'', ''Virgin Islands (USA)''), (''vn'', ''Viet Nam''), (''vu'', ''Vanuatu''),
    (''wf'', ''Wallis and Futuna Islands''), (''ws'', ''Samoa''), (''ye'', ''Yemen''), (''yt'', ''Mayotte''),
    (''yu'', ''Yugoslavia''), (''za'', ''South Africa''), (''zm'', ''Zambia''), (''zr'', ''Zaire''), (''zw'', ''Zimbabwe'')]"

definition COUNTRIES :: "(string, string) dict" where "COUNTRIES = COUNTRIES_A_K @ COUNTRIES_L_Z"

text \<open>\<^verbatim>\<open>ensure_str\<close> takes texts and bytes (which \<open>has_len\<close> does not let through) only.\<close>

definition ensure_str :: "pyval \<Rightarrow> pyerror + string" where
  "ensure_str v = (case v of VStr s \<Rightarrow> Inr s | VBytes s \<Rightarrow> Inr s | _ \<Rightarrow> Inl (TypeError ''not expecting type''))"

definition getCountry :: "pyval \<Rightarrow> pyerror + string option" where
  "getCountry value =
     (if has_len value (VBool False) (VBool False) = VBool False then Inr None
      else bind_sum (ensure_str value) (\<lambda>s. Inr (dget COUNTRIES (lower s))))"

definition country_validate :: "pyval \<Rightarrow> pyerror + bool" where
  "country_validate value =
     (if has_len value (VBool False) (VBool False) = VBool False then Inr False
      else bind_sum (ensure_str value) (\<lambda>s. Inr (dhas COUNTRIES (lower s))))"

section \<open>Dates\<close>

text \<open>A format: fields, runs of white space, and characters matched whatever their case.\<close>

datatype format_part = Field char | Blanks | Same char

lemma dropWhile_smaller [termination_simp]: "length (dropWhile P xs) < Suc (length xs)"
  by (simp add: length_dropWhile_le less_Suc_eq_le)

fun directives :: "string \<Rightarrow> format_part list option" where
  "directives [] = Some []"
| "directives (c # s) =
     (if c = CHR ''%'' then (case s of
          [] \<Rightarrow> None
        | d # r \<Rightarrow> if d \<in> set ''YmdHMS'' then map_option (Cons (Field d)) (directives r)
                  else if d = CHR ''%'' then map_option (Cons (Same d)) (directives r) else None)
      else if is_space c then map_option (Cons Blanks) (directives (dropWhile is_space s))
      else map_option (Cons (Same c)) (directives s))"

text \<open>The alternatives of each field in their order, as classes of characters.\<close>

definition field_alternatives :: "char \<Rightarrow> string list list" where
  "field_alternatives f =
     (if f = CHR ''Y'' then [[digit_chars, digit_chars, digit_chars, digit_chars]]
      else if f = CHR ''m'' then [[''1'', ''012''], [''0'', ''123456789''], [''123456789'']]
      else if f = CHR ''d'' then [[''3'', ''01''], [''12'', digit_chars], [''0'', ''123456789''], [''123456789''],
        ['' '', ''123456789'']]
      else if f = CHR ''H'' then [[''2'', ''0123''], [''01'', digit_chars], [digit_chars]]
      else if f = CHR ''M'' then [[''012345'', digit_chars], [digit_chars]]
      else [[''6'', ''01''], [''012345'', digit_chars], [digit_chars]])"

fun take_classes :: "string list \<Rightarrow> string \<Rightarrow> (string \<times> string) option" where
  "take_classes [] s = Some ([], s)"
| "take_classes (k # ks) [] = None"
| "take_classes (k # ks) (c # s) =
     (if c \<in> set k then map_option (\<lambda>(a, r). (c # a, r)) (take_classes ks s) else None)"

text \<open>All ways to match, in the order of the search: values of the fields and the rest of the text.\<close>

type_synonym field_values = "(char \<times> nat) list"

fun strptime_matches :: "format_part list \<Rightarrow> string \<Rightarrow> (field_values \<times> string) list" where
  "strptime_matches [] s = [([], s)]"
| "strptime_matches (Field f # ds) s =
     concat (map (\<lambda>ks. case take_classes ks s of None \<Rightarrow> []
       | Some (a, r) \<Rightarrow> map (\<lambda>(vs, q). ((f, digits_val 10 (strip a)) # vs, q)) (strptime_matches ds r)) (field_alternatives f))"
| "strptime_matches (Blanks # ds) s =
     concat (map (\<lambda>k. strptime_matches ds (drop k s)) (rev [1 ..< Suc (length (takeWhile is_space s))]))"
| "strptime_matches (Same c # ds) s = (case s of [] \<Rightarrow> []
     | d # r \<Rightarrow> if lower_char c = lower_char d then strptime_matches ds r else [])"

definition leap_year :: "nat \<Rightarrow> bool" where
  "leap_year y \<longleftrightarrow> y mod 4 = 0 \<and> (y mod 100 \<noteq> 0 \<or> y mod 400 = 0)"

definition days_in_month :: "nat \<Rightarrow> nat \<Rightarrow> nat" where
  "days_in_month y m = (if m = 2 then if leap_year y then 29 else 28 else if m \<in> set [4, 6, 9, 11] then 30 else 31)"

text \<open>The values make a \<^verbatim>\<open>datetime\<close>; without a year it is 1900.\<close>

definition datetime_ok :: "field_values \<Rightarrow> bool" where
  "datetime_ok vs =
     (let v = dgetd vs; m = v CHR ''m'' 1; d = v CHR ''d'' 1;
          y = v CHR ''Y'' 1900
      in 1 \<le> y \<and> 1 \<le> m \<and> m \<le> 12 \<and> 1 \<le> d \<and> d \<le> days_in_month y m \<and>
         v CHR ''H'' 0 < 24 \<and> v CHR ''M'' 0 < 60 \<and> v CHR ''S'' 0 < 60)"

definition fields_of :: "format_part list \<Rightarrow> string" where
  "fields_of ds = concat (map (\<lambda>d. case d of Field f \<Rightarrow> [f] | _ \<Rightarrow> []) ds)"

text \<open>\<^verbatim>\<open>strptime\<close> takes the first match, which must reach the end.\<close>

definition strptime :: "(string \<Rightarrow> string \<Rightarrow> pyerror + unit) \<Rightarrow> string \<Rightarrow> string \<Rightarrow> pyerror + unit" where
  "strptime other value xformat = (case directives xformat of
       None \<Rightarrow> other value xformat
     | Some ds \<Rightarrow> if \<not> distinct (fields_of ds) then other value xformat
         else (case strptime_matches ds value of
             [] \<Rightarrow> Inl (ValueError ''time data does not match format'')
           | (vs, r) # _ \<Rightarrow> if r \<noteq> [] then Inl (ValueError ''unconverted data remains'')
               else if datetime_ok vs then Inr () else Inl (ValueError ''out of range'')))"

definition DATE_FORMAT :: string where "DATE_FORMAT = ''%Y-%m-%d''"
definition DATETIME_FORMAT :: string where "DATETIME_FORMAT = ''%Y-%m-%d %H:%M:%S''"

text \<open>The argument, else the format of the validator, else the default one; an empty text counts as none.\<close>

definition choose_format :: "string option \<Rightarrow> string option \<Rightarrow> string \<Rightarrow> string" where
  "choose_format xformat own dflt =
     (if xformat \<noteq> None \<and> xformat \<noteq> Some [] then the xformat else if own \<noteq> None \<and> own \<noteq> Some [] then the own else dflt)"

definition validate_with ::
  "(string \<Rightarrow> string \<Rightarrow> pyerror + unit) \<Rightarrow> string \<Rightarrow> pyval \<Rightarrow> pyerror + bool" where
  "validate_with other xformat value = (case value of
       VStr s \<Rightarrow> (case strptime other s xformat of
           Inr _ \<Rightarrow> Inr True | Inl (ValueError _) \<Rightarrow> Inr False | Inl e \<Rightarrow> Inl e)
     | _ \<Rightarrow> Inl (TypeError ''strptime() argument 1 must be str''))"

definition date_validate ::
  "(string \<Rightarrow> string \<Rightarrow> pyerror + unit) \<Rightarrow> string option \<Rightarrow> pyval \<Rightarrow> string option \<Rightarrow> pyerror + bool" where
  "date_validate other own value xformat = validate_with other (choose_format xformat own DATE_FORMAT) value"

definition datetime_validate ::
  "(string \<Rightarrow> string \<Rightarrow> pyerror + unit) \<Rightarrow> string option \<Rightarrow> pyval \<Rightarrow> string option \<Rightarrow> pyerror + bool" where
  "datetime_validate other own value xformat = validate_with other (choose_format xformat own DATETIME_FORMAT) value"

section \<open>Mail\<close>

definition valid_email_local :: "string \<Rightarrow> bool" where "valid_email_local = valid_email_localpart"

definition valid_email_address :: "(string \<Rightarrow> string option) \<Rightarrow> string \<Rightarrow> bool" where
  "valid_email_address idna address = valid_email_address_literal idna address [M_DOMAIN_TLD]"

definition email_validate :: "(string \<Rightarrow> string option) \<Rightarrow> string \<Rightarrow> bool" where
  "email_validate idna email = valid_email idna email [M_DOMAIN_TLD]"

section \<open>What the date validators accept\<close>

lemma take_classes_iff: "take_classes ks s = Some (a, r) \<longleftrightarrow> s = a @ r \<and> a \<in> set (product_lists ks)"
proof (induction ks arbitrary: s a)
  case Nil
  then show ?case by auto
next
  case (Cons k ks)
  then show ?case by (cases s) (auto simp: Cons_eq_append_conv)
qed

text \<open>The ways to write a number in a field, with the characters that may stand before a single digit.\<close>

definition number_texts :: "string \<Rightarrow> nat \<Rightarrow> string list" where
  "number_texts pads n = show_nat n # (if n < 10 then map (\<lambda>c. c # show_nat n) pads else [])"

definition fields_read :: "char \<Rightarrow> string \<Rightarrow> nat \<Rightarrow> bool" where
  "fields_read f pads n \<longleftrightarrow> list_all (\<lambda>ks. list_all (\<lambda>a. 1 \<le> digits_val 10 (strip a) \<and> digits_val 10 (strip a) \<le> n \<and>
     a \<in> set (number_texts pads (digits_val 10 (strip a)))) (product_lists ks)) (field_alternatives f)"

lemma month_field: "fields_read CHR ''m'' ''0'' 12" by code_simp
lemma day_field: "fields_read CHR ''d'' ''0 '' 31" by code_simp

lemma field_match:
  assumes "fields_read f pads n" "(vs, q) \<in> set (strptime_matches (Field f # ds) s)"
  shows "\<exists>k a r vs'. s = a @ r \<and> a \<in> set (number_texts pads k) \<and> 1 \<le> k \<and> k \<le> n \<and> vs = (f, k) # vs' \<and>
    (vs', q) \<in> set (strptime_matches ds r)"
proof -
  from assms(2) obtain ks a r vs' where m: "ks \<in> set (field_alternatives f)" "take_classes ks s = Some (a, r)"
      "vs = (f, digits_val 10 (strip a)) # vs'" "(vs', q) \<in> set (strptime_matches ds r)"
    by (fastforce split: option.splits dest: sym)
  moreover have "s = a @ r" "a \<in> set (product_lists ks)" using m(2) by (simp_all add: take_classes_iff)
  ultimately show ?thesis using assms(1) by (force simp: fields_read_def list_all_iff)
qed

lemma same_match: "(vs, q) \<in> set (strptime_matches (Same c # ds) s) \<longleftrightarrow>
    (\<exists>d r. s = d # r \<and> lower_char c = lower_char d \<and> (vs, q) \<in> set (strptime_matches ds r))"
  by (auto split: list.splits)

lemma dash_char: "lower_char CHR ''-'' = lower_char d \<longleftrightarrow> d = CHR ''-''"
  by (cases "d \<in> set upper_chars") (auto simp: lower_char_def upper_chars_def lower_chars_def)

text \<open>A date as the default format has it: year, month and day between dashes.\<close>

definition calendar_date :: "string \<Rightarrow> bool" where
  "calendar_date s \<longleftrightarrow> (\<exists>y a b m d. s = y @ CHR ''-'' # m @ CHR ''-'' # d \<and> length y = 4 \<and> set y \<subseteq> set digit_chars \<and>
     m \<in> set (number_texts ''0'' a) \<and> d \<in> set (number_texts ''0 '' b) \<and>
     1 \<le> digits_val 10 y \<and> 1 \<le> a \<and> a \<le> 12 \<and> 1 \<le> b \<and> b \<le> days_in_month (digits_val 10 y) a)"

definition date_directives :: "format_part list" where
  "date_directives = [Field CHR ''Y'', Same CHR ''-'', Field CHR ''m'', Same CHR ''-'', Field CHR ''d'']"

lemma date_directives_ok: "directives DATE_FORMAT = Some date_directives" "distinct (fields_of date_directives)"
  by code_simp+

lemma strip_digits: "set y \<subseteq> set digit_chars \<Longrightarrow> strip y = y"
  by (rule strip_free) (auto simp: list_all_iff digit_chars_val)

lemma year_alternatives: "a \<in> set (product_lists [k, k, k, k]) \<longleftrightarrow> length a = 4 \<and> set a \<subseteq> set k"
  unfolding product_lists_set mem_Collect_eq by (auto simp: list_all2_Cons2 length_Suc_conv numeral_eq_Suc)

lemma year_match:
  "strptime_matches (Field CHR ''Y'' # ds) s =
     (if length (take 4 s) = 4 \<and> set (take 4 s) \<subseteq> set digit_chars
      then map (\<lambda>(vs, q). ((CHR ''Y'', digits_val 10 (take 4 s)) # vs, q)) (strptime_matches ds (drop 4 s)) else [])"
proof -
  have "take_classes [k, k, k, k] s = (if length (take 4 s) = 4 \<and> set (take 4 s) \<subseteq> set k then Some (take 4 s, drop 4 s) else None)" for k
  proof (cases "take_classes [k, k, k, k] s")
    case None
    have "\<not> (length (take 4 s) = 4 \<and> set (take 4 s) \<subseteq> set k)"
      using None take_classes_iff [of "[k, k, k, k]" s "take 4 s" "drop 4 s"] unfolding year_alternatives by auto
    then show ?thesis using None by auto
  next
    case (Some x)
    obtain a r where x: "x = (a, r)" by (rule prod.exhaust)
    with Some have "s = a @ r" "length a = 4 \<and> set a \<subseteq> set k" by (simp_all only: take_classes_iff year_alternatives)
    then show ?thesis using Some x by auto
  qed
  then show ?thesis by (simp add: field_alternatives_def strip_digits)
qed

lemma month_texts:
  assumes "m \<in> set (number_texts ''0'' a)" "1 \<le> a" "a \<le> 12"
  shows "strptime_matches (Field CHR ''m'' # Same CHR ''-'' # ds) (m @ CHR ''-'' # x) =
    map (\<lambda>(vs, q). ((CHR ''m'', a) # vs, q)) (strptime_matches ds x)"
proof -
  have "a = 1 \<or> a = 2 \<or> a = 3 \<or> a = 4 \<or> a = 5 \<or> a = 6 \<or> a = 7 \<or> a = 8 \<or> a = 9 \<or> a = 10 \<or> a = 11 \<or> a = 12"
    using assms(2,3) by arith
  then show ?thesis using assms(1)
    by (elim disjE) (auto simp: number_texts_def show_nat.simps digit_chars_def field_alternatives_def strip_def is_space_def
        digits_val_def digit_val_def lower_char_def upper_chars_def lower_chars_def)
qed

lemma take_one: "take 1 xs = [x] \<Longrightarrow> \<exists>ys. xs = x # ys"
  by (cases xs) auto

lemma day_texts:
  assumes "d \<in> set (number_texts ''0 '' b)" "1 \<le> b" "b \<le> 31"
  shows "\<exists>ms. strptime_matches [Field CHR ''d''] d = ([(CHR ''d'', b)], []) # ms"
proof -
  have all: "list_all (\<lambda>b. list_all (\<lambda>d. take 1 (strptime_matches [Field CHR ''d''] d) = [([(CHR ''d'', b)], [])]) (number_texts ''0 '' b)) [1..<32]"
    by code_simp
  have "b \<in> set [1..<32]" using assms by auto
  with all assms(1) have "take 1 (strptime_matches [Field CHR ''d''] d) = [([(CHR ''d'', b)], [])]"
    unfolding list_all_iff by blast
  then show ?thesis by (rule take_one)
qed

lemma days_le: "days_in_month y m \<le> 31"
  by (simp add: days_in_month_def)

lemma datetime_of_date:
  "1 \<le> a \<Longrightarrow> a \<le> 12 \<Longrightarrow> 1 \<le> b \<Longrightarrow>
     datetime_ok [(CHR ''Y'', y), (CHR ''m'', a), (CHR ''d'', b)] \<longleftrightarrow> 1 \<le> y \<and> b \<le> days_in_month y a"
  by (simp add: datetime_ok_def dgetd_def dget_Cons)

lemma date_read:
  assumes "length y = 4" "set y \<subseteq> set digit_chars" "m \<in> set (number_texts ''0'' a)" "d \<in> set (number_texts ''0 '' b)"
    "1 \<le> a" "a \<le> 12" "1 \<le> b" "b \<le> 31"
  shows "\<exists>ms. strptime_matches date_directives (y @ CHR ''-'' # m @ CHR ''-'' # d) =
    ([(CHR ''Y'', digits_val 10 y), (CHR ''m'', a), (CHR ''d'', b)], []) # ms"
proof -
  from day_texts [OF assms(4,7,8)] obtain ms where "strptime_matches [Field CHR ''d''] d = ([(CHR ''d'', b)], []) # ms" by blast
  then show ?thesis unfolding date_directives_def year_match using assms(1,2)
    by (simp add: month_texts [OF assms(3,5,6)] del: strptime_matches.simps(2))
qed

lemma date_match:
  assumes "(vs, []) \<in> set (strptime_matches date_directives s)"
  shows "\<exists>y a b m d. s = y @ CHR ''-'' # m @ CHR ''-'' # d \<and> length y = 4 \<and> set y \<subseteq> set digit_chars \<and>
     m \<in> set (number_texts ''0'' a) \<and> d \<in> set (number_texts ''0 '' b) \<and> 1 \<le> a \<and> a \<le> 12 \<and> 1 \<le> b \<and> b \<le> 31 \<and>
     vs = [(CHR ''Y'', digits_val 10 y), (CHR ''m'', a), (CHR ''d'', b)]"
proof -
  let ?y = "take 4 s"
  from assms obtain vs1 where y: "length ?y = 4" "set ?y \<subseteq> set digit_chars" "vs = (CHR ''Y'', digits_val 10 ?y) # vs1"
      and 1: "(vs1, []) \<in> set (strptime_matches [Same CHR ''-'', Field CHR ''m'', Same CHR ''-'', Field CHR ''d''] (drop 4 s))"
    unfolding date_directives_def year_match by (auto split: if_splits simp del: strptime_matches.simps)
  from 1 [unfolded same_match dash_char] obtain r1 where r1: "drop 4 s = CHR ''-'' # r1"
      "(vs1, []) \<in> set (strptime_matches [Field CHR ''m'', Same CHR ''-'', Field CHR ''d''] r1)" by blast
  from field_match [OF month_field r1(2)] obtain a m r2 vs2 where m: "r1 = m @ r2" "m \<in> set (number_texts ''0'' a)" "1 \<le> a" "a \<le> 12"
      "vs1 = (CHR ''m'', a) # vs2" and 2: "(vs2, []) \<in> set (strptime_matches [Same CHR ''-'', Field CHR ''d''] r2)" by blast
  from 2 [unfolded same_match dash_char] obtain r3 where r3: "r2 = CHR ''-'' # r3"
      "(vs2, []) \<in> set (strptime_matches [Field CHR ''d''] r3)" by blast
  from field_match [OF day_field r3(2)] obtain b d where d: "r3 = d" "d \<in> set (number_texts ''0 '' b)" "1 \<le> b" "b \<le> 31"
      "vs2 = [(CHR ''d'', b)]" by auto
  have "s = ?y @ CHR ''-'' # m @ CHR ''-'' # d"
    using append_take_drop_id [of 4 s] r1(1) m(1) r3(1) d(1) by simp
  then show ?thesis using y m d by blast
qed

text \<open>
  C38: The date validator, used with its default format, accepts exactly the dates of the Gregorian calendar from the year 1 on,
  written as four digits of the year, the month and the day with dashes in between; a month or a day of one
  digit may have a zero before it, and a day also a blank.
\<close>

theorem date_grammar:
  "date_validate other None (VStr s) None = Inr True \<longleftrightarrow> calendar_date s"
proof -
  let ?ms = "strptime_matches date_directives s"
  have "date_validate other None (VStr s) None = Inr True \<longleftrightarrow>
      (\<exists>vs ms. ?ms = (vs, []) # ms \<and> datetime_ok vs)"
    by (simp add: date_validate_def validate_with_def choose_format_def strptime_def date_directives_ok split: list.split prod.split)
  also have "\<dots> \<longleftrightarrow> calendar_date s"
  proof
    assume "\<exists>vs ms. ?ms = (vs, []) # ms \<and> datetime_ok vs"
    then obtain vs ms where ms: "?ms = (vs, []) # ms" and ok: "datetime_ok vs" by blast
    have "(vs, []) \<in> set ?ms" using ms by simp
    from date_match [OF this] ok show "calendar_date s" unfolding calendar_date_def by (metis datetime_of_date)
  next
    assume "calendar_date s"
    then obtain y a b m d where s: "s = y @ CHR ''-'' # m @ CHR ''-'' # d" and c: "length y = 4" "set y \<subseteq> set digit_chars"
        "m \<in> set (number_texts ''0'' a)" "d \<in> set (number_texts ''0 '' b)" "1 \<le> a" "a \<le> 12" "1 \<le> b"
        "1 \<le> digits_val 10 y" "b \<le> days_in_month (digits_val 10 y) a"
      unfolding calendar_date_def by blast
    have "b \<le> 31" using c(9) days_le by (rule order.trans)
    from date_read [OF c(1-7) this] s datetime_of_date [OF c(5-7)] c(8,9)
    show "\<exists>vs ms. ?ms = (vs, []) # ms \<and> datetime_ok vs" by auto
  qed
  finally show ?thesis .
qed

section \<open>Country codes\<close>

text \<open>The table is in the order of its codes, so no code stands in it twice.\<close>

definition code_number :: "string \<Rightarrow> nat" where "code_number c = foldl (\<lambda>v d. 256 * v + of_char d) 0 c"

lemma countries_ok: "dict_ok COUNTRIES" "list_all (\<lambda>c. length c = 2 \<and> all_in c lower_chars) (dkeys COUNTRIES)"
proof -
  have "successively (<) (map code_number (dkeys COUNTRIES))"
    by (simp add: code_number_def dkeys_def COUNTRIES_def COUNTRIES_A_K_def COUNTRIES_L_Z_def)
  then have "sorted_wrt (<) (map code_number (dkeys COUNTRIES))"
    by (simp add: successively_conv_sorted_wrt)
  then have "distinct (map code_number (dkeys COUNTRIES))" by (simp add: strict_sorted_iff)
  then show "dict_ok COUNTRIES" unfolding dict_ok_def dkeys_def [symmetric] distinct_map by blast
qed code_simp

lemma country_agree:
  "country_validate v = (case getCountry v of Inl e \<Rightarrow> Inl e | Inr c \<Rightarrow> Inr (c \<noteq> None))"
  by (auto simp: country_validate_def getCountry_def dhas_def bind_sum_def split: sum.splits)

text \<open>A number has a length but is no text: the validator raises instead of answering.\<close>

lemma country_number: "country_validate (VInt i) = Inl (TypeError ''not expecting type'')"
proof -
  have "show_int i \<noteq> []" by (simp add: show_int_def show_nat_digits)
  then show ?thesis by (simp add: country_validate_def has_len_def is_scalar_def scalar_text_def ensure_str_def bind_sum_def)
qed

end
