(* ===== verification/Mysqlversion.thy ===== *)
theory Mysqlversion
  imports Helpers
begin

text \<open>
  The version-dependent sections of \<^verbatim>\<open>mysql_config_parser\<close> (\<^verbatim>\<open>MySQLConfigVersion\<close>), over the part of
  \<^verbatim>\<open>configparser\<close> they use: sections, defaults, interpolation. Running a program, reading texts into a
  configuration and \<^verbatim>\<open>semantic_version\<close> are parameters.
\<close>

section \<open>Configurations\<close>

datatype config_error =
    NoSectionError string | NoOptionError string | InterpolationDepthError | InterpolationSyntaxError
  | InterpolationMissingOptionError string | ConfigValueError | ConfigTypeError | OtherError string

text \<open>An option without a value has \<open>None\<close>.\<close>

type_synonym options = "(string, string option) dict"

record config =
  cf_defaults :: options
  cf_sections :: "(string, options) dict"

definition empty_config :: config where "empty_config = \<lparr>cf_defaults = [], cf_sections = []\<rparr>"

text \<open>What stands between \<open>%(\<close> and \<open>)s\<close>, and the rest.\<close>

definition reference_of :: "string \<Rightarrow> (string \<times> string) option" where
  "reference_of s = (case cut_at CHR '')'' s of
     (name, Some (c # r)) \<Rightarrow> if name \<noteq> [] \<and> c = CHR ''s'' then Some (name, r) else None
   | _ \<Rightarrow> None)"

lemma reference_shorter: "reference_of s = Some (name, r) \<Longrightarrow> length r < length s"
  by (auto simp: reference_of_def dest!: cut_Some split: prod.splits option.splits list.splits if_splits)

lemma rest_shorter: "reference_of s = Some (name, r) \<Longrightarrow> length r < Suc (Suc (length s))"
  by (auto dest: reference_shorter)

text \<open>The fuel is the depth that is left; \<^verbatim>\<open>MAX_INTERPOLATION_DEPTH\<close> is 10.\<close>

function interpolate :: "nat \<Rightarrow> options \<Rightarrow> string \<Rightarrow> config_error + string" where
  "interpolate 0 m s = Inl InterpolationDepthError"
| "interpolate (Suc n) m [] = Inr []"
| "interpolate (Suc n) m (c # s) =
     (if c \<noteq> CHR ''%'' then bind_sum (interpolate (Suc n) m s) (\<lambda>a. Inr (c # a))
      else (case s of
          [] \<Rightarrow> Inl InterpolationSyntaxError
        | d # r \<Rightarrow>
            if d = CHR ''%'' then bind_sum (interpolate (Suc n) m r) (\<lambda>a. Inr (CHR ''%'' # a))
            else if d \<noteq> CHR ''('' then Inl InterpolationSyntaxError
            else (case reference_of r of
                None \<Rightarrow> Inl InterpolationSyntaxError
              | Some (name, q) \<Rightarrow> (case dget m (lower name) of
                  None \<Rightarrow> Inl (InterpolationMissingOptionError (lower name))
                | Some None \<Rightarrow> Inl ConfigTypeError
                | Some (Some v) \<Rightarrow>
                    bind_sum (if CHR ''%'' \<in> set v then interpolate n m v else Inr v) (\<lambda>a.
                    bind_sum (interpolate (Suc n) m q) (\<lambda>b. Inr (a @ b)))))))"
  by pat_completeness auto
termination
  by (relation "measures [\<lambda>(n, m, s). n, \<lambda>(n, m, s). length s]") (auto dest: reference_shorter)

declare interpolate.simps [simp del]

definition MAX_DEPTH :: nat where "MAX_DEPTH = 10"

text \<open>The defaults, updated with the section.\<close>

definition unified :: "options \<Rightarrow> options \<Rightarrow> options" where
  "unified d s = foldl (\<lambda>d (k, v). dset d k v) d s"

text \<open>\<^verbatim>\<open>items\<close>: an option without a value has the empty text.\<close>

definition config_items :: "config \<Rightarrow> string \<Rightarrow> config_error + (string \<times> string) list" where
  "config_items c section = (case dget (cf_sections c) section of
     None \<Rightarrow> Inl (NoSectionError section)
   | Some s \<Rightarrow> (let d = unified (cf_defaults c) s in
       each (\<lambda>(k, v). bind_sum (case v of None \<Rightarrow> Inr [] | Some t \<Rightarrow> interpolate MAX_DEPTH d t) (\<lambda>t. Inr (k, t))) d))"

definition config_get :: "config \<Rightarrow> string \<Rightarrow> string \<Rightarrow> config_error + string option" where
  "config_get c section k = (case dget (cf_sections c) section of
     None \<Rightarrow> Inl (NoSectionError section)
   | Some s \<Rightarrow> (let d = unified (cf_defaults c) s in
       case dget d (lower k) of
         None \<Rightarrow> Inl (NoOptionError k)
       | Some None \<Rightarrow> Inr None
       | Some (Some v) \<Rightarrow> bind_sum (interpolate MAX_DEPTH d v) (\<lambda>t. Inr (Some t))))"

text \<open>\<^verbatim>\<open>set\<close> refuses a percent sign that is neither doubled nor part of a reference.\<close>

fun drop_doubled :: "string \<Rightarrow> string" where
  "drop_doubled (c # d # s) = (if c = CHR ''%'' \<and> d = CHR ''%'' then drop_doubled s else c # drop_doubled (d # s))"
| "drop_doubled s = s"

function drop_references :: "string \<Rightarrow> string" where
  "drop_references [] = []"
| "drop_references (c # s) =
     (if c = CHR ''%'' \<and> s \<noteq> [] \<and> hd s = CHR ''('' \<and> reference_of (tl s) \<noteq> None
      then drop_references (snd (the (reference_of (tl s)))) else c # drop_references s)"
  by pat_completeness auto
termination
  by (relation "measure length") (auto simp: neq_Nil_conv rest_shorter)

declare drop_references.simps(2) [simp del]

definition legal_value :: "string \<Rightarrow> bool" where
  "legal_value v = (CHR ''%'' \<notin> set (drop_references (drop_doubled v)))"

definition config_set :: "config \<Rightarrow> string \<Rightarrow> string \<Rightarrow> string \<Rightarrow> (config_error + unit) \<times> config" where
  "config_set c section k v =
     (if \<not> legal_value v then (Inl ConfigValueError, c)
      else if section = [] \<or> section = ''DEFAULT'' then (Inr (), c\<lparr>cf_defaults := dset (cf_defaults c) (lower k) (Some v)\<rparr>)
      else (case dget (cf_sections c) section of
          None \<Rightarrow> (Inl (NoSectionError section), c)
        | Some s \<Rightarrow> (Inr (), c\<lparr>cf_sections := dset (cf_sections c) section (dset s (lower k) (Some v))\<rparr>)))"

section \<open>Booleans\<close>

definition boolean_state :: "string \<Rightarrow> bool option" where
  "boolean_state s = (if lower s \<in> set [''1'', ''yes'', ''true'', ''on''] then Some True
     else if lower s \<in> set [''0'', ''no'', ''false'', ''off''] then Some False else None)"

definition getboolean :: "config \<Rightarrow> string \<Rightarrow> string \<Rightarrow> bool \<Rightarrow> config_error + pyval" where
  "getboolean c section option retint =
     bind_sum (config_get c section option) (\<lambda>v. case v of
       None \<Rightarrow> Inl (OtherError ''AttributeError'')
     | Some s \<Rightarrow> (case boolean_state s of
         None \<Rightarrow> Inl ConfigValueError
       | Some ret \<Rightarrow> Inr (if \<not> retint then VBool ret else VInt (if ret then 1 else 0))))"

section \<open>Versions\<close>

text \<open>The five parts of a version: absent, a number, or identifiers.\<close>

datatype version_part = NoPart | NumPart nat | Idents "string list"

definition part_text :: "version_part \<Rightarrow> string option" where
  "part_text p = (case p of NoPart \<Rightarrow> None | NumPart n \<Rightarrow> Some (show_nat n)
     | Idents l \<Rightarrow> if l = [] then None else Some (join ''.'' l))"

definition rstrip_dots :: "string \<Rightarrow> string" where
  "rstrip_dots s = rev (dropWhile (\<lambda>c. c = CHR ''.'') (rev s))"

definition section_of :: "string \<Rightarrow> string \<Rightarrow> string" where "section_of section version = section @ ''='' @ version"

fun set_all :: "string \<Rightarrow> (string \<times> string) list \<Rightarrow> config \<Rightarrow> (config_error + unit) \<times> config" where
  "set_all section [] c = (Inr (), c)"
| "set_all section ((k, v) # xs) c = and_then (config_set c section k v) (\<lambda>_. set_all section xs)"

definition set_specific_conf :: "config \<Rightarrow> string \<Rightarrow> string \<Rightarrow> (config_error + unit) \<times> config" where
  "set_specific_conf c section version =
     (if dhas (cf_sections c) (section_of section version)
      then (case config_items c (section_of section version) of
          Inl e \<Rightarrow> (Inl e, c) | Inr xs \<Rightarrow> set_all section xs c)
      else (Inr (), c))"

fun check_parts :: "string \<Rightarrow> string \<Rightarrow> version_part list \<Rightarrow> config \<Rightarrow> (config_error + unit) \<times> config" where
  "check_parts section vername [] c = (Inr (), c)"
| "check_parts section vername (p # ps) c = (case part_text p of
     None \<Rightarrow> (Inr (), c)
   | Some t \<Rightarrow> (let vername = vername @ t @ ''.'' in
       and_then (set_specific_conf c section (rstrip_dots vername)) (\<lambda>_. check_parts section vername ps)))"

definition check_conf_versions ::
  "(string \<Rightarrow> config_error + version_part list) \<Rightarrow> config \<Rightarrow> string \<Rightarrow> string \<Rightarrow> string \<Rightarrow>
     (config_error + unit) \<times> config" where
  "check_conf_versions semver c section version vername = (case semver version of
     Inl e \<Rightarrow> (Inl e, c) | Inr ps \<Rightarrow> check_parts section vername ps c)"

text \<open>The output of \<^verbatim>\<open>mysql --version\<close>: words, white space, and a word after \<^verbatim>\<open>Ver\<close> and \<^verbatim>\<open>Distrib\<close>.\<close>

definition after_word :: "string \<Rightarrow> string \<Rightarrow> string option" where
  "after_word w s = (if starts_with w s then Some (drop (length w) s) else None)"

definition after_blanks :: "string \<Rightarrow> string option" where
  "after_blanks s = (if s \<noteq> [] \<and> is_space (hd s) then Some (dropWhile is_space s) else None)"

definition next_word :: "(char \<Rightarrow> bool) \<Rightarrow> string \<Rightarrow> (string \<times> string) option" where
  "next_word stop s = (let w = takeWhile (\<lambda>c. \<not> stop c) s in if w = [] then None else Some (w, dropWhile (\<lambda>c. \<not> stop c) s))"

definition parse_version :: "string \<Rightarrow> string \<Rightarrow> (string \<times> string) option" where
  "parse_version prog s =
     Option.bind (after_word prog s) (\<lambda>s. Option.bind (after_blanks s) (\<lambda>s.
     Option.bind (after_word ''Ver'' s) (\<lambda>s. Option.bind (after_blanks s) (\<lambda>s.
     Option.bind (next_word is_space s) (\<lambda>(version, s). Option.bind (after_blanks s) (\<lambda>s.
     Option.bind (after_word ''Distrib'' s) (\<lambda>s. Option.bind (after_blanks s) (\<lambda>s.
     Option.bind (next_word (\<lambda>c. is_space c \<or> c = CHR '','') s) (\<lambda>(distrib, _).
       Some (version, distrib))))))))))"

section \<open>The configuration of a program\<close>

record conf_env =
  ce_output :: "string \<Rightarrow> config_error + string"
  ce_file :: "string \<Rightarrow> (config_error + string) option"
  ce_parse :: "string \<Rightarrow> config \<Rightarrow> (config_error + unit) \<times> config"
  ce_version :: "string \<Rightarrow> config_error + version_part list"

record config_version =
  cv_config_dir :: "string option"
  cv_default_file :: string
  cv_custom_file :: string
  cv_myconf :: config

definition read_conf :: "conf_env \<Rightarrow> config_version \<Rightarrow> string \<Rightarrow> config_error + string" where
  "read_conf env me filepath =
     (let filepath = (case cv_config_dir me of
          Some d \<Rightarrow> if d \<noteq> [] \<and> \<not> starts_with ''/'' filepath then path_join d filepath else filepath
        | None \<Rightarrow> filepath)
      in case ce_file env filepath of None \<Rightarrow> Inr [] | Some r \<Rightarrow> r)"

definition load_conf :: "conf_env \<Rightarrow> config_version \<Rightarrow> string \<Rightarrow> config \<Rightarrow> (config_error + unit) \<times> config" where
  "load_conf env me filename c = (case read_conf env me filename of Inl e \<Rightarrow> (Inl e, c) | Inr t \<Rightarrow> ce_parse env t c)"

definition load_confs :: "conf_env \<Rightarrow> config_version \<Rightarrow> (config_error + unit) \<times> config" where
  "load_confs env me =
     and_then (load_conf env me (cv_default_file me) empty_config) (\<lambda>_. load_conf env me (cv_custom_file me))"

definition program_version :: "conf_env \<Rightarrow> string \<Rightarrow> bool \<Rightarrow> config_error + (string \<times> string) option" where
  "program_version env prog check_version =
     (if check_version then bind_sum (ce_output env prog) (\<lambda>s. Inr (parse_version prog (strip s))) else Inr None)"

text \<open>The answer, and the object with the configuration it keeps.\<close>

definition get_config ::
  "conf_env \<Rightarrow> config_version \<Rightarrow> string \<Rightarrow> string \<Rightarrow> bool \<Rightarrow> (config_error + config) \<times> config_version" where
  "get_config env me section progpath check_version =
     (case program_version env progpath check_version of
        Inl e \<Rightarrow> (Inl e, me)
      | Inr my_vers \<Rightarrow>
          (case and_then (load_confs env me) (\<lambda>_ c.
             case my_vers of
               None \<Rightarrow> (Inr (), c)
             | Some (version, distrib) \<Rightarrow>
                 and_then (check_conf_versions (ce_version env) c section version ''ver-'') (\<lambda>_ c.
                   check_conf_versions (ce_version env) c section distrib ''dist-'')) of
             (r, c) \<Rightarrow> (map_sum id (\<lambda>_. c) r, me\<lparr>cv_myconf := c\<rparr>)))"


definition get_mysqldump :: "conf_env \<Rightarrow> config_version \<Rightarrow> bool \<Rightarrow> (config_error + config) \<times> config_version" where
  "get_mysqldump env me = get_config env me ''mysqldump'' ''mysqldump''"

section \<open>What a version section does\<close>

text \<open>Options whose texts have no percent sign (so nothing is interpolated); a value may be missing.\<close>

definition plain_options :: "options \<Rightarrow> bool" where
  "plain_options d \<longleftrightarrow> list_all (\<lambda>(k, v). lower k = k \<and> (case v of None \<Rightarrow> True | Some t \<Rightarrow> CHR ''%'' \<notin> set t)) d"

definition value_or_empty :: "string option \<Rightarrow> string" where
  "value_or_empty v = (case v of None \<Rightarrow> [] | Some t \<Rightarrow> t)"










definition offered :: "config \<Rightarrow> string \<Rightarrow> string \<Rightarrow> string \<Rightarrow> string option option" where
  "offered c section k name = (case dget (cf_sections c) (section_of section name) of
     None \<Rightarrow> None
   | Some s \<Rightarrow> map_option (\<lambda>v. Some (value_or_empty v)) (case dget s k of None \<Rightarrow> dget (cf_defaults c) k | Some v \<Rightarrow> Some v))"

fun first_some :: "'a option list \<Rightarrow> 'a option" where
  "first_some [] = None"
| "first_some (None # xs) = first_some xs"
| "first_some (Some x # xs) = Some x"

lemma first_some_one [simp]: "first_some [x] = x"
  by (cases x) auto


text \<open>The scope of what follows: dictionaries, no percent sign in the defaults and in the version sections looked for.\<close>

definition plain_config :: "config \<Rightarrow> string \<Rightarrow> string list \<Rightarrow> bool" where
  "plain_config c section names \<longleftrightarrow> plain_options (cf_defaults c) \<and> dict_ok (cf_defaults c) \<and>
     section \<noteq> [] \<and> section \<noteq> ''DEFAULT'' \<and>
     (\<forall>n s. n \<in> set names \<and> dget (cf_sections c) (section_of section n) = Some s \<longrightarrow> plain_options s \<and> dict_ok s)"

definition with_section :: "config \<Rightarrow> string \<Rightarrow> options \<Rightarrow> config" where
  "with_section c section s = c\<lparr>cf_sections := dset (cf_sections c) section s\<rparr>"

lemma section_of_ne: "section_of section name \<noteq> section"
proof
  assume "section_of section name = section"
  then have "length (section_of section name) = length section" by simp
  then show False by (simp add: section_of_def)
qed

lemma with_section_simps [simp]:
  "dget (cf_sections (with_section c section s)) section = Some s"
  "offered (with_section c section s) section k name = offered c section k name"
  "plain_config (with_section c section s) section names = plain_config c section names"
  "with_section (with_section c section s) section t = with_section c section t"
  by (auto simp: with_section_def offered_def plain_config_def dset_dset_same section_of_ne split: option.splits)

lemma offered_with [simp]: "offered (with_section c section s) section = offered c section"
  by (intro ext) simp










text \<open>The defaults are among the items of a version section: they replace what the program's own section says.\<close>

theorem version_defaults_override:
  "set_specific_conf \<lparr>cf_defaults = [(''port'', Some ''1'')], cf_sections = [(''client'', [(''port'', Some ''2'')]), (''client=ver-8'', [])]\<rparr>
     ''client'' ''ver-8'' =
   (Inr (), \<lparr>cf_defaults = [(''port'', Some ''1'')], cf_sections = [(''client'', [(''port'', Some ''1'')]), (''client=ver-8'', [])]\<rparr>)"
  by code_simp

text \<open>An option without a value gets the empty text.\<close>

theorem version_option_empty:
  "set_specific_conf \<lparr>cf_defaults = [], cf_sections = [(''client'', []), (''client=ver-8'', [(''compress'', None)])]\<rparr> ''client'' ''ver-8'' =
   (Inr (), \<lparr>cf_defaults = [], cf_sections = [(''client'', [(''compress'', Some [])]), (''client=ver-8'', [(''compress'', None)])]\<rparr>)"
  by code_simp

text \<open>A doubled percent sign is halved by reading, and the single one is refused by writing.\<close>

theorem version_percent_refused:
  "fst (set_specific_conf \<lparr>cf_defaults = [], cf_sections = [(''client'', []), (''client=ver-8'', [(''password'', Some ''a%%b'')])]\<rparr>
     ''client'' ''ver-8'') = Inl ConfigValueError"
  by (simp add: set_specific_conf_def section_of_def dhas_def dget_Cons config_items_def unified_def Let_def
      MAX_DEPTH_def numeral_eq_Suc interpolate.simps bind_sum_def config_set_def legal_value_def
      drop_references.simps(2) lower_def)

end
