(* ===== verification/Spec2Isabelle.thy ===== *)
theory Spec2Isabelle
  imports Moresynchro Keystore_Properties Network_Properties Urisup_Properties Argpolicy_Properties
    Xbstream_Properties Workerpool_Properties Workerpool_Service Helpers_Properties Helpers_Files Anysql_Properties Xys_Properties
    Pidfile_Properties Transactions_Properties Dynserver_Properties Backsql_Properties
    Xml2dict Mysqlconfig Portio_Properties Mailqueue_Properties Gencert_Properties Daemon Atomicfile Validators
    Mysqlversion
begin

text \<open>
  A verification library for \<^verbatim>\<open>sonicprobe\<close>, a collection of Python utilities for services: locks and a
  shared store (\<^verbatim>\<open>moresynchro\<close>, \<^verbatim>\<open>keystore\<close>), background execution (\<^verbatim>\<open>workerpool\<close>, the
  threaded servers), a PID file (\<^verbatim>\<open>daemonize\<close>), validation of network
  names, URIs, program arguments and documents (\<^verbatim>\<open>network\<close>, \<^verbatim>\<open>urisup\<close>, \<^verbatim>\<open>argpolicy\<close>, \<^verbatim>\<open>xys\<close>), a stream
  reader (\<^verbatim>\<open>xbstream\<close>), a database layer (\<^verbatim>\<open>anysql\<close>, \<^verbatim>\<open>sqlite_transactions\<close>) and general helpers (\<^verbatim>\<open>helpers\<close>). The parts are used
  side by side: \<^verbatim>\<open>keystore\<close> builds on the condition variables \<^verbatim>\<open>moresynchro\<close> uses too, \<^verbatim>\<open>urisup\<close> calls
  \<^verbatim>\<open>network\<close>, the dynamic servers submit to
  \<^verbatim>\<open>workerpool\<close>, \<^verbatim>\<open>anysql\<close> routes by the URIs \<^verbatim>\<open>urisup\<close> splits, \<^verbatim>\<open>xys\<close> uses predicates of \<^verbatim>\<open>helpers\<close>.

  \<^bold>\<open>Foundations.\<close> \<open>Prelude\<close>: dictionaries as association lists in insertion order (\<open>dget\<close>, \<open>dset\<close>,
  \<open>ddel\<close>), exceptions as a sum (\<open>pyerror\<close>, \<open>bind_sum\<close>, \<open>raise_if\<close>, \<open>each\<close>, the collection \<open>err_simps\<close>),
  reachable states, and three contracts as locales: \<open>invariant_system\<close>, \<open>reentrant_lock\<close> and its extension
  \<open>owned_lock\<close>, with \<^verbatim>\<open>threading.RLock\<close> as the first instance. \<open>Monitor\<close>: objects guarded by one
  condition variable, as threads that run in segments between their waits; its locale carries over a
  segment-wise invariant to every interleaving and gives the absence of lost wake-ups. \<open>Pystr\<close>: Python
  strings as UTF-8 bytes, \<^verbatim>\<open>split\<close>, \<^verbatim>\<open>join\<close>, \<^verbatim>\<open>int\<close>, \<^verbatim>\<open>str\<close>. \<open>Regex\<close>: regular expressions with
  derivatives, and the language each denotes; the two agree (\<open>full_match_denotes\<close>).

  \<^bold>\<open>Locks and the store.\<close> \<open>Moresynchro\<close> models \<^verbatim>\<open>RWLock\<close> and \<^verbatim>\<open>ListLock\<close>: one function per method, split
  at the waits (\<open>acquire_read\<close>, \<open>write_loop\<close>, \<open>rw_release\<close>), and \<open>rw_seg\<close> for what a thread does between
  two waits. \<open>Keystore\<close> models the sections, owners, waiters and global lock of \<^verbatim>\<open>Keystore\<close> in the same
  way, \<open>Keystore_Safety\<close> proves its invariant \<open>kinv\<close> for every segment, \<open>Keystore_Properties\<close> what
  follows. Shown: mutual exclusion, no lost wake-up, progress, writer preference, the agreement of all
  tables, reentrance with balanced counts (by interpretation of the lock contracts).

  \<^bold>\<open>Validation.\<close> \<open>Network\<close>, \<open>Network_Properties\<close>: every validator and normaliser of addresses and names;
  the grammars they accept, and normal forms that keep the value and are idempotent. \<open>Urisup\<close>,
  \<open>Urisup_Properties\<close>: splitting, decoding, checking and joining of URIs; splitting and recomposition
  are inverse. \<open>Argpolicy\<close>, \<open>Argpolicy_Properties\<close>: compilation and application of allow and deny
  policies; the language a policy accepts, that messages never contain a supplied value, that deny
  wins. \<open>Xys\<close> (keys, tags, registries, compilation), \<open>Xys_Validate\<close> (validators, \<^verbatim>\<open>validate\<close>, which may
  change the document), \<open>Xys_Properties\<close>: the dictionary validator refines a plain specification in which
  every key goes to the first entry that accepts it; schemas without modifiers leave documents alone;
  compiled schemas are well formed; the notation of keys is read as written. \<open>Validators\<close>: the field validators
  of \<^verbatim>\<open>validator\<close>; dates go through the search of \<^verbatim>\<open>strptime\<close>, and those accepted are the dates of the calendar.

  \<^bold>\<open>Streams, pools, databases, helpers.\<close> \<open>Xbstream\<close>, \<open>Xbstream_Properties\<close>: the chunk object, the reader
  and its transmission loop over arbitrary short reads and writes; a well-formed stream is copied, a
  truncated one raises after the chunks before the cut. \<open>Workerpool\<close>, \<open>Workerpool_Properties\<close>: the pool as
  one record, worker threads as program counters, every call and every segment of a worker as a step
  of \<open>pool_step\<close>; its books agree with its threads in every reachable state, a stopped pool winds down.
  \<open>Workerpool_Service\<close>: the segments of workers with the tasks they run; by themselves they can work off the queue, and no
  task is run twice or lost. \<open>Anysql\<close>, \<open>Anysql_Properties\<close>: connections with recovery over a
  driver that is a parameter with its own state and a log of requests. \<open>Helpers\<close>, \<open>Helpers_Properties\<close>,
  \<open>Helpers_Files\<close>: values, passwords, merging of trees, flat keys, line substitution, base 64 by pieces. \<open>Atomicfile\<close>:
  \<^verbatim>\<open>file_w_tmp\<close> over system calls that may fail, with the file system others see after each; a target is replaced whole or not at all.

  \<^bold>\<open>Servers, processes, transactions.\<close> \<open>Server\<close>, \<open>Server_Properties\<close>: the killable server of
  \<^verbatim>\<open>threading_tcp_server\<close> (and of its UDP twin), serving threads and workers as program counters over one
  record, \<^verbatim>\<open>kill\<close> as steps of its own; requests are numbered by acceptance, and the functions \<open>places\<close> and
  \<open>steps_left\<close> count where a request is and how much a killed server still does. \<open>Dynserver\<close>,
  \<open>Dynserver_Properties\<close>: the server that hands its requests to the pool of \<open>Workerpool\<close>; each of its steps is
  one of the pool or leaves the pool alone, so the theorems on pools hold of it. \<open>Pidfile\<close>,
  \<open>Pidfile_Properties\<close>: the PID file of \<^verbatim>\<open>daemonize\<close>, one step per system call, for any number of processes;
  it excludes as long as no stale file is removed, and the removal is a race. \<open>Daemon\<close>: \<^verbatim>\<open>daemonize\<close> and the
  contexts around a block, with the answers of the system as a record. \<open>Transactions\<close>,
  \<open>Transactions_Properties\<close>: \<^verbatim>\<open>sqlite_transactions\<close> over a driver that is a parameter, with the client as a
  datatype of programs (\<open>code\<close>): boundary commands come in complete brackets. \<open>Backsql\<close>,
  \<open>Backsql_Properties\<close>: the adapters of \<^verbatim>\<open>BackSQL\<close> and \<^verbatim>\<open>sqltls\<close>, from a split URI to the requests made of a
  driver, which is a parameter; TLS options are enforced, connections are handed out or closed, quoted
  identifiers read back.

  \<^bold>\<open>Readers.\<close> \<open>Xml2dict\<close>: the handlers of \<^verbatim>\<open>xml2dict\<close> over the events of expat; the events of an element tree
  give its dictionary. \<open>Mysqlconfig\<close>: the include filter of \<^verbatim>\<open>mysql_config_parser\<close> over a file system that is
  a parameter, with its depth limit as the measure; it fails exactly on ill-formed, cyclic or too deep chains. \<open>Mysqlversion\<close>: the sections for
  versions, over the part of \<^verbatim>\<open>configparser\<close> they use; which section gives an option its value. \<open>Portio\<close>,
  \<open>Portio_Properties\<close>: the sessions of \<^verbatim>\<open>sp_serial\<close> and \<^verbatim>\<open>openvpn\<close> over a device that is a parameter; their reading
  loops may wait for ever, so they are partial functions into \<open>option\<close>, and the theorems say when they return. \<open>Mailqueue\<close>,
  \<open>Mailqueue_Properties\<close>: the handlers of \<^verbatim>\<open>sp_logging\<close> over a mail server that is a parameter; threads emit and
  purge in any order, ghost fields of the record keep what was accepted, taken and sent. \<open>Gencert\<close>, \<open>Gencert_Properties\<close>: the
  settings, extensions and exports of \<^verbatim>\<open>gencert\<close> over the cryptography packages as a parameter; bytes are \<^typ>\<open>8 word\<close>.

  \<^bold>\<open>Conventions.\<close> A class is a record, a method a function from the state to its result and the new
  state; a raised exception is \<open>Inl\<close>. Code outside the repository is an argument of the functions that
  use it (drivers, callbacks, the regex package, PyYAML, the IDNA codec, thread starts that may fail).
  Texts are ASCII where the code asks for digits, letters or white space; other characters are runs of
  bytes above 127. Clock readings are integers. Loops are structural recursion or have a measure; the
  loops of sessions are partial functions, the main loop of the stream reader, \<open>xb_run\<close>, takes fuel: its
  theorems hold for every fuel above the length of the stream, as each call consumes a byte or ends it.

  \<^bold>\<open>Not modelled.\<close> Logging and garbage collection everywhere. Of \<^verbatim>\<open>helpers\<close>: mail, processes, YAML and Unicode tables, which drive libraries and the file system. Of \<^verbatim>\<open>network\<close>: the IDNA
  codec. \<^verbatim>\<open>http_json_server\<close> is an
  import. Of \<^verbatim>\<open>gencert\<close>: keys, signatures, encodings. Of the servers: sockets and
  the request handlers of applications. Of \<^verbatim>\<open>mysql_config_parser\<close>:
  how \<^verbatim>\<open>configparser\<close> reads a text.
\<close>

end
